(* ===== verification/Prelude.thy ===== *)
theory Prelude
  imports Main "HOL-Library.Word"
begin

section \<open>Shared vocabulary: outcomes, slices and little-endian bytes\<close>

text \<open>
  What every component of the development shares.  Three groups:

  \<^item> \<open>outcome\<close> is the result of a piece of Rust code: a value (\<open>Ok\<close>), an error value
    (\<open>Err\<close>) or a \<open>Panic\<close>.  A panic stands for everything the compiled program cannot recover from: a
    slice index out of range, an \<open>unwrap\<close> of \<open>None\<close>, or, in the \<open>unsafe\<close> blocks of the loader, a
    raw copy outside an allocation.  \<open>obind\<close> is the \<open>?\<close> operator.
  \<^item> byte slices: \<open>get_range\<close> is \<open>b.get(lo..hi)\<close>, \<open>slice_idx\<close> is \<open>b[lo..hi]\<close> and \<open>at_idx\<close> is
    \<open>b[i]\<close>; \<open>overwrite\<close> is \<open>b[lo..lo+n].copy_from_slice(s)\<close>.
  \<^item> little-endian numbers: \<open>from_le\<close> and \<open>to_le\<close> are the \<open>from_le_bytes\<close> and \<open>to_le_bytes\<close> of
    every width.

  A \<open>usize\<close> is a natural number: every \<open>usize\<close> sum of the sources adds slice offsets, lengths and
  zero-extended 32-bit fields, which stay far below the 64-bit bound of the two build targets.
\<close>

named_theorems outcome_simps \<open>rewrite rules for outcomes\<close>
named_theorems no_panic \<open>introduction rules for the absence of panics\<close>

unbundle bit_operations_syntax

type_synonym u8 = "8 word"
type_synonym u16 = "16 word"
type_synonym u32 = "32 word"
type_synonym u64 = "64 word"
type_synonym usize = nat
type_synonym bytes = "u8 list"

text \<open>The architecture of the build, a compile-time \<open>cfg\<close> of the source.\<close>

datatype target_arch = Arch_x86_64 | Arch_aarch64 | Arch_other

subsection \<open>Outcomes\<close>

datatype ('a, 'e) outcome = Ok 'a | Err 'e | Panic

fun obind :: "('a, 'e) outcome \<Rightarrow> ('a \<Rightarrow> ('b, 'e) outcome) \<Rightarrow> ('b, 'e) outcome" where
  "obind (Ok x) f = f x"
| "obind (Err e) f = Err e"
| "obind Panic f = Panic"

fun of_option :: "'e \<Rightarrow> 'a option \<Rightarrow> ('a, 'e) outcome" where
  "of_option e None = Err e"
| "of_option e (Some x) = Ok x"

fun ok_option :: "('a, 'e) outcome \<Rightarrow> 'a option" where
  "ok_option (Ok x) = Some x"
| "ok_option _ = None"

lemma obind_Ok_conv [outcome_simps]:
  "obind m f = Ok y \<longleftrightarrow> (\<exists>x. m = Ok x \<and> f x = Ok y)"
  by (cases m) auto

lemma obind_Err_conv [outcome_simps]:
  "obind m f = Err e \<longleftrightarrow> m = Err e \<or> (\<exists>x. m = Ok x \<and> f x = Err e)"
  by (cases m) auto

lemma obind_Panic_conv [outcome_simps]:
  "obind m f = Panic \<longleftrightarrow> m = Panic \<or> (\<exists>x. m = Ok x \<and> f x = Panic)"
  by (cases m) auto

lemma obind_no_panic [no_panic]:
  "m \<noteq> Panic \<Longrightarrow> (\<And>x. m = Ok x \<Longrightarrow> f x \<noteq> Panic) \<Longrightarrow> obind m f \<noteq> Panic"
  by (cases m) auto

lemma obind_cong [fundef_cong]:
  "m = m' \<Longrightarrow> (\<And>x. m' = Ok x \<Longrightarrow> f x = g x) \<Longrightarrow> obind m f = obind m' g"
  by (cases m') auto

lemma obind_assoc: "obind (obind m f) g = obind m (\<lambda>x. obind (f x) g)"
  by (cases m) auto

lemma of_option_Ok_conv [outcome_simps]: "of_option e x = Ok y \<longleftrightarrow> x = Some y"
  by (cases x) auto

lemma of_option_no_panic [simp, no_panic]: "of_option e x \<noteq> Panic"
  by (cases x) auto

lemma ok_option_Some_conv [outcome_simps]: "ok_option m = Some x \<longleftrightarrow> m = Ok x"
  by (cases m) auto

lemma if_no_panic [no_panic]:
  "(b \<Longrightarrow> x \<noteq> Panic) \<Longrightarrow> (\<not> b \<Longrightarrow> y \<noteq> Panic) \<Longrightarrow> (if b then x else y) \<noteq> Panic"
  by simp

subsection \<open>Slices\<close>

definition get_range :: "'a list \<Rightarrow> nat \<Rightarrow> nat \<Rightarrow> 'a list option" where
  "get_range b lo hi =
     (if lo \<le> hi \<and> hi \<le> length b then Some (take (hi - lo) (drop lo b)) else None)"

definition slice_idx :: "'a list \<Rightarrow> nat \<Rightarrow> nat \<Rightarrow> ('a list, 'e) outcome" where
  "slice_idx b lo hi = (case get_range b lo hi of None \<Rightarrow> Panic | Some s \<Rightarrow> Ok s)"

definition at_idx :: "'a list \<Rightarrow> nat \<Rightarrow> ('a, 'e) outcome" where
  "at_idx b i = (if i < length b then Ok (b ! i) else Panic)"

definition overwrite :: "'a list \<Rightarrow> nat \<Rightarrow> 'a list \<Rightarrow> 'a list" where
  "overwrite b lo s = take lo b @ s @ drop (lo + length s) b"

definition write_slice :: "'a list \<Rightarrow> nat \<Rightarrow> 'a list \<Rightarrow> ('a list, 'e) outcome" where
  "write_slice b lo s = (if lo + length s \<le> length b then Ok (overwrite b lo s) else Panic)"

lemma get_range_Some_conv:
  "get_range b lo hi = Some s \<longleftrightarrow> lo \<le> hi \<and> hi \<le> length b \<and> s = take (hi - lo) (drop lo b)"
  by (auto simp: get_range_def)

lemma length_get_range: "get_range b lo hi = Some s \<Longrightarrow> length s = hi - lo"
  by (auto simp: get_range_Some_conv)

lemma slice_idx_Ok [simp]:
  "lo \<le> hi \<Longrightarrow> hi \<le> length b \<Longrightarrow> slice_idx b lo hi = Ok (take (hi - lo) (drop lo b))"
  by (simp add: slice_idx_def get_range_def)

lemma slice_idx_Panic_conv: "slice_idx b lo hi = Panic \<longleftrightarrow> \<not> (lo \<le> hi \<and> hi \<le> length b)"
  by (simp add: slice_idx_def get_range_def)

lemma slice_idx_not_Err [simp]: "slice_idx b lo hi \<noteq> Err e"
  by (simp add: slice_idx_def split: option.split)

lemma at_idx_Ok [simp]: "i < length b \<Longrightarrow> at_idx b i = Ok (b ! i)"
  by (simp add: at_idx_def)

lemma at_idx_Panic_conv: "at_idx b i = Panic \<longleftrightarrow> length b \<le> i"
  by (simp add: at_idx_def)

lemma length_overwrite [simp]: "lo + length s \<le> length b \<Longrightarrow> length (overwrite b lo s) = length b"
  by (simp add: overwrite_def)

lemma nth_overwrite:
  "lo + length s \<le> length b \<Longrightarrow> j < length b \<Longrightarrow>
   overwrite b lo s ! j = (if lo \<le> j \<and> j < lo + length s then s ! (j - lo) else b ! j)"
  by (auto simp: overwrite_def nth_append min_def)

lemma length_take_drop: "off + n \<le> length b \<Longrightarrow> length (take n (drop off b)) = n"
  by simp

lemma write_slice_Ok [simp]:
  "lo + length s \<le> length b \<Longrightarrow> write_slice b lo s = Ok (overwrite b lo s)"
  by (simp add: write_slice_def)

lemma write_slice_not_Err [simp]: "write_slice b lo s \<noteq> Err e"
  by (simp add: write_slice_def)

lemma take_drop_overwrite_same:
  "lo + length s \<le> length b \<Longrightarrow> take (length s) (drop lo (overwrite b lo s)) = s"
  by (simp add: overwrite_def)

lemma take_drop_overwrite_disjoint:
  assumes "lo + length s \<le> length b" "i + n \<le> length b" "i + n \<le> lo \<or> lo + length s \<le> i"
  shows "take n (drop i (overwrite b lo s)) = take n (drop i b)"
proof (rule nth_equalityI)
  show "length (take n (drop i (overwrite b lo s))) = length (take n (drop i b))"
    using assms by simp
next
  fix k assume "k < length (take n (drop i (overwrite b lo s)))"
  then show "take n (drop i (overwrite b lo s)) ! k = take n (drop i b) ! k"
    using assms by (auto simp: nth_overwrite)
qed

lemma overwrite_id: "i + n \<le> length b \<Longrightarrow> overwrite b i (take n (drop i b)) = b"
  by (simp add: overwrite_def min_def)
     (metis append_take_drop_id drop_drop add.commute)

lemma overwrite_overwrite_same:
  "lo + length s \<le> length b \<Longrightarrow> length t = length s \<Longrightarrow> overwrite (overwrite b lo s) lo t = overwrite b lo t"
  by (simp add: overwrite_def)

subsection \<open>Little-endian numbers\<close>

primrec le_nat :: "bytes \<Rightarrow> nat" where
  "le_nat [] = 0"
| "le_nat (b # bs) = unat b + 256 * le_nat bs"

primrec nat_le :: "nat \<Rightarrow> nat \<Rightarrow> bytes" where
  "nat_le 0 n = []"
| "nat_le (Suc k) n = of_nat n # nat_le k (n div 256)"

definition from_le :: "bytes \<Rightarrow> 'w::len word" where
  "from_le bs = of_nat (le_nat bs)"

definition to_le :: "'w::len word \<Rightarrow> bytes" where
  "to_le w = nat_le (LENGTH('w) div 8) (unat w)"

lemma unat_ucast_up:
  "LENGTH('a::len) \<le> LENGTH('b::len) \<Longrightarrow> unat (ucast (w :: 'a word) :: 'b word) = unat w"
  by (simp add: unsigned_ucast_eq take_bit_nat_eq_self_iff)
     (meson le_less_trans less_le_trans not_le power_increasing one_le_numeral unsigned_less)

lemma unat_u8_bound: "unat (b :: u8) < 256"
  using unsigned_less [of b, where ?'a = nat] by simp

lemma length_nat_le [simp]: "length (nat_le k n) = k"
  by (induction k arbitrary: n) auto

lemma nat_le_numeral:
  "nat_le (numeral k) n = of_nat n # nat_le (pred_numeral k) (n div 256)"
  unfolding numeral_eq_Suc [of k] by (rule nat_le.simps)

lemma le_nat_bound: "le_nat bs < 256 ^ length bs"
proof (induction bs)
  case (Cons b bs)
  have "unat b < 256" using unat_u8_bound [of b] by simp
  with Cons show ?case by simp
qed simp

lemma le_nat_nat_le: "le_nat (nat_le k n) = n mod 256 ^ k"
proof (induction k arbitrary: n)
  case (Suc k)
  have "unat (word_of_nat n :: u8) = n mod 256"
    by (simp add: unat_of_nat)
  with Suc show ?case
    by (simp add: mod_mult2_eq [of n 256 "256 ^ k"] add.commute)
qed simp

lemma le_nat_append: "le_nat (xs @ ys) = le_nat xs + 256 ^ length xs * le_nat ys"
  by (induction xs) auto

lemma le_nat_replicate_0 [simp]: "le_nat (replicate k 0) = 0"
  by (induction k) auto

lemma nat_le_le_nat: "nat_le (length bs) (le_nat bs) = bs"
proof (induction bs)
  case (Cons b bs)
  have "unat b < 256" using unat_u8_bound [of b] by simp
  moreover have "(of_nat (unat b + 256 * le_nat bs) :: u8) = b"
  proof -
    have "(of_nat (256 * le_nat bs) :: u8) = 0"
      by (subst word_of_nat_eq_0_iff) simp
    then show ?thesis by simp
  qed
  ultimately show ?case using Cons by simp
qed simp

lemma length_to_le [simp]: "length (to_le (w :: 'w::len word)) = LENGTH('w) div 8"
  by (simp add: to_le_def)

lemma from_le_to_le:
  assumes "8 dvd LENGTH('w::len)"
  shows "from_le (to_le (w :: 'w word)) = w"
proof -
  have "(256 :: nat) ^ (LENGTH('w) div 8) = 2 ^ (8 * (LENGTH('w) div 8))"
    by (simp add: power_mult)
  also have "\<dots> = 2 ^ LENGTH('w)" using assms by simp
  finally have "unat w mod 256 ^ (LENGTH('w) div 8) = unat w" by simp
  then show ?thesis by (simp add: from_le_def to_le_def le_nat_nat_le)
qed

lemma to_le_from_le:
  assumes "8 * length bs = LENGTH('w::len)"
  shows "to_le (from_le bs :: 'w word) = bs"
proof -
  have "(256 :: nat) ^ length bs = 2 ^ LENGTH('w)"
    by (simp flip: assms add: power_mult)
  then have "le_nat bs < 2 ^ LENGTH('w)" using le_nat_bound [of bs] by simp
  then have "unat (from_le bs :: 'w word) = le_nat bs"
    by (simp add: from_le_def unat_of_nat)
  moreover have "LENGTH('w) div 8 = length bs" using assms by simp
  ultimately show ?thesis by (simp add: to_le_def nat_le_le_nat)
qed

text \<open>A search that only one element of the list satisfies finds that element.\<close>

lemma find_unique:
  assumes "n \<in> set ns" "P n" "\<And>k. k \<in> set ns \<Longrightarrow> P k \<Longrightarrow> k = n"
  shows "find P ns = Some n"
proof (cases "find P ns")
  case None
  then show ?thesis using assms(1,2) by (simp add: find_None_iff)
next
  case (Some k)
  then have "P k" "k \<in> set ns" by (auto simp: find_Some_iff)
  then show ?thesis using assms(3) Some by simp
qed

end
