(* ===== verification/Rust_Str.thy ===== *)
theory Rust_Str
  imports Prelude "HOL-Library.Char_ord" "HOL-Library.List_Lexorder" "HOL-Library.Sublist"
begin

section \<open>Strings of the source language\<close>

text \<open>
  The operations of Rust's \<open>str\<close> and \<open>String\<close> the components use.  A \<open>str\<close> is the list of its UTF-8
  bytes, so lengths, offsets, searches for ASCII patterns and comparisons are those of the source.
  Two operations depend on code points rather than bytes: \<open>char::is_whitespace\<close> and \<open>to_lowercase\<close>.
  They are modelled on their ASCII part, so a model run agrees with the source on text whose white
  space and whose letters that change case are ASCII.

  \<open>from_utf8\<close> is the full UTF-8 validity check of \<open>String::from_utf8\<close>.
\<close>

subsection \<open>Characters\<close>

abbreviation byte_val :: "char \<Rightarrow> nat" where "byte_val c \<equiv> of_char c"

definition is_ascii_digit :: "char \<Rightarrow> bool" where
  "is_ascii_digit c \<longleftrightarrow> 48 \<le> byte_val c \<and> byte_val c \<le> 57"

definition is_ascii_alphabetic :: "char \<Rightarrow> bool" where
  "is_ascii_alphabetic c \<longleftrightarrow>
     65 \<le> byte_val c \<and> byte_val c \<le> 90 \<or> 97 \<le> byte_val c \<and> byte_val c \<le> 122"

definition is_ascii_alphanumeric :: "char \<Rightarrow> bool" where
  "is_ascii_alphanumeric c \<longleftrightarrow> is_ascii_alphabetic c \<or> is_ascii_digit c"

definition is_ascii_hexdigit :: "char \<Rightarrow> bool" where
  "is_ascii_hexdigit c \<longleftrightarrow> is_ascii_digit c \<or>
     65 \<le> byte_val c \<and> byte_val c \<le> 70 \<or> 97 \<le> byte_val c \<and> byte_val c \<le> 102"

text \<open>\<open>is_ascii_whitespace\<close> leaves out the vertical tab, \<open>char::is_whitespace\<close> has it.\<close>

definition is_ascii_whitespace :: "char \<Rightarrow> bool" where
  "is_ascii_whitespace c \<longleftrightarrow> byte_val c \<in> {9, 10, 12, 13, 32}"

definition is_whitespace :: "char \<Rightarrow> bool" where
  "is_whitespace c \<longleftrightarrow> 9 \<le> byte_val c \<and> byte_val c \<le> 13 \<or> byte_val c = 32"

definition ascii_lower :: "char \<Rightarrow> char" where
  "ascii_lower c = (if 65 \<le> byte_val c \<and> byte_val c \<le> 90 then char_of (byte_val c + 32) else c)"

definition to_lowercase :: "string \<Rightarrow> string" where
  "to_lowercase s = map ascii_lower s"

definition eq_ignore_ascii_case :: "string \<Rightarrow> string \<Rightarrow> bool" where
  "eq_ignore_ascii_case a b \<longleftrightarrow> to_lowercase a = to_lowercase b"

subsection \<open>Searching and splitting\<close>

fun str_find :: "string \<Rightarrow> string \<Rightarrow> nat option" where
  "str_find pat [] = (if pat = [] then Some 0 else None)"
| "str_find pat (c # s) =
     (if prefix pat (c # s) then Some 0 else map_option Suc (str_find pat s))"

definition str_contains :: "string \<Rightarrow> string \<Rightarrow> bool" where
  "str_contains s pat \<longleftrightarrow> str_find pat s \<noteq> None"

text \<open>\<open>find(c)\<close> with the slices before and after the hit, and \<open>rfind(c)\<close> likewise.\<close>

fun split_once :: "char \<Rightarrow> string \<Rightarrow> (string \<times> string) option" where
  "split_once d [] = None"
| "split_once d (c # s) =
     (if c = d then Some ([], s) else map_option (\<lambda>(a, b). (c # a, b)) (split_once d s))"

fun rsplit_once :: "char \<Rightarrow> string \<Rightarrow> (string \<times> string) option" where
  "rsplit_once d [] = None"
| "rsplit_once d (c # s) =
     (case rsplit_once d s of
        Some (a, b) \<Rightarrow> Some (c # a, b)
      | None \<Rightarrow> if c = d then Some ([], s) else None)"

fun split_char :: "char \<Rightarrow> string \<Rightarrow> string list" where
  "split_char d [] = [[]]"
| "split_char d (c # s) =
     (if c = d then [] # split_char d s
      else case split_char d s of p # ps \<Rightarrow> (c # p) # ps | [] \<Rightarrow> [[c]])"

definition strip_prefix :: "string \<Rightarrow> string \<Rightarrow> string option" where
  "strip_prefix p s = (if prefix p s then Some (drop (length p) s) else None)"

definition strip_suffix :: "string \<Rightarrow> string \<Rightarrow> string option" where
  "strip_suffix p s = (if suffix p s then Some (take (length s - length p) s) else None)"

function trim_end_matches :: "string \<Rightarrow> string \<Rightarrow> string" where
  "trim_end_matches p s =
     (if p \<noteq> [] \<and> suffix p s then trim_end_matches p (take (length s - length p) s) else s)"
  by pat_completeness auto
termination
  by (relation "measure (\<lambda>(p, s). length s)")
     (auto dest: suffix_length_le simp: suffix_def)

declare trim_end_matches.simps [simp del]

definition trim_start :: "string \<Rightarrow> string" where
  "trim_start s = dropWhile is_whitespace s"

definition trim_end :: "string \<Rightarrow> string" where
  "trim_end s = rev (dropWhile is_whitespace (rev s))"

definition trim :: "string \<Rightarrow> string" where
  "trim s = trim_end (trim_start s)"

text \<open>The non-empty runs between white space.\<close>

function split_whitespace :: "string \<Rightarrow> string list" where
  "split_whitespace s =
     (case dropWhile is_whitespace s of
        [] \<Rightarrow> []
      | c # t \<Rightarrow>
          takeWhile (\<lambda>c. \<not> is_whitespace c) (c # t)
            # split_whitespace (dropWhile (\<lambda>c. \<not> is_whitespace c) (c # t)))"
  by pat_completeness auto
termination
proof (relation "measure length")
  fix s :: string and c t
  assume *: "dropWhile is_whitespace s = c # t"
  then have "\<not> is_whitespace c" by (simp add: dropWhile_eq_Cons_conv)
  then have "length (dropWhile (\<lambda>c. \<not> is_whitespace c) (c # t)) \<le> length t"
    by (simp add: length_dropWhile_le)
  also have "\<dots> < length s" using length_dropWhile_le [of is_whitespace s] * by simp
  finally show "(dropWhile (\<lambda>c. \<not> is_whitespace c) (c # t), s) \<in> measure length" by simp
qed simp

declare split_whitespace.simps [simp del]

text \<open>\<open>lines\<close>: pieces ended by a line feed lose it and one carriage return before it; a last piece
  without line feed stays as it is.\<close>

definition strip_cr :: "string \<Rightarrow> string" where
  "strip_cr l = (if l \<noteq> [] \<and> last l = CHR 0x0D then butlast l else l)"

fun str_lines_acc :: "string \<Rightarrow> string \<Rightarrow> string list" where
  "str_lines_acc acc [] = (if acc = [] then [] else [rev acc])"
| "str_lines_acc acc (c # s) =
     (if c = CHR 0x0A then strip_cr (rev acc) # str_lines_acc [] s else str_lines_acc (c # acc) s)"

definition str_lines :: "string \<Rightarrow> string list" where
  "str_lines s = str_lines_acc [] s"

fun str_join :: "string \<Rightarrow> string list \<Rightarrow> string" where
  "str_join sep [] = []"
| "str_join sep [x] = x"
| "str_join sep (x # y # ys) = x @ sep @ str_join sep (y # ys)"

definition replace_char :: "char \<Rightarrow> char \<Rightarrow> string \<Rightarrow> string" where
  "replace_char a b s = map (\<lambda>c. if c = a then b else c) s"

subsection \<open>Numbers\<close>

definition digit_val :: "char \<Rightarrow> nat" where "digit_val c = byte_val c - 48"

definition digits_val :: "string \<Rightarrow> nat" where
  "digits_val s = foldl (\<lambda>n c. 10 * n + digit_val c) 0 s"

text \<open>\<open>str::parse\<close> at an unsigned type of \<open>w\<close> bits: an optional plus sign, at least one digit,
  nothing else, and a value in range.\<close>

definition parse_digits :: "nat \<Rightarrow> string \<Rightarrow> nat option" where
  "parse_digits w ds =
     (if ds \<noteq> [] \<and> list_all is_ascii_digit ds \<and> digits_val ds < 2 ^ w then Some (digits_val ds)
      else None)"

definition parse_uint :: "nat \<Rightarrow> string \<Rightarrow> nat option" where
  "parse_uint w s =
     parse_digits w (case s of c # t \<Rightarrow> if c = CHR ''+'' then t else s | [] \<Rightarrow> [])"

definition digit_char :: "nat \<Rightarrow> char" where "digit_char d = char_of (48 + d)"

fun dec :: "nat \<Rightarrow> string" where
  "dec n = (if n < 10 then [digit_char n] else dec (n div 10) @ [digit_char (n mod 10)])"

declare dec.simps [simp del]

definition zero_pad :: "nat \<Rightarrow> string \<Rightarrow> string" where
  "zero_pad w s = replicate (w - length s) (CHR ''0'') @ s"

subsection \<open>UTF-8\<close>

text \<open>The well-formed byte sequences of the Unicode standard, as the library's validator accepts
  them.\<close>

fun utf8_valid :: "nat list \<Rightarrow> bool" where
  "utf8_valid [] \<longleftrightarrow> True"
| "utf8_valid (a # s) \<longleftrightarrow>
     (if a < 0x80 then utf8_valid s
      else case s of
        b # s1 \<Rightarrow>
          (if 0xC2 \<le> a \<and> a \<le> 0xDF then 0x80 \<le> b \<and> b \<le> 0xBF \<and> utf8_valid s1
           else case s1 of
             c # s2 \<Rightarrow>
               (if 0xE0 \<le> a \<and> a \<le> 0xEF then
                  (if a = 0xE0 then 0xA0 else 0x80) \<le> b \<and> b \<le> (if a = 0xED then 0x9F else 0xBF) \<and>
                  0x80 \<le> c \<and> c \<le> 0xBF \<and> utf8_valid s2
                else case s2 of
                  d # s3 \<Rightarrow>
                    0xF0 \<le> a \<and> a \<le> 0xF4 \<and>
                    (if a = 0xF0 then 0x90 else 0x80) \<le> b \<and> b \<le> (if a = 0xF4 then 0x8F else 0xBF) \<and>
                    0x80 \<le> c \<and> c \<le> 0xBF \<and> 0x80 \<le> d \<and> d \<le> 0xBF \<and> utf8_valid s3
                | [] \<Rightarrow> False)
           | [] \<Rightarrow> False)
      | [] \<Rightarrow> False)"

definition from_utf8 :: "bytes \<Rightarrow> string option" where
  "from_utf8 bs =
     (if utf8_valid (map unat bs) then Some (map (\<lambda>b. char_of (unat b)) bs) else None)"

definition as_bytes :: "string \<Rightarrow> bytes" where
  "as_bytes s = map (\<lambda>c. of_nat (byte_val c)) s"

subsection \<open>Lemmas on splitting\<close>

lemma split_once_None_iff: "split_once d s = None \<longleftrightarrow> d \<notin> set s"
  by (induction s) auto

lemma split_once_Some_iff: "split_once d s = Some (a, b) \<longleftrightarrow> s = a @ d # b \<and> d \<notin> set a"
proof (induction s arbitrary: a b)
  case (Cons c s)
  show ?case
    by (cases a) (auto simp: Cons.IH)
qed simp

lemma rsplit_once_None_iff: "rsplit_once d s = None \<longleftrightarrow> d \<notin> set s"
  by (induction s) (auto split: option.splits)

lemma rsplit_once_Some_iff: "rsplit_once d s = Some (a, b) \<longleftrightarrow> s = a @ d # b \<and> d \<notin> set b"
proof (induction s arbitrary: a b)
  case (Cons c s)
  show ?case
  proof (cases "rsplit_once d s")
    case None
    then have "d \<notin> set s" by (simp add: rsplit_once_None_iff)
    with None show ?thesis by (cases a) auto
  next
    case (Some p)
    obtain a' b' where p: "p = (a', b')" by fastforce
    with Some Cons.IH have s: "s = a' @ d # b'" "d \<notin> set b'" by auto
    have "s = a'' @ d # b'' \<and> d \<notin> set b'' \<longleftrightarrow> a'' = a' \<and> b'' = b'" for a'' b''
      using Cons.IH [of a'' b''] Some p by auto
    with Some p s show ?thesis by (cases a) auto
  qed
qed simp

lemma split_char_nonempty [simp]: "split_char d s \<noteq> []"
  by (induction s) (auto split: list.splits)

lemma split_char_no_sep: "p \<in> set (split_char d s) \<Longrightarrow> d \<notin> set p"
proof (induction s arbitrary: p)
  case (Cons c s)
  show ?case
  proof (cases "c = d")
    case False
    obtain q qs where "split_char d s = q # qs" by (cases "split_char d s") auto
    with Cons False show ?thesis by (cases "p = c # q") auto
  qed (use Cons in auto)
qed simp

lemma split_char_no_hit: "d \<notin> set s \<Longrightarrow> split_char d s = [s]"
  by (induction s) auto

lemma split_char_append:
  "d \<notin> set a \<Longrightarrow> split_char d (a @ d # b) = a # split_char d b"
  by (induction a) auto

text \<open>Splitting is the inverse of joining separator-free pieces.\<close>

lemma split_char_join:
  "\<forall>p\<in>set ps. d \<notin> set p \<Longrightarrow> ps \<noteq> [] \<Longrightarrow> split_char d (str_join [d] ps) = ps"
proof (induction "[d]" ps rule: str_join.induct)
  case (3 x y ys)
  then show ?case by (simp add: split_char_append)
qed (simp_all add: split_char_no_hit)

lemma str_join_split_char: "str_join [d] (split_char d s) = s"
proof (induction s)
  case (Cons c s)
  obtain q qs where eq: "split_char d s = q # qs" by (cases "split_char d s") auto
  then show ?case using Cons by (cases qs) auto
qed simp

subsection \<open>Lemmas on suffixes and trimming\<close>

lemma trim_end_matches_no: "\<not> (\<exists>t. s = t @ p) \<Longrightarrow> trim_end_matches p s = s"
  by (subst trim_end_matches.simps) (simp add: suffix_def)

lemma trim_end_matches_once:
  "p \<noteq> [] \<Longrightarrow> \<not> suffix p s \<Longrightarrow> trim_end_matches p (s @ p) = s"
  by (subst trim_end_matches.simps) (simp add: trim_end_matches_no suffix_def)

lemma suffix_last_conv: "suffix p s \<Longrightarrow> p \<noteq> [] \<Longrightarrow> last s = last p"
  by (auto simp: suffix_def)

lemma trim_start_hd: "trim_start s \<noteq> [] \<Longrightarrow> \<not> is_whitespace (hd (trim_start s))"
  unfolding trim_start_def by (rule hd_dropWhile)

lemma trim_end_last: "trim_end s \<noteq> [] \<Longrightarrow> \<not> is_whitespace (last (trim_end s))"
  unfolding trim_end_def by (metis hd_dropWhile hd_rev rev_is_Nil_conv rev_rev_ident)

lemma trim_start_id: "s = [] \<or> \<not> is_whitespace (hd s) \<Longrightarrow> trim_start s = s"
  by (cases s) (auto simp: trim_start_def)

lemma trim_end_id: "s = [] \<or> \<not> is_whitespace (last s) \<Longrightarrow> trim_end s = s"
  by (cases s rule: rev_cases) (auto simp: trim_end_def)

lemma trim_end_prefix: "prefix (trim_end s) s"
  unfolding trim_end_def
  by (metis prefix_def rev_append rev_rev_ident takeWhile_dropWhile_id)

lemma trim_hd: "trim s \<noteq> [] \<Longrightarrow> \<not> is_whitespace (hd (trim s))"
proof -
  assume "trim s \<noteq> []"
  moreover obtain t where "trim_start s = trim s @ t"
    using trim_end_prefix [of "trim_start s"] by (auto simp: trim_def prefix_def)
  ultimately show ?thesis using trim_start_hd [of s] by (metis append_is_Nil_conv hd_append2)
qed

lemma trim_idem [simp]: "trim (trim s) = trim s"
  unfolding trim_def [of "trim s"]
  using trim_hd [of s] trim_end_last [of "trim_start s"]
  by (metis trim_def trim_end_id trim_start_id)

lemma set_trim_subset: "set (trim s) \<subseteq> set s"
proof -
  have "set (trim s) \<subseteq> set (trim_start s)"
    unfolding trim_def by (rule set_mono_prefix [OF trim_end_prefix])
  also have "\<dots> \<subseteq> set s" unfolding trim_start_def by (meson set_dropWhileD subsetI)
  finally show ?thesis .
qed

subsection \<open>Lemmas on words\<close>

lemma split_whitespace_tokens:
  "t \<in> set (split_whitespace s) \<Longrightarrow> t \<noteq> [] \<and> (\<forall>c\<in>set t. \<not> is_whitespace c)"
proof (induction s rule: split_whitespace.induct)
  case (1 s)
  note IH = 1(1)
  show ?case
  proof (cases "dropWhile is_whitespace s")
    case Nil
    have "split_whitespace s = []"
      by (subst split_whitespace.simps) (simp only: Nil list.case)
    then show ?thesis using 1(2) by simp
  next
    case (Cons c r)
    then have ws: "\<not> is_whitespace c" by (simp add: dropWhile_eq_Cons_conv)
    let ?rest = "dropWhile (\<lambda>c. \<not> is_whitespace c) (c # r)"
    have "split_whitespace s = takeWhile (\<lambda>c. \<not> is_whitespace c) (c # r) # split_whitespace ?rest"
      by (subst split_whitespace.simps) (simp only: Cons list.case)
    then consider "t = takeWhile (\<lambda>c. \<not> is_whitespace c) (c # r)" | "t \<in> set (split_whitespace ?rest)"
      using 1(2) by (metis set_ConsD)
    then show ?thesis
    proof cases
      case 1
      then show ?thesis using ws by (auto dest: set_takeWhileD)
    next
      case 2
      then show ?thesis by (rule IH [OF Cons])
    qed
  qed
qed

lemma split_whitespace_Nil [simp]: "split_whitespace [] = []"
  by (subst split_whitespace.simps) simp

lemma split_whitespace_word:
  assumes "t \<noteq> []" "\<forall>c\<in>set t. \<not> is_whitespace c" "r = [] \<or> is_whitespace (hd r)"
  shows "split_whitespace (t @ r) = t # split_whitespace r"
proof -
  obtain c u where t: "t = c # u" using assms(1) by (cases t) auto
  have "takeWhile (\<lambda>c. \<not> is_whitespace c) (t @ r) = t"
       "dropWhile (\<lambda>c. \<not> is_whitespace c) (t @ r) = r"
    using assms(2,3) by (cases r; simp)+
  then show ?thesis
    using assms(2) by (subst split_whitespace.simps) (simp add: t)
qed

lemma split_whitespace_skip:
  "is_whitespace c \<Longrightarrow> split_whitespace (c # s) = split_whitespace s"
  by (subst (1 2) split_whitespace.simps) simp

text \<open>Words joined by single spaces split into the same words.\<close>

lemma split_whitespace_join:
  "\<forall>t\<in>set ts. t \<noteq> [] \<and> (\<forall>c\<in>set t. \<not> is_whitespace c) \<Longrightarrow>
   split_whitespace (str_join '' '' ts) = ts"
proof (induction "'' ''" ts rule: str_join.induct)
  case (2 x)
  then show ?case using split_whitespace_word [of x "[]"] by simp
next
  case (3 x y ys)
  have ws: "is_whitespace (CHR '' '')" by (simp add: is_whitespace_def)
  have "split_whitespace (x @ CHR '' '' # str_join '' '' (y # ys)) =
      x # split_whitespace (CHR '' '' # str_join '' '' (y # ys))"
    using 3(2) ws by (intro split_whitespace_word) auto
  with 3 ws show ?case by (simp add: split_whitespace_skip)
qed simp

subsection \<open>Lemmas on numbers\<close>

lemma digit_char_digit: "d < 10 \<Longrightarrow> is_ascii_digit (digit_char d) \<and> digit_val (digit_char d) = d"
  by (simp add: is_ascii_digit_def digit_char_def digit_val_def)

lemma dec_digits: "list_all is_ascii_digit (dec n)"
  by (induction n rule: dec.induct) (subst dec.simps, simp add: digit_char_digit)

lemma dec_nonempty [simp]: "dec n \<noteq> []"
  by (subst dec.simps) simp

lemma digits_val_snoc [simp]: "digits_val (s @ [c]) = 10 * digits_val s + digit_val c"
  by (simp add: digits_val_def)

lemma digits_val_dec [simp]: "digits_val (dec n) = n"
proof (induction n rule: dec.induct)
  case (1 n)
  then show ?case
    by (subst dec.simps) (auto simp: digit_char_digit digits_val_def)
qed

lemma digits_val_zeros: "digits_val (replicate k (CHR ''0'') @ s) = digits_val s"
  by (induction k) (simp_all add: digits_val_def digit_val_def)

lemma zero_pad_dec:
  "list_all is_ascii_digit (zero_pad w (dec n))" "digits_val (zero_pad w (dec n)) = n"
  "zero_pad w (dec n) \<noteq> []"
  using dec_digits [of n]
  by (auto simp: zero_pad_def digits_val_zeros list_all_iff is_ascii_digit_def)

lemma parse_uint_digits:
  "ds \<noteq> [] \<Longrightarrow> list_all is_ascii_digit ds \<Longrightarrow> parse_uint w ds = parse_digits w ds"
  by (cases ds) (auto simp: parse_uint_def is_ascii_digit_def)

text \<open>Printing with zero padding and parsing back.\<close>

lemma parse_uint_zero_pad_dec: "n < 2 ^ w \<Longrightarrow> parse_uint w (zero_pad k (dec n)) = Some n"
  by (simp add: parse_uint_digits zero_pad_dec parse_digits_def)

lemma parse_uint_bound: "parse_uint w s = Some n \<Longrightarrow> n < 2 ^ w"
  by (auto simp: parse_uint_def parse_digits_def split: if_splits)

lemma dec_no_char: "\<not> is_ascii_digit c \<Longrightarrow> c \<notin> set (zero_pad w (dec n))"
  using zero_pad_dec(1) [of w n] by (auto simp: list_all_iff)

subsection \<open>Lemmas on UTF-8\<close>

lemma unat_as_bytes: "map unat (as_bytes s) = map byte_val s"
  by (simp add: as_bytes_def unat_of_nat)

lemma from_utf8_as_bytes: "utf8_valid (map byte_val s) \<Longrightarrow> from_utf8 (as_bytes s) = Some s"
  by (simp add: from_utf8_def unat_as_bytes) (simp add: as_bytes_def unat_of_nat comp_def)

lemma utf8_valid_ascii: "list_all (\<lambda>c. byte_val c < 128) s \<Longrightarrow> utf8_valid (map byte_val s)"
  by (induction s) auto

end
