(* ===== verification/Rust_Ordering.thy ===== *)
theory Rust_Ordering
  imports Rust_Str "HOL-Library.Multiset"
begin

section \<open>Three-way comparisons and stable sorting\<close>

text \<open>
  Rust's \<open>Ordering\<close>, its \<open>cmp\<close> on ordered types, and \<open>sort_by\<close>.  The locale \<open>comparator\<close> states
  what \<open>sort_by\<close> asks of a comparison on the elements it sorts: a total preorder.  Under that
  contract the sort result is ordered; that it is a permutation of its input holds for every
  comparison.  The components interpret the locale on their own comparisons.

  \<open>sort_by\<close> is modelled by stable insertion.  For a total preorder the library's stable sort has
  the same result, the only stable ordering; for other comparisons the library leaves it open.
\<close>

datatype Ordering = Less | Equal | Greater

fun ord_reverse :: "Ordering \<Rightarrow> Ordering" where
  "ord_reverse Less = Greater"
| "ord_reverse Equal = Equal"
| "ord_reverse Greater = Less"

text \<open>\<open>then_ord c d\<close>: the pattern \<open>if c != Equal { return c; } d\<close>.\<close>

fun then_ord :: "Ordering \<Rightarrow> Ordering \<Rightarrow> Ordering" where
  "then_ord Equal d = d"
| "then_ord c d = c"

definition rcmp :: "'a::linorder \<Rightarrow> 'a \<Rightarrow> Ordering" where
  "rcmp a b = (if a < b then Less else if a = b then Equal else Greater)"

fun insert_by :: "('a \<Rightarrow> 'a \<Rightarrow> Ordering) \<Rightarrow> 'a \<Rightarrow> 'a list \<Rightarrow> 'a list" where
  "insert_by cmp x [] = [x]"
| "insert_by cmp x (y # ys) =
     (if cmp x y = Greater then y # insert_by cmp x ys else x # y # ys)"

fun sort_by :: "('a \<Rightarrow> 'a \<Rightarrow> Ordering) \<Rightarrow> 'a list \<Rightarrow> 'a list" where
  "sort_by cmp [] = []"
| "sort_by cmp (x # xs) = insert_by cmp x (sort_by cmp xs)"

subsection \<open>Elementary facts\<close>

lemma ord_reverse_reverse [simp]: "ord_reverse (ord_reverse c) = c"
  by (cases c) auto

lemma ord_reverse_eq [simp]:
  "ord_reverse c = Less \<longleftrightarrow> c = Greater" "ord_reverse c = Greater \<longleftrightarrow> c = Less"
  "ord_reverse c = Equal \<longleftrightarrow> c = Equal"
  by (cases c; simp)+

lemma ord_reverse_then [simp]:
  "ord_reverse (then_ord c d) = then_ord (ord_reverse c) (ord_reverse d)"
  by (cases c) auto

lemma then_ord_Equal [simp]: "then_ord c Equal = c"
  by (cases c) auto

lemma then_ord_eq_Greater: "then_ord c d = Greater \<longleftrightarrow> c = Greater \<or> c = Equal \<and> d = Greater"
  by (cases c) auto

lemma then_ord_eq_Less: "then_ord c d = Less \<longleftrightarrow> c = Less \<or> c = Equal \<and> d = Less"
  by (cases c) auto

lemma then_ord_eq_Equal [simp]: "then_ord c d = Equal \<longleftrightarrow> c = Equal \<and> d = Equal"
  by (cases c) auto

lemma rcmp_simps [simp]:
  "rcmp a a = Equal" "rcmp a b = Equal \<longleftrightarrow> a = b" "rcmp a b = Less \<longleftrightarrow> a < b"
  "rcmp a b = Greater \<longleftrightarrow> b < a"
  by (auto simp: rcmp_def)

lemma rcmp_reverse: "rcmp b a = ord_reverse (rcmp a b)"
  by (auto simp: rcmp_def)

lemma mset_insert_by: "mset (insert_by cmp x ys) = add_mset x (mset ys)"
  by (induction ys) auto

lemma mset_sort_by [simp]: "mset (sort_by cmp xs) = mset xs"
  by (induction xs) (simp_all add: mset_insert_by)

lemma set_sort_by [simp]: "set (sort_by cmp xs) = set xs"
  by (metis mset_sort_by set_mset_mset)

lemma length_sort_by [simp]: "length (sort_by cmp xs) = length xs"
  by (metis mset_sort_by size_mset)

subsection \<open>The contract of a comparison\<close>

text \<open>\<open>S\<close> is the set of elements the comparison is used on.\<close>

locale comparator =
  fixes cmp :: "'a \<Rightarrow> 'a \<Rightarrow> Ordering" and S :: "'a set"
  assumes cmp_sym: "x \<in> S \<Longrightarrow> y \<in> S \<Longrightarrow> cmp y x = ord_reverse (cmp x y)"
    and cmp_trans: "x \<in> S \<Longrightarrow> y \<in> S \<Longrightarrow> z \<in> S \<Longrightarrow>
      cmp x y \<noteq> Greater \<Longrightarrow> cmp y z \<noteq> Greater \<Longrightarrow> cmp x z \<noteq> Greater"
begin

lemma cmp_refl: "x \<in> S \<Longrightarrow> cmp x x = Equal"
  using cmp_sym [of x x] by (cases "cmp x x") auto

lemma cmp_total: "x \<in> S \<Longrightarrow> y \<in> S \<Longrightarrow> cmp x y \<noteq> Greater \<or> cmp y x \<noteq> Greater"
  using cmp_sym [of x y] by (cases "cmp x y") auto

lemma cmp_less_le_trans:
  assumes "x \<in> S" "y \<in> S" "z \<in> S" "cmp x y = Less" "cmp y z \<noteq> Greater"
  shows "cmp x z = Less"
proof (rule ccontr)
  assume "cmp x z \<noteq> Less"
  then have "cmp z x \<noteq> Greater" using cmp_sym [of z x] assms by (cases "cmp z x") auto
  then have "cmp y x \<noteq> Greater" using cmp_trans [of y z x] assms by simp
  then show False using cmp_sym [of x y] assms by simp
qed

lemma cmp_le_less_trans:
  assumes "x \<in> S" "y \<in> S" "z \<in> S" "cmp x y \<noteq> Greater" "cmp y z = Less"
  shows "cmp x z = Less"
proof (rule ccontr)
  assume "cmp x z \<noteq> Less"
  then have "cmp z x \<noteq> Greater" using cmp_sym [of z x] assms by (cases "cmp z x") auto
  then have "cmp z y \<noteq> Greater" using cmp_trans [of z x y] assms by simp
  then show False using cmp_sym [of y z] assms by simp
qed

lemma cmp_equal_trans:
  assumes "x \<in> S" "y \<in> S" "z \<in> S" "cmp x y = Equal" "cmp y z = Equal"
  shows "cmp x z = Equal"
proof -
  have "cmp y x = Equal" "cmp z y = Equal" using cmp_sym [of x y] cmp_sym [of y z] assms by simp_all
  then have "cmp x z \<noteq> Greater" "cmp z x \<noteq> Greater"
    using cmp_trans [of x y z] cmp_trans [of z y x] assms by simp_all
  then show ?thesis using cmp_sym [of x z] assms by (cases "cmp x z") auto
qed

lemma sorted_insert_by:
  assumes "x \<in> S" "set ys \<subseteq> S" "sorted_wrt (\<lambda>a b. cmp a b \<noteq> Greater) ys"
  shows "sorted_wrt (\<lambda>a b. cmp a b \<noteq> Greater) (insert_by cmp x ys)"
  using assms
proof (induction ys)
  case (Cons y ys)
  show ?case
  proof (cases "cmp x y = Greater")
    case True
    then have "cmp y x \<noteq> Greater" using cmp_total [of x y] Cons.prems by auto
    moreover have "set (insert_by cmp x ys) = insert x (set ys)"
      by (metis mset_insert_by set_mset_add_mset_insert set_mset_mset)
    ultimately show ?thesis using True Cons by auto
  next
    case False
    moreover have "cmp x z \<noteq> Greater" if "z \<in> set ys" for z
      using cmp_trans [of x y z] False Cons.prems that by auto
    ultimately show ?thesis using Cons.prems by auto
  qed
qed simp

lemma sorted_sort_by:
  "set xs \<subseteq> S \<Longrightarrow> sorted_wrt (\<lambda>a b. cmp a b \<noteq> Greater) (sort_by cmp xs)"
  by (induction xs) (simp_all add: sorted_insert_by)

text \<open>The first element of the sorted list is a least one.\<close>

lemma hd_sort_by_least:
  assumes "set xs \<subseteq> S" "y \<in> set xs"
  shows "cmp (hd (sort_by cmp xs)) y \<noteq> Greater"
proof -
  have "sort_by cmp xs \<noteq> []" using assms(2) by (metis length_0_conv length_pos_if_in_set length_sort_by less_irrefl)
  then obtain z zs where z: "sort_by cmp xs = z # zs" by (cases "sort_by cmp xs") auto
  have "y \<in> set (z # zs)" using assms(2) z by (metis set_sort_by)
  moreover have "z \<in> S" using z assms(1) by (metis list.set_intros(1) set_sort_by subsetD)
  ultimately show ?thesis
    using sorted_sort_by [OF assms(1)] cmp_refl z by auto
qed

text \<open>Sorting again changes nothing.\<close>

lemma sort_by_sorted_id:
  "sorted_wrt (\<lambda>a b. cmp a b \<noteq> Greater) ys \<Longrightarrow> sort_by cmp ys = ys"
proof (induction ys)
  case (Cons y ys)
  then show ?case by (cases ys) auto
qed simp

end

subsection \<open>Ways to build comparisons\<close>

interpretation rcmp_order: comparator "rcmp :: 'a::linorder \<Rightarrow> 'a \<Rightarrow> Ordering" UNIV
  by unfold_locales (rule rcmp_reverse, auto)

lemma comparator_subset: "comparator cmp S \<Longrightarrow> T \<subseteq> S \<Longrightarrow> comparator cmp T"
  unfolding comparator_def by blast

lemma comparator_cong:
  assumes "comparator c S" "\<And>x y. x \<in> S \<Longrightarrow> y \<in> S \<Longrightarrow> d x y = c x y"
  shows "comparator d S"
proof
  fix x y assume S: "x \<in> S" "y \<in> S"
  show "d y x = ord_reverse (d x y)"
    unfolding assms(2) [OF S] assms(2) [OF S(2,1)] by (rule comparator.cmp_sym [OF assms(1) S])
next
  fix x y z assume S: "x \<in> S" "y \<in> S" "z \<in> S" and "d x y \<noteq> Greater" "d y z \<noteq> Greater"
  then show "d x z \<noteq> Greater"
    using comparator.cmp_trans [OF assms(1) S] by (simp add: assms(2))
qed

lemma comparator_key_on:
  "comparator cmp S \<Longrightarrow> (\<And>x. x \<in> T \<Longrightarrow> f x \<in> S) \<Longrightarrow> comparator (\<lambda>x y. cmp (f x) (f y)) T"
  unfolding comparator_def by blast

lemma comparator_reverse:
  assumes "comparator cmp S"
  shows "comparator (\<lambda>x y. ord_reverse (cmp x y)) S"
proof
  fix x y assume "x \<in> S" "y \<in> S"
  then show "ord_reverse (cmp y x) = ord_reverse (ord_reverse (cmp x y))"
    using comparator.cmp_sym [OF assms, of x y] by simp
next
  fix x y z
  assume S: "x \<in> S" "y \<in> S" "z \<in> S"
    and "ord_reverse (cmp x y) \<noteq> Greater" "ord_reverse (cmp y z) \<noteq> Greater"
  then have "cmp y x \<noteq> Greater" "cmp z y \<noteq> Greater"
    using comparator.cmp_sym [OF assms, of x y] comparator.cmp_sym [OF assms, of y z] by simp_all
  then have "cmp z x \<noteq> Greater" using comparator.cmp_trans [OF assms, of z y x] S by blast
  then show "ord_reverse (cmp x z) \<noteq> Greater"
    using comparator.cmp_sym [OF assms, of x z] S by simp
qed

lemma comparator_then:
  assumes "comparator c S" "comparator d S"
  shows "comparator (\<lambda>x y. then_ord (c x y) (d x y)) S"
proof
  fix x y assume "x \<in> S" "y \<in> S"
  then show "then_ord (c y x) (d y x) = ord_reverse (then_ord (c x y) (d x y))"
    using comparator.cmp_sym [OF assms(1), of x y] comparator.cmp_sym [OF assms(2), of x y] by simp
next
  fix x y z
  assume S: "x \<in> S" "y \<in> S" "z \<in> S"
    and xy: "then_ord (c x y) (d x y) \<noteq> Greater" and yz: "then_ord (c y z) (d y z) \<noteq> Greater"
  have le: "c x y \<noteq> Greater" "c y z \<noteq> Greater" using xy yz by (auto simp: then_ord_eq_Greater)
  show "then_ord (c x z) (d x z) \<noteq> Greater"
  proof (cases "c x y = Equal \<and> c y z = Equal")
    case True
    then have "d x z \<noteq> Greater" "c x z \<noteq> Greater"
      using comparator.cmp_trans [OF assms(2) S] comparator.cmp_trans [OF assms(1) S] xy yz by auto
    then show ?thesis by (simp add: then_ord_eq_Greater)
  next
    case False
    then have "c x y = Less \<or> c y z = Less" using le by (cases "c x y"; cases "c y z") auto
    then have "c x z = Less"
      using comparator.cmp_less_le_trans [OF assms(1) S] comparator.cmp_le_less_trans [OF assms(1) S]
        le by blast
    then show ?thesis by simp
  qed
qed

end
