(* ===== verification/Bls_Parse.thy ===== *)
theory Bls_Parse
  imports Rust_Ordering
begin

section \<open>Boot Loader Specification entries\<close>

text \<open>
  Model of \<open>lamboot-core/src/bls_parse.rs\<close>: the parsed entry and its content equality, the parser for
  file name and contents, the UAPI.10 version comparison, the sort comparison of menu entries and
  the small string helpers.

  The version comparison is shown to be a total preorder by relating it to a comparison of token
  lists; the sort comparison is one as long as all entries agree on having a version, and is shown
  not to be one otherwise.
\<close>

subsection \<open>Entries\<close>

record BlsEntry =
  be_id :: string
  be_filename :: string
  be_title :: "string option"
  be_version :: "string option"
  be_machine_id :: "string option"
  be_sort_key :: "string option"
  be_linux :: "string option"
  be_initrd :: "string list"
  be_efi :: "string option"
  be_options :: "string list"
  be_architecture :: "string option"
  be_tries_left :: "nat option"
  be_tries_done :: "nat option"
  be_source_volume_index :: usize
  be_source_backend_tag :: string

definition content_eq :: "BlsEntry \<Rightarrow> BlsEntry \<Rightarrow> bool" where
  "content_eq a b \<longleftrightarrow>
     be_id a = be_id b \<and> be_filename a = be_filename b \<and> be_title a = be_title b \<and>
     be_version a = be_version b \<and> be_machine_id a = be_machine_id b \<and>
     be_sort_key a = be_sort_key b \<and> be_linux a = be_linux b \<and> be_initrd a = be_initrd b \<and>
     be_efi a = be_efi b \<and> be_options a = be_options b \<and>
     be_architecture a = be_architecture b \<and> be_tries_left a = be_tries_left b \<and>
     be_tries_done a = be_tries_done b"

datatype BootCountState = Good | Indeterminate | Bad

subsection \<open>Parsing\<close>

definition normalize_path :: "string \<Rightarrow> string" where
  "normalize_path path =
     (let s = replace_char (CHR ''/'') (CHR 0x5C) path in
      if prefix [CHR 0x5C] s then s else CHR 0x5C # s)"

text \<open>The counter suffix \<open><base>+<left>[-<done>].conf\<close>: identifier, tries left, tries done.\<close>

definition parse_counters :: "string \<Rightarrow> string \<times> nat option \<times> nat option" where
  "parse_counters filename =
     (let name = trim_end_matches ''.conf'' filename in
      case rsplit_once (CHR ''+'') name of
        None \<Rightarrow> (name, None, None)
      | Some (base, count_part) \<Rightarrow>
          (case split_once (CHR ''-'') count_part of
             Some (l, d) \<Rightarrow> (base, parse_uint 32 l, parse_uint 32 d)
           | None \<Rightarrow> (base, parse_uint 32 count_part, Some 0)))"

definition apply_field :: "string \<Rightarrow> string \<Rightarrow> BlsEntry \<Rightarrow> BlsEntry" where
  "apply_field key value e =
     (if key = ''title'' then e\<lparr>be_title := Some value\<rparr>
      else if key = ''version'' then e\<lparr>be_version := Some value\<rparr>
      else if key = ''machine-id'' then e\<lparr>be_machine_id := Some value\<rparr>
      else if key = ''sort-key'' then e\<lparr>be_sort_key := Some value\<rparr>
      else if key = ''linux'' then e\<lparr>be_linux := Some (normalize_path value)\<rparr>
      else if key = ''efi'' then e\<lparr>be_efi := Some (normalize_path value)\<rparr>
      else if key = ''initrd''
      then e\<lparr>be_initrd := be_initrd e @ map normalize_path (split_whitespace value)\<rparr>
      else if key = ''options'' then e\<lparr>be_options := be_options e @ [value]\<rparr>
      else if key = ''architecture'' then e\<lparr>be_architecture := Some value\<rparr>
      else e)"

definition parse_line :: "BlsEntry \<Rightarrow> string \<Rightarrow> BlsEntry" where
  "parse_line e raw =
     (let line = trim raw in
      if line = [] \<or> prefix ''#'' line then e
      else
        let key = takeWhile (\<lambda>c. \<not> is_ascii_whitespace c) line;
            rest = dropWhile (\<lambda>c. \<not> is_ascii_whitespace c) line in
        if rest = [] then e else apply_field key (trim_start rest) e)"

definition empty_entry :: "string \<Rightarrow> BlsEntry" where
  "empty_entry filename =
     (let (id, left, done) = parse_counters filename in
      \<lparr>be_id = id, be_filename = filename, be_title = None, be_version = None,
       be_machine_id = None, be_sort_key = None, be_linux = None, be_initrd = [],
       be_efi = None, be_options = [], be_architecture = None, be_tries_left = left,
       be_tries_done = done, be_source_volume_index = 0, be_source_backend_tag = []\<rparr>)"

definition bls_parse :: "string \<Rightarrow> string \<Rightarrow> BlsEntry option" where
  "bls_parse filename content =
     (let e = foldl parse_line (empty_entry filename) (str_lines content) in
      if be_linux e = None \<and> be_efi e = None then None else Some e)"

definition boot_count_state :: "BlsEntry \<Rightarrow> BootCountState" where
  "boot_count_state e =
     (case be_tries_left e of None \<Rightarrow> Good | Some n \<Rightarrow> if n = 0 then Bad else Indeterminate)"

definition strip_grub_variables :: "string \<Rightarrow> string" where
  "strip_grub_variables s =
     str_join '' '' (filter (\<lambda>token. \<not> prefix ''$'' token) (split_whitespace s))"

definition combined_options :: "BlsEntry \<Rightarrow> string" where
  "combined_options e = strip_grub_variables (str_join '' '' (be_options e))"

definition cleaned_initrd :: "BlsEntry \<Rightarrow> string list" where
  "cleaned_initrd e =
     filter (\<lambda>s. \<not> prefix ''$'' s \<and> \<not> prefix [CHR 0x5C, CHR ''$''] s \<and> \<not> prefix ''/$'' s)
       (be_initrd e)"

subsection \<open>Version comparison\<close>

definition is_version_char :: "char \<Rightarrow> bool" where
  "is_version_char c \<longleftrightarrow> is_ascii_alphanumeric c \<or> c \<in> {CHR ''~'', CHR ''^'', CHR ''-'', CHR ''.''}"

definition skip_seps :: "string \<Rightarrow> string" where
  "skip_seps s = dropWhile (\<lambda>c. \<not> is_version_char c) s"

definition starts_with_char :: "char \<Rightarrow> string \<Rightarrow> bool" where
  "starts_with_char d s \<longleftrightarrow> s \<noteq> [] \<and> hd s = d"

definition skip_zeros :: "string \<Rightarrow> string" where
  "skip_zeros s = dropWhile (\<lambda>c. c = CHR ''0'') s"

text \<open>The source keeps an index into each string; the model keeps the remaining suffixes.  The last
  branch, which the source marks unreachable, is kept.\<close>

function version_compare :: "string \<Rightarrow> string \<Rightarrow> Ordering" where
  "version_compare a0 b0 =
     (let a = skip_seps a0; b = skip_seps b0 in
      if starts_with_char (CHR ''~'') a \<or> starts_with_char (CHR ''~'') b then
        (if \<not> starts_with_char (CHR ''~'') a then Greater
         else if \<not> starts_with_char (CHR ''~'') b then Less
         else version_compare (tl a) (tl b))
      else if a = [] \<and> b = [] then Equal
      else if a = [] then Less
      else if b = [] then Greater
      else if hd a = CHR ''-'' \<or> hd b = CHR ''-'' then
        (if hd a \<noteq> CHR ''-'' then Greater else if hd b \<noteq> CHR ''-'' then Less
         else version_compare (tl a) (tl b))
      else if hd a = CHR ''^'' \<or> hd b = CHR ''^'' then
        (if hd a \<noteq> CHR ''^'' then Greater else if hd b \<noteq> CHR ''^'' then Less
         else version_compare (tl a) (tl b))
      else if hd a = CHR ''.'' \<or> hd b = CHR ''.'' then
        (if hd a \<noteq> CHR ''.'' then Greater else if hd b \<noteq> CHR ''.'' then Less
         else version_compare (tl a) (tl b))
      else if is_ascii_digit (hd a) \<or> is_ascii_digit (hd b) then
        (let a1 = skip_zeros a; b1 = skip_zeros b;
             a_num = takeWhile is_ascii_digit a1; b_num = takeWhile is_ascii_digit b1 in
         if length a_num \<noteq> length b_num then rcmp (length a_num) (length b_num)
         else then_ord (rcmp a_num b_num)
           (version_compare (dropWhile is_ascii_digit a1) (dropWhile is_ascii_digit b1)))
      else if is_ascii_alphabetic (hd a) \<or> is_ascii_alphabetic (hd b) then
        then_ord (rcmp (takeWhile is_ascii_alphabetic a) (takeWhile is_ascii_alphabetic b))
          (version_compare (dropWhile is_ascii_alphabetic a) (dropWhile is_ascii_alphabetic b))
      else version_compare (tl a) (tl b))"
  by pat_completeness auto

lemma length_skip_seps: "length (skip_seps s) \<le> length s"
  by (simp add: skip_seps_def length_dropWhile_le)

lemma length_after_skip:
  "skip_seps s \<noteq> [] \<Longrightarrow> length (skip_seps s) - Suc 0 < length s"
  "length (skip_seps s) - Suc 0 \<le> length s"
  using length_skip_seps [of s] by (cases "skip_seps s"; simp)+

lemma length_after_number_le: "length (dropWhile is_ascii_digit (skip_zeros s)) \<le> length s"
  by (metis length_dropWhile_le order_trans skip_zeros_def)

lemma length_after_number_less:
  "s \<noteq> [] \<Longrightarrow> is_ascii_digit (hd s) \<Longrightarrow> length (dropWhile is_ascii_digit (skip_zeros s)) < length s"
proof (cases s)
  case (Cons c t)
  assume "is_ascii_digit (hd s)"
  show ?thesis
  proof (cases "c = CHR ''0''")
    case True
    then have "skip_zeros s = skip_zeros t" by (simp add: Cons skip_zeros_def)
    then show ?thesis using length_after_number_le [of t] by (simp add: Cons)
  next
    case False
    then have "skip_zeros s = s" by (simp add: Cons skip_zeros_def)
    then show ?thesis
      using \<open>is_ascii_digit (hd s)\<close> length_dropWhile_le [of is_ascii_digit t] by (simp add: Cons)
  qed
qed simp

lemma length_after_alpha_less:
  "s \<noteq> [] \<Longrightarrow> is_ascii_alphabetic (hd s) \<Longrightarrow> length (dropWhile is_ascii_alphabetic s) < length s"
  by (cases s) (simp_all add: le_imp_less_Suc length_dropWhile_le)

termination version_compare
proof (relation "measure (\<lambda>(a, b). length a + length b)", goal_cases)
  case (6 a0 b0 a b)
  then show ?case
    using length_skip_seps [of a0] length_skip_seps [of b0] length_after_number_le [of a]
      length_after_number_le [of b] length_after_number_less [of a] length_after_number_less [of b]
    by auto
next
  case (7 a0 b0 a b)
  then show ?case
    using length_skip_seps [of a0] length_skip_seps [of b0]
      length_dropWhile_le [of is_ascii_alphabetic a] length_dropWhile_le [of is_ascii_alphabetic b]
      length_after_alpha_less [of a] length_after_alpha_less [of b]
    by auto
qed (auto simp: starts_with_char_def intro!: add_less_le_mono length_after_skip)

declare version_compare.simps [simp del]

subsection \<open>Sort comparison and helpers\<close>

fun cmp_opt_str :: "string option \<Rightarrow> string option \<Rightarrow> Ordering" where
  "cmp_opt_str None None = Equal"
| "cmp_opt_str None (Some b) = Greater"
| "cmp_opt_str (Some a) None = Less"
| "cmp_opt_str (Some a) (Some b) = rcmp a b"

definition opt_or_empty :: "string option \<Rightarrow> string" where
  "opt_or_empty v = (case v of None \<Rightarrow> [] | Some s \<Rightarrow> s)"

definition filename_fallback :: "BlsEntry \<Rightarrow> BlsEntry \<Rightarrow> Ordering" where
  "filename_fallback a b =
     (if be_version a \<noteq> None \<and> be_version b \<noteq> None
      then ord_reverse (version_compare (be_id a) (be_id b))
      else rcmp (be_id a) (be_id b))"

definition bls_sort_compare :: "BlsEntry \<Rightarrow> BlsEntry \<Rightarrow> bool \<Rightarrow> Ordering" where
  "bls_sort_compare a b ignore_sort_key =
     (let a_bad = (boot_count_state a = Bad); b_bad = (boot_count_state b = Bad) in
      if a_bad \<noteq> b_bad then (if a_bad then Greater else Less)
      else if ignore_sort_key then
        then_ord (cmp_opt_str (be_machine_id a) (be_machine_id b))
          (then_ord
            (if be_version a \<noteq> None \<and> be_version b \<noteq> None
             then ord_reverse (version_compare (opt_or_empty (be_version a))
                                 (opt_or_empty (be_version b)))
             else Equal)
            (filename_fallback a b))
      else
        let a_has_sk = (be_sort_key a \<noteq> None); b_has_sk = (be_sort_key b \<noteq> None) in
        if a_has_sk \<noteq> b_has_sk then (if a_has_sk then Less else Greater)
        else if a_has_sk \<and> b_has_sk then
          then_ord (cmp_opt_str (be_sort_key a) (be_sort_key b))
            (then_ord (cmp_opt_str (be_machine_id a) (be_machine_id b))
              (then_ord (ord_reverse (version_compare (opt_or_empty (be_version a))
                                        (opt_or_empty (be_version b))))
                (filename_fallback a b)))
        else filename_fallback a b)"

definition count_digits_in_filename :: "string \<Rightarrow> char \<Rightarrow> nat" where
  "count_digits_in_filename filename marker =
     (case rsplit_once marker (trim_end_matches ''.conf'' filename) of
        Some (before, after) \<Rightarrow> length (takeWhile is_ascii_digit after)
      | None \<Rightarrow> 0)"

definition is_native_architecture :: "target_arch \<Rightarrow> string \<Rightarrow> bool" where
  "is_native_architecture target arch =
     (let arch_lower = to_lowercase arch in
      case target of
        Arch_x86_64 \<Rightarrow> arch_lower = ''x64'' \<or> arch_lower = ''x86_64'' \<or> arch_lower = ''x86-64''
      | Arch_aarch64 \<Rightarrow> arch_lower = ''aa64'' \<or> arch_lower = ''aarch64'' \<or> arch_lower = ''arm64''
      | Arch_other \<Rightarrow> False)"

definition has_extension_ignore_case :: "string \<Rightarrow> string \<Rightarrow> bool" where
  "has_extension_ignore_case filename ext =
     (case rsplit_once (CHR ''.'') filename of
        None \<Rightarrow> False
      | Some (stem, after) \<Rightarrow> eq_ignore_ascii_case after ext)"

subsection \<open>Version strings as token lists\<close>

datatype vtok = TTilde | TDash | TCaret | TDot | TNum string | TAlpha string

function vtokens :: "string \<Rightarrow> vtok list" where
  "vtokens s0 =
     (let s = skip_seps s0 in
      if s = [] then []
      else if hd s = CHR ''~'' then TTilde # vtokens (tl s)
      else if hd s = CHR ''-'' then TDash # vtokens (tl s)
      else if hd s = CHR ''^'' then TCaret # vtokens (tl s)
      else if hd s = CHR ''.'' then TDot # vtokens (tl s)
      else if is_ascii_digit (hd s)
      then TNum (takeWhile is_ascii_digit (skip_zeros s))
             # vtokens (dropWhile is_ascii_digit (skip_zeros s))
      else if is_ascii_alphabetic (hd s)
      then TAlpha (takeWhile is_ascii_alphabetic s) # vtokens (dropWhile is_ascii_alphabetic s)
      else [])"
  by pat_completeness auto
termination
proof (relation "measure length", goal_cases)
  case (6 s0 s)
  then show ?case using length_after_number_less [of s] length_skip_seps [of s0] by simp
next
  case (7 s0 s)
  then show ?case using length_after_alpha_less [of s] length_skip_seps [of s0] by simp
qed (auto intro: length_after_skip)

declare vtokens.simps [simp del]

definition trank :: "vtok list \<Rightarrow> nat" where
  "trank ts = (case ts of [] \<Rightarrow> 1
     | t # _ \<Rightarrow> (case t of TTilde \<Rightarrow> 0 | TDash \<Rightarrow> 2 | TCaret \<Rightarrow> 3 | TDot \<Rightarrow> 4 | _ \<Rightarrow> 5))"

definition num_cmp :: "string \<Rightarrow> string \<Rightarrow> Ordering" where
  "num_cmp m n = then_ord (rcmp (length m) (length n)) (rcmp m n)"

fun tcmp :: "vtok list \<Rightarrow> vtok list \<Rightarrow> Ordering" where
  "tcmp as bs =
     (if trank as \<noteq> trank bs then rcmp (trank as) (trank bs)
      else case (as, bs) of
        (TNum m # as', TNum n # bs') \<Rightarrow> then_ord (num_cmp m n) (tcmp as' bs')
      | (TNum m # as', TAlpha y # bs') \<Rightarrow> if m \<noteq> [] then Greater else tcmp as' bs
      | (TAlpha x # as', TNum n # bs') \<Rightarrow> if n \<noteq> [] then Less else tcmp as bs'
      | (TAlpha x # as', TAlpha y # bs') \<Rightarrow> then_ord (rcmp x y) (tcmp as' bs')
      | (t # as', u # bs') \<Rightarrow> tcmp as' bs'
      | _ \<Rightarrow> Equal)"

declare tcmp.simps [simp del]

lemma num_cmp_comparator: "comparator num_cmp UNIV"
  unfolding num_cmp_def
  by (intro comparator_then comparator_key_on [OF rcmp_order.comparator_axioms, where f = length]
      rcmp_order.comparator_axioms) simp

interpretation nc: comparator num_cmp UNIV
  by (rule num_cmp_comparator)

lemma num_cmp_simps [simp]:
  "num_cmp m n = Equal \<longleftrightarrow> m = n" "num_cmp [] n \<noteq> Greater" "num_cmp m [] = Greater \<longleftrightarrow> m \<noteq> []"
  "n \<noteq> [] \<Longrightarrow> num_cmp [] n = Less" "num_cmp m m = Equal"
  by (auto simp: num_cmp_def then_ord_eq_Greater then_ord_eq_Less)

lemma tcmp_rank: "tcmp a b \<noteq> Greater \<Longrightarrow> trank a \<le> trank b"
  by (subst (asm) tcmp.simps) (auto split: if_splits)

lemma tcmp_rank_less: "trank a < trank b \<Longrightarrow> tcmp a b = Less"
  by (subst tcmp.simps) simp

lemma tcmp_Cons:
  "tcmp [] [] = Equal"
  "tcmp (TTilde # a) (TTilde # b) = tcmp a b" "tcmp (TDash # a) (TDash # b) = tcmp a b"
  "tcmp (TCaret # a) (TCaret # b) = tcmp a b" "tcmp (TDot # a) (TDot # b) = tcmp a b"
  "tcmp (TNum m # a) (TNum n # b) = then_ord (num_cmp m n) (tcmp a b)"
  "tcmp (TNum m # a) (TAlpha y # b) = (if m \<noteq> [] then Greater else tcmp a (TAlpha y # b))"
  "tcmp (TAlpha x # a) (TNum n # b) = (if n \<noteq> [] then Less else tcmp (TAlpha x # a) b)"
  "tcmp (TAlpha x # a) (TAlpha y # b) = then_ord (rcmp x y) (tcmp a b)"
  by (subst tcmp.simps, simp add: trank_def)+

lemma then_ord_trans:
  assumes "comparator c UNIV"
    and "then_ord (c x y) d1 \<noteq> Greater" "then_ord (c y z) d2 \<noteq> Greater"
    and "d1 \<noteq> Greater \<Longrightarrow> d2 \<noteq> Greater \<Longrightarrow> d3 \<noteq> Greater"
  shows "then_ord (c x z) d3 \<noteq> Greater"
proof -
  have le: "c x y \<noteq> Greater" "c y z \<noteq> Greater" using assms(2,3) by (auto simp: then_ord_eq_Greater)
  show ?thesis
  proof (cases "c x y = Equal \<and> c y z = Equal")
    case True
    then have "d3 \<noteq> Greater" using assms(2-4) by (auto simp: then_ord_eq_Greater)
    moreover have "c x z \<noteq> Greater" using comparator.cmp_trans [OF assms(1), of x y z] le by simp
    ultimately show ?thesis by (simp add: then_ord_eq_Greater)
  next
    case False
    then have "c x y = Less \<or> c y z = Less" using le by (cases "c x y"; cases "c y z") auto
    then have "c x z = Less"
      using comparator.cmp_less_le_trans [OF assms(1), of x y z]
        comparator.cmp_le_less_trans [OF assms(1), of x y z] le by blast
    then show ?thesis by simp
  qed
qed

lemma tcmp_sym: "tcmp b a = ord_reverse (tcmp a b)"
proof (induction "length a + length b" arbitrary: a b rule: less_induct)
  case less
  show ?case
  proof (cases "trank a = trank b")
    case False
    then show ?thesis
      by (metis linorder_neqE_nat ord_reverse.simps(1) ord_reverse_reverse rcmp_reverse tcmp.simps)
  next
    case True
    have IH: "tcmp d c = ord_reverse (tcmp c d)" if "length c + length d < length a + length b" for c d
      using less [of c d] that by simp
    show ?thesis
    proof (cases a)
      case Nil
      with True have "b = []" by (cases b) (auto simp: trank_def split: vtok.splits)
      with Nil show ?thesis by (simp add: tcmp_Cons)
    next
      case (Cons t as)
      with True obtain u bs where b: "b = u # bs"
        by (cases b) (auto simp: trank_def split: vtok.splits)
      show ?thesis
        using True IH [of as bs] IH [of a bs] IH [of as b]
          nc.cmp_sym [of "case t of TNum m \<Rightarrow> m | _ \<Rightarrow> []" "case u of TNum m \<Rightarrow> m | _ \<Rightarrow> []"]
          rcmp_reverse [of "case t of TAlpha m \<Rightarrow> m | _ \<Rightarrow> []" "case u of TAlpha m \<Rightarrow> m | _ \<Rightarrow> []"]
        by (cases t; cases u) (auto simp: Cons b trank_def tcmp_Cons)
    qed
  qed
qed

lemma tcmp_trans_same_rank:
  assumes IH: "\<And>x y z. length x + length y + length z < length a + length b + length c \<Longrightarrow>
      tcmp x y \<noteq> Greater \<Longrightarrow> tcmp y z \<noteq> Greater \<Longrightarrow> tcmp x z \<noteq> Greater"
    and rank: "trank a = trank b" "trank b = trank c"
    and ab: "tcmp a b \<noteq> Greater" and bc: "tcmp b c \<noteq> Greater"
  shows "tcmp a c \<noteq> Greater"
proof (cases a)
  case Nil
  with rank have "c = []" by (cases b; cases c) (auto simp: trank_def split: vtok.splits)
  with Nil show ?thesis by (simp add: tcmp_Cons)
next
  case (Cons t as)
  with rank obtain u bs v cs where b: "b = u # bs" and c: "c = v # cs"
    by (cases b; cases c) (auto simp: trank_def split: vtok.splits)
  note tails = IH [of as bs cs] IH [of as bs c] IH [of as b cs] IH [of a bs cs] IH [of a bs c]
    IH [of as b c] IH [of a b cs]
  have num: "then_ord (num_cmp m k) (tcmp as cs) \<noteq> Greater"
    if "then_ord (num_cmp m n) (tcmp as bs) \<noteq> Greater" "then_ord (num_cmp n k) (tcmp bs cs) \<noteq> Greater"
    for m n k
    using then_ord_trans [OF num_cmp_comparator that] tails(1) by (simp add: Cons b c)
  have alpha: "then_ord (rcmp m k) (tcmp as cs) \<noteq> Greater"
    if "then_ord (rcmp m n) (tcmp as bs) \<noteq> Greater" "then_ord (rcmp n k) (tcmp bs cs) \<noteq> Greater"
    for m n k :: string
    using then_ord_trans [OF rcmp_order.comparator_axioms that] tails(1) by (simp add: Cons b c)
  show ?thesis
  proof (cases "trank a = 5")
    case False
    then have "u = t" "v = t" "t \<in> {TTilde, TDash, TCaret, TDot}"
      using rank by (auto simp: Cons b c trank_def split: vtok.splits)
    moreover from this have "tcmp as bs \<noteq> Greater" "tcmp bs cs \<noteq> Greater"
      using ab bc by (auto simp: Cons b c tcmp_Cons)
    then have "tcmp as cs \<noteq> Greater" using tails(1) by (simp add: Cons b c)
    ultimately show ?thesis by (auto simp: Cons b c tcmp_Cons)
  next
    case True
    have kind: "(\<exists>m. x = TNum m) \<or> (\<exists>m. x = TAlpha m)" if "trank (x # xs) = 5" for x xs
      using that by (cases x) (simp_all add: trank_def)
    have "(\<exists>m. t = TNum m) \<or> (\<exists>m. t = TAlpha m)" "(\<exists>m. u = TNum m) \<or> (\<exists>m. u = TAlpha m)"
      "(\<exists>m. v = TNum m) \<or> (\<exists>m. v = TAlpha m)"
      using True rank kind by (auto simp: Cons b c)
    then show ?thesis
    proof (elim disjE exE)
      fix m n k assume "t = TNum m" "u = TNum n" "v = TNum k"
      then show ?thesis using ab bc num [of m n k] by (simp add: Cons b c tcmp_Cons)
    next
      fix m n k assume "t = TAlpha m" "u = TAlpha n" "v = TAlpha k"
      then show ?thesis using ab bc alpha [of m n k] by (simp add: Cons b c tcmp_Cons)
    next
      fix m n k assume *: "t = TNum m" "u = TNum n" "v = TAlpha k"
      then have "n = []" "m = []" "tcmp as bs \<noteq> Greater" "tcmp bs c \<noteq> Greater"
        using ab bc by (auto simp: Cons b c tcmp_Cons then_ord_eq_Greater split: if_splits)
      then show ?thesis using tails(2) * by (simp add: Cons b c tcmp_Cons)
    next
      fix m n k assume *: "t = TNum m" "u = TAlpha n" "v = TNum k"
      then have "m = []" "tcmp as b \<noteq> Greater"
        using ab by (auto simp: Cons b tcmp_Cons split: if_splits)
      then show ?thesis using tails(3) bc * by (cases "k = []") (auto simp: Cons b c tcmp_Cons)
    next
      fix m n k assume *: "t = TAlpha m" "u = TNum n" "v = TNum k"
      then show ?thesis using ab bc tails(4) 
        by (cases "n = []"; cases "k = []") (auto simp: Cons b c tcmp_Cons then_ord_eq_Greater)
    next
      fix m n k assume *: "t = TAlpha m" "u = TNum n" "v = TAlpha k"
      then show ?thesis using ab bc tails(5)
        by (cases "n = []") (auto simp: Cons b c tcmp_Cons)
    next
      fix m n k assume *: "t = TNum m" "u = TAlpha n" "v = TAlpha k"
      then show ?thesis using ab bc tails(6)
        by (cases "m = []") (auto simp: Cons b c tcmp_Cons)
    next
      fix m n k assume *: "t = TAlpha m" "u = TAlpha n" "v = TNum k"
      then show ?thesis using ab bc tails(7)
        by (cases "k = []") (auto simp: Cons b c tcmp_Cons)
    qed
  qed
qed

lemma tcmp_trans: "tcmp a b \<noteq> Greater \<Longrightarrow> tcmp b c \<noteq> Greater \<Longrightarrow> tcmp a c \<noteq> Greater"
proof (induction "length a + length b + length c" arbitrary: a b c rule: less_induct)
  case less
  have le: "trank a \<le> trank b" "trank b \<le> trank c" using less.prems tcmp_rank by blast+
  show ?case
  proof (cases "trank a = trank b \<and> trank b = trank c")
    case True
    then show ?thesis using less.hyps less.prems by (intro tcmp_trans_same_rank [of a b c]) auto
  next
    case False
    with le have "trank a < trank c" by linarith
    then show ?thesis by (simp add: tcmp_rank_less)
  qed
qed

text \<open>The comparison of version strings is the comparison of their token lists.\<close>

lemma skip_seps_Nil_or_version_char: "skip_seps s \<noteq> [] \<Longrightarrow> is_version_char (hd (skip_seps s))"
  unfolding skip_seps_def using hd_dropWhile [of "\<lambda>c. \<not> is_version_char c" s] by simp

lemma alpha_not_digit: "is_ascii_alphabetic c \<Longrightarrow> \<not> is_ascii_digit c"
  by (auto simp: is_ascii_alphabetic_def is_ascii_digit_def)

lemma alpha_not_special:
  "is_ascii_alphabetic c \<Longrightarrow> c \<noteq> CHR ''~'' \<and> c \<noteq> CHR ''-'' \<and> c \<noteq> CHR ''^'' \<and> c \<noteq> CHR ''.'' \<and> c \<noteq> CHR ''0''"
  by (auto simp: is_ascii_alphabetic_def)

lemma digit_not_special:
  "is_ascii_digit c \<Longrightarrow> c \<noteq> CHR ''~'' \<and> c \<noteq> CHR ''-'' \<and> c \<noteq> CHR ''^'' \<and> c \<noteq> CHR ''.''"
  by (auto simp: is_ascii_digit_def)

lemma version_char_cases:
  "is_version_char c \<longleftrightarrow> c = CHR ''~'' \<or> c = CHR ''-'' \<or> c = CHR ''^'' \<or> c = CHR ''.'' \<or>
     is_ascii_digit c \<or> is_ascii_alphabetic c"
  by (auto simp: is_version_char_def is_ascii_alphanumeric_def)

lemma alpha_number_empty:
  "s \<noteq> [] \<Longrightarrow> is_ascii_alphabetic (hd s) \<Longrightarrow>
   takeWhile is_ascii_digit (skip_zeros s) = [] \<and> dropWhile is_ascii_digit (skip_zeros s) = s"
  by (cases s) (auto simp: skip_zeros_def alpha_not_digit alpha_not_special)

lemma skip_seps_idem [simp]: "skip_seps (skip_seps s) = skip_seps s"
  by (simp add: skip_seps_def)

lemma vtokens_skip_seps: "vtokens (skip_seps s) = vtokens s"
  by (subst (1 2) vtokens.simps) simp

definition hrank :: "string \<Rightarrow> nat" where
  "hrank s = (if s = [] then 1 else if hd s = CHR ''~'' then 0 else if hd s = CHR ''-'' then 2
     else if hd s = CHR ''^'' then 3 else if hd s = CHR ''.'' then 4 else 5)"

lemma trank_vtokens:
  assumes "skip_seps s = s"
  shows "trank (vtokens s) = hrank s"
proof -
  have "s \<noteq> [] \<Longrightarrow> is_version_char (hd s)" using skip_seps_Nil_or_version_char [of s] assms by simp
  then show ?thesis
    by (subst vtokens.simps) (auto simp: assms trank_def hrank_def version_char_cases)
qed

lemma version_compare_rank:
  assumes "hrank (skip_seps a) \<noteq> hrank (skip_seps b)"
  shows "version_compare a b = rcmp (hrank (skip_seps a)) (hrank (skip_seps b))"
  using assms
  by (subst version_compare.simps)
     (auto simp: hrank_def rcmp_def starts_with_char_def split: if_splits)

lemma vtokens_special:
  assumes "skip_seps s = s" "s \<noteq> []" "hrank s \<noteq> 5"
  shows "\<exists>t\<in>{TTilde, TDash, TCaret, TDot}. vtokens s = t # vtokens (tl s)"
  using assms by (subst vtokens.simps) (auto simp: hrank_def split: if_splits)

lemma vtokens_number:
  assumes "skip_seps s = s" "s \<noteq> []" "is_ascii_digit (hd s)"
  shows "vtokens s = TNum (takeWhile is_ascii_digit (skip_zeros s))
     # vtokens (dropWhile is_ascii_digit (skip_zeros s))"
  using assms digit_not_special [OF assms(3)] by (subst vtokens.simps) simp

lemma vtokens_alpha:
  assumes "skip_seps s = s" "s \<noteq> []" "is_ascii_alphabetic (hd s)"
  shows "vtokens s = TAlpha (takeWhile is_ascii_alphabetic s) # vtokens (dropWhile is_ascii_alphabetic s)"
  using assms alpha_not_special [OF assms(3)] alpha_not_digit [OF assms(3)]
  by (subst vtokens.simps) simp

lemma version_compare_special:
  assumes "skip_seps a \<noteq> []" "hrank (skip_seps a) = hrank (skip_seps b)" "hrank (skip_seps a) \<noteq> 5"
  shows "version_compare a b = version_compare (tl (skip_seps a)) (tl (skip_seps b))"
  using assms
  by (subst version_compare.simps) (auto simp: hrank_def starts_with_char_def split: if_splits)

lemma hrank_1: "hrank s = 1 \<longleftrightarrow> s = []"
  by (auto simp: hrank_def)

lemma hrank_5: "hrank s = 5 \<longleftrightarrow> s \<noteq> [] \<and> hd s \<notin> {CHR ''~'', CHR ''-'', CHR ''^'', CHR ''.''}"
  by (auto simp: hrank_def)

lemma version_compare_numbers:
  assumes "a = skip_seps a0" "b = skip_seps b0" "hrank a = 5" "hrank b = 5"
    and "is_ascii_digit (hd a) \<or> is_ascii_digit (hd b)"
  shows "version_compare a0 b0 =
    then_ord (num_cmp (takeWhile is_ascii_digit (skip_zeros a)) (takeWhile is_ascii_digit (skip_zeros b)))
      (version_compare (dropWhile is_ascii_digit (skip_zeros a)) (dropWhile is_ascii_digit (skip_zeros b)))"
proof -
  have *: "(if m \<noteq> n then rcmp m n else x) = then_ord (rcmp m n) x" for m n :: nat and x
    by (cases "m < n") (auto simp: rcmp_def)
  have **: "then_ord (then_ord c d) e = then_ord c (then_ord d e)" for c d e
    by (cases c) auto
  show ?thesis
    using assms(3-5)
    by (subst version_compare.simps)
       (simp add: hrank_5 starts_with_char_def num_cmp_def Let_def * ** flip: assms(1,2))
qed

lemma version_compare_alphas:
  assumes "a = skip_seps a0" "b = skip_seps b0" "hrank a = 5" "hrank b = 5"
    and "is_ascii_alphabetic (hd a)" "is_ascii_alphabetic (hd b)"
  shows "version_compare a0 b0 =
    then_ord (rcmp (takeWhile is_ascii_alphabetic a) (takeWhile is_ascii_alphabetic b))
      (version_compare (dropWhile is_ascii_alphabetic a) (dropWhile is_ascii_alphabetic b))"
  using assms(3-6) alpha_not_digit
  by (subst version_compare.simps) (simp add: hrank_5 starts_with_char_def flip: assms(1,2))

lemma version_compare_tcmp: "version_compare a b = tcmp (vtokens a) (vtokens b)"
proof (induction "length a + length b" arbitrary: a b rule: less_induct)
  case (less a0 b0)
  define a b where ab: "a = skip_seps a0" "b = skip_seps b0"
  have toks: "vtokens a0 = vtokens a" "vtokens b0 = vtokens b"
    by (simp_all add: ab vtokens_skip_seps)
  have skip: "skip_seps a = a" "skip_seps b = b" by (simp_all add: ab)
  have len: "length a \<le> length a0" "length b \<le> length b0" using length_skip_seps by (auto simp: ab)
  have IH: "version_compare x y = tcmp (vtokens x) (vtokens y)"
    if "length x + length y < length a + length b" for x y
    using less that len by simp
  consider (rank) "hrank a \<noteq> hrank b" | (nil) "a = []" "b = []"
    | (special) "a \<noteq> []" "b \<noteq> []" "hrank a = hrank b" "hrank a \<noteq> 5"
    | (num) "hrank a = 5" "hrank b = 5" "is_ascii_digit (hd a) \<or> is_ascii_digit (hd b)"
    | (alpha) "hrank a = 5" "hrank b = 5" "\<not> is_ascii_digit (hd a)" "\<not> is_ascii_digit (hd b)"
    using hrank_1 [of a] hrank_1 [of b] by metis
  then show ?case
  proof cases
    case rank
    then show ?thesis
      using version_compare_rank [of a0 b0] trank_vtokens [OF skip(1)] trank_vtokens [OF skip(2)]
      by (subst tcmp.simps) (simp add: toks ab)
  next
    case nil
    then have "vtokens a = []" "vtokens b = []" by (subst vtokens.simps, simp add: skip_seps_def)+
    with nil show ?thesis
      by (subst version_compare.simps) (simp add: toks tcmp_Cons starts_with_char_def flip: ab)
  next
    case special
    obtain t u where t: "vtokens a = t # vtokens (tl a)" "t \<in> {TTilde, TDash, TCaret, TDot}"
      and u: "vtokens b = u # vtokens (tl b)" "u \<in> {TTilde, TDash, TCaret, TDot}"
      using vtokens_special [OF skip(1)] vtokens_special [OF skip(2)] special by force
    have "trank (vtokens a) = trank (vtokens b)" using special trank_vtokens skip by simp
    then have "u = t" using t u by (auto simp: trank_def)
    moreover have "length (tl a) + length (tl b) < length a + length b"
      using special by (cases a; cases b) auto
    ultimately show ?thesis
      using version_compare_special [of a0 b0] IH special t u by (auto simp: toks tcmp_Cons ab)
  next
    case num
    have alpha: "is_ascii_alphabetic (hd s)" if "skip_seps s = s" "hrank s = 5" "\<not> is_ascii_digit (hd s)" for s
      using skip_seps_Nil_or_version_char [of s] that by (auto simp: hrank_5 version_char_cases)
    let ?na = "takeWhile is_ascii_digit (skip_zeros a)" and ?ra = "dropWhile is_ascii_digit (skip_zeros a)"
    let ?nb = "takeWhile is_ascii_digit (skip_zeros b)" and ?rb = "dropWhile is_ascii_digit (skip_zeros b)"
    have "length ?ra + length ?rb < length a + length b"
      using num length_after_number_le [of a] length_after_number_le [of b]
        length_after_number_less [of a] length_after_number_less [of b] by (auto simp: hrank_5)
    then have eq: "version_compare a0 b0 = then_ord (num_cmp ?na ?nb) (tcmp (vtokens ?ra) (vtokens ?rb))"
      using version_compare_numbers [OF ab num] IH by simp
    show ?thesis
    proof (cases "is_ascii_digit (hd a) \<and> is_ascii_digit (hd b)")
      case True
      then show ?thesis
        using eq vtokens_number [OF skip(1)] vtokens_number [OF skip(2)] num
        by (simp add: toks tcmp_Cons hrank_5)
    next
      case False
      show ?thesis
      proof (cases "is_ascii_digit (hd a)")
        case True
        then have b: "is_ascii_alphabetic (hd b)" using False alpha skip num by blast
        then have "?nb = []" "?rb = b" using alpha_number_empty [of b] num by (auto simp: hrank_5)
        then show ?thesis
          using eq vtokens_number [OF skip(1)] vtokens_alpha [OF skip(2)] num True b
          by (cases "?na = []") (auto simp: toks tcmp_Cons hrank_5 then_ord_eq_Greater)
      next
        case False
        then have a: "is_ascii_alphabetic (hd a)" "is_ascii_digit (hd b)" using alpha skip num by blast+
        then have "?na = []" "?ra = a" using alpha_number_empty [of a] num by (auto simp: hrank_5)
        then show ?thesis
          using eq vtokens_number [OF skip(2)] vtokens_alpha [OF skip(1)] num a
          by (cases "?nb = []") (auto simp: toks tcmp_Cons hrank_5 then_ord_eq_Less)
      qed
    qed
  next
    case alpha
    have al: "is_ascii_alphabetic (hd a)" "is_ascii_alphabetic (hd b)"
      using skip_seps_Nil_or_version_char [of a] skip_seps_Nil_or_version_char [of b] skip alpha
      by (auto simp: hrank_5 version_char_cases)
    have "length (dropWhile is_ascii_alphabetic a) + length (dropWhile is_ascii_alphabetic b)
        < length a + length b"
      using length_after_alpha_less [of a] length_after_alpha_less [of b] alpha al by (auto simp: hrank_5)
    then show ?thesis
      using version_compare_alphas [OF ab alpha(1,2) al] IH vtokens_alpha [OF skip(1)]
        vtokens_alpha [OF skip(2)] alpha al by (simp add: toks tcmp_Cons hrank_5)
  qed
qed

lemma version_compare_comparator: "comparator version_compare UNIV"
proof
  show "version_compare y x = ord_reverse (version_compare x y)" for x y
    unfolding version_compare_tcmp by (rule tcmp_sym)
  show "version_compare x z \<noteq> Greater"
    if "version_compare x y \<noteq> Greater" "version_compare y z \<noteq> Greater" for x y z
    using that unfolding version_compare_tcmp by (rule tcmp_trans)
qed

interpretation vc: comparator version_compare UNIV
  by (rule version_compare_comparator)

subsection \<open>The sort comparison on entries of one kind\<close>

lemma cmp_opt_str_comparator: "comparator cmp_opt_str UNIV"
proof
  show "cmp_opt_str y x = ord_reverse (cmp_opt_str x y)" for x y
    by (cases x; cases y) (simp_all add: rcmp_reverse [symmetric])
  show "cmp_opt_str x z \<noteq> Greater"
    if "cmp_opt_str x y \<noteq> Greater" "cmp_opt_str y z \<noteq> Greater" for x y z
    using that by (cases x; cases y; cases z) auto
qed

interpretation cos: comparator cmp_opt_str UNIV
  by (rule cmp_opt_str_comparator)

text \<open>The source's chain of early returns as a lexicographic comparison of keys, for entries that
  agree on whether they have a version.\<close>

definition versioned :: "bool \<Rightarrow> BlsEntry set" where
  "versioned b = {e. (be_version e \<noteq> None) = b}"

definition bool_cmp :: "bool \<Rightarrow> bool \<Rightarrow> Ordering" where
  "bool_cmp p q = rcmp (if p then 1 else 0 :: nat) (if q then 1 else 0)"

lemma bool_cmp_comparator: "comparator (\<lambda>x y. bool_cmp (f x) (f y)) S"
  unfolding bool_cmp_def
  by (rule comparator_key_on [OF rcmp_order.comparator_axioms, where f = "\<lambda>x. if f x then 1 else 0 :: nat"])
     simp

lemma filename_fallback_comparator: "comparator filename_fallback (versioned b)"
proof (cases b)
  case True
  have eq: "filename_fallback x y = ord_reverse (version_compare (be_id x) (be_id y))"
    if "x \<in> versioned b" "y \<in> versioned b" for x y
    using that True by (simp add: filename_fallback_def versioned_def)
  have "comparator (\<lambda>x y. ord_reverse (version_compare (be_id x) (be_id y))) (versioned b)"
    by (intro comparator_reverse comparator_key_on [OF version_compare_comparator]) simp
  then show ?thesis by (rule comparator_cong) (rule eq)
next
  case False
  have eq: "filename_fallback x y = rcmp (be_id x) (be_id y)"
    if "x \<in> versioned b" "y \<in> versioned b" for x y
    using that False by (simp add: filename_fallback_def versioned_def)
  have "comparator (\<lambda>x y. rcmp (be_id x) (be_id y)) (versioned b)"
    by (intro comparator_key_on [OF rcmp_order.comparator_axioms]) simp
  then show ?thesis by (rule comparator_cong) (rule eq)
qed

definition sort_keys :: "bool \<Rightarrow> BlsEntry \<Rightarrow> BlsEntry \<Rightarrow> Ordering" where
  "sort_keys ignore a b =
     then_ord (bool_cmp (boot_count_state a = Bad) (boot_count_state b = Bad))
       (then_ord (bool_cmp (\<not> ignore \<and> be_sort_key a = None) (\<not> ignore \<and> be_sort_key b = None))
         (then_ord (cmp_opt_str (if ignore then None else be_sort_key a)
                      (if ignore then None else be_sort_key b))
           (then_ord (cmp_opt_str (if ignore \<or> be_sort_key a \<noteq> None then be_machine_id a else None)
                        (if ignore \<or> be_sort_key b \<noteq> None then be_machine_id b else None))
             (then_ord (ord_reverse (version_compare
                          (if ignore \<or> be_sort_key a \<noteq> None then opt_or_empty (be_version a) else [])
                          (if ignore \<or> be_sort_key b \<noteq> None then opt_or_empty (be_version b) else [])))
               (filename_fallback a b)))))"

lemma sort_keys_comparator: "comparator (sort_keys ignore) (versioned b)"
  unfolding sort_keys_def
  by (intro comparator_then comparator_reverse bool_cmp_comparator filename_fallback_comparator
      comparator_key_on [OF cmp_opt_str_comparator] comparator_key_on [OF version_compare_comparator])
     simp_all

lemma bls_sort_compare_keys:
  assumes "a \<in> versioned v" "b \<in> versioned v"
  shows "bls_sort_compare a b ignore = sort_keys ignore a b"
proof -
  have nil: "version_compare [] [] = Equal" using vc.cmp_refl by simp
  have b: "bool_cmp True False = Greater" "bool_cmp False True = Less" "bool_cmp x x = Equal" for x
    by (simp_all add: bool_cmp_def)
  show ?thesis
    using assms
    by (auto simp: bls_sort_compare_def sort_keys_def Let_def versioned_def b nil opt_or_empty_def
        split: option.splits)
qed

lemma bls_sort_compare_comparator: "comparator (\<lambda>a b. bls_sort_compare a b ignore) (versioned v)"
  using sort_keys_comparator by (rule comparator_cong) (rule bls_sort_compare_keys)

interpretation bls_versioned: comparator "\<lambda>a b. bls_sort_compare a b ignore" "versioned v" for ignore v
  by (rule bls_sort_compare_comparator)

subsection \<open>What the parser guarantees\<close>

text \<open>An EFI path as the loader expects it: it begins with a backslash and has no slash.\<close>

definition efi_path :: "string \<Rightarrow> bool" where
  "efi_path p \<longleftrightarrow> prefix [CHR 0x5C] p \<and> CHR ''/'' \<notin> set p"

lemma efi_path_normalize: "efi_path (normalize_path p)"
  by (auto simp: efi_path_def normalize_path_def replace_char_def Let_def prefix_def)

text \<open>The invariant of the line loop, relative to the file name.\<close>

definition entry_inv :: "string \<Rightarrow> BlsEntry \<Rightarrow> bool" where
  "entry_inv filename e \<longleftrightarrow>
     be_filename e = filename \<and>
     (be_id e, be_tries_left e, be_tries_done e) = parse_counters filename \<and>
     (\<forall>p. be_linux e = Some p \<longrightarrow> efi_path p) \<and> (\<forall>p. be_efi e = Some p \<longrightarrow> efi_path p) \<and>
     (\<forall>p\<in>set (be_initrd e). efi_path p)"

lemma entry_inv_empty: "entry_inv filename (empty_entry filename)"
  by (simp add: entry_inv_def empty_entry_def split: prod.split)

lemma entry_inv_parse_line: "entry_inv filename e \<Longrightarrow> entry_inv filename (parse_line e line)"
  by (auto simp: entry_inv_def parse_line_def apply_field_def Let_def efi_path_normalize)

lemma entry_inv_lines: "entry_inv filename e \<Longrightarrow> entry_inv filename (foldl parse_line e ls)"
  by (induction ls arbitrary: e) (simp_all add: entry_inv_parse_line)

lemma bls_parse_inv:
  "bls_parse filename content = Some e \<Longrightarrow>
   entry_inv filename e \<and> (be_linux e \<noteq> None \<or> be_efi e \<noteq> None)"
  using entry_inv_lines [OF entry_inv_empty, of filename "str_lines content"]
  by (auto simp: bls_parse_def Let_def split: if_splits)

lemma split_strip_grub_variables:
  "split_whitespace (strip_grub_variables s) = filter (\<lambda>t. \<not> prefix ''$'' t) (split_whitespace s)"
  unfolding strip_grub_variables_def
  by (rule split_whitespace_join) (use split_whitespace_tokens in auto)

subsection \<open>Properties\<close>

text \<open>C14: The version comparison is a total preorder on all strings: it is reflexive, swapping the
  arguments reverses the result, and not-greater is transitive.  The equality of two differently
  written versions (\<open>1.02\<close> and \<open>1.2\<close>) is therefore consistent.\<close>

theorem version_compare_total_preorder:
  "version_compare a a = Equal \<and> version_compare b a = ord_reverse (version_compare a b) \<and>
   (version_compare a b \<noteq> Greater \<longrightarrow> version_compare b c \<noteq> Greater \<longrightarrow>
    version_compare a c \<noteq> Greater)"
  using vc.cmp_refl vc.cmp_sym vc.cmp_trans by blast

lemmas version_eval = version_compare_tcmp vtokens.simps skip_seps_def is_version_char_def
  is_ascii_alphanumeric_def is_ascii_alphabetic_def is_ascii_digit_def skip_zeros_def Let_def

theorem version_compare_total_preorder_witness:
  "version_compare ''6.1~rc1'' ''6.1'' = Less \<and> version_compare ''6.1'' ''6.10'' = Less \<and>
   version_compare ''6.1~rc1'' ''6.10'' \<noteq> Greater"
proof -
  have "vtokens ''6.1~rc1'' = [TNum ''6'', TDot, TNum ''1'', TTilde, TAlpha ''rc'', TNum ''1'']"
    "vtokens ''6.1'' = [TNum ''6'', TDot, TNum ''1'']"
    "vtokens ''6.10'' = [TNum ''6'', TDot, TNum ''10'']"
    by (simp_all add: version_eval)
  then have "version_compare ''6.1~rc1'' ''6.1'' = Less" "version_compare ''6.1'' ''6.10'' = Less"
    by (simp_all add: version_compare_tcmp tcmp_Cons tcmp_rank_less trank_def num_cmp_def
        then_ord_eq_Less)
  then show ?thesis
    using version_compare_total_preorder [of "''6.1~rc1''" "''6.1''" "''6.10''"] by simp
qed

text \<open>C17: If all entries of a volume state a version, or none does, the scan's sort is well defined
  for either policy setting: the result is a permutation in which no entry compares greater than a
  later one, and entries whose tries are used up come after all others.\<close>

theorem bls_sort_orders_entries:
  assumes "set es \<subseteq> versioned v"
  shows "sorted_wrt (\<lambda>a b. bls_sort_compare a b ignore \<noteq> Greater)
           (sort_by (\<lambda>a b. bls_sort_compare a b ignore) es) \<and>
         mset (sort_by (\<lambda>a b. bls_sort_compare a b ignore) es) = mset es \<and>
         sorted_wrt (\<lambda>a b. boot_count_state a = Bad \<longrightarrow> boot_count_state b = Bad)
           (sort_by (\<lambda>a b. bls_sort_compare a b ignore) es)"
proof -
  have sorted: "sorted_wrt (\<lambda>a b. bls_sort_compare a b ignore \<noteq> Greater)
      (sort_by (\<lambda>a b. bls_sort_compare a b ignore) es)"
    using assms by (rule bls_versioned.sorted_sort_by)
  moreover have "boot_count_state a = Bad \<longrightarrow> boot_count_state b = Bad"
    if "bls_sort_compare a b ignore \<noteq> Greater" for a b
    using that by (auto simp: bls_sort_compare_def Let_def split: if_splits)
  ultimately show ?thesis
    by (auto elim: sorted_wrt_mono_rel [rotated])
qed

definition sample_entry :: "string \<Rightarrow> string option \<Rightarrow> BlsEntry" where
  "sample_entry name v = (empty_entry name)\<lparr>be_id := name, be_version := v, be_linux := Some ''/k''\<rparr>"

theorem bls_sort_orders_entries_witness:
  "mset (sort_by (\<lambda>a b. bls_sort_compare a b False)
      [sample_entry ''a'' (Some ''6.1''), sample_entry ''b'' (Some ''6.2'')]) =
   mset [sample_entry ''a'' (Some ''6.1''), sample_entry ''b'' (Some ''6.2'')]"
proof -
  have "set [sample_entry ''a'' (Some ''6.1''), sample_entry ''b'' (Some ''6.2'')] \<subseteq> versioned True"
    by (simp add: versioned_def sample_entry_def)
  from bls_sort_orders_entries [OF this, of False] show ?thesis by blast
qed

text \<open>Without that agreement the sort comparison is not an order.  Three entries without
  sort-key, two of them with a version, form a cycle: \<open>a\<close> sorts before \<open>b\<close> (ascending names, since
  \<open>b\<close> has no version), \<open>b\<close> before \<open>c\<close> likewise, and \<open>c\<close> before \<open>a\<close> (descending names, both have a
  version).  The sort of the scan is called with a comparison that breaks its contract.\<close>

theorem bls_sort_compare_cycle:
  "\<exists>a b c. bls_sort_compare a b False = Less \<and> bls_sort_compare b c False = Less \<and>
     bls_sort_compare c a False = Less"
proof -
  let ?a = "sample_entry ''a'' (Some ''1'')" and ?b = "sample_entry ''b'' None"
    and ?c = "sample_entry ''c'' (Some ''1'')"
  have good: "boot_count_state (sample_entry i v) = Good"
      if "CHR ''+'' \<notin> set i" "last i \<noteq> CHR ''f''" "i \<noteq> []" for i v
  proof -
    have "\<not> (\<exists>t. i = t @ ''.conf'')" using that by auto
    then have "trim_end_matches ''.conf'' i = i" by (rule trim_end_matches_no)
    then have "parse_counters i = (i, None, None)"
      using that rsplit_once_None_iff [of "CHR ''+''" i] by (simp add: parse_counters_def)
    then show ?thesis by (simp add: boot_count_state_def sample_entry_def empty_entry_def)
  qed
  have fields: "be_sort_key (sample_entry i v) = None" "be_version (sample_entry i v) = v"
      "be_id (sample_entry i v) = i" for i v
    by (simp_all add: sample_entry_def empty_entry_def split: prod.split)
  have "vtokens ''a'' = [TAlpha ''a'']" "vtokens ''c'' = [TAlpha ''c'']"
    by (simp_all add: version_eval)
  then have "version_compare ''c'' ''a'' = Greater"
    by (simp add: version_compare_tcmp tcmp_Cons then_ord_eq_Greater)
  then have "bls_sort_compare ?a ?b False = Less \<and> bls_sort_compare ?b ?c False = Less \<and>
      bls_sort_compare ?c ?a False = Less"
    by (simp add: bls_sort_compare_def filename_fallback_def good fields)
  then show ?thesis by blast
qed

text \<open>C18: What a parsed entry holds: it names a kernel or an EFI program; the kernel, the EFI program
  and every initrd are backslash paths without slashes; the identifier and the boot counters are
  those of the file name.\<close>

theorem bls_parse_well_formed:
  assumes "bls_parse filename content = Some e"
  shows "(be_linux e \<noteq> None \<or> be_efi e \<noteq> None) \<and>
    (\<forall>p\<in>set_option (be_linux e) \<union> set_option (be_efi e) \<union> set (be_initrd e). efi_path p) \<and>
    be_filename e = filename \<and>
    (be_id e, be_tries_left e, be_tries_done e) = parse_counters filename"
  using bls_parse_inv [OF assms] by (auto simp: entry_inv_def)

definition sample_conf :: string where
  "sample_conf = ''title Arch'' @ [CHR 0x0A] @ ''linux /vmlinuz'' @ [CHR 0x0A] @ ''options quiet''"

lemma sample_conf_parses: "\<exists>e. bls_parse ''arch+3.conf'' sample_conf = Some e \<and> be_linux e = Some (CHR 0x5C # ''vmlinuz'')"
  by (simp add: bls_parse_def sample_conf_def str_lines_def strip_cr_def parse_line_def trim_def
      trim_start_def trim_end_def is_whitespace_def is_ascii_whitespace_def apply_field_def
      normalize_path_def replace_char_def empty_entry_def split: prod.split)

theorem bls_parse_well_formed_witness:
  "\<exists>e. bls_parse ''arch+3.conf'' sample_conf = Some e \<and> be_filename e = ''arch+3.conf''"
  using sample_conf_parses bls_parse_well_formed [of "''arch+3.conf''" sample_conf] by blast

text \<open>The command line handed to the kernel consists of exactly the words of the entry's
  \<open>options\<close> lines that are not GRUB variables, in order; removing the variables a second time
  changes nothing.\<close>

theorem combined_options_words:
  "split_whitespace (combined_options e) =
     filter (\<lambda>t. \<not> prefix ''$'' t) (split_whitespace (str_join '' '' (be_options e))) \<and>
   strip_grub_variables (combined_options e) = combined_options e"
proof -
  have "split_whitespace (strip_grub_variables s) = filter (\<lambda>t. \<not> prefix ''$'' t) (split_whitespace s)" for s
    by (rule split_strip_grub_variables)
  then show ?thesis
    by (simp add: combined_options_def strip_grub_variables_def [of "strip_grub_variables _"])
       (simp add: strip_grub_variables_def)
qed

end
