(* ===== verification/Boot_Types.thy ===== *)
theory Boot_Types
  imports Rust_Str
begin

section \<open>Boot entries and preflight results\<close>

text \<open>Model of \<open>lamboot-core/src/boot_types.rs\<close>: the data every later component passes around.  A
  firmware handle is an opaque number.\<close>

datatype IsoSource =
    IsoFile (iso_path: string)
  | IsoOptical (iso_handle: nat) (iso_label: string)

datatype EntryKind =
    Chainload (chain_path: string)
  | Uki (uki_path: string) (uki_options: string)
  | LinuxLegacy (kernel_path: string) (initrd_paths: "string list") (linux_options: string)
  | Iso (iso_source: IsoSource)

datatype Icon = IconWindows | IconLinux | IconEfi | IconRecovery | IconNetwork | IconTools

datatype Severity = SevOk | SevWarning | SevError

record CheckResult =
  cr_severity :: Severity
  cr_message :: string

datatype PreflightStatus = PfOk | PfWarning | PfError

record PreflightResult =
  pf_status :: PreflightStatus
  pf_checks :: "CheckResult list"

definition from_checks :: "CheckResult list \<Rightarrow> PreflightResult" where
  "from_checks checks =
     \<lparr>pf_status =
        (if list_ex (\<lambda>c. cr_severity c = SevError) checks then PfError
         else if list_ex (\<lambda>c. cr_severity c = SevWarning) checks then PfWarning
         else PfOk),
      pf_checks = checks\<rparr>"

definition first_issue :: "PreflightResult \<Rightarrow> CheckResult option" where
  "first_issue r = find (\<lambda>c. cr_severity c \<noteq> SevOk) (pf_checks r)"

record BootEntry =
  en_id :: string
  en_name :: string
  en_kind :: EntryKind
  en_icon :: Icon
  en_bls_filename :: "string option"
  en_preflight :: "PreflightResult option"
  en_source_volume_index :: nat
  en_source_backend_tag :: string

text \<open>The status of a result is clean exactly when there is no first issue to show.\<close>

lemma from_checks_first_issue: "first_issue (from_checks cs) = None \<longleftrightarrow> pf_status (from_checks cs) = PfOk"
proof -
  have "find (\<lambda>c. cr_severity c \<noteq> SevOk) cs = None \<longleftrightarrow> (\<forall>c \<in> set cs. cr_severity c = SevOk)"
    by (auto simp: find_None_iff)
  then show ?thesis
    by (auto simp: first_issue_def from_checks_def list_ex_iff) (metis Severity.exhaust)
qed

end
