(* ===== verification/Fs_Types.thy ===== *)
theory Fs_Types
  imports Rust_Str
begin

section \<open>Canonical paths and file-system errors\<close>

text \<open>
  Model of \<open>lamboot-core/src/fs_types.rs\<close> (paths, metadata, directory entries), of the error type of
  \<open>fs_backend.rs\<close>, of \<open>read_limit_pure.rs\<close> and of the path and glob helpers of \<open>fs.rs\<close>.

  The lemmas show that \<open>path_from_str\<close> yields canonical paths only, that it is the identity on them,
  and that \<open>parent\<close>, \<open>file_name\<close> and \<open>join\<close> fit together.
\<close>

subsection \<open>Data\<close>

datatype PathError = PathEmpty | PathNotAbsolute | PathAboveRoot

datatype FsError =
    NotFound
  | PermissionDenied
  | IsDirectory
  | NotDirectory
  | InvalidPath string
  | Unsupported string
  | UnsupportedFeature string string
  | Corrupt string
  | IntegrityFailed string
  | FileTooLarge nat nat
  | FsIo string
  | BackendOther string

fun fs_as_log_token :: "FsError \<Rightarrow> string" where
  "fs_as_log_token NotFound = ''not_found''"
| "fs_as_log_token PermissionDenied = ''permission_denied''"
| "fs_as_log_token IsDirectory = ''is_directory''"
| "fs_as_log_token NotDirectory = ''not_directory''"
| "fs_as_log_token (InvalidPath why) = ''invalid_path''"
| "fs_as_log_token (Unsupported what) = ''unsupported''"
| "fs_as_log_token (UnsupportedFeature f b) = ''unsupported_feature''"
| "fs_as_log_token (Corrupt what) = ''fs_corrupt''"
| "fs_as_log_token (IntegrityFailed what) = ''integrity_failed''"
| "fs_as_log_token (FileTooLarge n m) = ''file_too_large''"
| "fs_as_log_token (FsIo status) = ''io_error''"
| "fs_as_log_token (BackendOther what) = ''backend_other''"

fun is_not_found :: "FsError \<Rightarrow> bool" where
  "is_not_found NotFound = True"
| "is_not_found _ = False"

fun to_uefi_status :: "FsError \<Rightarrow> string" where
  "to_uefi_status NotFound = ''NOT_FOUND''"
| "to_uefi_status PermissionDenied = ''ACCESS_DENIED''"
| "to_uefi_status IsDirectory = ''INVALID_PARAMETER''"
| "to_uefi_status NotDirectory = ''INVALID_PARAMETER''"
| "to_uefi_status (InvalidPath why) = ''INVALID_PARAMETER''"
| "to_uefi_status (Unsupported what) = ''UNSUPPORTED''"
| "to_uefi_status (UnsupportedFeature f b) = ''UNSUPPORTED''"
| "to_uefi_status (Corrupt what) = ''VOLUME_CORRUPTED''"
| "to_uefi_status (IntegrityFailed what) = ''SECURITY_VIOLATION''"
| "to_uefi_status (FileTooLarge n m) = ''OUT_OF_RESOURCES''"
| "to_uefi_status (FsIo status) = status"
| "to_uefi_status (BackendOther what) = ''DEVICE_ERROR''"

fun fs_error_of_path :: "PathError \<Rightarrow> FsError" where
  "fs_error_of_path PathEmpty = InvalidPath ''empty''"
| "fs_error_of_path PathNotAbsolute = InvalidPath ''not absolute''"
| "fs_error_of_path PathAboveRoot = InvalidPath ''above root''"

datatype FileKind = Regular | Directory | Symlink | OtherKind

record DirEntry =
  de_name :: string
  de_kind :: FileKind
  de_size :: nat

subsection \<open>Read limit\<close>

definition MAX_BOOT_FILE_BYTES :: nat where "MAX_BOOT_FILE_BYTES = 512 * 1024 * 1024"

text \<open>\<open>usize::try_from\<close> cannot fail on the 64-bit targets.\<close>

definition checked_read_len :: "nat \<Rightarrow> (usize, nat \<times> nat) outcome" where
  "checked_read_len sz =
     (if sz > MAX_BOOT_FILE_BYTES then Err (sz, MAX_BOOT_FILE_BYTES) else Ok sz)"

definition checked_full_read_len :: "nat \<Rightarrow> (usize, FsError) outcome" where
  "checked_full_read_len sz =
     (case checked_read_len sz of
        Ok n \<Rightarrow> Ok n
      | Err (n, m) \<Rightarrow> Err (FileTooLarge n m)
      | Panic \<Rightarrow> Panic)"

subsection \<open>Paths\<close>

text \<open>The stack of the source, top first.\<close>

fun path_resolve :: "string list \<Rightarrow> string list \<Rightarrow> (string list, PathError) outcome" where
  "path_resolve stack [] = Ok stack"
| "path_resolve stack (seg # segs) =
     (if seg = [] \<or> seg = ''.'' then path_resolve stack segs
      else if seg = ''..'' then
        (case stack of [] \<Rightarrow> Err PathAboveRoot | x # rest \<Rightarrow> path_resolve rest segs)
      else path_resolve (seg # stack) segs)"

definition path_render :: "string list \<Rightarrow> string" where
  "path_render segs = (if segs = [] then ''/'' else concat (map (\<lambda>s. CHR ''/'' # s) segs))"

definition path_from_str :: "string \<Rightarrow> (string, PathError) outcome" where
  "path_from_str s =
     (if s = [] then Err PathEmpty
      else if \<not> prefix ''/'' s then Err PathNotAbsolute
      else obind (path_resolve [] (split_char (CHR ''/'') s)) (\<lambda>stack.
        Ok (path_render (rev stack))))"

definition path_file_name :: "string \<Rightarrow> string" where
  "path_file_name p = (case rsplit_once (CHR ''/'') p of Some (head, name) \<Rightarrow> name | None \<Rightarrow> [])"

definition path_parent :: "string \<Rightarrow> string" where
  "path_parent p =
     (if p = ''/'' then ''/''
      else case rsplit_once (CHR ''/'') p of
        Some (head, name) \<Rightarrow> if head \<noteq> [] then head else ''/''
      | None \<Rightarrow> ''/'')"

definition path_join :: "string \<Rightarrow> string \<Rightarrow> (string, PathError) outcome" where
  "path_join p child =
     (if prefix ''/'' child then path_from_str child
      else path_from_str (if suffix ''/'' p then p @ child else p @ ''/'' @ child))"

definition normalize_path_string :: "string \<Rightarrow> string" where
  "normalize_path_string s =
     (if s = [] then ''/''
      else let t = replace_char (CHR 0x5C) (CHR ''/'') s in
        if prefix ''/'' t then t else CHR ''/'' # t)"

definition matches_glob :: "string \<Rightarrow> string \<Rightarrow> bool" where
  "matches_glob name pattern =
     (if pattern = ''*'' \<or> pattern = ''*.*'' then True
      else if prefix ''*'' pattern \<and> suffix ''*'' pattern \<and> length pattern \<ge> 2
      then str_contains name (take (length pattern - 2) (drop 1 pattern))
      else case strip_prefix ''*'' pattern of
        Some suf \<Rightarrow> suffix suf name
      | None \<Rightarrow>
          (case strip_suffix ''*'' pattern of
             Some pre \<Rightarrow> prefix pre name
           | None \<Rightarrow> name = pattern))"

subsection \<open>Canonical paths\<close>

definition path_segment :: "string \<Rightarrow> bool" where
  "path_segment s \<longleftrightarrow> s \<noteq> [] \<and> s \<noteq> ''.'' \<and> s \<noteq> ''..'' \<and> CHR ''/'' \<notin> set s"

definition canonical_path :: "string \<Rightarrow> bool" where
  "canonical_path p \<longleftrightarrow> (\<exists>segs. list_all path_segment segs \<and> p = path_render segs)"

lemma path_resolve_segments:
  "path_resolve stack segs = Ok st \<Longrightarrow> list_all path_segment stack \<Longrightarrow>
   \<forall>s\<in>set segs. CHR ''/'' \<notin> set s \<Longrightarrow> list_all path_segment st"
  by (induction stack segs rule: path_resolve.induct)
     (auto simp: path_segment_def split: if_splits list.splits)

lemma path_resolve_clean:
  "list_all path_segment segs \<Longrightarrow> path_resolve stack segs = Ok (rev segs @ stack)"
  by (induction segs arbitrary: stack) (simp_all add: path_segment_def)

lemma split_render:
  assumes "list_all path_segment segs" "segs \<noteq> []"
  shows "split_char (CHR ''/'') (path_render segs) = [] # segs"
proof -
  have "path_render segs = CHR ''/'' # str_join ''/'' segs"
    using assms(2) by (induction "''/''" segs rule: str_join.induct) (auto simp: path_render_def)
  moreover have "split_char (CHR ''/'') (str_join [CHR ''/''] segs) = segs"
    using assms by (intro split_char_join) (auto simp: list_all_iff path_segment_def)
  ultimately show ?thesis by simp
qed

lemma path_render_nonempty: "path_render segs \<noteq> []" "prefix ''/'' (path_render segs)"
  by (cases segs; simp add: path_render_def)+

lemma path_from_render: "list_all path_segment segs \<Longrightarrow> path_from_str (path_render segs) = Ok (path_render segs)"
proof (cases segs)
  case Nil
  then show ?thesis by (simp add: path_from_str_def path_render_def)
next
  case (Cons s ss)
  assume "list_all path_segment segs"
  then show ?thesis
    using path_render_nonempty [of segs] split_render [of segs] path_resolve_clean [of segs "[]"]
    by (simp add: path_from_str_def Cons)
qed

lemma path_from_str_canonical: "path_from_str s = Ok p \<Longrightarrow> canonical_path p"
proof -
  assume "path_from_str s = Ok p"
  then obtain st where st: "path_resolve [] (split_char (CHR ''/'') s) = Ok st"
    and p: "p = path_render (rev st)"
    by (auto simp: path_from_str_def outcome_simps split: if_splits)
  have "list_all path_segment st"
    using path_resolve_segments [OF st] split_char_no_sep by simp
  then show ?thesis unfolding canonical_path_def p by (intro exI [of _ "rev st"]) simp
qed

lemma path_from_str_no_panic [simp]: "path_from_str s \<noteq> Panic"
proof -
  have "path_resolve stack segs \<noteq> Panic" for stack segs
    by (induction stack segs rule: path_resolve.induct) (auto split: list.splits)
  then show ?thesis by (auto simp: path_from_str_def outcome_simps)
qed

lemma path_render_snoc:
  "segs \<noteq> [] \<Longrightarrow> path_render (segs @ [s]) = path_render segs @ CHR ''/'' # s"
  by (simp add: path_render_def)

lemma rsplit_once_last: "d \<notin> set b \<Longrightarrow> rsplit_once d (a @ d # b) = Some (a, b)"
  by (simp add: rsplit_once_Some_iff)

lemma path_parent_file_name:
  assumes "list_all path_segment (segs @ [s])"
  shows "path_parent (path_render (segs @ [s])) = path_render segs"
    "path_file_name (path_render (segs @ [s])) = s"
proof -
  have s: "CHR ''/'' \<notin> set s" "s \<noteq> []" using assms by (auto simp: path_segment_def)
  show "path_file_name (path_render (segs @ [s])) = s"
    using rsplit_once_last [OF s(1), of "[]"] rsplit_once_last [OF s(1), of "path_render segs"]
    by (cases "segs = []") (simp_all add: path_file_name_def path_render_snoc path_render_def)
  show "path_parent (path_render (segs @ [s])) = path_render segs"
    using rsplit_once_last [OF s(1), of "[]"] rsplit_once_last [OF s(1), of "path_render segs"] s
      path_render_nonempty [of segs]
    by (cases "segs = []") (auto simp: path_parent_def path_render_snoc path_render_def)
qed

text \<open>The number of directories entered minus the number left again, along the segments; the path
  is rejected as soon as it would become negative.\<close>

fun path_depth_ok :: "nat \<Rightarrow> string list \<Rightarrow> bool" where
  "path_depth_ok n [] \<longleftrightarrow> True"
| "path_depth_ok n (seg # segs) \<longleftrightarrow>
     (if seg = [] \<or> seg = ''.'' then path_depth_ok n segs
      else if seg = ''..'' then n > 0 \<and> path_depth_ok (n - 1) segs
      else path_depth_ok (Suc n) segs)"

lemma path_resolve_depth:
  "(\<exists>st. path_resolve stack segs = Ok st) \<longleftrightarrow> path_depth_ok (length stack) segs"
  by (induction stack segs rule: path_resolve.induct) (auto split: list.splits)

lemma path_join_clean:
  assumes "list_all path_segment (segs @ [s])"
  shows "path_join (path_render segs) s = Ok (path_render (segs @ [s]))"
proof -
  have s: "CHR ''/'' \<notin> set s" "s \<noteq> []" using assms by (auto simp: path_segment_def)
  then have "\<not> prefix ''/'' s" by (cases s) auto
  moreover have "\<not> suffix ''/'' (path_render segs)" if "segs \<noteq> []"
  proof -
    have "last (path_render segs) = last (last segs)" "last segs \<noteq> []" "CHR ''/'' \<notin> set (last segs)"
      using that assms by (induction segs rule: rev_induct) (auto simp: path_render_def path_segment_def)
    then have "last (path_render segs) \<noteq> CHR ''/''" by (metis last_in_set)
    then show ?thesis using suffix_last_conv [of "''/''" "path_render segs"] by auto
  qed
  moreover have "path_from_str (path_render (segs @ [s])) = Ok (path_render (segs @ [s]))"
    using assms by (rule path_from_render)
  ultimately show ?thesis
    by (cases "segs = []") (simp_all add: path_join_def path_render_snoc, simp add: path_render_def)
qed

subsection \<open>Properties\<close>

text \<open>Path construction rejects exactly the empty, the relative and the root-escaping inputs, and
  what it accepts becomes canonical: an absolute path of segments none of which is empty, \<open>.\<close> or
  \<open>..\<close>, on which construction is the identity.\<close>

theorem path_from_str_spec:
  "((\<exists>p. path_from_str s = Ok p) \<longleftrightarrow> prefix ''/'' s \<and> path_depth_ok 0 (split_char (CHR ''/'') s)) \<and>
   (\<forall>p. path_from_str s = Ok p \<longrightarrow> canonical_path p \<and> path_from_str p = Ok p)"
proof
  have "(\<exists>p. path_from_str s = Ok p) \<longleftrightarrow>
      prefix ''/'' s \<and> (\<exists>st. path_resolve [] (split_char (CHR ''/'') s) = Ok st)"
    by (cases s) (auto simp: path_from_str_def outcome_simps)
  then show "(\<exists>p. path_from_str s = Ok p) \<longleftrightarrow>
      prefix ''/'' s \<and> path_depth_ok 0 (split_char (CHR ''/'') s)"
    using path_resolve_depth [of "[]"] by simp
  show "\<forall>p. path_from_str s = Ok p \<longrightarrow> canonical_path p \<and> path_from_str p = Ok p"
    using path_from_str_canonical path_from_render by (auto simp: canonical_path_def)
qed

theorem path_from_str_spec_witness:
  "path_from_str ''/a/./b//../c'' = Ok ''/a/c'' \<and> path_from_str ''/a/c'' = Ok ''/a/c''"
proof -
  have "path_from_str ''/a/./b//../c'' = Ok ''/a/c''"
    by (simp add: path_from_str_def path_render_def)
  then show ?thesis using path_from_str_spec [of "''/a/./b//../c''"] by blast
qed

text \<open>On a canonical path other than the root, joining the file name to the parent gives the path
  back, so the two accessors split it without loss; the parent is canonical too.\<close>

theorem path_join_parent_file_name:
  assumes "canonical_path p" "p \<noteq> ''/''"
  shows "path_join (path_parent p) (path_file_name p) = Ok p \<and> canonical_path (path_parent p)"
proof -
  obtain segs where segs: "list_all path_segment segs" "p = path_render segs"
    using assms(1) by (auto simp: canonical_path_def)
  with assms(2) have "segs \<noteq> []" by (auto simp: path_render_def)
  then obtain init l where "segs = init @ [l]" by (metis rev_exhaust)
  with segs show ?thesis
    using path_parent_file_name [of init l] path_join_clean [of init l]
    by (auto simp: canonical_path_def)
qed

theorem path_join_parent_file_name_witness:
  "path_join (path_parent ''/EFI/BOOT'') (path_file_name ''/EFI/BOOT'') = Ok ''/EFI/BOOT''"
proof -
  have "canonical_path ''/EFI/BOOT''"
    unfolding canonical_path_def
    by (rule exI [of _ "[''EFI'', ''BOOT'']"]) (simp add: path_segment_def path_render_def)
  then show ?thesis using path_join_parent_file_name [of "''/EFI/BOOT''"] by simp
qed

end
