(* ===== verification/Rust_State.thy ===== *)
theory Rust_State
  imports Prelude
begin

section \<open>Stateful code: actions over an explicit state\<close>

text \<open>
  A method that mutates state and may fail is an action \<open>'s \<Rightarrow> 's \<times> outcome\<close>: the state it leaves
  behind is there on the error paths too.  \<open>abind\<close> is sequencing with the \<open>?\<close> operator, \<open>alift\<close> runs a
  computation that does not touch the state, \<open>atry\<close> is \<open>let _ = \<dots>\<close>, which drops the result, and
  \<open>amap_err\<close> is \<open>map_err\<close>.  The lemmas are the monad laws the component proofs rewrite with and the
  rule that an invariant kept by every part of a sequence is kept by the sequence.
\<close>

named_theorems act_simps \<open>rewrite rules for actions\<close>

type_synonym ('s, 'a, 'e) act = "'s \<Rightarrow> 's \<times> ('a, 'e) outcome"

definition aret :: "'a \<Rightarrow> ('s, 'a, 'e) act" where
  "aret x s = (s, Ok x)"

definition afail :: "'e \<Rightarrow> ('s, 'a, 'e) act" where
  "afail e s = (s, Err e)"

definition alift :: "('s \<Rightarrow> ('a, 'e) outcome) \<Rightarrow> ('s, 'a, 'e) act" where
  "alift f s = (s, f s)"

definition abind :: "('s, 'a, 'e) act \<Rightarrow> ('a \<Rightarrow> ('s, 'b, 'e) act) \<Rightarrow> ('s, 'b, 'e) act" where
  "abind m f s =
     (case m s of
        (s', Ok x) \<Rightarrow> f x s'
      | (s', Err e) \<Rightarrow> (s', Err e)
      | (s', Panic) \<Rightarrow> (s', Panic))"

definition atry :: "('s, 'a, 'e) act \<Rightarrow> ('s, unit, 'e) act" where
  "atry m s = (case m s of (s', Panic) \<Rightarrow> (s', Panic) | (s', _) \<Rightarrow> (s', Ok ()))"

fun omap_err :: "('e \<Rightarrow> 'f) \<Rightarrow> ('a, 'e) outcome \<Rightarrow> ('a, 'f) outcome" where
  "omap_err g (Ok x) = Ok x"
| "omap_err g (Err e) = Err (g e)"
| "omap_err g Panic = Panic"

definition amap_err :: "('e \<Rightarrow> 'f) \<Rightarrow> ('s, 'a, 'e) act \<Rightarrow> ('s, 'a, 'f) act" where
  "amap_err g m s = (case m s of (s', r) \<Rightarrow> (s', omap_err g r))"

lemma abind_Ok_conv [act_simps]:
  "abind m f s = (s', Ok y) \<longleftrightarrow> (\<exists>t x. m s = (t, Ok x) \<and> f x t = (s', Ok y))"
  by (cases "m s") (auto simp: abind_def split: outcome.splits)

lemma abind_Err_conv [act_simps]:
  "abind m f s = (s', Err e) \<longleftrightarrow>
   m s = (s', Err e) \<or> (\<exists>t x. m s = (t, Ok x) \<and> f x t = (s', Err e))"
  by (cases "m s") (auto simp: abind_def split: outcome.splits)

lemma aret_conv [act_simps]: "aret x s = (s', r) \<longleftrightarrow> s' = s \<and> r = Ok x"
  by (auto simp: aret_def)

lemma afail_conv [act_simps]: "afail e s = (s', r) \<longleftrightarrow> s' = s \<and> r = Err e"
  by (auto simp: afail_def)

lemma alift_conv [act_simps]: "alift f s = (s', r) \<longleftrightarrow> s' = s \<and> f s = r"
  by (auto simp: alift_def)

lemma omap_err_Ok_conv [act_simps, outcome_simps]: "omap_err g r = Ok x \<longleftrightarrow> r = Ok x"
  by (cases r) auto

lemma omap_err_Err_conv [act_simps, outcome_simps]:
  "omap_err g r = Err e \<longleftrightarrow> (\<exists>e'. r = Err e' \<and> e = g e')"
  by (cases r) auto

lemma omap_err_Panic_conv [act_simps, outcome_simps]: "omap_err g r = Panic \<longleftrightarrow> r = Panic"
  by (cases r) auto

lemma amap_err_conv [act_simps]:
  "amap_err g m s = (s', r) \<longleftrightarrow> (\<exists>r'. m s = (s', r') \<and> omap_err g r' = r)"
  by (cases "m s") (auto simp: amap_err_def)

lemma atry_conv [act_simps]:
  "atry m s = (s', r) \<longleftrightarrow>
   (\<exists>r'. m s = (s', r') \<and> r = (case r' of Panic \<Rightarrow> Panic | _ \<Rightarrow> Ok ()))"
  by (cases "m s") (auto simp: atry_def split: outcome.splits)

text \<open>What every part of a sequence keeps of the state, the sequence keeps.\<close>

definition akeeps :: "('s \<Rightarrow> 's \<Rightarrow> bool) \<Rightarrow> ('s, 'a, 'e) act \<Rightarrow> bool" where
  "akeeps R m \<longleftrightarrow> (\<forall>s. R s (fst (m s)))"

lemma akeeps_abind:
  assumes "transp R" "akeeps R m" "\<And>x. akeeps R (f x)"
  shows "akeeps R (abind m f)"
  unfolding akeeps_def
proof
  fix s
  obtain t r where m: "m s = (t, r)" by fastforce
  then have "R s t" using assms(2) by (metis akeeps_def fst_conv)
  moreover have "R t (fst (f x t))" for x using assms(3) by (simp add: akeeps_def)
  ultimately show "R s (fst (abind m f s))"
    using m assms(1) by (cases r) (auto simp: abind_def dest: transpD)
qed

lemma akeeps_pure:
  "reflp R \<Longrightarrow> akeeps R (aret x)" "reflp R \<Longrightarrow> akeeps R (afail e)" "reflp R \<Longrightarrow> akeeps R (alift g)"
  by (auto simp: akeeps_def aret_def afail_def alift_def reflpD)

lemma akeeps_atry: "akeeps R m \<Longrightarrow> akeeps R (atry m)"
  unfolding akeeps_def
proof
  fix s
  assume a: "\<forall>s. R s (fst (m s))"
  obtain t r where "m s = (t, r)" by fastforce
  then show "R s (fst (atry m s))" using a [rule_format, of s] by (cases r) (auto simp: atry_def)
qed

lemma akeeps_amap_err: "akeeps R m \<Longrightarrow> akeeps R (amap_err g m)"
  by (auto simp: akeeps_def amap_err_def split: prod.split) (metis fst_conv)

lemma akeepsD: "akeeps R m \<Longrightarrow> m s = (s', r) \<Longrightarrow> R s s'"
  by (metis akeeps_def fst_conv)

subsection \<open>Straight-line updates and parts of the state\<close>

text \<open>\<open>steps\<close> runs updates that cannot fail, in order; \<open>azoom\<close> runs an action on a part of the state.\<close>

definition steps :: "('s \<Rightarrow> 's) list \<Rightarrow> ('s, unit, 'e) act" where
  "steps fs s = (fold (\<lambda>f t. f t) fs s, Ok ())"

definition azoom :: "('s \<Rightarrow> 't) \<Rightarrow> ('t \<Rightarrow> 's \<Rightarrow> 's) \<Rightarrow> ('t, 'a, 'e) act \<Rightarrow> ('s, 'a, 'e) act" where
  "azoom get put m s = (case m (get s) of (t, r) \<Rightarrow> (put t s, r))"

lemma steps_conv [act_simps]: "steps fs s = (s', r) \<longleftrightarrow> s' = fold (\<lambda>f t. f t) fs s \<and> r = Ok ()"
  by (auto simp: steps_def)

lemma azoom_conv [act_simps]:
  "azoom get put m s = (s', r) \<longleftrightarrow> (\<exists>t. m (get s) = (t, r) \<and> s' = put t s)"
  by (cases "m (get s)") (auto simp: azoom_def)

subsection \<open>Hoare triples\<close>

text \<open>From a state with \<open>P\<close> the action ends in \<open>Q\<close> when it returns a value and in \<open>E\<close> when it leaves
  by an error.\<close>

definition ahoare :: "('s \<Rightarrow> bool) \<Rightarrow> ('s, 'a, 'e) act \<Rightarrow> ('a \<Rightarrow> 's \<Rightarrow> bool) \<Rightarrow> ('s \<Rightarrow> bool) \<Rightarrow> bool" where
  "ahoare P m Q E \<longleftrightarrow> (\<forall>s. P s \<longrightarrow> (case snd (m s) of Ok x \<Rightarrow> Q x (fst (m s)) | _ \<Rightarrow> E (fst (m s))))"

lemma ahoareI:
  assumes "\<And>s s' x. P s \<Longrightarrow> m s = (s', Ok x) \<Longrightarrow> Q x s'"
    and "\<And>s s' r. P s \<Longrightarrow> m s = (s', r) \<Longrightarrow> (\<forall>x. r \<noteq> Ok x) \<Longrightarrow> E s'"
  shows "ahoare P m Q E"
  unfolding ahoare_def
proof (intro allI impI)
  fix s
  assume p: "P s"
  obtain s' r where m: "m s = (s', r)" by fastforce
  show "case snd (m s) of Ok x \<Rightarrow> Q x (fst (m s)) | _ \<Rightarrow> E (fst (m s))"
    using assms(2) [OF p m] assms(1) [OF p] m by (cases r) auto
qed

lemma ahoare_Ok: "ahoare P m Q E \<Longrightarrow> P s \<Longrightarrow> m s = (s', Ok x) \<Longrightarrow> Q x s'"
  unfolding ahoare_def by (drule spec [of _ s]) simp

lemma ahoare_exit: "ahoare P m Q E \<Longrightarrow> P s \<Longrightarrow> m s = (s', r) \<Longrightarrow> (\<forall>x. r \<noteq> Ok x) \<Longrightarrow> E s'"
  unfolding ahoare_def by (drule spec [of _ s]) (cases r; simp)

lemma ahoare_any: "ahoare P m (\<lambda>_. E) E \<Longrightarrow> P s \<Longrightarrow> E (fst (m s))"
  unfolding ahoare_def by (drule spec [of _ s]) (cases "snd (m s)"; simp)

lemma ahoare_pre: "ahoare P' m Q E \<Longrightarrow> (\<And>s. P s \<Longrightarrow> P' s) \<Longrightarrow> ahoare P m Q E"
  unfolding ahoare_def by blast

lemma ahoare_post:
  "ahoare P m Q' E' \<Longrightarrow> (\<And>x s. Q' x s \<Longrightarrow> Q x s) \<Longrightarrow> (\<And>s. E' s \<Longrightarrow> E s) \<Longrightarrow> ahoare P m Q E"
  by (rule ahoareI) (blast dest: ahoare_Ok ahoare_exit)+

lemma ahoare_abind:
  assumes "ahoare P m R E" "\<And>x. ahoare (R x) (f x) Q E"
  shows "ahoare P (abind m f) Q E"
proof -
  have "case snd (abind m f s) of Ok x \<Rightarrow> Q x (fst (abind m f s)) | _ \<Rightarrow> E (fst (abind m f s))"
    if p: "P s" for s
  proof -
    obtain t r where m: "m s = (t, r)" by fastforce
    show ?thesis
    proof (cases r)
      case (Ok x)
      then have "R x t" using ahoare_Ok [OF assms(1) p] m by simp
      moreover have e: "abind m f s = f x t" using m Ok by (simp add: abind_def)
      ultimately show ?thesis unfolding e using assms(2) [of x] by (simp add: ahoare_def)
    qed (use ahoare_exit [OF assms(1) p m] m in \<open>simp_all add: abind_def\<close>)
  qed
  then show ?thesis by (simp add: ahoare_def)
qed

lemma ahoare_pure:
  "(\<And>s. P s \<Longrightarrow> Q x s) \<Longrightarrow> ahoare P (aret x) Q E"
  "(\<And>s. P s \<Longrightarrow> E s) \<Longrightarrow> ahoare P (afail e) Q E"
  by (auto simp: ahoare_def aret_def afail_def)

lemma ahoare_alift:
  "(\<And>s x. P s \<Longrightarrow> f s = Ok x \<Longrightarrow> Q x s) \<Longrightarrow> (\<And>s. P s \<Longrightarrow> E s) \<Longrightarrow> ahoare P (alift f) Q E"
  by (rule ahoareI) (auto simp: alift_def)

lemma ahoare_steps:
  "(\<And>s. P s \<Longrightarrow> Q () (fold (\<lambda>f t. f t) fs s)) \<Longrightarrow> ahoare P (steps fs) Q E"
  by (auto simp: ahoare_def steps_def)

lemma ahoare_if:
  "(c \<Longrightarrow> ahoare P m Q E) \<Longrightarrow> (\<not> c \<Longrightarrow> ahoare P n Q E) \<Longrightarrow> ahoare P (if c then m else n) Q E"
  by auto

lemma ahoare_amap_err: "ahoare P m Q E \<Longrightarrow> ahoare P (amap_err g m) Q E"
  by (rule ahoareI) (auto simp: act_simps outcome_simps elim: ahoare_Ok intro: ahoare_exit)

lemma ahoare_azoom:
  assumes "ahoare P' m Q' E'" "\<And>s. P s \<Longrightarrow> P' (get s)"
    "\<And>s t x. P s \<Longrightarrow> Q' x t \<Longrightarrow> Q x (put t s)" "\<And>s t. P s \<Longrightarrow> E' t \<Longrightarrow> E (put t s)"
  shows "ahoare P (azoom get put m) Q E"
proof (rule ahoareI)
  fix s s' x assume p: "P s" and "azoom get put m s = (s', Ok x)"
  then obtain t where "m (get s) = (t, Ok x)" "s' = put t s" by (auto simp: act_simps)
  then show "Q x s'" using ahoare_Ok [OF assms(1) assms(2) [OF p]] assms(3) [OF p] by simp
next
  fix s s' r assume p: "P s" and "azoom get put m s = (s', r)" and r: "\<forall>x. r \<noteq> Ok x"
  then obtain t where "m (get s) = (t, r)" "s' = put t s" by (auto simp: act_simps)
  then show "E s'" using ahoare_exit [OF assms(1) assms(2) [OF p] _ r] assms(4) [OF p] by simp
qed

end
