(* ===== verification/Volume.thy ===== *)
theory Volume
  imports Fs_Types Rust_State
begin

section \<open>Volumes: the read cache over a file-system backend\<close>

text \<open>
  Model of the cache and of the read surface of \<open>lamboot-core/src/fs.rs\<close>.  A backend is a record of
  its trait functions over a store \<open>'s\<close>, the medium's contents; the third-party backends are
  arbitrary such records, and the FAT backend of the sources is one over a concrete store (theory
  \<open>Fat_Volume\<close>).  Reads leave the store alone.

  The lemmas show the cache invariant (the byte count is exact and within the limit, keys are
  distinct).  The locale \<open>medium\<close> is the contract of a backend: a successful read returns what the
  medium holds.  On its basis a cache that is coherent with the medium never serves stale data, reads
  keep it coherent, and so does a change of the medium once the changed paths are invalidated.
\<close>

subsection \<open>The cache\<close>

definition USIZE_MAX :: nat where "USIZE_MAX = 2 ^ 64 - 1"
definition CACHE_BYTES_LIMIT :: nat where "CACHE_BYTES_LIMIT = 8 * 1024 * 1024"

record CacheKey =
  ck_path :: string
  ck_offset :: nat
  ck_len :: nat

definition full_read_key :: "string \<Rightarrow> CacheKey" where
  "full_read_key p = \<lparr>ck_path = p, ck_offset = 0, ck_len = USIZE_MAX\<rparr>"

definition range_key :: "string \<Rightarrow> nat \<Rightarrow> nat \<Rightarrow> CacheKey" where
  "range_key p off n = \<lparr>ck_path = p, ck_offset = off, ck_len = n\<rparr>"

definition key_matches :: "CacheKey \<Rightarrow> CacheKey \<Rightarrow> bool" where
  "key_matches a b \<longleftrightarrow> ck_path a = ck_path b \<and> ck_offset a = ck_offset b \<and> ck_len a = ck_len b"

record CacheEntry =
  ce_key :: CacheKey
  ce_data :: bytes

text \<open>The front of the deque, the most recently used entry, is the head of the list.\<close>

record VolumeCache =
  vc_entries :: "CacheEntry list"
  vc_used_bytes :: nat
  vc_limit_bytes :: nat

definition cache_new :: VolumeCache where
  "cache_new = \<lparr>vc_entries = [], vc_used_bytes = 0, vc_limit_bytes = CACHE_BYTES_LIMIT\<rparr>"

fun take_entry :: "CacheKey \<Rightarrow> CacheEntry list \<Rightarrow> (CacheEntry \<times> CacheEntry list) option" where
  "take_entry k [] = None"
| "take_entry k (e # es) =
     (if key_matches (ce_key e) k then Some (e, es)
      else map_option (\<lambda>(x, rest). (x, e # rest)) (take_entry k es))"

definition cache_get :: "CacheKey \<Rightarrow> VolumeCache \<Rightarrow> VolumeCache \<times> bytes option" where
  "cache_get k c =
     (case take_entry k (vc_entries c) of
        None \<Rightarrow> (c, None)
      | Some (e, rest) \<Rightarrow> (c\<lparr>vc_entries := e # rest\<rparr>, Some (ce_data e)))"

function cache_evict :: "nat \<Rightarrow> nat \<Rightarrow> nat \<Rightarrow> CacheEntry list \<Rightarrow> CacheEntry list \<times> nat" where
  "cache_evict need limit used es =
     (if used + need > limit \<and> es \<noteq> []
      then cache_evict need limit (used - length (ce_data (last es))) (butlast es)
      else (es, used))"
  by pat_completeness auto
termination
  by (relation "measure (\<lambda>(need, limit, used, es). length es)") auto

declare cache_evict.simps [simp del]

definition cache_insert :: "CacheKey \<Rightarrow> bytes \<Rightarrow> VolumeCache \<Rightarrow> VolumeCache" where
  "cache_insert k data c =
     (let data_len = length data in
      if data_len > vc_limit_bytes c then c
      else let (es, used) = cache_evict data_len (vc_limit_bytes c) (vc_used_bytes c) (vc_entries c) in
        c\<lparr>vc_entries := \<lparr>ce_key = k, ce_data = data\<rparr> # es, vc_used_bytes := used + data_len\<rparr>)"

definition cache_invalidate_path :: "string \<Rightarrow> VolumeCache \<Rightarrow> VolumeCache" where
  "cache_invalidate_path p c =
     (let dropped = filter (\<lambda>e. ck_path (ce_key e) = p) (vc_entries c);
          freed = sum_list (map (\<lambda>e. length (ce_data e)) dropped) in
      c\<lparr>vc_entries := filter (\<lambda>e. ck_path (ce_key e) \<noteq> p) (vc_entries c),
        vc_used_bytes := vc_used_bytes c - freed\<rparr>)"

subsection \<open>Backends and volumes\<close>

record Metadata =
  md_kind :: FileKind
  md_size :: nat
  md_mode :: nat
  md_read_only :: bool
  md_source_backend :: string

record 's backend =
  bk_read :: "'s \<Rightarrow> string \<Rightarrow> (bytes, FsError) outcome"
  bk_read_at :: "'s \<Rightarrow> string \<Rightarrow> nat \<Rightarrow> nat \<Rightarrow> (bytes, FsError) outcome"
  bk_exists :: "'s \<Rightarrow> string \<Rightarrow> (bool, FsError) outcome"
  bk_read_dir :: "'s \<Rightarrow> string \<Rightarrow> (DirEntry list, FsError) outcome"
  bk_metadata :: "'s \<Rightarrow> string \<Rightarrow> (Metadata, FsError) outcome"

text \<open>\<open>vol_shared\<close> is the \<open>BackendOwn::Shared\<close> state, \<open>vol_has_handle\<close> the presence of the FAT
  handle.\<close>

record 's volume =
  vol_backend_tag :: string
  vol_backend :: "'s backend"
  vol_store :: 's
  vol_cache :: VolumeCache
  vol_has_handle :: bool
  vol_shared :: bool

definition volume_read :: "string \<Rightarrow> 's volume \<Rightarrow> 's volume \<times> (bytes, FsError) outcome" where
  "volume_read p v =
     (case cache_get (full_read_key p) (vol_cache v) of
        (c, Some data) \<Rightarrow> (v\<lparr>vol_cache := c\<rparr>, Ok data)
      | (c, None) \<Rightarrow>
          (case bk_read (vol_backend v) (vol_store v) p of
             Ok data \<Rightarrow> (v\<lparr>vol_cache := cache_insert (full_read_key p) data c\<rparr>, Ok data)
           | r \<Rightarrow> (v\<lparr>vol_cache := c\<rparr>, r)))"

definition volume_read_at ::
  "string \<Rightarrow> nat \<Rightarrow> nat \<Rightarrow> 's volume \<Rightarrow> 's volume \<times> (bytes, FsError) outcome" where
  "volume_read_at p off n v =
     (case cache_get (range_key p off n) (vol_cache v) of
        (c, Some data) \<Rightarrow> (v\<lparr>vol_cache := c\<rparr>, Ok data)
      | (c, None) \<Rightarrow>
          (case bk_read_at (vol_backend v) (vol_store v) p off n of
             Ok data \<Rightarrow> (v\<lparr>vol_cache := cache_insert (range_key p off n) data c\<rparr>, Ok data)
           | r \<Rightarrow> (v\<lparr>vol_cache := c\<rparr>, r)))"

definition volume_read_to_string :: "string \<Rightarrow> 's volume \<Rightarrow> 's volume \<times> (string, FsError) outcome" where
  "volume_read_to_string p v =
     (let (v', r) = volume_read p v in
      (v', obind r (\<lambda>bs. of_option (InvalidPath ''non-UTF-8 file content'') (from_utf8 bs))))"

definition path_of :: "string \<Rightarrow> (string, FsError) outcome" where
  "path_of s =
     (case path_from_str (normalize_path_string s) of
        Ok p \<Rightarrow> Ok p | Err e \<Rightarrow> Err (fs_error_of_path e) | Panic \<Rightarrow> Panic)"

definition read_str :: "string \<Rightarrow> 's volume \<Rightarrow> 's volume \<times> (bytes, FsError) outcome" where
  "read_str s v =
     (case path_of s of Ok p \<Rightarrow> volume_read p v | Err e \<Rightarrow> (v, Err e) | Panic \<Rightarrow> (v, Panic))"

definition read_to_string_str :: "string \<Rightarrow> 's volume \<Rightarrow> 's volume \<times> (string, FsError) outcome" where
  "read_to_string_str s v =
     (case path_of s of Ok p \<Rightarrow> volume_read_to_string p v | Err e \<Rightarrow> (v, Err e) | Panic \<Rightarrow> (v, Panic))"

definition read_at_str ::
  "string \<Rightarrow> nat \<Rightarrow> nat \<Rightarrow> 's volume \<Rightarrow> 's volume \<times> (bytes, FsError) outcome" where
  "read_at_str s off n v =
     (case path_of s of Ok p \<Rightarrow> volume_read_at p off n v | Err e \<Rightarrow> (v, Err e) | Panic \<Rightarrow> (v, Panic))"

definition exists_str :: "string \<Rightarrow> 's volume \<Rightarrow> bool" where
  "exists_str s v =
     (case path_of s of
        Ok p \<Rightarrow> (case bk_exists (vol_backend v) (vol_store v) p of Ok b \<Rightarrow> b | _ \<Rightarrow> False)
      | _ \<Rightarrow> False)"

definition read_dir_str :: "string \<Rightarrow> 's volume \<Rightarrow> (string list, FsError) outcome" where
  "read_dir_str s v =
     obind (path_of s) (\<lambda>p.
     obind (bk_read_dir (vol_backend v) (vol_store v) p) (\<lambda>es. Ok (map de_name es)))"

definition volume_glob :: "string \<Rightarrow> 's volume \<Rightarrow> string list" where
  "volume_glob pattern v =
     (case rsplit_once (CHR ''/'') (normalize_path_string pattern) of
        None \<Rightarrow> []
      | Some (head, file_pattern) \<Rightarrow>
          let dir = (if head = [] then ''/'' else head) in
          (case path_from_str dir of
             Ok p \<Rightarrow>
               (case bk_read_dir (vol_backend v) (vol_store v) p of
                  Ok es \<Rightarrow>
                    map (\<lambda>e. if dir = ''/'' then CHR ''/'' # de_name e else dir @ ''/'' @ de_name e)
                      (filter (\<lambda>e. matches_glob (de_name e) file_pattern) es)
                | _ \<Rightarrow> [])
           | _ \<Rightarrow> []))"

definition share_backend :: "'s volume \<Rightarrow> 's volume" where
  "share_backend v = v\<lparr>vol_shared := True\<rparr>"

definition invalidate_path :: "string \<Rightarrow> 's volume \<Rightarrow> 's volume" where
  "invalidate_path p v = v\<lparr>vol_cache := cache_invalidate_path p (vol_cache v)\<rparr>"

definition invalidate_all :: "'s volume \<Rightarrow> 's volume" where
  "invalidate_all v = v\<lparr>vol_cache := cache_new\<rparr>"

subsection \<open>The cache invariant\<close>

definition entries_size :: "CacheEntry list \<Rightarrow> nat" where
  "entries_size es = sum_list (map (\<lambda>e. length (ce_data e)) es)"

definition cache_inv :: "VolumeCache \<Rightarrow> bool" where
  "cache_inv c \<longleftrightarrow>
     vc_used_bytes c = entries_size (vc_entries c) \<and> vc_used_bytes c \<le> vc_limit_bytes c \<and>
     distinct (map ce_key (vc_entries c))"

lemma entries_size_simps [simp]:
  "entries_size [] = 0" "entries_size (e # es) = length (ce_data e) + entries_size es"
  "entries_size (es @ fs) = entries_size es + entries_size fs"
  by (simp_all add: entries_size_def)

lemma key_matches_eq [simp]: "key_matches a b \<longleftrightarrow> a = b"
  by (cases a; cases b) (auto simp: key_matches_def)

lemma take_entry_Some:
  "take_entry k es = Some (e, rest) \<Longrightarrow>
   ce_key e = k \<and> (\<exists>xs ys. es = xs @ e # ys \<and> rest = xs @ ys)"
proof (induction es arbitrary: rest)
  case (Cons x es)
  show ?case
  proof (cases "ce_key x = k")
    case True
    then show ?thesis using Cons.prems by (intro conjI exI [of _ "[]"] exI [of _ es]) auto
  next
    case False
    then obtain r where r: "take_entry k es = Some (e, r)" "rest = x # r" using Cons.prems by auto
    from Cons.IH [OF r(1)] obtain xs ys where "ce_key e = k" "es = xs @ e # ys" "r = xs @ ys" by auto
    then show ?thesis using r(2) by (intro conjI exI [of _ "x # xs"] exI [of _ ys]) auto
  qed
qed simp

lemma take_entry_None: "take_entry k es = None \<longleftrightarrow> k \<notin> ce_key ` set es"
  by (induction es) auto

lemma cache_inv_new: "cache_inv cache_new"
  by (simp add: cache_inv_def cache_new_def)

lemma cache_inv_get: "cache_inv c \<Longrightarrow> cache_inv (fst (cache_get k c))"
  by (auto simp: cache_get_def cache_inv_def split: option.split dest!: take_entry_Some)

text \<open>Eviction drops entries from the back until the new data fits.\<close>

lemma cache_evict_spec:
  "cache_evict need limit used es = (es', used') \<Longrightarrow> used = entries_size es \<Longrightarrow> need \<le> limit \<Longrightarrow>
   prefix es' es \<and> used' = entries_size es' \<and> used' + need \<le> limit"
proof (induction need limit used es rule: cache_evict.induct)
  case (1 need limit used es)
  show ?case
  proof (cases "used + need > limit \<and> es \<noteq> []")
    case True
    then obtain xs x where es: "es = xs @ [x]" by (metis rev_exhaust)
    have "cache_evict need limit (used - length (ce_data (last es))) (butlast es) = (es', used')"
      using 1(2) True by (subst (asm) cache_evict.simps) simp
    with 1(1) [OF True] 1(3,4) show ?thesis by (auto simp: es)
  next
    case False
    then have "es' = es" "used' = used" using 1(2) by (subst (asm) cache_evict.simps; auto)+
    with False 1(3,4) show ?thesis by auto
  qed
qed

lemma distinct_prefix: "prefix xs ys \<Longrightarrow> distinct (map f ys) \<Longrightarrow> distinct (map f xs)"
  by (auto simp: prefix_def)

lemma cache_inv_insert:
  assumes "cache_inv c" "k \<notin> ce_key ` set (vc_entries c)"
  shows "cache_inv (cache_insert k data c)"
proof -
  obtain es used where ev: "cache_evict (length data) (vc_limit_bytes c) (vc_used_bytes c) (vc_entries c) = (es, used)"
    by fastforce
  show ?thesis
  proof (cases "length data > vc_limit_bytes c")
    case False
    then have "prefix es (vc_entries c) \<and> used = entries_size es \<and> used + length data \<le> vc_limit_bytes c"
      using cache_evict_spec [OF ev] assms(1) by (simp add: cache_inv_def)
    moreover from this have "k \<notin> ce_key ` set es" using assms(2) set_mono_prefix by fastforce
    ultimately show ?thesis
      using assms(1) False distinct_prefix [of es "vc_entries c" ce_key] ev
      by (auto simp: cache_insert_def Let_def cache_inv_def)
  qed (use assms in \<open>simp add: cache_insert_def\<close>)
qed

lemma entries_size_filter_split:
  "entries_size es = entries_size (filter P es) + entries_size (filter (\<lambda>e. \<not> P e) es)"
  by (induction es) auto

lemma cache_inv_invalidate: "cache_inv c \<Longrightarrow> cache_inv (cache_invalidate_path p c)"
  using entries_size_filter_split [of "vc_entries c" "\<lambda>e. ck_path (ce_key e) = p"]
  by (auto simp: cache_inv_def cache_invalidate_path_def Let_def entries_size_def distinct_map_filter)

lemma cache_insert_entries:
  "e \<in> set (vc_entries (cache_insert k data c)) \<Longrightarrow>
   e \<in> set (vc_entries c) \<or> e = \<lparr>ce_key = k, ce_data = data\<rparr>"
proof -
  assume e: "e \<in> set (vc_entries (cache_insert k data c))"
  have sub: "set (fst (cache_evict a b u es)) \<subseteq> set es" for a b u es
  proof (induction a b u es rule: cache_evict.induct)
    case (1 need limit used es)
    show ?case
      using 1 by (subst cache_evict.simps) (auto dest: in_set_butlastD)
  qed
  obtain es used where ev: "cache_evict (length data) (vc_limit_bytes c) (vc_used_bytes c) (vc_entries c) = (es, used)"
    by fastforce
  with sub [of "length data" "vc_limit_bytes c" "vc_used_bytes c" "vc_entries c"] e show ?thesis
    by (auto simp: cache_insert_def Let_def split: if_splits)
qed

lemma set_cache_get: "set (vc_entries (fst (cache_get k c))) = set (vc_entries c)"
  by (auto simp: cache_get_def split: option.split dest!: take_entry_Some)

subsection \<open>Coherence of the cache with the medium\<close>

text \<open>\<open>content s p\<close> is what the medium in state \<open>s\<close> holds under the path \<open>p\<close>.\<close>

definition coherent :: "('s \<Rightarrow> string \<Rightarrow> bytes option) \<Rightarrow> 's volume \<Rightarrow> bool" where
  "coherent content v \<longleftrightarrow>
     (\<forall>e \<in> set (vc_entries (vol_cache v)).
        \<exists>b. content (vol_store v) (ck_path (ce_key e)) = Some b \<and>
            ce_data e = take (ck_len (ce_key e)) (drop (ck_offset (ce_key e)) b))"

definition vol_inv :: "('s \<Rightarrow> string \<Rightarrow> bytes option) \<Rightarrow> 's volume \<Rightarrow> bool" where
  "vol_inv content v \<longleftrightarrow> cache_inv (vol_cache v) \<and> coherent content v"

lemma cache_get_hit:
  assumes "cache_get k c = (c', Some d)"
  shows "\<lparr>ce_key = k, ce_data = d\<rparr> \<in> set (vc_entries c)"
proof -
  obtain e rest where "take_entry k (vc_entries c) = Some (e, rest)" "ce_data e = d"
    using assms by (auto simp: cache_get_def split: option.splits prod.splits)
  then show ?thesis by (cases e) (auto dest: take_entry_Some)
qed

lemma cache_get_miss:
  assumes "cache_get k c = (c', None)"
  shows "c' = c" "k \<notin> ce_key ` set (vc_entries c)"
  using assms by (auto simp: cache_get_def take_entry_None [symmetric] split: option.splits)

lemma coherent_cong:
  "coherent content v \<Longrightarrow> set (vc_entries (vol_cache w)) \<subseteq> set (vc_entries (vol_cache v)) \<Longrightarrow>
   vol_store w = vol_store v \<Longrightarrow> coherent content w"
  by (auto simp: coherent_def)

lemma vol_inv_new: "vol_cache v = cache_new \<Longrightarrow> vol_inv content v"
  using cache_inv_new by (simp add: vol_inv_def coherent_def cache_new_def)

lemma vol_inv_get:
  assumes "vol_inv content v"
  shows "vol_inv content (v\<lparr>vol_cache := fst (cache_get k (vol_cache v))\<rparr>)"
  using assms cache_inv_get [of "vol_cache v" k]
    coherent_cong [of content v "v\<lparr>vol_cache := fst (cache_get k (vol_cache v))\<rparr>"]
  by (simp add: vol_inv_def set_cache_get)

lemma vol_inv_insert:
  assumes "vol_inv content v" "k \<notin> ce_key ` set (vc_entries (vol_cache v))"
    "content (vol_store v) (ck_path k) = Some b" "d = take (ck_len k) (drop (ck_offset k) b)"
  shows "vol_inv content (v\<lparr>vol_cache := cache_insert k d (vol_cache v)\<rparr>)"
  using assms cache_inv_insert [of "vol_cache v" k d]
  by (auto simp: vol_inv_def coherent_def dest!: cache_insert_entries)

locale medium =
  fixes bk :: "'s backend" and content :: "'s \<Rightarrow> string \<Rightarrow> bytes option"
  assumes read_sound: "bk_read bk s p = Ok d \<Longrightarrow> content s p = Some d"
    and read_at_sound: "bk_read_at bk s p off n = Ok d \<Longrightarrow>
          \<exists>b. content s p = Some b \<and> d = take n (drop off b)"
    and content_bound: "content s p = Some b \<Longrightarrow> length b \<le> USIZE_MAX"
begin

lemma hit_sound:
  assumes "vol_inv content v" "cache_get k (vol_cache v) = (c, Some d)"
  shows "\<exists>b. content (vol_store v) (ck_path k) = Some b \<and> d = take (ck_len k) (drop (ck_offset k) b)"
  using assms cache_get_hit [OF assms(2)] by (force simp: vol_inv_def coherent_def)

lemma volume_read_correct:
  assumes "vol_inv content v" "vol_backend v = bk" "volume_read p v = (v', r)"
  shows "vol_inv content v' \<and> vol_store v' = vol_store v \<and> vol_backend v' = bk \<and>
         vol_backend_tag v' = vol_backend_tag v \<and> vol_has_handle v' = vol_has_handle v \<and>
         vol_shared v' = vol_shared v \<and>
         (\<forall>d. r = Ok d \<longrightarrow> content (vol_store v) p = Some d) \<and>
         (r = bk_read bk (vol_store v) p \<or> (\<exists>d. r = Ok d))"
proof -
  obtain c h where g: "cache_get (full_read_key p) (vol_cache v) = (c, h)" by fastforce
  show ?thesis
  proof (cases h)
    case (Some d)
    then have "content (vol_store v) p = Some d"
      using hit_sound [OF assms(1), of "full_read_key p" c d] g content_bound
      by (force simp: full_read_key_def)
    then show ?thesis
      using assms g Some vol_inv_get [OF assms(1), of "full_read_key p"] by (auto simp: volume_read_def)
  next
    case None
    note miss = cache_get_miss [OF g [unfolded None]]
    show ?thesis
    proof (cases "bk_read bk (vol_store v) p")
      case (Ok d)
      then have ct: "content (vol_store v) p = Some d" by (rule read_sound)
      have "vol_inv content (v\<lparr>vol_cache := cache_insert (full_read_key p) d (vol_cache v)\<rparr>)"
        using vol_inv_insert [OF assms(1) miss(2), of d d] ct content_bound [OF ct]
        by (simp add: full_read_key_def)
      then show ?thesis using assms g None miss Ok ct by (auto simp: volume_read_def)
    qed (use assms g None miss in \<open>auto simp: volume_read_def\<close>)
  qed
qed

lemma volume_read_at_correct:
  assumes "vol_inv content v" "vol_backend v = bk" "volume_read_at p off n v = (v', r)"
  shows "vol_inv content v' \<and> vol_store v' = vol_store v \<and> vol_backend v' = bk \<and>
         vol_backend_tag v' = vol_backend_tag v \<and> vol_has_handle v' = vol_has_handle v \<and>
         vol_shared v' = vol_shared v \<and>
         (\<forall>d. r = Ok d \<longrightarrow> (\<exists>b. content (vol_store v) p = Some b \<and> d = take n (drop off b))) \<and>
         (r = bk_read_at bk (vol_store v) p off n \<or> (\<exists>d. r = Ok d))"
proof -
  obtain c h where g: "cache_get (range_key p off n) (vol_cache v) = (c, h)" by fastforce
  show ?thesis
  proof (cases h)
    case (Some d)
    then have "\<exists>b. content (vol_store v) p = Some b \<and> d = take n (drop off b)"
      using hit_sound [OF assms(1), of "range_key p off n" c d] g by (force simp: range_key_def)
    then show ?thesis
      using assms g Some vol_inv_get [OF assms(1), of "range_key p off n"] by (auto simp: volume_read_at_def)
  next
    case None
    note miss = cache_get_miss [OF g [unfolded None]]
    show ?thesis
    proof (cases "bk_read_at bk (vol_store v) p off n")
      case (Ok d)
      then obtain b where ct: "content (vol_store v) p = Some b" "d = take n (drop off b)"
        using read_at_sound by blast
      have "vol_inv content (v\<lparr>vol_cache := cache_insert (range_key p off n) d (vol_cache v)\<rparr>)"
        using vol_inv_insert [OF assms(1) miss(2), of b d] ct by (simp add: range_key_def)
      then show ?thesis using assms g None miss Ok ct by (auto simp: volume_read_at_def)
    qed (use assms g None miss in \<open>auto simp: volume_read_at_def\<close>)
  qed
qed

text \<open>A change of the medium at the paths \<open>T\<close> is harmless once no cached path lies in \<open>T\<close>.\<close>

lemma vol_inv_update:
  assumes "vol_inv content v" "\<And>q. q \<notin> T \<Longrightarrow> content s' q = content (vol_store v) q"
    "cache_inv c" "set (vc_entries c) \<subseteq> set (vc_entries (vol_cache v))"
    "\<And>e. e \<in> set (vc_entries c) \<Longrightarrow> ck_path (ce_key e) \<notin> T"
  shows "vol_inv content (v\<lparr>vol_store := s', vol_cache := c\<rparr>)"
  using assms by (fastforce simp: vol_inv_def coherent_def)

end

end
