(* ===== verification/Policy.thy ===== *)
theory Policy
  imports Bls_Parse Boot_Types Volume
begin

section \<open>The boot policy\<close>

text \<open>
  Model of \<open>lamboot-core/src/policy.rs\<close>: the policy record and its defaults, the parser of
  \<open>policy.toml\<close>, the compiled-in security floor, the allow and deny lists and the choice of the default
  entry.  The numeric fields hold what \<open>str::parse\<close> accepts at their width.

  The theorems: a policy read from the ESP is within the floor whatever the file says, the list
  matching agrees with the usual meaning of \<open>*\<close> for patterns with stars at their ends and not
  for others, a denied path is never allowed, and the default entry is the newest match.
\<close>

subsection \<open>Data\<close>

definition DEFAULT_TIMEOUT_MS :: nat where "DEFAULT_TIMEOUT_MS = 5000"
definition DEFAULT_CRASH_THRESHOLD :: nat where "DEFAULT_CRASH_THRESHOLD = 3"
definition MAX_CRASH_THRESHOLD :: nat where "MAX_CRASH_THRESHOLD = 10"
definition MAX_WATCHDOG_GRACE_SECONDS :: nat where "MAX_WATCHDOG_GRACE_SECONDS = 300"
definition FLOOR_REQUIRE_SECURE_BOOT :: bool where "FLOOR_REQUIRE_SECURE_BOOT = False"
definition FLOOR_REQUIRE_MEASURED_BOOT :: bool where "FLOOR_REQUIRE_MEASURED_BOOT = False"

datatype FontSize = FontSmall | FontMedium | FontLarge
datatype DriversLegacyMode = DrvAuto | DrvAlways | DrvNever
datatype LoaderNativePeMode = PeAuto | PeAlways | PeNever

record Policy =
  po_version :: nat
  po_default_timeout_ms :: nat
  po_default_entry :: "string option"
  po_default_pattern :: "string option"
  po_bls_ignore_sort_key :: bool
  po_secure_boot_required :: bool
  po_measured_boot :: bool
  po_fallback_order :: "string list"
  po_allowlist :: "string list"
  po_denylist :: "string list"
  po_ui_theme :: string
  po_ui_font_size :: FontSize
  po_watchdog_enabled :: bool
  po_watchdog_grace_seconds :: nat
  po_crash_threshold :: nat
  po_modules_enabled :: bool
  po_drivers_legacy :: DriversLegacyMode
  po_loader_native_pe :: LoaderNativePeMode
  po_diagnostics_verbose :: bool
  po_iso_enabled :: bool
  po_iso_optical_enabled :: bool
  po_self_install_boot_entry :: bool

definition drivers_legacy_parse :: "string \<Rightarrow> DriversLegacyMode" where
  "drivers_legacy_parse s =
     (let t = to_lowercase s in
      if t = ''auto'' then DrvAuto else if t = ''always'' then DrvAlways
      else if t = ''never'' then DrvNever else DrvAuto)"

definition native_pe_parse :: "string \<Rightarrow> LoaderNativePeMode" where
  "native_pe_parse s =
     (let t = to_lowercase s in
      if t = ''auto'' then PeAuto else if t = ''always'' then PeAlways
      else if t = ''never'' then PeNever else PeAuto)"

fun native_pe_token :: "LoaderNativePeMode \<Rightarrow> string" where
  "native_pe_token PeAuto = ''auto''"
| "native_pe_token PeAlways = ''always''"
| "native_pe_token PeNever = ''never''"

definition default_policy :: Policy where
  "default_policy =
     \<lparr>po_version = 1, po_default_timeout_ms = DEFAULT_TIMEOUT_MS, po_default_entry = None,
      po_default_pattern = None, po_bls_ignore_sort_key = False, po_secure_boot_required = False,
      po_measured_boot = True, po_fallback_order = [], po_allowlist = [], po_denylist = [],
      po_ui_theme = ''default'', po_ui_font_size = FontMedium, po_watchdog_enabled = True,
      po_watchdog_grace_seconds = 15, po_crash_threshold = DEFAULT_CRASH_THRESHOLD,
      po_modules_enabled = True, po_drivers_legacy = DrvAuto, po_loader_native_pe = PeAuto,
      po_diagnostics_verbose = False, po_iso_enabled = False, po_iso_optical_enabled = False,
      po_self_install_boot_entry = True\<rparr>"

subsection \<open>Allow and deny lists\<close>

definition path_matches_pattern :: "string \<Rightarrow> string \<Rightarrow> bool" where
  "path_matches_pattern path pattern =
     (if pattern = ''*'' then True
      else let p = to_lowercase path; q = to_lowercase pattern in
        if CHR ''*'' \<in> set q then
          (if prefix ''*'' q \<and> suffix ''*'' q then str_contains p (take (length q - 2) (drop 1 q))
           else case strip_prefix ''*'' q of
             Some suf \<Rightarrow> suffix suf p
           | None \<Rightarrow>
               if suffix ''*'' q then prefix (take (length q - 1) q) p else p = q)
        else p = q)"

definition list_matches :: "string \<Rightarrow> string \<Rightarrow> bool" where
  "list_matches path pattern =
     (if CHR ''*'' \<in> set pattern then path_matches_pattern path pattern
      else eq_ignore_ascii_case path pattern)"

definition is_denied :: "Policy \<Rightarrow> string \<Rightarrow> bool" where
  "is_denied p path = list_ex (list_matches path) (po_denylist p)"

definition allowed :: "Policy \<Rightarrow> string \<Rightarrow> bool" where
  "allowed p path =
     (if po_allowlist p = [] then \<not> is_denied p path
      else list_ex (list_matches path) (po_allowlist p) \<and> \<not> is_denied p path)"

subsection \<open>The floor\<close>

record PolicyClampReport =
  cl_field :: string
  cl_esp_value :: string
  cl_floor_value :: string

definition clamp_crash :: "Policy \<Rightarrow> Policy \<times> PolicyClampReport list" where
  "clamp_crash p =
     (if po_crash_threshold p > MAX_CRASH_THRESHOLD
      then (p\<lparr>po_crash_threshold := MAX_CRASH_THRESHOLD\<rparr>,
            [\<lparr>cl_field = ''crash_threshold'', cl_esp_value = dec (po_crash_threshold p),
              cl_floor_value = dec MAX_CRASH_THRESHOLD\<rparr>])
      else (p, []))"

definition clamp_watchdog :: "Policy \<Rightarrow> Policy \<times> PolicyClampReport list" where
  "clamp_watchdog p =
     (if po_watchdog_grace_seconds p > MAX_WATCHDOG_GRACE_SECONDS
      then (p\<lparr>po_watchdog_grace_seconds := MAX_WATCHDOG_GRACE_SECONDS\<rparr>,
            [\<lparr>cl_field = ''watchdog_grace_seconds'', cl_esp_value = dec (po_watchdog_grace_seconds p),
              cl_floor_value = dec MAX_WATCHDOG_GRACE_SECONDS\<rparr>])
      else (p, []))"

definition clamp_secure_boot :: "Policy \<Rightarrow> Policy \<times> PolicyClampReport list" where
  "clamp_secure_boot p =
     (if FLOOR_REQUIRE_SECURE_BOOT \<and> \<not> po_secure_boot_required p
      then (p\<lparr>po_secure_boot_required := True\<rparr>,
            [\<lparr>cl_field = ''secure_boot_required'', cl_esp_value = ''false'', cl_floor_value = ''true''\<rparr>])
      else (p, []))"

definition clamp_measured_boot :: "Policy \<Rightarrow> Policy \<times> PolicyClampReport list" where
  "clamp_measured_boot p =
     (if FLOOR_REQUIRE_MEASURED_BOOT \<and> \<not> po_measured_boot p
      then (p\<lparr>po_measured_boot := True\<rparr>,
            [\<lparr>cl_field = ''measured_boot'', cl_esp_value = ''false'', cl_floor_value = ''true''\<rparr>])
      else (p, []))"

definition apply_policy_floor :: "Policy \<Rightarrow> Policy \<times> PolicyClampReport list" where
  "apply_policy_floor p =
     (let (p, r1) = clamp_crash p; (p, r2) = clamp_watchdog p;
          (p, r3) = clamp_secure_boot p; (p, r4) = clamp_measured_boot p in
      (p, r1 @ r2 @ r3 @ r4))"

subsection \<open>Parsing \<open>policy.toml\<close>\<close>

definition trim_matches :: "char \<Rightarrow> string \<Rightarrow> string" where
  "trim_matches c s = rev (dropWhile (\<lambda>x. x = c) (rev (dropWhile (\<lambda>x. x = c) s)))"

definition parse_toml_array :: "string \<Rightarrow> string list" where
  "parse_toml_array raw =
     (let t = trim raw;
          inner = (if prefix ''['' t \<and> suffix '']'' t then take (length t - 2) (drop 1 t) else t) in
      filter (\<lambda>s. s \<noteq> [])
        (map (\<lambda>s. trim_matches (CHR 0x27) (trim_matches (CHR 0x22) (trim s))) (split_char (CHR '','') inner)))"

definition set_num :: "nat \<Rightarrow> string \<Rightarrow> (nat \<Rightarrow> Policy) \<Rightarrow> Policy \<Rightarrow> Policy" where
  "set_num w value upd p = (case parse_uint w value of Some n \<Rightarrow> upd n | None \<Rightarrow> p)"

definition apply_config_value :: "Policy \<Rightarrow> string \<Rightarrow> string \<Rightarrow> Policy" where
  "apply_config_value p key raw =
     (let value = trim_matches (CHR 0x22) raw; flag = (value = ''true'') in
      if key = ''version'' then set_num 32 value (\<lambda>n. p\<lparr>po_version := n\<rparr>) p
      else if key = ''default_timeout_ms'' then set_num 32 value (\<lambda>n. p\<lparr>po_default_timeout_ms := n\<rparr>) p
      else if key = ''default_entry'' then p\<lparr>po_default_entry := Some value\<rparr>
      else if key = ''default_pattern'' then p\<lparr>po_default_pattern := Some value\<rparr>
      else if key = ''bls_ignore_sort_key'' then p\<lparr>po_bls_ignore_sort_key := flag\<rparr>
      else if key = ''security.secure_boot_required'' then p\<lparr>po_secure_boot_required := flag\<rparr>
      else if key = ''security.measured_boot'' then p\<lparr>po_measured_boot := flag\<rparr>
      else if key = ''security.crash_threshold'' then set_num 8 value (\<lambda>n. p\<lparr>po_crash_threshold := n\<rparr>) p
      else if key = ''security.fallback_order'' then p\<lparr>po_fallback_order := parse_toml_array raw\<rparr>
      else if key = ''security.allowlist'' then p\<lparr>po_allowlist := parse_toml_array raw\<rparr>
      else if key = ''security.denylist'' then p\<lparr>po_denylist := parse_toml_array raw\<rparr>
      else if key = ''ui.theme'' then p\<lparr>po_ui_theme := value\<rparr>
      else if key = ''ui.font_size'' then
        p\<lparr>po_ui_font_size := (if value = ''small'' then FontSmall else if value = ''large'' then FontLarge else FontMedium)\<rparr>
      else if key = ''watchdog.enabled'' then p\<lparr>po_watchdog_enabled := flag\<rparr>
      else if key = ''watchdog.grace_seconds'' then set_num 32 value (\<lambda>n. p\<lparr>po_watchdog_grace_seconds := n\<rparr>) p
      else if key = ''modules.enabled'' then p\<lparr>po_modules_enabled := flag\<rparr>
      else if key = ''drivers.legacy_uefi_drivers'' then p\<lparr>po_drivers_legacy := drivers_legacy_parse value\<rparr>
      else if key = ''loader.native_pe'' then p\<lparr>po_loader_native_pe := native_pe_parse value\<rparr>
      else if key = ''diagnostics.verbose'' then p\<lparr>po_diagnostics_verbose := flag\<rparr>
      else if key = ''boot-from-iso.enabled'' then p\<lparr>po_iso_enabled := flag\<rparr>
      else if key = ''boot-from-iso.optical'' then p\<lparr>po_iso_optical_enabled := flag\<rparr>
      else if key = ''boot-entry.self_install'' then p\<lparr>po_self_install_boot_entry := (value \<noteq> ''false'')\<rparr>
      else p)"

definition parse_policy_line :: "Policy \<times> string \<Rightarrow> string \<Rightarrow> Policy \<times> string" where
  "parse_policy_line st raw_line =
     (let (p, sect) = st; line = trim raw_line in
      if line = [] \<or> prefix ''#'' line then st
      else if prefix ''['' line then
        (case rsplit_once (CHR '']'') line of
           Some (head, rest) \<Rightarrow> (p, trim (drop 1 head))
         | None \<Rightarrow> st)
      else case split_once (CHR ''='') line of
        Some (k, v) \<Rightarrow>
          let key = trim k; qualified = (if sect = [] then key else sect @ ''.'' @ key) in
          (apply_config_value p qualified (trim v), sect)
      | None \<Rightarrow> st)"

definition parse_policy_toml :: "string \<Rightarrow> Policy" where
  "parse_policy_toml toml = fst (foldl parse_policy_line (default_policy, []) (str_lines toml))"

definition load_policy :: "'s volume \<Rightarrow> 's volume \<times> (Policy \<times> PolicyClampReport list, FsError) outcome" where
  "load_policy v =
     (let (v', r) = read_to_string_str ''/EFI/LamBoot/policy.toml'' v in
      (v', obind r (\<lambda>content. Ok (apply_policy_floor (parse_policy_toml content)))))"

subsection \<open>The default entry\<close>

fun best_match ::
  "BootEntry list \<Rightarrow> string \<Rightarrow> (nat \<times> string) option \<Rightarrow> nat list \<Rightarrow> ((nat \<times> string) option, unit) outcome" where
  "best_match entries pat best [] = Ok best"
| "best_match entries pat best (i # is) =
     obind (at_idx entries i) (\<lambda>e.
       let pick = path_matches_pattern (en_id e) pat \<and>
                  (case best of None \<Rightarrow> True | Some (_, b) \<Rightarrow> version_compare (en_id e) b = Greater) in
       best_match entries pat (if pick then Some (i, en_id e) else best) is)"

fun find_by_id :: "BootEntry list \<Rightarrow> string \<Rightarrow> nat list \<Rightarrow> (nat option, unit) outcome" where
  "find_by_id entries d [] = Ok None"
| "find_by_id entries d (i # is) =
     obind (at_idx entries i) (\<lambda>e. if en_id e = d then Ok (Some i) else find_by_id entries d is)"

definition select_default_entry :: "BootEntry list \<Rightarrow> nat list \<Rightarrow> Policy \<Rightarrow> (nat option, unit) outcome" where
  "select_default_entry entries eligible p =
     obind (case po_default_pattern p of
              Some pat \<Rightarrow> best_match entries pat None eligible
            | None \<Rightarrow> Ok None) (\<lambda>best.
     case best of
       Some (i, _) \<Rightarrow> Ok (Some i)
     | None \<Rightarrow>
         (case po_default_entry p of
            Some d \<Rightarrow> find_by_id entries d eligible
          | None \<Rightarrow> Ok None))"

subsection \<open>The meaning of patterns\<close>

text \<open>The usual meaning: a star stands for any string.\<close>

function glob_match :: "string \<Rightarrow> string \<Rightarrow> bool" where
  "glob_match [] s = (s = [])"
| "glob_match (c # p) s =
     (if c = CHR ''*'' then glob_match p s \<or> (case s of [] \<Rightarrow> False | d # t \<Rightarrow> glob_match (c # p) t)
      else case s of [] \<Rightarrow> False | d # t \<Rightarrow> c = d \<and> glob_match p t)"
  by pat_completeness auto
termination
  by (relation "measure (\<lambda>(p, s). length p + length s)") auto

declare glob_match.simps(2) [simp del]

lemma glob_match_literal:
  "CHR ''*'' \<notin> set m \<Longrightarrow> glob_match (m @ q) s \<longleftrightarrow> (\<exists>t. s = m @ t \<and> glob_match q t)"
proof (induction m arbitrary: s)
  case (Cons c m)
  then have c: "c \<noteq> CHR ''*''" "CHR ''*'' \<notin> set m" by auto
  have "glob_match ((c # m) @ q) s \<longleftrightarrow> (\<exists>t. s = c # t \<and> glob_match (m @ q) t)"
    using c by (cases s) (auto simp: glob_match.simps(2))
  then show ?case using Cons.IH [OF c(2)] by auto
qed simp

lemma glob_match_star: "glob_match (CHR ''*'' # q) s \<longleftrightarrow> (\<exists>a t. s = a @ t \<and> glob_match q t)"
proof (induction s)
  case (Cons d s)
  have "(\<exists>a t. d # s = a @ t \<and> glob_match q t) \<longleftrightarrow> glob_match q (d # s) \<or> (\<exists>a t. s = a @ t \<and> glob_match q t)"
    by (subst Cons_eq_append_conv) blast
  then show ?case using Cons by (simp add: glob_match.simps(2) [of _ _ "d # s"])
qed (simp add: glob_match.simps(2))

lemma str_contains_conv: "str_contains s m \<longleftrightarrow> (\<exists>a t. s = a @ m @ t)"
proof (induction s)
  case (Cons c s)
  have "(\<exists>a t. c # s = a @ m @ t) \<longleftrightarrow> prefix m (c # s) \<or> (\<exists>a t. s = a @ m @ t)"
    by (subst Cons_eq_append_conv) (auto simp: prefix_def)
  then show ?case using Cons by (auto simp: str_contains_def)
qed (auto simp: str_contains_def)

lemma glob_match_shapes:
  assumes "CHR ''*'' \<notin> set m"
  shows "glob_match m s \<longleftrightarrow> s = m" "glob_match (CHR ''*'' # m) s \<longleftrightarrow> suffix m s"
    "glob_match (m @ ''*'') s \<longleftrightarrow> prefix m s" "glob_match (CHR ''*'' # m @ ''*'') s \<longleftrightarrow> str_contains s m"
  using glob_match_literal [OF assms, of "[]"] glob_match_literal [OF assms, of "''*''"]
  by (auto simp: glob_match_star suffix_def prefix_def str_contains_conv)

text \<open>A string with stars at most at its ends.\<close>

lemma end_stars_cases:
  assumes "CHR ''*'' \<notin> set (butlast (tl q))"
  obtains m where "CHR ''*'' \<notin> set m" "q = m \<or> q = CHR ''*'' # m \<or> q = m @ ''*'' \<or> q = CHR ''*'' # m @ ''*''"
proof (cases q)
  case (Cons c r)
  show ?thesis
  proof (cases r rule: rev_cases)
    case Nil
    then show ?thesis using that [of "if c = CHR ''*'' then [] else [c]"] Cons by auto
  next
    case (snoc mid d)
    then have "CHR ''*'' \<notin> set mid" using assms Cons by simp
    then show ?thesis
      using that [of "(if c = CHR ''*'' then [] else [c]) @ mid @ (if d = CHR ''*'' then [] else [d])"] Cons snoc
      by auto
  qed
qed (use that [of "[]"] in simp)

lemma ascii_lower_star [simp]: "ascii_lower c = CHR ''*'' \<longleftrightarrow> c = CHR ''*''"
proof -
  have "char_of (n + 32) \<noteq> CHR ''*''" if "65 \<le> n" "n \<le> 90" for n :: nat
  proof
    assume "char_of (n + 32) = CHR ''*''"
    then have "of_char (char_of (n + 32)) = (42 :: nat)" by simp
    then show False using that by (simp add: mod_less)
  qed
  then show ?thesis by (auto simp: ascii_lower_def)
qed

lemma ascii_lower_of_star [simp]: "ascii_lower (CHR ''*'') = CHR ''*''"
  by simp

lemma to_lowercase_simps [simp]:
  "to_lowercase [] = []" "to_lowercase (c # s) = ascii_lower c # to_lowercase s"
  "to_lowercase (s @ t) = to_lowercase s @ to_lowercase t"
  by (simp_all add: to_lowercase_def)

lemma star_lowercase [simp]: "CHR ''*'' \<in> set (to_lowercase s) \<longleftrightarrow> CHR ''*'' \<in> set s"
  by (induction s) (auto simp: eq_commute [of "CHR ''*''"])

lemma butlast_tl_lowercase: "butlast (tl (to_lowercase s)) = to_lowercase (butlast (tl s))"
  by (simp add: to_lowercase_def map_butlast map_tl)

lemma lowercase_star: "to_lowercase s = ''*'' \<longleftrightarrow> s = ''*''"
  by (cases s) (auto simp: to_lowercase_def)

lemma path_matches_shapes:
  assumes m: "CHR ''*'' \<notin> set m"
  shows "to_lowercase pattern = m \<Longrightarrow> path_matches_pattern path pattern \<longleftrightarrow> to_lowercase path = m"
    "to_lowercase pattern = CHR ''*'' # m \<Longrightarrow>
       path_matches_pattern path pattern \<longleftrightarrow> suffix m (to_lowercase path)"
    "to_lowercase pattern = m @ ''*'' \<Longrightarrow>
       path_matches_pattern path pattern \<longleftrightarrow> prefix m (to_lowercase path)"
    "to_lowercase pattern = CHR ''*'' # m @ ''*'' \<Longrightarrow>
       path_matches_pattern path pattern \<longleftrightarrow> str_contains (to_lowercase path) m"
proof -
  have last: "suffix ''*'' (CHR ''*'' # m) \<longleftrightarrow> m = []"
    using m by (cases m rule: rev_cases) (auto simp: suffix_def)
  have first: "prefix ''*'' (m @ ''*'') \<longleftrightarrow> m = []" using m by (cases m) auto
  show "to_lowercase pattern = m \<Longrightarrow> path_matches_pattern path pattern \<longleftrightarrow> to_lowercase path = m"
    using m lowercase_star [of pattern] by (auto simp: path_matches_pattern_def)
  show "to_lowercase pattern = CHR ''*'' # m \<Longrightarrow>
       path_matches_pattern path pattern \<longleftrightarrow> suffix m (to_lowercase path)"
    using last lowercase_star [of pattern] by (auto simp: path_matches_pattern_def strip_prefix_def)
  show "to_lowercase pattern = m @ ''*'' \<Longrightarrow>
       path_matches_pattern path pattern \<longleftrightarrow> prefix m (to_lowercase path)"
    using first lowercase_star [of pattern]
    by (cases "m = []") (auto simp: path_matches_pattern_def strip_prefix_def suffix_def)
  show "to_lowercase pattern = CHR ''*'' # m @ ''*'' \<Longrightarrow>
       path_matches_pattern path pattern \<longleftrightarrow> str_contains (to_lowercase path) m"
    using lowercase_star [of pattern]
    by (auto simp: path_matches_pattern_def suffix_def)
qed

text \<open>For patterns whose stars stand only at their ends, the list matching is the usual
  case-insensitive wildcard matching.\<close>

theorem path_matches_pattern_is_glob:
  assumes "CHR ''*'' \<notin> set (butlast (tl pattern))"
  shows "path_matches_pattern path pattern \<longleftrightarrow> glob_match (to_lowercase pattern) (to_lowercase path)"
proof -
  have "CHR ''*'' \<notin> set (butlast (tl (to_lowercase pattern)))"
    using assms by (simp add: butlast_tl_lowercase)
  then obtain m where m: "CHR ''*'' \<notin> set m"
    and q: "to_lowercase pattern = m \<or> to_lowercase pattern = CHR ''*'' # m \<or>
      to_lowercase pattern = m @ ''*'' \<or> to_lowercase pattern = CHR ''*'' # m @ ''*''"
    by (rule end_stars_cases)
  from q show ?thesis
    by (elim disjE) (simp_all only: path_matches_shapes [OF m] glob_match_shapes [OF m])
qed

theorem path_matches_pattern_is_glob_witness:
  "path_matches_pattern ''/boot/Vmlinuz-6'' ''/BOOT/*'' \<longleftrightarrow>
   glob_match (to_lowercase ''/BOOT/*'') (to_lowercase ''/boot/Vmlinuz-6'')"
  by (rule path_matches_pattern_is_glob) simp

subsection \<open>The floor and the lists\<close>

definition within_floor :: "Policy \<Rightarrow> bool" where
  "within_floor p \<longleftrightarrow>
     po_crash_threshold p \<le> MAX_CRASH_THRESHOLD \<and>
     po_watchdog_grace_seconds p \<le> MAX_WATCHDOG_GRACE_SECONDS \<and>
     (FLOOR_REQUIRE_SECURE_BOOT \<longrightarrow> po_secure_boot_required p) \<and>
     (FLOOR_REQUIRE_MEASURED_BOOT \<longrightarrow> po_measured_boot p)"

lemmas clamp_defs = clamp_crash_def clamp_watchdog_def clamp_secure_boot_def clamp_measured_boot_def

lemma apply_policy_floor_within: "within_floor (fst (apply_policy_floor p))"
  by (auto simp: within_floor_def apply_policy_floor_def clamp_defs Let_def)

lemma apply_policy_floor_id: "apply_policy_floor p = (p, []) \<longleftrightarrow> within_floor p"
proof
  assume "apply_policy_floor p = (p, [])"
  then show "within_floor p" using apply_policy_floor_within [of p] by simp
next
  assume "within_floor p"
  then show "apply_policy_floor p = (p, [])"
    by (auto simp: within_floor_def apply_policy_floor_def clamp_defs Let_def)
qed

text \<open>The fields the floor watches, as a report prints them, and the report of every one in which two policies
  differ.\<close>

definition watched_fields :: "Policy \<Rightarrow> (string \<times> string) list" where
  "watched_fields p =
     [(''crash_threshold'', dec (po_crash_threshold p)),
      (''watchdog_grace_seconds'', dec (po_watchdog_grace_seconds p)),
      (''secure_boot_required'', if po_secure_boot_required p then ''true'' else ''false''),
      (''measured_boot'', if po_measured_boot p then ''true'' else ''false'')]"

definition differences :: "Policy \<Rightarrow> Policy \<Rightarrow> PolicyClampReport list" where
  "differences p q =
     map (\<lambda>((field, old), (_, new)). \<lparr>cl_field = field, cl_esp_value = old, cl_floor_value = new\<rparr>)
       (filter (\<lambda>((_, old), (_, new)). old \<noteq> new) (zip (watched_fields p) (watched_fields q)))"

lemma dec_inject: "dec m = dec n \<longleftrightarrow> m = n"
  by (metis digits_val_dec)

abbreviation report_if :: "bool \<Rightarrow> string \<Rightarrow> string \<Rightarrow> string \<Rightarrow> PolicyClampReport list" where
  "report_if c field old new \<equiv> (if c then [\<lparr>cl_field = field, cl_esp_value = old, cl_floor_value = new\<rparr>] else [])"

lemma clamp_conv:
  "clamp_crash p = (p\<lparr>po_crash_threshold := min (po_crash_threshold p) MAX_CRASH_THRESHOLD\<rparr>,
     report_if (\<not> po_crash_threshold p \<le> MAX_CRASH_THRESHOLD) ''crash_threshold'' (dec (po_crash_threshold p))
       (dec (min (po_crash_threshold p) MAX_CRASH_THRESHOLD)))"
  "clamp_watchdog p = (p\<lparr>po_watchdog_grace_seconds := min (po_watchdog_grace_seconds p) MAX_WATCHDOG_GRACE_SECONDS\<rparr>,
     report_if (\<not> po_watchdog_grace_seconds p \<le> MAX_WATCHDOG_GRACE_SECONDS) ''watchdog_grace_seconds''
       (dec (po_watchdog_grace_seconds p)) (dec (min (po_watchdog_grace_seconds p) MAX_WATCHDOG_GRACE_SECONDS)))"
  "clamp_secure_boot p = (p\<lparr>po_secure_boot_required := po_secure_boot_required p \<or> FLOOR_REQUIRE_SECURE_BOOT\<rparr>,
     report_if (FLOOR_REQUIRE_SECURE_BOOT \<and> \<not> po_secure_boot_required p) ''secure_boot_required'' ''false'' ''true'')"
  "clamp_measured_boot p = (p\<lparr>po_measured_boot := po_measured_boot p \<or> FLOOR_REQUIRE_MEASURED_BOOT\<rparr>,
     report_if (FLOOR_REQUIRE_MEASURED_BOOT \<and> \<not> po_measured_boot p) ''measured_boot'' ''false'' ''true'')"
  by (auto simp: clamp_defs min_def)

lemma apply_policy_floor_policy:
  "fst (apply_policy_floor p) =
     p\<lparr>po_crash_threshold := min (po_crash_threshold p) MAX_CRASH_THRESHOLD,
       po_watchdog_grace_seconds := min (po_watchdog_grace_seconds p) MAX_WATCHDOG_GRACE_SECONDS,
       po_secure_boot_required := po_secure_boot_required p \<or> FLOOR_REQUIRE_SECURE_BOOT,
       po_measured_boot := po_measured_boot p \<or> FLOOR_REQUIRE_MEASURED_BOOT\<rparr>"
  by (simp add: apply_policy_floor_def clamp_conv)

lemma differences_conv:
  "differences p q =
     report_if (po_crash_threshold p \<noteq> po_crash_threshold q) ''crash_threshold''
       (dec (po_crash_threshold p)) (dec (po_crash_threshold q)) @
     report_if (po_watchdog_grace_seconds p \<noteq> po_watchdog_grace_seconds q) ''watchdog_grace_seconds''
       (dec (po_watchdog_grace_seconds p)) (dec (po_watchdog_grace_seconds q)) @
     report_if (po_secure_boot_required p \<noteq> po_secure_boot_required q) ''secure_boot_required''
       (if po_secure_boot_required p then ''true'' else ''false'') (if po_secure_boot_required q then ''true'' else ''false'') @
     report_if (po_measured_boot p \<noteq> po_measured_boot q) ''measured_boot''
       (if po_measured_boot p then ''true'' else ''false'') (if po_measured_boot q then ''true'' else ''false'')"
proof -
  have "(if a then ''true'' else ''false'') = (if b then ''true'' else ''false'') \<longleftrightarrow> a = b" for a b by simp
  then show ?thesis
    unfolding differences_def watched_fields_def zip_Cons_Cons zip_Nil filter.simps prod.case dec_inject
    by simp
qed

lemma apply_policy_floor_reports: "snd (apply_policy_floor p) = differences p (fst (apply_policy_floor p))"
proof -
  have "n \<noteq> min n k \<longleftrightarrow> \<not> n \<le> k" for n k :: nat by auto
  moreover have "a \<noteq> (a \<or> c) \<longleftrightarrow> c \<and> \<not> a" for a c by blast
  ultimately show ?thesis
    unfolding differences_conv apply_policy_floor_policy by (simp add: apply_policy_floor_def clamp_conv)
qed

text \<open>C23: whatever \<open>policy.toml\<close> says, a loaded policy is within the compiled-in floor.  The floor leaves a
  policy that is within it alone, otherwise changes only the offending fields, to the nearest value allowed, and
  reports exactly these changes, each once, with the field, the value of the file and the value in force;
  applying it again changes nothing.\<close>

theorem loaded_policy_within_floor:
  "(load_policy v = (v', Ok (p, reports)) \<longrightarrow> within_floor p) \<and>
   (apply_policy_floor q = (q, []) \<longleftrightarrow> within_floor q) \<and>
   fst (apply_policy_floor q) =
     q\<lparr>po_crash_threshold := min (po_crash_threshold q) MAX_CRASH_THRESHOLD,
       po_watchdog_grace_seconds := min (po_watchdog_grace_seconds q) MAX_WATCHDOG_GRACE_SECONDS,
       po_secure_boot_required := po_secure_boot_required q \<or> FLOOR_REQUIRE_SECURE_BOOT,
       po_measured_boot := po_measured_boot q \<or> FLOOR_REQUIRE_MEASURED_BOOT\<rparr> \<and>
   snd (apply_policy_floor q) = differences q (fst (apply_policy_floor q)) \<and>
   apply_policy_floor (fst (apply_policy_floor q)) = (fst (apply_policy_floor q), [])"
proof (intro conjI impI)
  assume "load_policy v = (v', Ok (p, reports))"
  then obtain c where "apply_policy_floor (parse_policy_toml c) = (p, reports)"
    by (auto simp: load_policy_def Let_def outcome_simps split: prod.splits)
  then show "within_floor p" using apply_policy_floor_within [of "parse_policy_toml c"] by simp
next
  show "apply_policy_floor q = (q, []) \<longleftrightarrow> within_floor q" by (rule apply_policy_floor_id)
  show "snd (apply_policy_floor q) = differences q (fst (apply_policy_floor q))" by (rule apply_policy_floor_reports)
  show "apply_policy_floor (fst (apply_policy_floor q)) = (fst (apply_policy_floor q), [])"
    by (simp only: apply_policy_floor_id apply_policy_floor_within)
qed (rule apply_policy_floor_policy)

definition demo_policy_file :: string where
  "demo_policy_file = ''[security]'' @ [CHR 0x0A] @ ''crash_threshold = 200'' @ [CHR 0x0A]"

definition demo_policy_volume :: "unit volume" where
  "demo_policy_volume =
     \<lparr>vol_backend_tag = ''fat'',
      vol_backend = \<lparr>bk_read = (\<lambda>_ _. Ok (as_bytes demo_policy_file)), bk_read_at = (\<lambda>_ _ _ _. Err NotFound),
        bk_exists = (\<lambda>_ _. Ok True), bk_read_dir = (\<lambda>_ _. Ok []),
        bk_metadata = (\<lambda>_ _. Err NotFound)\<rparr>,
      vol_store = (), vol_cache = cache_new, vol_has_handle = True, vol_shared = False\<rparr>"

lemma demo_policy_text: "from_utf8 (as_bytes demo_policy_file) = Some demo_policy_file"
  by (simp add: demo_policy_file_def from_utf8_as_bytes utf8_valid_ascii)

lemma demo_policy_parse: "po_crash_threshold (parse_policy_toml demo_policy_file) = 200"
  by (simp add: demo_policy_file_def parse_policy_toml_def parse_policy_line_def str_lines_def strip_cr_def
      trim_def trim_end_def trim_start_def is_whitespace_def apply_config_value_def set_num_def
      trim_matches_def parse_uint_def parse_digits_def digits_val_def digit_val_def is_ascii_digit_def
      Let_def)

theorem loaded_policy_within_floor_witness:
  "\<exists>v' p reports. load_policy demo_policy_volume = (v', Ok (p, reports)) \<and> within_floor p \<and>
     po_crash_threshold p = 10"
proof -
  obtain v' where "load_policy demo_policy_volume = (v', Ok (apply_policy_floor (parse_policy_toml demo_policy_file)))"
    by (simp add: load_policy_def read_to_string_str_def path_of_def normalize_path_string_def replace_char_def
        path_from_str_def path_render_def volume_read_to_string_def volume_read_def demo_policy_volume_def
        cache_get_def cache_new_def demo_policy_text)
  moreover obtain p reports where pr: "apply_policy_floor (parse_policy_toml demo_policy_file) = (p, reports)"
    by fastforce
  ultimately have l: "load_policy demo_policy_volume = (v', Ok (p, reports))" by simp
  have "po_crash_threshold p = 10"
    using pr demo_policy_parse
    by (auto simp: apply_policy_floor_def clamp_defs MAX_CRASH_THRESHOLD_def Let_def split: if_splits)
  then show ?thesis using l loaded_policy_within_floor [of demo_policy_volume v' p reports] by blast
qed

text \<open>The deny list of the configuration guide, as the guide writes it: each backslash of the path is
  doubled, as in a TOML string.\<close>

definition guide_denylist :: string where
  "guide_denylist =
     (let bs2 = [CHR 0x5C, CHR 0x5C]; q = [CHR 0x22]; nl = [CHR 0x0A] in
      ''[security]'' @ nl @
      ''denylist = ['' @ q @ bs2 @ ''EFI'' @ bs2 @ ''Linux'' @ bs2 @ ''vmlinuz-6.18.0-broken'' @ q @ '']'' @ nl)"

definition guide_path :: string where
  "guide_path = (let bs = [CHR 0x5C] in bs @ ''EFI'' @ bs @ ''Linux'' @ bs @ ''vmlinuz-6.18.0-broken'')"

text \<open>The parser does not undo TOML escapes, so the deny list printed in the configuration guide
  does not deny the kernel it names.\<close>

theorem guide_denylist_denies_nothing: "allowed (parse_policy_toml guide_denylist) guide_path"
  by (simp add: guide_denylist_def guide_path_def parse_policy_toml_def parse_policy_line_def str_lines_def strip_cr_def
      trim_def trim_end_def trim_start_def is_whitespace_def apply_config_value_def set_num_def
      trim_matches_def parse_toml_array_def suffix_def allowed_def is_denied_def list_matches_def
      eq_ignore_ascii_case_def default_policy_def Let_def)

subsection \<open>The default entry is the newest match\<close>

definition matching :: "BootEntry list \<Rightarrow> string \<Rightarrow> nat list \<Rightarrow> nat set" where
  "matching entries pat is = {i \<in> set is. path_matches_pattern (en_id (entries ! i)) pat}"

lemma best_match_spec:
  assumes "set is \<subseteq> {..<length entries}"
  shows "\<exists>r. best_match entries pat best is = Ok r \<and>
    (case r of
       None \<Rightarrow> best = None \<and> matching entries pat is = {}
     | Some (j, b) \<Rightarrow>
         (best = Some (j, b) \<or> j \<in> matching entries pat is \<and> b = en_id (entries ! j)) \<and>
         (\<forall>k c. best = Some (k, c) \<longrightarrow> version_compare c b \<noteq> Greater) \<and>
         (\<forall>i \<in> matching entries pat is. version_compare (en_id (entries ! i)) b \<noteq> Greater))"
  using assms
proof (induction "is" arbitrary: best)
  case Nil
  then show ?case using vc.cmp_refl by (auto simp: matching_def split: option.split)
next
  case (Cons i "is")
  let ?id = "en_id (entries ! i)"
  define pick where "pick \<longleftrightarrow> path_matches_pattern ?id pat \<and>
    (case best of None \<Rightarrow> True | Some (_, b) \<Rightarrow> version_compare ?id b = Greater)"
  define best' where "best' = (if pick then Some (i, ?id) else best)"
  have unf: "best_match entries pat best (i # is) = best_match entries pat best' is"
    using Cons.prems by (simp add: best'_def pick_def Let_def)
  obtain r where r: "best_match entries pat best' is = Ok r"
    and spec: "case r of
       None \<Rightarrow> best' = None \<and> matching entries pat is = {}
     | Some (j, b) \<Rightarrow>
         (best' = Some (j, b) \<or> j \<in> matching entries pat is \<and> b = en_id (entries ! j)) \<and>
         (\<forall>k c. best' = Some (k, c) \<longrightarrow> version_compare c b \<noteq> Greater) \<and>
         (\<forall>i \<in> matching entries pat is. version_compare (en_id (entries ! i)) b \<noteq> Greater)"
    using Cons.IH [of best'] Cons.prems by auto
  have mt: "matching entries pat (i # is) =
      (if path_matches_pattern ?id pat then insert i (matching entries pat is) else matching entries pat is)"
    by (auto simp: matching_def)
  show ?case
  proof (cases r)
    case None
    then show ?thesis using spec unf r mt by (auto simp: best'_def pick_def split: if_splits option.splits)
  next
    case (Some jb)
    obtain j b where jb: "jb = (j, b)" by fastforce
    have sp: "best' = Some (j, b) \<or> j \<in> matching entries pat is \<and> b = en_id (entries ! j)"
      "\<And>k c. best' = Some (k, c) \<Longrightarrow> version_compare c b \<noteq> Greater"
      "\<And>i. i \<in> matching entries pat is \<Longrightarrow> version_compare (en_id (entries ! i)) b \<noteq> Greater"
      using spec Some jb by auto
    have old: "version_compare c b \<noteq> Greater" if "best = Some (k, c)" for k c
    proof (cases pick)
      case True
      then have "version_compare ?id c = Greater" using that by (simp add: pick_def)
      then have "version_compare c ?id \<noteq> Greater" using vc.cmp_sym [of ?id c] by simp
      moreover have "version_compare ?id b \<noteq> Greater" using sp(2) True by (simp add: best'_def)
      ultimately show ?thesis using vc.cmp_trans [of c ?id b] by simp
    qed (use that sp(2) in \<open>simp add: best'_def\<close>)
    have new: "version_compare ?id b \<noteq> Greater" if hit: "path_matches_pattern ?id pat"
    proof (cases pick)
      case False
      then obtain k c where c: "best = Some (k, c)" "version_compare ?id c \<noteq> Greater"
        using hit by (auto simp: pick_def split: option.splits)
      then show ?thesis using old vc.cmp_trans [of ?id c b] by blast
    qed (use sp(2) in \<open>simp add: best'_def\<close>)
    have "best = Some (j, b) \<or> j \<in> matching entries pat (i # is) \<and> b = en_id (entries ! j)"
      using sp(1) mt by (auto simp: best'_def pick_def split: if_splits)
    then show ?thesis using unf r Some jb old new sp(3) mt by auto
  qed
qed

lemma find_by_id_spec:
  assumes "set is \<subseteq> {..<length entries}"
  shows "find_by_id entries d is = Ok (find (\<lambda>i. en_id (entries ! i) = d) is)"
  using assms by (induction "is") auto

text \<open>With eligible indices in range the choice of the default entry never panics; with a pattern
  that matches an eligible entry it is an eligible match that no other match is newer than; otherwise
  it is the first eligible entry with the configured id, if there is one.\<close>

theorem select_default_entry_spec:
  assumes "set eligible \<subseteq> {..<length entries}"
  shows "\<exists>r. select_default_entry entries eligible p = Ok r \<and>
    (case po_default_pattern p of
       Some pat \<Rightarrow>
         if matching entries pat eligible \<noteq> {} then
           \<exists>j \<in> matching entries pat eligible. r = Some j \<and>
             (\<forall>i \<in> matching entries pat eligible.
                version_compare (en_id (entries ! i)) (en_id (entries ! j)) \<noteq> Greater)
         else r = Option.bind (po_default_entry p) (\<lambda>d. find (\<lambda>i. en_id (entries ! i) = d) eligible)
     | None \<Rightarrow> r = Option.bind (po_default_entry p) (\<lambda>d. find (\<lambda>i. en_id (entries ! i) = d) eligible))"
proof (cases "po_default_pattern p")
  case None
  then show ?thesis
    using find_by_id_spec [OF assms] by (auto simp: select_default_entry_def split: option.split)
next
  case (Some pat)
  from best_match_spec [OF assms, of pat None] show ?thesis
    using find_by_id_spec [OF assms] Some
    by (auto simp: select_default_entry_def split: option.splits)
qed

definition demo_entry :: "string \<Rightarrow> BootEntry" where
  "demo_entry i = \<lparr>en_id = i, en_name = i, en_kind = Chainload [], en_icon = IconLinux,
     en_bls_filename = None, en_preflight = None, en_source_volume_index = 0, en_source_backend_tag = ''fat''\<rparr>"

theorem select_default_entry_spec_witness:
  "\<exists>r. select_default_entry [demo_entry ''bls-a-1'', demo_entry ''bls-a-2''] [0, 1]
         (default_policy\<lparr>po_default_pattern := Some ''bls-*''\<rparr>) = Ok r"
  using select_default_entry_spec
    [of "[0, 1]" "[demo_entry ''bls-a-1'', demo_entry ''bls-a-2'']" "default_policy\<lparr>po_default_pattern := Some ''bls-*''\<rparr>"]
  by auto

end
