(* ===== verification/Fat_Volume.thy ===== *)
theory Fat_Volume
  imports Volume
begin

section \<open>The FAT backend and the ESP writer\<close>

text \<open>
  Model of \<open>lamboot-core/src/fs_backend_fat.rs\<close> and \<open>fs_writer.rs\<close>.  The firmware's
  \<open>SimpleFileSystem\<close> and \<open>File\<close> protocols are not part of the sources: they are the record \<open>sfs\<close> of the
  calls the code makes, over an arbitrary medium \<open>'s\<close>.  Any call may fail at any time.  The locale
  \<open>simple_file_system\<close> states what the UEFI specification documents of the calls that succeed and which
  files a call can change; names are compared through \<open>canon\<close>, since FAT ignores case.  The locale
  \<open>reliable_sfs\<close> adds that the device reports no errors.

  The writer's six operations follow, with the volume's cache invalidation.  The theorems cover a
  session of reads and writes in any order: cached reads are never stale as long as every write
  succeeds, and the two ways in which the documented guarantee fails when one does not.
\<close>

subsection \<open>The firmware calls\<close>

datatype HandleKind = HRegular | HDirectory

record 's sfs =
  fw_cstr16 :: "string \<Rightarrow> bool"
  fw_open_protocol :: "(unit, string) outcome"
  fw_open_volume :: "'s \<Rightarrow> (unit, string) outcome"
  fw_open :: "bool \<Rightarrow> string \<Rightarrow> 's \<Rightarrow> (HandleKind, string) outcome"
  fw_create :: "HandleKind \<Rightarrow> string \<Rightarrow> 's \<Rightarrow> 's \<times> (HandleKind, string) outcome"
  fw_file_size :: "string \<Rightarrow> 's \<Rightarrow> (nat, string) outcome"
  fw_read_only :: "string \<Rightarrow> 's \<Rightarrow> (bool, string) outcome"
  fw_read :: "string \<Rightarrow> nat \<Rightarrow> nat \<Rightarrow> 's \<Rightarrow> (bytes, string) outcome"
  fw_write :: "string \<Rightarrow> nat option \<Rightarrow> bytes \<Rightarrow> 's \<Rightarrow> 's \<times> (unit, string) outcome"
  fw_delete :: "string \<Rightarrow> 's \<Rightarrow> 's \<times> (unit, string) outcome"
  fw_read_entries :: "string \<Rightarrow> 's \<Rightarrow> (DirEntry list, string) outcome"

text \<open>\<open>From<uefi::Error> for FsError\<close>: every firmware status, \<open>NOT_FOUND\<close> included, becomes an
  \<open>Io\<close> error.\<close>

definition io :: "('a, string) outcome \<Rightarrow> ('a, FsError) outcome" where
  "io r = omap_err FsIo r"

definition aio :: "('s, 'a, string) act \<Rightarrow> ('s, 'a, FsError) act" where
  "aio m = amap_err FsIo m"

definition FAT_TAG :: string where "FAT_TAG = ''fat''"

definition to_uefi_path :: "'s sfs \<Rightarrow> string \<Rightarrow> (string, FsError) outcome" where
  "to_uefi_path fw p =
     (let t = (if p = ''/'' then [CHR 0x5C] else replace_char (CHR ''/'') (CHR 0x5C) p) in
      if fw_cstr16 fw t then Ok t else Err (InvalidPath ''non-BMP codepoint''))"

definition open_root :: "'s sfs \<Rightarrow> 's \<Rightarrow> (unit, FsError) outcome" where
  "open_root fw s =
     obind (io (fw_open_protocol fw)) (\<lambda>_. io (fw_open_volume fw s))"

definition open_file_read :: "'s sfs \<Rightarrow> string \<Rightarrow> 's \<Rightarrow> (string, FsError) outcome" where
  "open_file_read fw p s =
     obind (to_uefi_path fw p) (\<lambda>c.
     obind (io (fw_open fw False c s)) (\<lambda>k.
     if k = HRegular then Ok c else Err IsDirectory))"

subsection \<open>The backend\<close>

definition read_through_sfs :: "'s sfs \<Rightarrow> string \<Rightarrow> 's \<Rightarrow> (bytes, FsError) outcome" where
  "read_through_sfs fw p s =
     obind (io (fw_open_volume fw s)) (\<lambda>_.
     obind (open_file_read fw p s) (\<lambda>c.
     obind (io (fw_file_size fw c s)) (\<lambda>sz.
     obind (checked_full_read_len sz) (\<lambda>n.
     io (fw_read fw c 0 n s)))))"

definition fat_read :: "'s sfs \<Rightarrow> 's \<Rightarrow> string \<Rightarrow> (bytes, FsError) outcome" where
  "fat_read fw s p =
     obind (open_root fw s) (\<lambda>_.
     obind (open_file_read fw p s) (\<lambda>c.
     obind (io (fw_file_size fw c s)) (\<lambda>sz.
     obind (checked_full_read_len sz) (\<lambda>n.
     io (fw_read fw c 0 n s)))))"

definition fat_read_at :: "'s sfs \<Rightarrow> 's \<Rightarrow> string \<Rightarrow> nat \<Rightarrow> nat \<Rightarrow> (bytes, FsError) outcome" where
  "fat_read_at fw s p off n =
     obind (open_root fw s) (\<lambda>_.
     obind (open_file_read fw p s) (\<lambda>c.
     io (fw_read fw c off n s)))"

definition fat_exists :: "'s sfs \<Rightarrow> 's \<Rightarrow> string \<Rightarrow> (bool, FsError) outcome" where
  "fat_exists fw s p =
     obind (open_root fw s) (\<lambda>_.
     obind (to_uefi_path fw p) (\<lambda>c.
     case fw_open fw False c s of
       Ok k \<Rightarrow> Ok True
     | Err st \<Rightarrow> if st = ''NOT_FOUND'' then Ok False else Err (FsIo st)
     | Panic \<Rightarrow> Panic))"

definition stat_file :: "'s sfs \<Rightarrow> string \<Rightarrow> 's \<Rightarrow> (Metadata, FsError) outcome" where
  "stat_file fw p s =
     obind (to_uefi_path fw p) (\<lambda>c.
     obind (io (fw_open fw False c s)) (\<lambda>k.
     case k of
       HRegular \<Rightarrow>
         obind (io (fw_file_size fw c s)) (\<lambda>sz.
         obind (io (fw_read_only fw c s)) (\<lambda>ro.
         Ok \<lparr>md_kind = Regular, md_size = sz, md_mode = (if ro then 292 else 420),
             md_read_only = ro, md_source_backend = FAT_TAG\<rparr>))
     | HDirectory \<Rightarrow>
         obind (io (fw_read_only fw c s)) (\<lambda>ro.
         Ok \<lparr>md_kind = Directory, md_size = 0, md_mode = 493,
             md_read_only = ro, md_source_backend = FAT_TAG\<rparr>)))"

definition fat_metadata :: "'s sfs \<Rightarrow> 's \<Rightarrow> string \<Rightarrow> (Metadata, FsError) outcome" where
  "fat_metadata fw s p = obind (open_root fw s) (\<lambda>_. stat_file fw p s)"

definition fat_read_dir :: "'s sfs \<Rightarrow> 's \<Rightarrow> string \<Rightarrow> (DirEntry list, FsError) outcome" where
  "fat_read_dir fw s p =
     obind (open_root fw s) (\<lambda>_.
     obind (to_uefi_path fw p) (\<lambda>c.
     obind (io (fw_open fw False c s)) (\<lambda>k.
     if k \<noteq> HDirectory then Err NotDirectory
     else obind (io (fw_read_entries fw c s)) (\<lambda>es.
       Ok (filter (\<lambda>e. de_name e \<noteq> ''.'' \<and> de_name e \<noteq> ''..'') es)))))"

definition fat_backend :: "'s sfs \<Rightarrow> 's backend" where
  "fat_backend fw =
     \<lparr>bk_read = fat_read fw, bk_read_at = fat_read_at fw, bk_exists = fat_exists fw,
      bk_read_dir = fat_read_dir fw, bk_metadata = fat_metadata fw\<rparr>"

subsection \<open>File writes\<close>

definition delete_existing :: "'s sfs \<Rightarrow> string \<Rightarrow> ('s, unit, FsError) act" where
  "delete_existing fw c s =
     (case fw_open fw True c s of
        Ok HRegular \<Rightarrow> (fst (fw_delete fw c s), Ok ())
      | _ \<Rightarrow> (s, Ok ()))"

definition open_create :: "'s sfs \<Rightarrow> string \<Rightarrow> ('s, unit, FsError) act" where
  "open_create fw c =
     abind (aio (fw_create fw HRegular c)) (\<lambda>k. if k = HRegular then aret () else afail IsDirectory)"

definition fat_write :: "'s sfs \<Rightarrow> string \<Rightarrow> bytes \<Rightarrow> ('s, unit, FsError) act" where
  "fat_write fw p data =
     abind (alift (\<lambda>s. io (fw_open_volume fw s))) (\<lambda>_.
     abind (alift (\<lambda>_. to_uefi_path fw p)) (\<lambda>c.
     abind (delete_existing fw c) (\<lambda>_.
     abind (open_create fw c) (\<lambda>_.
     aio (fw_write fw c (Some 0) data)))))"

definition fat_append :: "'s sfs \<Rightarrow> string \<Rightarrow> bytes \<Rightarrow> ('s, unit, FsError) act" where
  "fat_append fw p data =
     abind (alift (\<lambda>s. case read_through_sfs fw p s of
                         Ok bs \<Rightarrow> Ok bs
                       | Err e \<Rightarrow> if e = NotFound then Ok [] else Err e
                       | Panic \<Rightarrow> Panic)) (\<lambda>existing.
     fat_write fw p (existing @ data))"

definition fat_true_append :: "'s sfs \<Rightarrow> string \<Rightarrow> bytes \<Rightarrow> ('s, unit, FsError) act" where
  "fat_true_append fw p data =
     abind (alift (\<lambda>s. io (fw_open_volume fw s))) (\<lambda>_.
     abind (alift (\<lambda>_. to_uefi_path fw p)) (\<lambda>c.
     abind (open_create fw c) (\<lambda>_.
     aio (fw_write fw c None data))))"

definition fat_join :: "string \<Rightarrow> string \<Rightarrow> (string, FsError) outcome" where
  "fat_join dir name = omap_err fs_error_of_path (path_join dir name)"

definition delete_open_file :: "'s sfs \<Rightarrow> string \<Rightarrow> ('s, unit, FsError) act" where
  "delete_open_file fw c = amap_err (\<lambda>_. FsIo ''DEVICE_ERROR'') (fw_delete fw c)"

text \<open>The last part of a rename: dropping the old name.\<close>

definition drop_old_name :: "'s sfs \<Rightarrow> string \<Rightarrow> ('s, unit, FsError) act" where
  "drop_old_name fw p =
     abind (alift (\<lambda>s. io (fw_open_volume fw s))) (\<lambda>_.
     abind (alift (\<lambda>_. to_uefi_path fw p)) (\<lambda>c.
     abind (alift (\<lambda>s. io (fw_open fw True c s))) (\<lambda>k.
     if k = HRegular then delete_open_file fw c else aret ())))"

definition fat_rename :: "'s sfs \<Rightarrow> string \<Rightarrow> string \<Rightarrow> string \<Rightarrow> ('s, unit, FsError) act" where
  "fat_rename fw dir_path old_name new_name =
     abind (alift (\<lambda>_. fat_join dir_path old_name)) (\<lambda>old_full.
     abind (alift (\<lambda>_. fat_join dir_path new_name)) (\<lambda>new_full.
     abind (alift (read_through_sfs fw old_full)) (\<lambda>content.
     abind (fat_write fw new_full content) (\<lambda>_.
     drop_old_name fw old_full))))"

definition fat_ensure_dir :: "'s sfs \<Rightarrow> string \<Rightarrow> ('s, unit, FsError) act" where
  "fat_ensure_dir fw p =
     abind (alift (\<lambda>s. io (fw_open_volume fw s))) (\<lambda>_.
     abind (alift (\<lambda>_. to_uefi_path fw p)) (\<lambda>c.
     abind (aio (fw_create fw HDirectory c)) (\<lambda>_. aret ())))"

definition fat_delete :: "'s sfs \<Rightarrow> string \<Rightarrow> ('s, unit, FsError) act" where
  "fat_delete fw p =
     abind (alift (\<lambda>s. io (fw_open_volume fw s))) (\<lambda>_.
     abind (alift (\<lambda>_. to_uefi_path fw p)) (\<lambda>c.
     abind (alift (\<lambda>s. io (fw_open fw True c s))) (\<lambda>k.
     if k = HRegular then delete_open_file fw c else afail IsDirectory)))"

subsection \<open>The ESP writer\<close>

definition esp_writer_new :: "'s volume \<Rightarrow> bool" where
  "esp_writer_new v \<longleftrightarrow> vol_backend_tag v = FAT_TAG \<and> vol_has_handle v"

definition fat_sfs_mut :: "'s sfs \<Rightarrow> 's volume \<Rightarrow> bool" where
  "fat_sfs_mut fw v \<longleftrightarrow> \<not> vol_shared v \<and> vol_backend_tag v = FAT_TAG \<and> fw_open_protocol fw = Ok ()"

text \<open>The common shape of the six methods: fetch the file system, run the FAT operation on the
  medium, and on success drop the touched paths from the cache.\<close>

definition with_sfs ::
  "'s sfs \<Rightarrow> ('s, unit, FsError) act \<Rightarrow> ('s volume \<Rightarrow> 's volume \<times> (unit, FsError) outcome) \<Rightarrow>
   ('s volume, unit, FsError) act" where
  "with_sfs fw m k v =
     (if \<not> fat_sfs_mut fw v then (v, Err (Unsupported ''write requires a FAT volume''))
      else case m (vol_store v) of
        (s', Ok _) \<Rightarrow> k (v\<lparr>vol_store := s'\<rparr>)
      | (s', Err e) \<Rightarrow> (v\<lparr>vol_store := s'\<rparr>, Err e)
      | (s', Panic) \<Rightarrow> (v\<lparr>vol_store := s'\<rparr>, Panic))"

definition esp_write :: "'s sfs \<Rightarrow> string \<Rightarrow> bytes \<Rightarrow> ('s volume, unit, FsError) act" where
  "esp_write fw p data = with_sfs fw (fat_write fw p data) (\<lambda>v. (invalidate_path p v, Ok ()))"

definition esp_append :: "'s sfs \<Rightarrow> string \<Rightarrow> bytes \<Rightarrow> ('s volume, unit, FsError) act" where
  "esp_append fw p data = with_sfs fw (fat_append fw p data) (\<lambda>v. (invalidate_path p v, Ok ()))"

definition esp_true_append :: "'s sfs \<Rightarrow> string \<Rightarrow> bytes \<Rightarrow> ('s volume, unit, FsError) act" where
  "esp_true_append fw p data =
     with_sfs fw (fat_true_append fw p data) (\<lambda>v. (invalidate_path p v, Ok ()))"

definition esp_rename :: "'s sfs \<Rightarrow> string \<Rightarrow> string \<Rightarrow> string \<Rightarrow> ('s volume, unit, FsError) act" where
  "esp_rename fw dir_path old_name new_name =
     with_sfs fw (fat_rename fw dir_path old_name new_name) (\<lambda>v.
       case fat_join dir_path old_name of
         Ok old_full \<Rightarrow>
           (case fat_join dir_path new_name of
              Ok new_full \<Rightarrow> (invalidate_path new_full (invalidate_path old_full v), Ok ())
            | Err e \<Rightarrow> (v, Err e) | Panic \<Rightarrow> (v, Panic))
       | Err e \<Rightarrow> (v, Err e) | Panic \<Rightarrow> (v, Panic))"

definition esp_ensure_dir :: "'s sfs \<Rightarrow> string \<Rightarrow> ('s volume, unit, FsError) act" where
  "esp_ensure_dir fw p = with_sfs fw (fat_ensure_dir fw p) (\<lambda>v. (invalidate_path p v, Ok ()))"

definition esp_delete :: "'s sfs \<Rightarrow> string \<Rightarrow> ('s volume, unit, FsError) act" where
  "esp_delete fw p = with_sfs fw (fat_delete fw p) (\<lambda>v. (invalidate_path p v, Ok ()))"

subsection \<open>What the firmware promises\<close>

datatype fat_node = FatFile bytes | FatDir

fun node_kind :: "fat_node \<Rightarrow> HandleKind" where
  "node_kind (FatFile b) = HRegular"
| "node_kind FatDir = HDirectory"

fun empty_node :: "HandleKind \<Rightarrow> fat_node" where
  "empty_node HRegular = FatFile []"
| "empty_node HDirectory = FatDir"

fun write_at :: "bytes \<Rightarrow> nat option \<Rightarrow> bytes \<Rightarrow> bytes" where
  "write_at b None d = b @ d"
| "write_at b (Some off) d = overwrite b off d"

text \<open>\<open>view s\<close> is the directory tree of the medium, by canonical name.\<close>

locale simple_file_system =
  fixes fw :: "'s sfs" and canon :: "string \<Rightarrow> string" and view :: "'s \<Rightarrow> string \<Rightarrow> fat_node option"
  assumes open_ok: "fw_open fw w c s = Ok k \<Longrightarrow> \<exists>n. view s (canon c) = Some n \<and> node_kind n = k"
    and size_ok: "view s (canon c) = Some (FatFile b) \<Longrightarrow> fw_file_size fw c s = Ok n \<Longrightarrow> n = length b"
    and read_ok: "view s (canon c) = Some (FatFile b) \<Longrightarrow> fw_read fw c off n s = Ok d \<Longrightarrow>
          d = take n (drop off b)"
    and create_frame: "q \<noteq> canon c \<Longrightarrow> view (fst (fw_create fw k c s)) q = view s q"
    and create_ok: "fw_create fw k c s = (s', Ok k') \<Longrightarrow>
          (case view s (canon c) of None \<Rightarrow> view s' (canon c) = Some (empty_node k) \<and> k' = k
           | Some n \<Rightarrow> view s' (canon c) = Some n \<and> k' = node_kind n)"
    and write_frame: "q \<noteq> canon c \<Longrightarrow> view (fst (fw_write fw c pos d s)) q = view s q"
    and write_ok: "view s (canon c) = Some (FatFile b) \<Longrightarrow> fw_write fw c pos d s = (s', Ok ()) \<Longrightarrow>
          view s' (canon c) = Some (FatFile (write_at b pos d))"
    and delete_frame: "q \<noteq> canon c \<Longrightarrow> view (fst (fw_delete fw c s)) q = view s q"
    and delete_ok: "fw_delete fw c s = (s', Ok ()) \<Longrightarrow> view s' (canon c) = None"
    and delete_fail: "fw_delete fw c s = (s', r) \<Longrightarrow> r \<noteq> Ok () \<Longrightarrow> view s' (canon c) = view s (canon c)"
    and view_bound: "view s q = Some (FatFile b) \<Longrightarrow> length b \<le> USIZE_MAX"

text \<open>The file a path names, and what the medium holds there.\<close>

definition file_id :: "'s sfs \<Rightarrow> (string \<Rightarrow> string) \<Rightarrow> string \<Rightarrow> string option" where
  "file_id fw canon p = map_option canon (ok_option (to_uefi_path fw p))"

definition fat_content ::
  "'s sfs \<Rightarrow> (string \<Rightarrow> string) \<Rightarrow> ('s \<Rightarrow> string \<Rightarrow> fat_node option) \<Rightarrow> 's \<Rightarrow> string \<Rightarrow> bytes option" where
  "fat_content fw canon view s p =
     (case file_id fw canon p of
        None \<Rightarrow> None
      | Some f \<Rightarrow> (case view s f of Some (FatFile b) \<Rightarrow> Some b | _ \<Rightarrow> None))"

lemma file_id_Some: "to_uefi_path fw p = Ok c \<Longrightarrow> file_id fw canon p = Some (canon c)"
  by (simp add: file_id_def)

lemma fat_content_Some_conv:
  "fat_content fw canon view s p = Some b \<longleftrightarrow>
   (\<exists>f. file_id fw canon p = Some f \<and> view s f = Some (FatFile b))"
  by (auto simp: fat_content_def split: option.splits fat_node.splits)

lemma io_Ok_conv [act_simps, outcome_simps]: "io r = Ok x \<longleftrightarrow> r = Ok x"
  by (simp add: io_def outcome_simps)

lemma aio_conv [act_simps]: "aio m s = (s', r) \<longleftrightarrow> (\<exists>r'. m s = (s', r') \<and> io r' = r)"
  by (simp add: aio_def io_def act_simps)

text \<open>Frames: an operation changes no file but those in \<open>T\<close>.\<close>

definition frame :: "('s \<Rightarrow> string \<Rightarrow> fat_node option) \<Rightarrow> string set \<Rightarrow> 's \<Rightarrow> 's \<Rightarrow> bool" where
  "frame view T s s' \<longleftrightarrow> (\<forall>q. q \<notin> T \<longrightarrow> view s' q = view s q)"

lemma frame_laws: "transp (frame view T)" "reflp (frame view T)"
  by (auto simp: frame_def transp_def reflp_def)

lemma frame_mono: "frame view T s s' \<Longrightarrow> T \<subseteq> U \<Longrightarrow> frame view U s s'"
  by (auto simp: frame_def)

lemma akeeps_frame_mono: "akeeps (frame view T) m \<Longrightarrow> T \<subseteq> U \<Longrightarrow> akeeps (frame view U) m"
  by (auto simp: akeeps_def intro: frame_mono)

text \<open>The second half of a sequence only has to keep the frame for the values the first half can
  return.\<close>

lemma akeeps_alift_bind:
  assumes "reflp R" "\<And>s x. g s = Ok x \<Longrightarrow> R s (fst (f x s))"
  shows "akeeps R (abind (alift g) f)"
  unfolding akeeps_def abind_def alift_def
proof
  fix s
  show "R s (fst (case (s, g s) of (s', Ok x) \<Rightarrow> f x s' | (s', Err e) \<Rightarrow> (s', Err e) | (s', Panic) \<Rightarrow> (s', Panic)))"
    using assms by (cases "g s") (auto simp: reflpD)
qed

context simple_file_system
begin

lemma create_keeps: "akeeps (frame view {canon c}) (fw_create fw k c)"
  using create_frame by (auto simp: akeeps_def frame_def)

lemma write_keeps: "akeeps (frame view {canon c}) (fw_write fw c pos d)"
  using write_frame by (auto simp: akeeps_def frame_def)

lemma delete_keeps: "akeeps (frame view {canon c}) (fw_delete fw c)"
  using delete_frame by (auto simp: akeeps_def frame_def)

lemma delete_existing_keeps: "akeeps (frame view {canon c}) (delete_existing fw c)"
  using delete_frame
  by (auto simp: akeeps_def frame_def delete_existing_def split: outcome.split HandleKind.split)

lemma delete_open_file_keeps: "akeeps (frame view {canon c}) (delete_open_file fw c)"
  by (simp add: delete_open_file_def akeeps_amap_err delete_keeps)

lemma open_create_keeps: "akeeps (frame view {canon c}) (open_create fw c)"
  unfolding open_create_def aio_def
  by (intro akeeps_abind frame_laws akeeps_amap_err create_keeps) (simp add: akeeps_pure frame_laws)

lemmas keeps_intros = akeeps_abind frame_laws akeeps_pure akeeps_amap_err create_keeps write_keeps
  delete_keeps delete_existing_keeps delete_open_file_keeps open_create_keeps

text \<open>Binding the translated path: what follows touches the file the path names.\<close>

lemma keeps_uefi_path:
  assumes "\<And>c. akeeps (frame view {canon c}) (f c)"
  shows "akeeps (frame view (set_option (file_id fw canon p)))
           (abind (alift (\<lambda>_. to_uefi_path fw p)) f)"
proof (rule akeeps_alift_bind [OF frame_laws(2)])
  fix s c assume "to_uefi_path fw p = Ok c"
  then show "frame view (set_option (file_id fw canon p)) s (fst (f c s))"
    using assms [of c] by (simp add: file_id_Some akeeps_def)
qed

lemma fat_write_keeps: "akeeps (frame view (set_option (file_id fw canon p))) (fat_write fw p d)"
  unfolding fat_write_def aio_def
  by (intro akeeps_abind frame_laws akeeps_pure keeps_uefi_path keeps_intros)

lemma fat_append_keeps: "akeeps (frame view (set_option (file_id fw canon p))) (fat_append fw p d)"
  unfolding fat_append_def by (intro akeeps_abind frame_laws akeeps_pure fat_write_keeps)

lemma fat_true_append_keeps:
  "akeeps (frame view (set_option (file_id fw canon p))) (fat_true_append fw p d)"
  unfolding fat_true_append_def aio_def
  by (intro akeeps_abind frame_laws akeeps_pure keeps_uefi_path keeps_intros)

lemma fat_ensure_dir_keeps:
  "akeeps (frame view (set_option (file_id fw canon p))) (fat_ensure_dir fw p)"
  unfolding fat_ensure_dir_def aio_def
  by (intro akeeps_abind frame_laws akeeps_pure keeps_uefi_path keeps_intros)

lemma fat_delete_keeps: "akeeps (frame view (set_option (file_id fw canon p))) (fat_delete fw p)"
  unfolding fat_delete_def
  by (intro akeeps_abind frame_laws akeeps_pure keeps_uefi_path)
    (simp add: delete_open_file_keeps akeeps_pure frame_laws)

lemma drop_old_name_keeps: "akeeps (frame view (set_option (file_id fw canon p))) (drop_old_name fw p)"
  unfolding drop_old_name_def
  by (intro akeeps_abind frame_laws akeeps_pure keeps_uefi_path)
    (simp add: delete_open_file_keeps akeeps_pure frame_laws)

lemma fat_rename_keeps:
  assumes "fat_join dir old_name = Ok p" "fat_join dir new_name = Ok q"
  shows "akeeps (frame view (set_option (file_id fw canon p) \<union> set_option (file_id fw canon q)))
           (fat_rename fw dir old_name new_name)" (is "akeeps ?R _")
proof -
  have "akeeps ?R (abind (alift (read_through_sfs fw p)) (\<lambda>content.
          abind (fat_write fw q content) (\<lambda>_. drop_old_name fw p)))"
    by (intro akeeps_abind frame_laws akeeps_pure akeeps_frame_mono [OF fat_write_keeps]
        akeeps_frame_mono [OF drop_old_name_keeps]) auto
  then show ?thesis
    by (simp add: fat_rename_def akeeps_def abind_def alift_def assms)
qed

end

subsection \<open>Reads return what the medium holds\<close>

context simple_file_system
begin

lemma open_file_read_ok:
  assumes "open_file_read fw p s = Ok c"
  shows "to_uefi_path fw p = Ok c \<and> (\<exists>b. view s (canon c) = Some (FatFile b))"
proof -
  have "to_uefi_path fw p = Ok c" "fw_open fw False c s = Ok HRegular"
    using assms by (auto simp: open_file_read_def outcome_simps split: if_splits)
  then show ?thesis using open_ok [of False c s HRegular] by (metis node_kind.cases node_kind.simps(2) HandleKind.distinct(1))
qed

lemma sized_read_ok:
  assumes "view s (canon c) = Some (FatFile b)"
    "obind (io (fw_file_size fw c s)) (\<lambda>sz. obind (checked_full_read_len sz) (\<lambda>n. io (fw_read fw c 0 n s))) = Ok d"
  shows "d = b"
proof -
  obtain sz n where h: "fw_file_size fw c s = Ok sz" "checked_full_read_len sz = Ok n" "fw_read fw c 0 n s = Ok d"
    using assms(2) by (auto simp: outcome_simps)
  then have "sz = length b" "n = sz" using size_ok [OF assms(1)]
    by (auto simp: checked_full_read_len_def checked_read_len_def split: if_splits)
  then show ?thesis using read_ok [OF assms(1) h(3)] by simp
qed

lemma read_through_sfs_ok:
  assumes "read_through_sfs fw p s = Ok d"
  shows "fat_content fw canon view s p = Some d"
proof -
  obtain c where c: "open_file_read fw p s = Ok c"
    and r: "obind (io (fw_file_size fw c s)) (\<lambda>sz. obind (checked_full_read_len sz) (\<lambda>n. io (fw_read fw c 0 n s))) = Ok d"
    using assms by (auto simp: read_through_sfs_def obind_Ok_conv)
  from open_file_read_ok [OF c] obtain b where "to_uefi_path fw p = Ok c" "view s (canon c) = Some (FatFile b)" by auto
  moreover from this sized_read_ok [OF _ r] have "d = b" by simp
  ultimately show ?thesis by (simp add: fat_content_Some_conv file_id_Some)
qed

lemma fat_read_ok: "fat_read fw s p = Ok d \<Longrightarrow> fat_content fw canon view s p = Some d"
  by (rule read_through_sfs_ok) (auto simp: fat_read_def read_through_sfs_def open_root_def outcome_simps)

lemma fat_read_at_ok:
  assumes "fat_read_at fw s p off n = Ok d"
  shows "\<exists>b. fat_content fw canon view s p = Some b \<and> d = take n (drop off b)"
proof -
  obtain c where c: "open_file_read fw p s = Ok c" and r: "fw_read fw c off n s = Ok d"
    using assms by (auto simp: fat_read_at_def outcome_simps)
  from open_file_read_ok [OF c] obtain b where "to_uefi_path fw p = Ok c" "view s (canon c) = Some (FatFile b)" by auto
  with read_ok [OF _ r] show ?thesis by (auto simp: fat_content_Some_conv file_id_Some)
qed

end

sublocale simple_file_system \<subseteq> fatm: medium "fat_backend fw" "fat_content fw canon view"
  by unfold_locales
    (auto simp: fat_backend_def dest: fat_read_ok fat_read_at_ok iffD1 [OF fat_content_Some_conv] view_bound)

subsection \<open>Effects of the write operations\<close>

context simple_file_system
begin

lemma delete_existing_effect:
  assumes "delete_existing fw c s = (s', r)"
  shows "r = Ok () \<and> (view s' (canon c) = view s (canon c) \<or> view s' (canon c) = None)"
proof -
  obtain t x where d: "fw_delete fw c s = (t, x)" by fastforce
  then show ?thesis
    using assms delete_ok [of c s t] delete_fail [of c s t]
    by (cases "x = Ok ()") (auto simp: delete_existing_def split: outcome.splits HandleKind.splits)
qed

lemma open_create_ok:
  assumes "open_create fw c s = (s', Ok ())"
  shows "view s (canon c) = None \<and> view s' (canon c) = Some (FatFile []) \<or>
         (\<exists>b. view s (canon c) = Some (FatFile b) \<and> view s' (canon c) = Some (FatFile b))"
proof -
  have "fw_create fw HRegular c s = (s', Ok HRegular)"
    using assms by (auto simp: open_create_def act_simps split: if_splits)
  from create_ok [OF this] show ?thesis
    by (auto split: option.splits) (metis HandleKind.distinct(1) node_kind.elims)
qed

lemma fat_true_append_effect:
  assumes "fat_true_append fw p d s = (s', Ok ())"
  shows "fat_content fw canon view s' p =
         Some ((case fat_content fw canon view s p of None \<Rightarrow> [] | Some b \<Rightarrow> b) @ d)"
proof -
  obtain c t where c: "to_uefi_path fw p = Ok c" and t: "open_create fw c s = (t, Ok ())"
    and w: "fw_write fw c None d t = (s', Ok ())"
    using assms by (auto simp: fat_true_append_def act_simps)
  then show ?thesis
    using open_create_ok [OF t] write_ok [OF _ w] by (auto simp: fat_content_def file_id_Some)
qed

text \<open>A successful write leaves the data, possibly followed by bytes of the old file when the
  firmware refused to delete it first.\<close>

lemma fat_write_effect:
  assumes "fat_write fw p d s = (s', Ok ())"
  shows "\<exists>tail. fat_content fw canon view s' p = Some (d @ tail) \<and>
           (tail = [] \<or> (\<exists>b. fat_content fw canon view s p = Some b \<and> tail = drop (length d) b))"
proof -
  obtain c t1 t2 where c: "to_uefi_path fw p = Ok c" and t1: "delete_existing fw c s = (t1, Ok ())"
    and t2: "open_create fw c t1 = (t2, Ok ())" and w: "fw_write fw c (Some 0) d t2 = (s', Ok ())"
    using assms by (auto simp: fat_write_def act_simps)
  obtain b where b: "view t2 (canon c) = Some (FatFile b)" "b = [] \<or> view s (canon c) = Some (FatFile b)"
    using delete_existing_effect [OF t1] open_create_ok [OF t2] by auto
  have w': "view s' (canon c) = Some (FatFile (d @ drop (length d) b))"
    using write_ok [OF b(1) w] by (simp add: overwrite_def)
  show ?thesis
    using b(2) w' c by (intro exI [of _ "drop (length d) b"]) (auto simp: fat_content_def file_id_Some)
qed

lemma fat_write_fresh:
  assumes "fat_write fw p d s = (s', Ok ())" and "fat_content fw canon view s p = None"
  shows "fat_content fw canon view s' p = Some d"
  using fat_write_effect [OF assms(1)] assms(2) by auto

lemma fat_delete_effect:
  assumes "fat_delete fw p s = (s', Ok ())"
  shows "fat_content fw canon view s' p = None"
proof -
  obtain c k where c: "to_uefi_path fw p = Ok c"
    and d: "(if k = HRegular then delete_open_file fw c else afail IsDirectory) s = (s', Ok ())"
    using assms by (auto simp: fat_delete_def act_simps)
  from d have "fw_delete fw c s = (s', Ok ())"
    by (auto simp: delete_open_file_def act_simps split: if_splits)
  with delete_ok [OF this] c show ?thesis by (simp add: fat_content_def file_id_Some)
qed

lemma content_frame:
  assumes "frame view T s s'" "\<And>f. file_id fw canon q = Some f \<Longrightarrow> f \<notin> T"
  shows "fat_content fw canon view s' q = fat_content fw canon view s q"
  using assms by (auto simp: fat_content_def frame_def split: option.split)

lemma drop_old_name_effect:
  assumes "drop_old_name fw p s = (s', Ok ())" "fat_content fw canon view s p = Some b"
  shows "fat_content fw canon view s' p = None"
proof -
  obtain c k where c: "to_uefi_path fw p = Ok c" and k: "fw_open fw True c s = Ok k"
    and d: "(if k = HRegular then delete_open_file fw c else aret ()) s = (s', Ok ())"
    using assms(1) by (auto simp: drop_old_name_def act_simps)
  have "view s (canon c) = Some (FatFile b)" using assms(2) c by (auto simp: fat_content_Some_conv file_id_Some)
  then have "k = HRegular" using open_ok [OF k] by auto
  with d have "fw_delete fw c s = (s', Ok ())" by (auto simp: delete_open_file_def act_simps)
  from delete_ok [OF this] c show ?thesis by (simp add: fat_content_def file_id_Some)
qed

text \<open>A rename to a fresh name keeps the contents under one of the two names whatever fails, and
  moves it when it succeeds.\<close>

lemma fat_rename_effect:
  assumes "fat_rename fw dir old_name new_name s = (s', r)"
    and j: "fat_join dir old_name = Ok p" "fat_join dir new_name = Ok q"
    and ne: "file_id fw canon p \<noteq> file_id fw canon q"
    and pre: "fat_content fw canon view s p = Some b" "fat_content fw canon view s q = None"
  shows "(fat_content fw canon view s' p = Some b \<or> fat_content fw canon view s' q = Some b) \<and>
         (r = Ok () \<longrightarrow> fat_content fw canon view s' q = Some b \<and> fat_content fw canon view s' p = None)"
proof (cases "read_through_sfs fw p s")
  case (Ok d)
  then have d: "d = b" using read_through_sfs_ok [OF Ok] pre(1) by simp
  obtain t w where w: "fat_write fw q b s = (t, w)" by fastforce
  have tp: "fat_content fw canon view t p = Some b"
    unfolding pre(1) [symmetric]
    by (rule content_frame [OF akeepsD [OF fat_write_keeps w]]) (use ne in auto)
  show ?thesis
  proof (cases "w = Ok ()")
    case True
    then have tq: "fat_content fw canon view t q = Some b" using w by (intro fat_write_fresh [OF _ pre(2)]) simp
    have s': "drop_old_name fw p t = (s', r)"
      using assms(1) by (simp add: fat_rename_def abind_def alift_def j Ok d w True)
    have "fat_content fw canon view s' q = Some b"
      unfolding tq [symmetric]
      by (rule content_frame [OF akeepsD [OF drop_old_name_keeps s']]) (use ne in auto)
    moreover have "r = Ok () \<Longrightarrow> fat_content fw canon view s' p = None"
      using s' tp by (intro drop_old_name_effect) simp_all
    ultimately show ?thesis by simp
  next
    case False
    then have "s' = t \<and> r \<noteq> Ok ()"
      using assms(1) by (cases w) (auto simp: fat_rename_def abind_def alift_def j Ok d w)
    then show ?thesis using tp by simp
  qed
next
  case (Err e)
  then have "s' = s \<and> r \<noteq> Ok ()" using assms(1) by (auto simp: fat_rename_def abind_def alift_def j)
  then show ?thesis using pre(1) by simp
next
  case Panic
  then have "s' = s \<and> r \<noteq> Ok ()" using assms(1) by (auto simp: fat_rename_def abind_def alift_def j)
  then show ?thesis using pre(1) by simp
qed

end

subsection \<open>Sessions\<close>

text \<open>The calls the rest of the program makes on a FAT volume, in any order.\<close>

datatype vol_op =
    VRead string
  | VReadAt string nat nat
  | VWrite string bytes
  | VAppend string bytes
  | VTrueAppend string bytes
  | VRename string string string
  | VEnsureDir string
  | VDelete string

fun op_paths :: "vol_op \<Rightarrow> string set" where
  "op_paths (VRead p) = {p}"
| "op_paths (VReadAt p off n) = {p}"
| "op_paths (VWrite p d) = {p}"
| "op_paths (VAppend p d) = {p}"
| "op_paths (VTrueAppend p d) = {p}"
| "op_paths (VRename dir old_name new_name) =
     set_option (ok_option (fat_join dir old_name)) \<union> set_option (ok_option (fat_join dir new_name))"
| "op_paths (VEnsureDir p) = {p}"
| "op_paths (VDelete p) = {p}"

fun run_op :: "'s sfs \<Rightarrow> vol_op \<Rightarrow> 's volume \<Rightarrow> 's volume \<times> bool" where
  "run_op fw (VRead p) v = (fst (volume_read p v), True)"
| "run_op fw (VReadAt p off n) v = (fst (volume_read_at p off n v), True)"
| "run_op fw (VWrite p d) v = map_prod id (\<lambda>r. r = Ok ()) (esp_write fw p d v)"
| "run_op fw (VAppend p d) v = map_prod id (\<lambda>r. r = Ok ()) (esp_append fw p d v)"
| "run_op fw (VTrueAppend p d) v = map_prod id (\<lambda>r. r = Ok ()) (esp_true_append fw p d v)"
| "run_op fw (VRename dir old_name new_name) v =
     map_prod id (\<lambda>r. r = Ok ()) (esp_rename fw dir old_name new_name v)"
| "run_op fw (VEnsureDir p) v = map_prod id (\<lambda>r. r = Ok ()) (esp_ensure_dir fw p v)"
| "run_op fw (VDelete p) v = map_prod id (\<lambda>r. r = Ok ()) (esp_delete fw p v)"

text \<open>A session over the paths \<open>P\<close> in which no write fails.\<close>

inductive session :: "'s sfs \<Rightarrow> string set \<Rightarrow> 's volume \<Rightarrow> bool" for fw P where
  start: "vol_cache v = cache_new \<Longrightarrow> vol_backend v = fat_backend fw \<Longrightarrow> session fw P v"
| step: "session fw P v \<Longrightarrow> op_paths op \<subseteq> P \<Longrightarrow> run_op fw op v = (v', True) \<Longrightarrow> session fw P v'"

definition one_spelling :: "'s sfs \<Rightarrow> (string \<Rightarrow> string) \<Rightarrow> string set \<Rightarrow> bool" where
  "one_spelling fw canon P \<longleftrightarrow> inj_on (file_id fw canon) {p \<in> P. file_id fw canon p \<noteq> None}"

definition sess_inv ::
  "'s sfs \<Rightarrow> (string \<Rightarrow> string) \<Rightarrow> ('s \<Rightarrow> string \<Rightarrow> fat_node option) \<Rightarrow> string set \<Rightarrow> 's volume \<Rightarrow> bool" where
  "sess_inv fw canon view P v \<longleftrightarrow>
     vol_inv (fat_content fw canon view) v \<and> vol_backend v = fat_backend fw \<and>
     (\<forall>e \<in> set (vc_entries (vol_cache v)). ck_path (ce_key e) \<in> P)"

lemma succeeded_conv [simp]: "map_prod id (\<lambda>r. r = Ok ()) x = (v', True) \<longleftrightarrow> x = (v', Ok ())"
  by (cases x) auto

lemma set_cache_invalidate:
  "set (vc_entries (cache_invalidate_path p c)) = {e \<in> set (vc_entries c). ck_path (ce_key e) \<noteq> p}"
  by (auto simp: cache_invalidate_path_def Let_def)

text \<open>A cached read adds at most the key it was asked for.\<close>

lemma volume_read_paths:
  assumes "volume_read p v = (v', r)" "e \<in> set (vc_entries (vol_cache v'))"
  shows "e \<in> set (vc_entries (vol_cache v)) \<or> ck_path (ce_key e) = p"
proof -
  obtain c h where g: "cache_get (full_read_key p) (vol_cache v) = (c, h)" by fastforce
  then have c: "set (vc_entries c) = set (vc_entries (vol_cache v))" using set_cache_get [of "full_read_key p" "vol_cache v"] by simp
  have "vol_cache v' = c \<or> (\<exists>d. vol_cache v' = cache_insert (full_read_key p) d c)"
    using assms(1) g by (cases h) (auto simp: volume_read_def split: outcome.splits)
  then show ?thesis
  proof (elim disjE exE)
    fix d assume "vol_cache v' = cache_insert (full_read_key p) d c"
    with assms(2) have "e \<in> set (vc_entries c) \<or> e = \<lparr>ce_key = full_read_key p, ce_data = d\<rparr>"
      by (intro cache_insert_entries) simp
    then show ?thesis by (elim disjE) (simp_all add: c full_read_key_def)
  qed (use assms(2) c in simp)
qed

lemma volume_read_at_paths:
  assumes "volume_read_at p off n v = (v', r)" "e \<in> set (vc_entries (vol_cache v'))"
  shows "e \<in> set (vc_entries (vol_cache v)) \<or> ck_path (ce_key e) = p"
proof -
  obtain c h where g: "cache_get (range_key p off n) (vol_cache v) = (c, h)" by fastforce
  then have c: "set (vc_entries c) = set (vc_entries (vol_cache v))" using set_cache_get [of "range_key p off n" "vol_cache v"] by simp
  have "vol_cache v' = c \<or> (\<exists>d. vol_cache v' = cache_insert (range_key p off n) d c)"
    using assms(1) g by (cases h) (auto simp: volume_read_at_def split: outcome.splits)
  then show ?thesis
  proof (elim disjE exE)
    fix d assume "vol_cache v' = cache_insert (range_key p off n) d c"
    with assms(2) have "e \<in> set (vc_entries c) \<or> e = \<lparr>ce_key = range_key p off n, ce_data = d\<rparr>"
      by (intro cache_insert_entries) simp
    then show ?thesis by (elim disjE) (simp_all add: c range_key_def)
  qed (use assms(2) c in simp)
qed

lemma fold_invalidate:
  "fold invalidate_path ps v = v\<lparr>vol_cache := fold cache_invalidate_path ps (vol_cache v)\<rparr>"
  by (induction ps arbitrary: v) (simp_all add: invalidate_path_def)

lemma fold_cache_invalidate:
  "cache_inv c \<Longrightarrow> cache_inv (fold cache_invalidate_path ps c)"
  "set (vc_entries (fold cache_invalidate_path ps c)) =
     {e \<in> set (vc_entries c). ck_path (ce_key e) \<notin> set ps}"
  by (induction ps arbitrary: c) (auto simp: cache_inv_invalidate set_cache_invalidate)

context simple_file_system
begin

lemma with_sfs_inv:
  assumes inv: "sess_inv fw canon view P v" and sp: "one_spelling fw canon P" and ps: "set ps \<subseteq> P"
    and fr: "akeeps (frame view (\<Union>p \<in> set ps. set_option (file_id fw canon p))) m"
    and m: "m (vol_store v) = (s', r)"
  shows "sess_inv fw canon view P (fold invalidate_path ps (v\<lparr>vol_store := s'\<rparr>))"
proof -
  define T where "T = {q. \<exists>p \<in> set ps. \<exists>f. file_id fw canon p = Some f \<and> file_id fw canon q = Some f}"
  define c where "c = fold cache_invalidate_path ps (vol_cache v)"
  have content: "fat_content fw canon view s' q = fat_content fw canon view (vol_store v) q" if "q \<notin> T" for q
    by (rule content_frame [OF akeepsD [OF fr m]]) (use that in \<open>auto simp: T_def\<close>)
  have "ck_path (ce_key e) \<notin> T" if "e \<in> set (vc_entries c)" for e
  proof
    assume "ck_path (ce_key e) \<in> T"
    then obtain p f where p: "p \<in> set ps" "file_id fw canon p = Some f" "file_id fw canon (ck_path (ce_key e)) = Some f"
      by (auto simp: T_def)
    have e: "ck_path (ce_key e) \<in> P" "ck_path (ce_key e) \<notin> set ps"
      using that inv by (auto simp: c_def fold_cache_invalidate sess_inv_def)
    have "p \<in> P" using p(1) ps by blast
    have "p = ck_path (ce_key e)"
      by (rule inj_onD [OF sp [unfolded one_spelling_def]]) (use p e(1) \<open>p \<in> P\<close> in simp_all)
    with e(2) p(1) show False by simp
  qed
  note outside = this
  have "vol_inv (fat_content fw canon view) (v\<lparr>vol_store := s', vol_cache := c\<rparr>)"
  proof (rule fatm.vol_inv_update [of v T])
    show "cache_inv c" using inv by (simp add: c_def fold_cache_invalidate sess_inv_def vol_inv_def)
    show "set (vc_entries c) \<subseteq> set (vc_entries (vol_cache v))" by (auto simp: c_def fold_cache_invalidate)
  qed (use inv content outside in \<open>simp_all add: sess_inv_def\<close>)
  then show ?thesis
    using inv by (auto simp: fold_invalidate sess_inv_def c_def fold_cache_invalidate)
qed

lemma read_inv:
  assumes "sess_inv fw canon view P v" "p \<in> P"
  shows "sess_inv fw canon view P (fst (volume_read p v))"
    "sess_inv fw canon view P (fst (volume_read_at p off n v))"
proof -
  obtain v' r where "volume_read p v = (v', r)" by fastforce
  then show "sess_inv fw canon view P (fst (volume_read p v))"
    using assms fatm.volume_read_correct [of v p v' r] volume_read_paths [of p v v' r]
    by (auto simp: sess_inv_def)
  obtain w q where "volume_read_at p off n v = (w, q)" by fastforce
  then show "sess_inv fw canon view P (fst (volume_read_at p off n v))"
    using assms fatm.volume_read_at_correct [of v p off n w q] volume_read_at_paths [of p off n v w q]
    by (auto simp: sess_inv_def)
qed

lemma with_sfs_step:
  assumes "sess_inv fw canon view P v" "one_spelling fw canon P" "set ps \<subseteq> P"
    and "akeeps (frame view (\<Union>p \<in> set ps. set_option (file_id fw canon p))) m"
    and run: "with_sfs fw m (\<lambda>v. (fold invalidate_path ps v, Ok ())) v = (v', Ok ())"
  shows "sess_inv fw canon view P v'"
proof -
  obtain s' r where m: "m (vol_store v) = (s', r)" by fastforce
  have "v' = fold invalidate_path ps (v\<lparr>vol_store := s'\<rparr>)"
    using run m by (auto simp: with_sfs_def split: if_splits outcome.splits)
  then show ?thesis using with_sfs_inv [OF assms(1-4) m] by simp
qed

lemmas with_sfs_one = with_sfs_step [where ps = "[p]" for p, simplified]

lemma rename_step:
  assumes "sess_inv fw canon view P v" "one_spelling fw canon P"
    "op_paths (VRename dir old_name new_name) \<subseteq> P" "esp_rename fw dir old_name new_name v = (v', Ok ())"
  shows "sess_inv fw canon view P v'"
proof -
  obtain s' where "fat_rename fw dir old_name new_name (vol_store v) = (s', Ok ())"
    using assms(4) by (fastforce simp: esp_rename_def with_sfs_def split: if_splits outcome.splits prod.splits)
  then obtain p q where j: "fat_join dir old_name = Ok p" "fat_join dir new_name = Ok q"
    by (auto simp: fat_rename_def act_simps)
  have run: "with_sfs fw (fat_rename fw dir old_name new_name) (\<lambda>v. (fold invalidate_path [p, q] v, Ok ())) v = (v', Ok ())"
    using assms(4) by (simp add: esp_rename_def j)
  show ?thesis
    by (rule with_sfs_step [OF assms(1,2) _ _ run]) (use assms(3) j fat_rename_keeps [OF j] in simp_all)
qed

lemma run_op_inv:
  assumes "sess_inv fw canon view P v" "one_spelling fw canon P" "op_paths op \<subseteq> P"
    "run_op fw op v = (v', True)"
  shows "sess_inv fw canon view P v'"
proof (cases op)
  case (VWrite p d)
  then show ?thesis using assms fat_write_keeps [of p d]
    by (auto simp: esp_write_def intro: with_sfs_one)
next
  case (VAppend p d)
  then show ?thesis using assms fat_append_keeps [of p d]
    by (auto simp: esp_append_def intro: with_sfs_one)
next
  case (VTrueAppend p d)
  then show ?thesis using assms fat_true_append_keeps [of p d]
    by (auto simp: esp_true_append_def intro: with_sfs_one)
next
  case (VEnsureDir p)
  then show ?thesis using assms fat_ensure_dir_keeps [of p]
    by (auto simp: esp_ensure_dir_def intro: with_sfs_one)
next
  case (VDelete p)
  then show ?thesis using assms fat_delete_keeps [of p]
    by (auto simp: esp_delete_def intro: with_sfs_one)
next
  case (VRename dir old_name new_name)
  then show ?thesis using assms rename_step [OF assms(1,2), of dir old_name new_name v'] by auto
qed (use assms read_inv in auto)

lemma session_inv:
  "session fw P v \<Longrightarrow> one_spelling fw canon P \<Longrightarrow> sess_inv fw canon view P v"
proof (induction rule: session.induct)
  case (start v)
  then show ?case by (simp add: sess_inv_def vol_inv_new) (simp add: cache_new_def)
next
  case (step v op v')
  then show ?case using run_op_inv by blast
qed

lemma session_reads:
  assumes "session fw P v" "one_spelling fw canon P"
  shows "volume_read p v = (v', Ok d) \<Longrightarrow> fat_content fw canon view (vol_store v) p = Some d"
    "volume_read_at p off n v = (v', Ok d) \<Longrightarrow>
       \<exists>b. fat_content fw canon view (vol_store v) p = Some b \<and> d = take n (drop off b)"
  using session_inv [OF assms] fatm.volume_read_correct [of v p v' "Ok d"]
    fatm.volume_read_at_correct [of v p off n v' "Ok d"] by (auto simp: sess_inv_def)

end

subsection \<open>A volume in memory\<close>

text \<open>An implementation of the firmware calls on an association list, with names compared without
  case and a bound on the number of writes that succeed: the contract can be met, by a device that
  fails too.\<close>

record mem_state =
  mem_files :: "(string \<times> fat_node) list"
  mem_writes_left :: nat

definition mem_canon :: "string \<Rightarrow> string" where
  "mem_canon c = to_lowercase c"

fun clip_node :: "fat_node \<Rightarrow> fat_node" where
  "clip_node (FatFile b) = FatFile (take USIZE_MAX b)"
| "clip_node FatDir = FatDir"

definition mem_view :: "mem_state \<Rightarrow> string \<Rightarrow> fat_node option" where
  "mem_view s f = map_option clip_node (map_of (mem_files s) f)"

definition mem_set :: "string \<Rightarrow> fat_node \<Rightarrow> mem_state \<Rightarrow> mem_state" where
  "mem_set f n s = s\<lparr>mem_files := (f, n) # filter (\<lambda>x. fst x \<noteq> f) (mem_files s)\<rparr>"

definition mem_unset :: "string \<Rightarrow> mem_state \<Rightarrow> mem_state" where
  "mem_unset f s = s\<lparr>mem_files := filter (\<lambda>x. fst x \<noteq> f) (mem_files s)\<rparr>"

definition mem_create :: "HandleKind \<Rightarrow> string \<Rightarrow> mem_state \<Rightarrow> mem_state \<times> (HandleKind, string) outcome" where
  "mem_create k c s =
     (case mem_view s (mem_canon c) of
        Some n \<Rightarrow> (s, Ok (node_kind n))
      | None \<Rightarrow> (mem_set (mem_canon c) (empty_node k) s, Ok k))"

definition mem_write ::
  "string \<Rightarrow> nat option \<Rightarrow> bytes \<Rightarrow> mem_state \<Rightarrow> mem_state \<times> (unit, string) outcome" where
  "mem_write c pos d s =
     (case mem_view s (mem_canon c) of
        Some (FatFile b) \<Rightarrow>
          if mem_writes_left s = 0 \<or> length (write_at b pos d) > USIZE_MAX
          then (s, Err ''DEVICE_ERROR'')
          else (mem_set (mem_canon c) (FatFile (write_at b pos d)) s
                  \<lparr>mem_writes_left := mem_writes_left s - 1\<rparr>, Ok ())
      | _ \<Rightarrow> (s, Err ''DEVICE_ERROR''))"

definition mem_entries :: "string \<Rightarrow> mem_state \<Rightarrow> (DirEntry list, string) outcome" where
  "mem_entries c s =
     Ok (List.map_filter (\<lambda>(f, n).
       case rsplit_once (CHR 0x5C) f of
         Some (dir, name) \<Rightarrow>
           if dir = mem_canon c
           then Some \<lparr>de_name = name, de_kind = (if n = FatDir then Directory else Regular), de_size = 0\<rparr>
           else None
       | None \<Rightarrow> None) (mem_files s))"

definition mem_sfs :: "mem_state sfs" where
  "mem_sfs =
     \<lparr>fw_cstr16 = (\<lambda>t. CHR 0x00 \<notin> set t), fw_open_protocol = Ok (), fw_open_volume = (\<lambda>s. Ok ()),
      fw_open = (\<lambda>w c s. case mem_view s (mem_canon c) of
                   Some n \<Rightarrow> Ok (node_kind n) | None \<Rightarrow> Err ''NOT_FOUND''),
      fw_create = mem_create,
      fw_file_size = (\<lambda>c s. case mem_view s (mem_canon c) of
                        Some (FatFile b) \<Rightarrow> Ok (length b) | _ \<Rightarrow> Err ''UNSUPPORTED''),
      fw_read_only = (\<lambda>c s. Ok False),
      fw_read = (\<lambda>c off n s. case mem_view s (mem_canon c) of
                   Some (FatFile b) \<Rightarrow> Ok (take n (drop off b)) | _ \<Rightarrow> Err ''UNSUPPORTED''),
      fw_write = mem_write,
      fw_delete = (\<lambda>c s. (mem_unset (mem_canon c) s, Ok ())),
      fw_read_entries = mem_entries\<rparr>"

lemma map_of_filter_ne: "map_of (filter (\<lambda>x. fst x \<noteq> f) xs) q = (if q = f then None else map_of xs q)"
  by (induction xs) auto

lemma mem_view_set: "mem_view (mem_set f n s) q = (if q = f then Some (clip_node n) else mem_view s q)"
  by (simp add: mem_view_def mem_set_def map_of_filter_ne)

lemma mem_view_unset: "mem_view (mem_unset f s) q = (if q = f then None else mem_view s q)"
  by (simp add: mem_view_def mem_unset_def map_of_filter_ne)

lemma mem_view_writes_left [simp]: "mem_view (s\<lparr>mem_writes_left := k\<rparr>) = mem_view s"
  by (simp add: mem_view_def fun_eq_iff)

lemma clip_empty_node [simp]: "clip_node (empty_node k) = empty_node k"
  by (cases k) auto

lemma mem_view_bound: "mem_view s q = Some (FatFile b) \<Longrightarrow> length b \<le> USIZE_MAX"
  by (auto simp: mem_view_def elim!: clip_node.elims)

interpretation memfs: simple_file_system mem_sfs mem_canon mem_view
proof
  fix c pos d s s' b
  assume "mem_view s (mem_canon c) = Some (FatFile b)" "fw_write mem_sfs c pos d s = (s', Ok ())"
  then show "mem_view s' (mem_canon c) = Some (FatFile (write_at b pos d))"
    by (auto simp: mem_sfs_def mem_write_def mem_view_set split: if_splits)
qed (auto simp: mem_sfs_def mem_create_def mem_write_def mem_view_set mem_view_unset mem_view_bound
      split: option.splits fat_node.splits if_splits)

subsection \<open>Properties\<close>

definition demo_volume :: "nat \<Rightarrow> mem_state volume" where
  "demo_volume writes =
     \<lparr>vol_backend_tag = FAT_TAG, vol_backend = fat_backend mem_sfs,
      vol_store = \<lparr>mem_files = [([CHR 0x5C, CHR ''a''], FatFile [1, 2, 3])], mem_writes_left = writes\<rparr>,
      vol_cache = cache_new, vol_has_handle = True, vol_shared = False\<rparr>"

lemmas demo_defs = demo_volume_def fat_backend_def mem_sfs_def fat_read_def open_root_def
  open_file_read_def to_uefi_path_def replace_char_def io_def mem_canon_def to_lowercase_def
  ascii_lower_def
  checked_full_read_len_def checked_read_len_def MAX_BOOT_FILE_BYTES_def volume_read_def cache_get_def
  cache_new_def full_read_key_def cache_insert_def CACHE_BYTES_LIMIT_def USIZE_MAX_def mem_view_def
  esp_write_def with_sfs_def fat_sfs_mut_def fat_write_def abind_def alift_def delete_existing_def
  open_create_def aio_def amap_err_def mem_create_def mem_set_def mem_unset_def aret_def mem_write_def
  overwrite_def invalidate_path_def cache_invalidate_path_def

lemma cache_evict_fits [simp]: "used + need \<le> limit \<Longrightarrow> cache_evict need limit used es = (es, used)"
  by (subst cache_evict.simps) simp

text \<open>Read the file, then overwrite it.\<close>

definition demo_session :: "nat \<Rightarrow> mem_state volume \<times> (unit, FsError) outcome" where
  "demo_session writes = esp_write mem_sfs ''/a'' [9] (fst (volume_read ''/a'' (demo_volume writes)))"

lemma demo_session_ok: "\<exists>v. demo_session 1 = (v, Ok ()) \<and> snd (volume_read ''/a'' v) = Ok [9]"
  by (simp add: demo_session_def demo_defs)

lemma demo_session_session: "demo_session 1 = (v, Ok ()) \<Longrightarrow> session mem_sfs {''/a''} v"
  by (rule session.step [of _ _ _ "VWrite ''/a'' [9]"], rule session.step [of _ _ _ "VRead ''/a''"],
      rule session.start [of "demo_volume 1"])
    (simp_all add: demo_session_def demo_volume_def)

text \<open>The size of the cache does not depend on the writes succeeding.\<close>

definition cache_ok :: "VolumeCache \<Rightarrow> bool" where
  "cache_ok c \<longleftrightarrow> cache_inv c \<and> vc_limit_bytes c = CACHE_BYTES_LIMIT"

lemma cache_ok_invalidate: "cache_ok c \<Longrightarrow> cache_ok (cache_invalidate_path p c)"
  using cache_inv_invalidate [of c p] by (simp add: cache_ok_def cache_invalidate_path_def Let_def)

lemma cache_ok_get: "cache_ok c \<Longrightarrow> cache_get k c = (c', h) \<Longrightarrow> cache_ok c'"
  using cache_inv_get [of c k] by (auto simp: cache_ok_def cache_get_def split: option.splits)

lemma cache_ok_insert: "cache_ok c \<Longrightarrow> cache_get k c = (c', None) \<Longrightarrow> cache_ok (cache_insert k d c')"
  using cache_inv_insert [of c k d] cache_get_miss [of k c c']
  by (auto simp: cache_ok_def cache_insert_def Let_def split: prod.splits)

lemma cache_ok_read: "cache_ok (vol_cache v) \<Longrightarrow> cache_ok (vol_cache (fst (volume_read p v)))"
  by (cases "cache_get (full_read_key p) (vol_cache v)")
    (auto simp: volume_read_def cache_ok_get cache_ok_insert split: option.split outcome.split)

lemma cache_ok_read_at:
  "cache_ok (vol_cache v) \<Longrightarrow> cache_ok (vol_cache (fst (volume_read_at p off n v)))"
  by (cases "cache_get (range_key p off n) (vol_cache v)")
    (auto simp: volume_read_at_def cache_ok_get cache_ok_insert split: option.split outcome.split)

lemma cache_ok_with_sfs:
  assumes "cache_ok (vol_cache v)" "\<And>w. vol_cache w = vol_cache v \<Longrightarrow> cache_ok (vol_cache (fst (k w)))"
  shows "cache_ok (vol_cache (fst (with_sfs fw m k v)))"
  using assms by (auto simp: with_sfs_def split: prod.split outcome.split)

lemma cache_ok_run_op: "cache_ok (vol_cache v) \<Longrightarrow> cache_ok (vol_cache (fst (run_op fw op v)))"
  by (cases op)
    (auto simp: cache_ok_read cache_ok_read_at esp_write_def esp_append_def esp_true_append_def
      esp_rename_def esp_ensure_dir_def esp_delete_def invalidate_path_def cache_ok_invalidate
      intro!: cache_ok_with_sfs split: outcome.split)

lemma cache_ok_run_ops:
  "cache_ok (vol_cache v) \<Longrightarrow> cache_ok (vol_cache (fold (\<lambda>op v. fst (run_op fw op v)) ops v))"
  by (induction ops arbitrary: v) (simp_all add: cache_ok_run_op)

text \<open>C19: in a session of reads and writer operations on a FAT volume, in any order, in which no
  write fails and every file is spelled one way, no read served through the cache is stale: a full
  read returns the file's present contents and a ranged read the present bytes of its range.\<close>

theorem cached_reads_never_stale:
  assumes "simple_file_system fw canon view" "session fw P v" "one_spelling fw canon P"
  shows "(volume_read p v = (v', Ok d) \<longrightarrow> fat_content fw canon view (vol_store v) p = Some d) \<and>
         (volume_read_at p off n v = (v', Ok d) \<longrightarrow>
            (\<exists>b. fat_content fw canon view (vol_store v) p = Some b \<and> d = take n (drop off b)))"
  using simple_file_system.session_reads [OF assms] by auto

theorem cached_reads_never_stale_witness:
  "\<exists>v. demo_session 1 = (v, Ok ()) \<and> fat_content mem_sfs mem_canon mem_view (vol_store v) ''/a'' = Some [9]"
proof -
  obtain v where v: "demo_session 1 = (v, Ok ())" "snd (volume_read ''/a'' v) = Ok [9]"
    using demo_session_ok by blast
  then obtain v' where r: "volume_read ''/a'' v = (v', Ok [9])" by (cases "volume_read ''/a'' v") auto
  have "one_spelling mem_sfs mem_canon {''/a''}" by (auto simp: one_spelling_def inj_on_def)
  from cached_reads_never_stale [OF memfs.simple_file_system_axioms demo_session_session [OF v(1)] this, of "''/a''" v' "[9]"]
  show ?thesis using v(1) r by blast
qed

text \<open>A write that fails after its delete step leaves the cache serving the deleted contents: the
  writer invalidates the path only when the write succeeds.\<close>

theorem failed_write_serves_stale_data:
  "\<exists>v. demo_session 0 = (v, Err (FsIo ''DEVICE_ERROR'')) \<and>
       snd (volume_read ''/a'' v) = Ok [1, 2, 3] \<and>
       fat_content mem_sfs mem_canon mem_view (vol_store v) ''/a'' = Some []"
  by (simp add: demo_session_def demo_defs fat_content_def file_id_def)

text \<open>C20: whatever calls fail in between, a rename to a fresh name never loses the contents: they are
  under the old name or under the new one; and when the rename succeeds they have moved.\<close>

theorem rename_never_loses_contents:
  assumes "simple_file_system fw canon view" "fat_rename fw dir old_name new_name s = (s', r)"
    "fat_join dir old_name = Ok p" "fat_join dir new_name = Ok q"
    "file_id fw canon p \<noteq> file_id fw canon q"
    "fat_content fw canon view s p = Some b" "fat_content fw canon view s q = None"
  shows "(fat_content fw canon view s' p = Some b \<or> fat_content fw canon view s' q = Some b) \<and>
         (r = Ok () \<longrightarrow> fat_content fw canon view s' q = Some b \<and> fat_content fw canon view s' p = None)"
  using simple_file_system.fat_rename_effect [OF assms] .

theorem rename_never_loses_contents_witness:
  "\<exists>s' r. fat_rename mem_sfs ''/'' ''a'' ''b'' (vol_store (demo_volume 1)) = (s', r) \<and>
     (fat_content mem_sfs mem_canon mem_view s' ''/a'' = Some [1, 2, 3] \<or>
      fat_content mem_sfs mem_canon mem_view s' ''/b'' = Some [1, 2, 3])"
proof -
  obtain s' r where run: "fat_rename mem_sfs ''/'' ''a'' ''b'' (vol_store (demo_volume 1)) = (s', r)" by fastforce
  have j: "fat_join ''/'' ''a'' = Ok ''/a''" "fat_join ''/'' ''b'' = Ok ''/b''"
    by (simp_all add: fat_join_def path_join_def path_from_str_def path_render_def suffix_def)
  have "file_id mem_sfs mem_canon ''/a'' \<noteq> file_id mem_sfs mem_canon ''/b''"
    "fat_content mem_sfs mem_canon mem_view (vol_store (demo_volume 1)) ''/a'' = Some [1, 2, 3]"
    "fat_content mem_sfs mem_canon mem_view (vol_store (demo_volume 1)) ''/b'' = None"
    by (simp_all add: fat_content_def file_id_def demo_defs)
  from rename_never_loses_contents [OF memfs.simple_file_system_axioms run j this] run show ?thesis by blast
qed

text \<open>Appending to a file that does not exist fails and creates nothing: the firmware's
  \<open>NOT_FOUND\<close> reaches the append as an \<open>Io\<close> error, never as the \<open>NotFound\<close> it tests for.\<close>

theorem append_never_creates:
  assumes "to_uefi_path fw p = Ok c" "fw_open fw False c (vol_store v) = Err st"
  shows "\<exists>r. esp_append fw p data v = (v, r) \<and> r \<noteq> Ok ()"
proof (cases "fw_open_volume fw (vol_store v)")
  case (Ok u)
  then have "read_through_sfs fw p (vol_store v) = Err (FsIo st)"
    using assms by (simp add: read_through_sfs_def open_file_read_def io_def)
  then show ?thesis by (simp add: esp_append_def with_sfs_def fat_append_def abind_def alift_def)
qed (auto simp: esp_append_def with_sfs_def fat_append_def abind_def alift_def read_through_sfs_def io_def)

theorem append_never_creates_witness:
  "\<exists>r. esp_append mem_sfs ''/b'' [7] (demo_volume 1) = (demo_volume 1, r) \<and> r \<noteq> Ok ()"
  by (rule append_never_creates [of _ _ "[CHR 0x5C, CHR ''b'']" _ "''NOT_FOUND''"]) (simp_all add: demo_defs)

text \<open>Whatever reads and writes run, successful or not, the cache counts its bytes exactly, holds
  each key once and never exceeds eight megabytes.\<close>

lemma cache_stays_within_limit:
  assumes "vol_cache v = cache_new"
  shows "cache_inv (vol_cache (fold (\<lambda>op v. fst (run_op fw op v)) ops v)) \<and>
         vc_used_bytes (vol_cache (fold (\<lambda>op v. fst (run_op fw op v)) ops v)) \<le> CACHE_BYTES_LIMIT"
proof -
  have "cache_ok (vol_cache v)" using assms cache_inv_new by (simp add: cache_ok_def cache_new_def)
  from cache_ok_run_ops [OF this, of fw ops] show ?thesis by (simp add: cache_ok_def cache_inv_def)
qed

lemma cache_stays_within_limit_witness:
  "vc_used_bytes (vol_cache (fold (\<lambda>op v. fst (run_op mem_sfs op v))
     [VRead ''/a'', VReadAt ''/a'' 1 1, VWrite ''/a'' [9]] (demo_volume 0))) \<le> CACHE_BYTES_LIMIT"
  using cache_stays_within_limit [of "demo_volume 0" mem_sfs "[VRead ''/a'', VReadAt ''/a'' 1 1, VWrite ''/a'' [9]]"]
  by (simp add: demo_volume_def)

end
