(* ===== verification/Trust_Log.thy ===== *)
theory Trust_Log
  imports Fat_Volume "HOL-Library.Monad_Syntax"
begin

section \<open>The trust log\<close>

text \<open>
  Model of \<open>lamboot-core/src/trust_log_pure.rs\<close> (vocabulary, events, accumulator, JSON-Lines
  serializer) and of the flush of \<open>trust_log.rs\<close>, which appends the pending events to the log file
  through the ESP writer of theory \<open>Fat_Volume\<close>.

  A reader for the format is defined here as the specification: the log parses back to the events
  with their sequence numbers, whatever the fields hold, so no field can forge a record.  The flushes
  of a boot, in any interleaving with the recording of events, leave on the medium exactly the
  serialization of all events recorded so far, as long as the appends succeed.
\<close>

subsection \<open>Vocabulary\<close>

definition V_SHIM_MOK :: string where "V_SHIM_MOK = ''shim_mok''"
definition V_FIRMWARE_DB_FALLBACK :: string where "V_FIRMWARE_DB_FALLBACK = ''firmware_db_fallback''"
definition V_DEGRADED_TRUST_SB_OFF :: string where "V_DEGRADED_TRUST_SB_OFF = ''degraded_trust_sb_off''"
definition V_DEGRADED_TRUST_SB_DIRECT :: string where
  "V_DEGRADED_TRUST_SB_DIRECT = ''degraded_trust_sb_direct''"
definition V_SHIM_REJECTED :: string where "V_SHIM_REJECTED = ''shim_rejected''"
definition V_NATIVE_PE_LOADER :: string where "V_NATIVE_PE_LOADER = ''native_pe_loader''"
definition V_FIRMWARE_LOADIMAGE :: string where "V_FIRMWARE_LOADIMAGE = ''firmware_loadimage''"

definition ALL_VERIFIED_VIA :: "string list" where
  "ALL_VERIFIED_VIA =
     [V_SHIM_MOK, V_FIRMWARE_DB_FALLBACK, V_DEGRADED_TRUST_SB_OFF, V_DEGRADED_TRUST_SB_DIRECT,
      V_SHIM_REJECTED, V_NATIVE_PE_LOADER, V_FIRMWARE_LOADIMAGE]"

datatype ReportSbState = ReportOff | ReportShim | ReportDirect

fun report_verified_via :: "ReportSbState \<Rightarrow> string" where
  "report_verified_via ReportOff = V_DEGRADED_TRUST_SB_OFF"
| "report_verified_via ReportDirect = V_DEGRADED_TRUST_SB_DIRECT"
| "report_verified_via ReportShim = V_SHIM_MOK"

definition report_loader :: "bool \<Rightarrow> bool \<Rightarrow> string" where
  "report_loader native_pe_never is_chainload =
     (if is_chainload \<or> native_pe_never then V_FIRMWARE_LOADIMAGE else V_NATIVE_PE_LOADER)"

subsection \<open>Events and the accumulator\<close>

record TrustEvent =
  te_event :: string
  te_path :: string
  te_size :: usize
  te_sha256_hex :: string
  te_verified_via :: string
  te_status :: string
  te_note :: string
  te_verifier_tag :: string

definition te_new :: "string \<Rightarrow> TrustEvent" where
  "te_new event =
     \<lparr>te_event = event, te_path = [], te_size = 0, te_sha256_hex = [], te_verified_via = [],
      te_status = [], te_note = [], te_verifier_tag = []\<rparr>"

definition with_verifier_tag :: "string \<Rightarrow> TrustEvent \<Rightarrow> TrustEvent" where
  "with_verifier_tag tag e = e\<lparr>te_verifier_tag := tag\<rparr>"
definition with_path :: "string \<Rightarrow> TrustEvent \<Rightarrow> TrustEvent" where
  "with_path p e = e\<lparr>te_path := p\<rparr>"
definition with_size :: "usize \<Rightarrow> TrustEvent \<Rightarrow> TrustEvent" where
  "with_size n e = e\<lparr>te_size := n\<rparr>"
definition with_verified_via :: "string \<Rightarrow> TrustEvent \<Rightarrow> TrustEvent" where
  "with_verified_via v e = e\<lparr>te_verified_via := v\<rparr>"
definition with_status :: "string \<Rightarrow> TrustEvent \<Rightarrow> TrustEvent" where
  "with_status s e = e\<lparr>te_status := s\<rparr>"
definition with_note :: "string \<Rightarrow> TrustEvent \<Rightarrow> TrustEvent" where
  "with_note n e = e\<lparr>te_note := n\<rparr>"
definition with_sha256 :: "string \<Rightarrow> TrustEvent \<Rightarrow> TrustEvent" where
  "with_sha256 h e = e\<lparr>te_sha256_hex := h\<rparr>"

record TrustLog =
  tl_events :: "TrustEvent list"
  tl_committed :: "TrustEvent list"
  tl_boot_seq :: nat
  tl_quiet :: bool
  tl_log_path :: string

definition tl_new :: TrustLog where
  "tl_new = \<lparr>tl_events = [], tl_committed = [], tl_boot_seq = 0, tl_quiet = False,
             tl_log_path = ''/loader/boot-trust.log''\<rparr>"

definition tl_set_quiet :: "bool \<Rightarrow> TrustLog \<Rightarrow> TrustLog" where
  "tl_set_quiet q l = l\<lparr>tl_quiet := q\<rparr>"

definition tl_set_log_path :: "string \<Rightarrow> TrustLog \<Rightarrow> TrustLog" where
  "tl_set_log_path p l = l\<lparr>tl_log_path := p\<rparr>"

definition tl_record :: "TrustEvent \<Rightarrow> TrustLog \<Rightarrow> TrustLog" where
  "tl_record ev l = l\<lparr>tl_events := tl_events l @ [ev]\<rparr>"

subsection \<open>Serialization\<close>

definition quote :: char where "quote = CHR 0x22"
definition bslash :: char where "bslash = CHR 0x5C"

definition hex_digit :: "nat \<Rightarrow> char" where
  "hex_digit d = (if d < 10 then char_of (48 + d) else char_of (87 + d))"

definition hex4 :: "nat \<Rightarrow> string" where
  "hex4 n = [hex_digit (n div 4096 mod 16), hex_digit (n div 256 mod 16), hex_digit (n div 16 mod 16),
             hex_digit (n mod 16)]"

definition escape_char :: "char \<Rightarrow> string" where
  "escape_char c =
     (if c = quote then [bslash, quote]
      else if c = bslash then [bslash, bslash]
      else if c = CHR 0x0A then [bslash, CHR ''n'']
      else if c = CHR 0x0D then [bslash, CHR ''r'']
      else if c = CHR 0x09 then [bslash, CHR ''t'']
      else if byte_val c < 32 then bslash # CHR ''u'' # hex4 (byte_val c)
      else [c])"

definition push_kv :: "string \<Rightarrow> string \<Rightarrow> bool \<Rightarrow> string" where
  "push_kv key val quoted =
     [quote] @ key @ [quote, CHR '':''] @
     (if quoted then [quote] @ concat (map escape_char val) @ [quote] else val)"

definition serialize_event :: "nat \<Rightarrow> TrustEvent \<Rightarrow> string" where
  "serialize_event sq ev =
     ''{'' @ push_kv ''seq'' (dec sq) False @
     '','' @ push_kv ''event'' (te_event ev) True @
     '','' @ push_kv ''path'' (te_path ev) True @
     '','' @ push_kv ''size'' (dec (te_size ev)) False @
     '','' @ push_kv ''sha256'' (te_sha256_hex ev) True @
     '','' @ push_kv ''verified_via'' (te_verified_via ev) True @
     '','' @ push_kv ''status'' (te_status ev) True @
     (if te_verifier_tag ev \<noteq> [] then '','' @ push_kv ''verifier_tag'' (te_verifier_tag ev) True else []) @
     (if te_note ev \<noteq> [] then '','' @ push_kv ''note'' (te_note ev) True else []) @
     ''}'' @ [CHR 0x0A]"

fun serialize_events :: "TrustEvent list \<Rightarrow> nat \<Rightarrow> string" where
  "serialize_events [] sq = []"
| "serialize_events (ev # evs) sq = serialize_event sq ev @ serialize_events evs (Suc sq)"

definition serialize_merged :: "TrustLog \<Rightarrow> TrustLog \<times> string" where
  "serialize_merged l =
     (let c = tl_committed l @ tl_events l in
      (l\<lparr>tl_committed := c, tl_events := []\<rparr>, serialize_events c (tl_boot_seq l)))"

definition serialize_pending :: "TrustLog \<Rightarrow> TrustLog \<times> string" where
  "serialize_pending l =
     (if tl_events l = [] then (l, [])
      else (l\<lparr>tl_events := [], tl_committed := tl_committed l @ tl_events l\<rparr>,
            serialize_events (tl_events l) (length (tl_committed l) + tl_boot_seq l)))"

definition tl_flush :: "'s sfs \<Rightarrow> TrustLog \<Rightarrow> 's volume \<Rightarrow> TrustLog \<times> 's volume" where
  "tl_flush fw l v =
     (if tl_events l = [] then (l, v)
      else let (l', buf) = serialize_pending l in
        if \<not> esp_writer_new v then (l', v)
        else case path_from_str (tl_log_path l') of
          Ok p \<Rightarrow> (l', fst (esp_true_append fw p (as_bytes buf) v))
        | _ \<Rightarrow> (l', v))"

subsection \<open>A reader for the format\<close>

fun hex_val :: "char \<Rightarrow> nat" where
  "hex_val c = (if byte_val c < 58 then byte_val c - 48 else byte_val c - 87)"

fun read_escape :: "string \<Rightarrow> (char \<times> string) option" where
  "read_escape (e # r) =
     (if e = CHR ''n'' then Some (CHR 0x0A, r)
      else if e = CHR ''r'' then Some (CHR 0x0D, r)
      else if e = CHR ''t'' then Some (CHR 0x09, r)
      else if e = CHR ''u'' then
        (case r of
           a # b # c # d # r' \<Rightarrow>
             Some (char_of (4096 * hex_val a + 256 * hex_val b + 16 * hex_val c + hex_val d), r')
         | _ \<Rightarrow> None)
      else Some (e, r))"
| "read_escape [] = None"

lemma read_escape_length: "read_escape s = Some (c, r) \<Longrightarrow> length r < length s"
  by (cases s) (auto split: if_splits list.splits)

function read_string :: "string \<Rightarrow> (string \<times> string) option" where
  "read_string [] = None"
| "read_string (c # s) =
     (if c = quote then Some ([], s)
      else if c = bslash then
        (case read_escape s of
           Some (d, r) \<Rightarrow> map_option (\<lambda>(x, y). (d # x, y)) (read_string r)
         | None \<Rightarrow> None)
      else map_option (\<lambda>(x, y). (c # x, y)) (read_string s))"
  by pat_completeness auto
termination
  by (relation "measure length") (auto dest: read_escape_length)

definition read_number :: "string \<Rightarrow> (nat \<times> string) option" where
  "read_number s = Some (digits_val (takeWhile is_ascii_digit s), dropWhile is_ascii_digit s)"

definition read_key :: "string \<Rightarrow> string \<Rightarrow> string \<Rightarrow> string option" where
  "read_key sep key s = strip_prefix (sep @ [quote] @ key @ [quote, CHR '':'']) s"

definition read_num_field :: "string \<Rightarrow> string \<Rightarrow> string \<Rightarrow> (nat \<times> string) option" where
  "read_num_field sep key s = do { r \<leftarrow> read_key sep key s; read_number r }"

definition read_str_field :: "string \<Rightarrow> string \<Rightarrow> (string \<times> string) option" where
  "read_str_field key s =
     do { r \<leftarrow> read_key '','' key s; r' \<leftarrow> strip_prefix [quote] r; read_string r' }"

definition read_opt_field :: "string \<Rightarrow> string \<Rightarrow> (string \<times> string) option" where
  "read_opt_field key s =
     (if read_key '','' key s = None then Some ([], s) else read_str_field key s)"

definition read_event :: "string \<Rightarrow> ((nat \<times> TrustEvent) \<times> string) option" where
  "read_event s =
     do { (sq, s) \<leftarrow> read_num_field ''{'' ''seq'' s;
          (event, s) \<leftarrow> read_str_field ''event'' s;
          (path, s) \<leftarrow> read_str_field ''path'' s;
          (n, s) \<leftarrow> read_num_field '','' ''size'' s;
          (sha, s) \<leftarrow> read_str_field ''sha256'' s;
          (via, s) \<leftarrow> read_str_field ''verified_via'' s;
          (status, s) \<leftarrow> read_str_field ''status'' s;
          (tag, s) \<leftarrow> read_opt_field ''verifier_tag'' s;
          (note, s) \<leftarrow> read_opt_field ''note'' s;
          s \<leftarrow> strip_prefix (''}'' @ [CHR 0x0A]) s;
          Some ((sq, \<lparr>te_event = event, te_path = path, te_size = n, te_sha256_hex = sha,
                       te_verified_via = via, te_status = status, te_note = note,
                       te_verifier_tag = tag\<rparr>), s) }"

fun read_events :: "nat \<Rightarrow> string \<Rightarrow> ((nat \<times> TrustEvent) list \<times> string) option" where
  "read_events 0 s = Some ([], s)"
| "read_events (Suc n) s =
     do { (x, s) \<leftarrow> read_event s; (xs, s) \<leftarrow> read_events n s; Some (x # xs, s) }"

subsection \<open>The reader undoes the serializer\<close>

lemma hex_val_digit: "d < 16 \<Longrightarrow> hex_val (hex_digit d) = d"
  by (simp add: hex_digit_def)

lemma read_escape_hex4: "read_escape (CHR ''u'' # hex4 (byte_val c) @ r) = Some (c, r)"
proof -
  have n: "byte_val c < 256" by simp
  then have "byte_val c div 16 < 16" by (simp add: less_mult_imp_div_less)
  moreover have "hex_val (hex_digit 0) = 0" by (simp add: hex_val_digit del: hex_val.simps)
  ultimately have "4096 * hex_val (hex_digit (byte_val c div 4096 mod 16)) +
      256 * hex_val (hex_digit (byte_val c div 256 mod 16)) +
      16 * hex_val (hex_digit (byte_val c div 16 mod 16)) + hex_val (hex_digit (byte_val c mod 16)) = byte_val c"
    using n by (simp add: hex_val_digit del: hex_val.simps)
  then show ?thesis by (simp add: hex4_def del: hex_val.simps)
qed

lemma read_string_escape_char:
  "read_string (escape_char c @ r) = map_option (\<lambda>(x, y). (c # x, y)) (read_string r)"
  using read_escape_hex4 [of c r] by (auto simp: escape_char_def quote_def bslash_def)

lemma read_string_escaped:
  "read_string (concat (map escape_char s) @ quote # r) = Some (s, r)"
  by (induction s) (simp_all add: read_string_escape_char)

lemma strip_prefix_append: "strip_prefix p (p @ r) = Some r"
  by (simp add: strip_prefix_def)

lemma read_key_conv:
  "read_key sep key (sep @ [quote] @ key @ [quote, CHR '':''] @ r) = Some r"
  using strip_prefix_append [of "sep @ [quote] @ key @ [quote, CHR '':'']" r] by (simp add: read_key_def)

lemma read_str_field_push:
  "read_str_field key ('','' @ push_kv key val True @ r) = Some (val, r)"
  using read_key_conv [of "'',''" key "[quote] @ concat (map escape_char val) @ [quote] @ r"]
  by (simp add: read_str_field_def push_kv_def strip_prefix_def read_string_escaped)

lemma read_number_dec: "r = [] \<or> \<not> is_ascii_digit (hd r) \<Longrightarrow> read_number (dec n @ r) = Some (n, r)"
  using dec_digits [of n]
  by (cases r) (auto simp: read_number_def list_all_iff takeWhile_append2 dropWhile_append2
      takeWhile_eq_all_conv [THEN iffD2] dropWhile_eq_Nil_conv [THEN iffD2])

lemma read_num_field_push:
  "r \<noteq> [] \<Longrightarrow> \<not> is_ascii_digit (hd r) \<Longrightarrow>
   read_num_field sep key (sep @ push_kv key (dec n) False @ r) = Some (n, r)"
  using read_key_conv [of sep key "dec n @ r"] read_number_dec [of r n]
  by (simp add: read_num_field_def push_kv_def)

lemma read_opt_field_push:
  assumes "read_key '','' key r = None"
  shows "read_opt_field key ((if val \<noteq> [] then '','' @ push_kv key val True else []) @ r) = Some (val, r)"
proof (cases "val = []")
  case False
  have "read_key '','' key ('','' @ push_kv key val True @ r) \<noteq> None"
    using read_key_conv [of "'',''" key "[quote] @ concat (map escape_char val) @ [quote] @ r"]
    by (simp add: push_kv_def)
  with False show ?thesis using read_str_field_push [of key val r] by (simp add: read_opt_field_def)
qed (use assms in \<open>simp add: read_opt_field_def\<close>)

lemma read_event_serialize: "read_event (serialize_event sq ev @ r) = Some ((sq, ev), r)"
proof -
  have n: "read_key '','' ''note'' (''}'' @ [CHR 0x0A] @ r) = None"
    by (simp add: read_key_def strip_prefix_def)
  have t: "read_key '','' ''verifier_tag''
     ((if te_note ev \<noteq> [] then '','' @ push_kv ''note'' (te_note ev) True else []) @ ''}'' @ [CHR 0x0A] @ r) = None"
    by (simp add: read_key_def strip_prefix_def push_kv_def quote_def)
  show ?thesis
    unfolding read_event_def serialize_event_def append_assoc
    by (simp add: read_num_field_push read_str_field_push read_opt_field_push [OF n, unfolded append_assoc]
        read_opt_field_push [OF t, unfolded append_assoc] strip_prefix_def is_ascii_digit_def del: append.simps)
qed

lemma read_events_serialize:
  "read_events (length evs) (serialize_events evs sq @ r) = Some (zip [sq..<sq + length evs] evs, r)"
proof (induction evs arbitrary: sq)
  case (Cons ev evs)
  show ?case by (simp add: read_event_serialize Cons upt_conv_Cons del: upt_Suc)
qed simp

subsection \<open>Flushing\<close>

lemma serialize_events_append:
  "serialize_events (xs @ ys) sq = serialize_events xs sq @ serialize_events ys (sq + length xs)"
  by (induction xs arbitrary: sq) simp_all

text \<open>A run of the log: events are recorded and the log is flushed, in any order, and every flush
  that has something to write succeeds.\<close>

inductive log_run :: "'s sfs \<Rightarrow> TrustLog \<times> 's volume \<Rightarrow> TrustLog \<times> 's volume \<Rightarrow> bool" for fw st where
  log_start: "log_run fw st st"
| log_record: "log_run fw st (l, v) \<Longrightarrow> log_run fw st (tl_record ev l, v)"
| log_flush: "log_run fw st (l, v) \<Longrightarrow> esp_writer_new v \<Longrightarrow> path_from_str (tl_log_path l) = Ok p \<Longrightarrow>
    esp_true_append fw p (as_bytes (snd (serialize_pending l))) v = (v', Ok ()) \<Longrightarrow>
    log_run fw st (tl_flush fw l v)"

definition logged :: "bytes option \<Rightarrow> TrustLog \<Rightarrow> bytes option" where
  "logged base l =
     (if tl_committed l = [] then base
      else Some ((case base of None \<Rightarrow> [] | Some b \<Rightarrow> b) @
                 as_bytes (serialize_events (tl_committed l) (tl_boot_seq l))))"

lemma as_bytes_append: "as_bytes (a @ b) = as_bytes a @ as_bytes b" "as_bytes [] = []"
  by (simp_all add: as_bytes_def)

lemma esp_true_append_store:
  assumes "esp_true_append fw p d v = (v', Ok ())"
  shows "fat_true_append fw p d (vol_store v) = (vol_store v', Ok ())"
  using assms
  by (auto simp: esp_true_append_def with_sfs_def invalidate_path_def split: if_splits prod.splits outcome.splits)

lemma logged_extend:
  "logged base l = Some b \<or> tl_committed l = [] \<and> b = (case base of None \<Rightarrow> [] | Some b \<Rightarrow> b) \<Longrightarrow>
   tl_events l \<noteq> [] \<Longrightarrow>
   logged base (l\<lparr>tl_events := [], tl_committed := tl_committed l @ tl_events l\<rparr>) =
     Some (b @ as_bytes (serialize_events (tl_events l) (length (tl_committed l) + tl_boot_seq l)))"
  by (auto simp: logged_def serialize_events_append as_bytes_append add.commute split: if_splits)

context simple_file_system
begin

lemma flush_logged:
  assumes "fat_content fw canon view (vol_store v) p = logged base l" "esp_writer_new v"
    "path_from_str (tl_log_path l) = Ok p" "tl_flush fw l v = (l', v')"
    "esp_true_append fw p (as_bytes (snd (serialize_pending l))) v = (w, Ok ())"
  shows "fat_content fw canon view (vol_store v') p = logged base l' \<and> tl_log_path l' = tl_log_path l \<and>
         tl_committed l' @ tl_events l' = tl_committed l @ tl_events l"
proof (cases "tl_events l = []")
  case False
  let ?d = "serialize_events (tl_events l) (length (tl_committed l) + tl_boot_seq l)"
  have l': "l' = l\<lparr>tl_events := [], tl_committed := tl_committed l @ tl_events l\<rparr>" and v': "v' = w"
    using assms False by (auto simp: tl_flush_def serialize_pending_def)
  have "fat_true_append fw p (as_bytes ?d) (vol_store v) = (vol_store w, Ok ())"
    using esp_true_append_store [OF assms(5)] False by (simp add: serialize_pending_def)
  note c = fat_true_append_effect [OF this]
  show ?thesis
    using c assms(1) False logged_extend [of base l "case logged base l of None \<Rightarrow> [] | Some b \<Rightarrow> b"]
    by (auto simp: l' v' logged_def split: option.splits if_splits)
qed (use assms in \<open>simp add: tl_flush_def\<close>)

lemma log_run_logged:
  assumes "log_run fw (l0, v0) st" "tl_committed l0 = []" "path_from_str (tl_log_path l0) = Ok p"
  shows "fat_content fw canon view (vol_store (snd st)) p =
           logged (fat_content fw canon view (vol_store v0) p) (fst st) \<and>
         tl_log_path (fst st) = tl_log_path l0"
  using assms
proof (induction rule: log_run.induct)
  case log_start
  then show ?case by (simp add: logged_def)
next
  case (log_record l v ev)
  then show ?case by (simp add: tl_record_def logged_def)
next
  case (log_flush l v q v')
  obtain l' w where f: "tl_flush fw l v = (l', w)" by fastforce
  have "q = p" using log_flush by simp
  with log_flush f flush_logged [of v p _ l l' w v'] show ?case by simp
qed

end

subsection \<open>Properties\<close>

text \<open>C21: the serialized log parses back to the events it was made from, with consecutive sequence
  numbers and nothing left over, whatever characters the fields hold: no field can end a record or
  forge another.\<close>

theorem trust_log_round_trip:
  "read_events (length evs) (serialize_events evs sq) = Some (zip [sq..<sq + length evs] evs, [])"
  using read_events_serialize [of evs sq "[]"] by simp

text \<open>C22: over a boot in which events are recorded and flushed in any order and no append fails, the
  log file holds what it held before followed by the serialization of all flushed events, numbered
  from the start.\<close>

theorem flushed_log_is_complete:
  assumes "simple_file_system fw canon view" "log_run fw (l0, v0) (l, v)" "tl_committed l0 = []"
    "path_from_str (tl_log_path l0) = Ok p"
  shows "fat_content fw canon view (vol_store v) p =
         logged (fat_content fw canon view (vol_store v0) p) l"
  using simple_file_system.log_run_logged [OF assms] by simp

text \<open>A run of one event and one flush.\<close>

definition demo_event :: TrustEvent where
  "demo_event = with_note ''boot'' (te_new ''boot_start'')"

definition demo_log :: TrustLog where
  "demo_log = tl_record demo_event tl_new"

lemma demo_log_path: "path_from_str ''/loader/boot-trust.log'' = Ok ''/loader/boot-trust.log''"
  by (simp add: path_from_str_def path_render_def)

lemma demo_append:
  "length d \<le> 1000 \<Longrightarrow> \<exists>v. esp_true_append mem_sfs ''/loader/boot-trust.log'' d (demo_volume 1) = (v, Ok ())"
  by (simp add: esp_true_append_def fat_true_append_def demo_defs)

theorem flushed_log_is_complete_witness:
  "\<exists>l v. log_run mem_sfs (tl_new, demo_volume 1) (l, v) \<and> tl_committed l = [demo_event] \<and>
     fat_content mem_sfs mem_canon mem_view (vol_store v) ''/loader/boot-trust.log'' = logged None l"
proof -
  have len: "length (as_bytes (snd (serialize_pending demo_log))) \<le> 1000"
    by (simp add: demo_log_def demo_event_def serialize_pending_def tl_record_def tl_new_def as_bytes_def
        serialize_event_def push_kv_def te_new_def with_note_def escape_char_def quote_def bslash_def dec.simps)
  obtain v' where ap: "esp_true_append mem_sfs ''/loader/boot-trust.log''
      (as_bytes (snd (serialize_pending demo_log))) (demo_volume 1) = (v', Ok ())"
    using demo_append [OF len] by blast
  have p: "path_from_str (tl_log_path tl_new) = Ok ''/loader/boot-trust.log''"
    "path_from_str (tl_log_path demo_log) = Ok ''/loader/boot-trust.log''"
    by (simp_all add: tl_new_def demo_log_def tl_record_def demo_log_path)
  have run: "log_run mem_sfs (tl_new, demo_volume 1) (tl_flush mem_sfs demo_log (demo_volume 1))"
    using ap p(2) by (intro log_run.log_flush [where p = "''/loader/boot-trust.log''" and v' = v'])
      (simp_all add: demo_log_def log_run.intros esp_writer_new_def demo_volume_def)
  obtain l v where f: "tl_flush mem_sfs demo_log (demo_volume 1) = (l, v)" by fastforce
  then have "tl_committed l = [demo_event]"
    by (auto simp: tl_flush_def serialize_pending_def demo_log_def tl_record_def tl_new_def split: outcome.splits if_splits)
  moreover have "fat_content mem_sfs mem_canon mem_view (vol_store (demo_volume 1)) ''/loader/boot-trust.log'' = None"
    by (simp add: fat_content_def file_id_def demo_defs)
  ultimately show ?thesis
    using flushed_log_is_complete [OF memfs.simple_file_system_axioms run [unfolded f] _ p(1)] run f
    by (auto simp: tl_new_def)
qed

end
