(* ===== verification/Autodiscovery.thy ===== *)
theory Autodiscovery
  imports Volume
begin

section \<open>Finding the initrd of a kernel\<close>

text \<open>Model of the live part of \<open>lamboot-core/src/autodiscovery.rs\<close>: the name patterns tried next to a
  kernel whose entry lists no initrd.  The two functions of the file that the source marks as dead
  code are left out.  The lemma says that only files present on the volume are returned, at most a
  microcode image followed by one initrd.\<close>

definition extract_kernel_version :: "string \<Rightarrow> string" where
  "extract_kernel_version path =
     (let filename = (case rsplit_once (CHR 0x5C) path of Some (dir, f) \<Rightarrow> f | None \<Rightarrow> path) in
      case strip_prefix ''vmlinuz-'' filename of
        Some ver \<Rightarrow> ver
      | None \<Rightarrow> (case strip_prefix ''linux-'' filename of Some ver \<Rightarrow> ver | None \<Rightarrow> filename))"

definition extract_directory :: "string \<Rightarrow> string" where
  "extract_directory path =
     (case rsplit_once (CHR 0x5C) path of Some (dir, f) \<Rightarrow> dir | None \<Rightarrow> [])"

definition initrd_patterns :: "string \<Rightarrow> string \<Rightarrow> string list" where
  "initrd_patterns dir version =
     (let bs = [CHR 0x5C]; boot = bs @ ''boot'' in
      [dir @ bs @ ''initramfs-'' @ version @ ''.img'',
       dir @ bs @ ''initrd.img-'' @ version,
       dir @ bs @ ''initrd-'' @ version,
       dir @ bs @ ''initramfs-'' @ version @ ''-fallback.img'',
       boot @ bs @ ''initramfs-'' @ version @ ''.img'',
       boot @ bs @ ''initrd.img-'' @ version,
       boot @ bs @ ''initrd-'' @ version,
       bs @ ''initramfs-'' @ version @ ''.img'',
       bs @ ''initrd.img-'' @ version])"

definition find_initrd :: "string \<Rightarrow> 's volume \<Rightarrow> string list" where
  "find_initrd kernel_path v =
     (let version = extract_kernel_version kernel_path;
          dir = extract_directory kernel_path;
          ucode = (case find (\<lambda>p. exists_str p v)
                     [dir @ [CHR 0x5C] @ ''intel-ucode.img'', dir @ [CHR 0x5C] @ ''amd-ucode.img''] of
                     Some p \<Rightarrow> [p] | None \<Rightarrow> []) in
      case find (\<lambda>p. exists_str p v) (initrd_patterns dir version) of
        Some p \<Rightarrow> ucode @ [p]
      | None \<Rightarrow>
          let arch_initrd = dir @ [CHR 0x5C] @ ''initramfs-linux.img'' in
          if (version = ''linux'' \<or> prefix ''linux-'' version) \<and> exists_str arch_initrd v
          then ucode @ [arch_initrd] else ucode)"

lemma find_Some_holds: "find P xs = Some x \<Longrightarrow> P x"
  by (auto simp: find_Some_iff)

lemma find_initrd_exist: "p \<in> set (find_initrd k v) \<Longrightarrow> exists_str p v"
  by (auto simp: find_initrd_def Let_def dest: find_Some_holds split: option.splits if_splits)

lemma find_initrd_length: "length (find_initrd k v) \<le> 2"
  by (auto simp: find_initrd_def Let_def split: option.splits)

end
