(* ===== verification/Nvram.thy ===== *)
theory Nvram
  imports Rust_State Rust_Str
begin

section \<open>Firmware variables\<close>

text \<open>
  The variable services of the firmware as the sources call them: \<open>GetVariable\<close> into a buffer of a
  given size, the \<open>get_variable_boxed\<close> of the \<open>uefi\<close> crate, which asks for the size first, and \<open>SetVariable\<close>, over an arbitrary store \<open>'n\<close>.  They are a parameter of the components
  that use them.  The locale \<open>variable_services\<close> is the documented behaviour, with writes that may
  fail and then change nothing; \<open>writable_variables\<close> adds that writes succeed.  A variable is named by
  its vendor and its name; the attributes, the same at every call of the modelled code, are left out.
\<close>

type_synonym nv_name = "string \<times> string"

record EfiTime =
  et_year :: u16
  et_month :: u8
  et_day :: u8
  et_hour :: u8
  et_minute :: u8
  et_second :: u8

record 'n runtime =
  rt_get :: "nv_name \<Rightarrow> nat \<Rightarrow> 'n \<Rightarrow> (bytes, string) outcome"
  rt_get_boxed :: "nv_name \<Rightarrow> 'n \<Rightarrow> (bytes, string) outcome"
  rt_set :: "nv_name \<Rightarrow> bytes \<Rightarrow> ('n, unit, string) act"
  rt_time :: "EfiTime option"

locale variable_services =
  fixes rt :: "'n runtime" and vars :: "'n \<Rightarrow> nv_name \<Rightarrow> bytes option"
  assumes get_spec: "rt_get rt v k s =
      (case vars s v of
         None \<Rightarrow> Err ''NOT_FOUND''
       | Some d \<Rightarrow> if length d \<le> k then Ok d else Err ''BUFFER_TOO_SMALL'')"
    and get_boxed_spec: "rt_get_boxed rt v s = of_option ''NOT_FOUND'' (vars s v)"
    and set_ok: "rt_set rt v d s = (s', Ok ()) \<Longrightarrow>
      vars s' = (vars s)(v := if d = [] then None else Some d)"
    and set_fails: "rt_set rt v d s = (s', r) \<Longrightarrow> r \<noteq> Ok () \<Longrightarrow> vars s' = vars s"
begin

lemma set_cases:
  "vars (fst (rt_set rt v d s)) = (vars s)(v := if d = [] then None else Some d) \<or>
   vars (fst (rt_set rt v d s)) = vars s"
  using set_ok [of v d s] set_fails [of v d s] by (cases "rt_set rt v d s") fastforce

lemma set_other: "w \<noteq> v \<Longrightarrow> vars (fst (rt_set rt v d s)) w = vars s w"
  using set_cases [of v d s] by auto

end

locale writable_variables = variable_services +
  assumes set_total: "snd (rt_set rt v d s) = Ok ()"
begin

lemma set_vars: "vars (fst (rt_set rt v d s)) = (vars s)(v := if d = [] then None else Some d)"
  using set_ok [of v d s "fst (rt_set rt v d s)"] set_total [of v d s] by (simp add: prod_eq_iff)

end

subsection \<open>A store in memory\<close>

text \<open>A store that accepts writes while its flag is set.\<close>

record mem_nv =
  mn_vars :: "nv_name \<Rightarrow> bytes option"
  mn_writable :: bool

definition mem_rt :: "mem_nv runtime" where
  "mem_rt =
     \<lparr>rt_get = (\<lambda>v k s.
        case mn_vars s v of
          None \<Rightarrow> Err ''NOT_FOUND''
        | Some d \<Rightarrow> if length d \<le> k then Ok d else Err ''BUFFER_TOO_SMALL''),
      rt_get_boxed = (\<lambda>v s. of_option ''NOT_FOUND'' (mn_vars s v)),
      rt_set = (\<lambda>v d s.
        if mn_writable s then (s\<lparr>mn_vars := (mn_vars s)(v := if d = [] then None else Some d)\<rparr>, Ok ())
        else (s, Err ''WRITE_PROTECTED'')),
      rt_time = None\<rparr>"

interpretation memnv: variable_services mem_rt mn_vars
  by unfold_locales (auto simp: mem_rt_def split: if_splits)

text \<open>A store that is always writable.\<close>

definition plain_rt :: "(nv_name \<Rightarrow> bytes option) runtime" where
  "plain_rt =
     \<lparr>rt_get = (\<lambda>v k s.
        case s v of
          None \<Rightarrow> Err ''NOT_FOUND''
        | Some d \<Rightarrow> if length d \<le> k then Ok d else Err ''BUFFER_TOO_SMALL''),
      rt_get_boxed = (\<lambda>v s. of_option ''NOT_FOUND'' (s v)),
      rt_set = (\<lambda>v d s. (s(v := if d = [] then None else Some d), Ok ())),
      rt_time = None\<rparr>"

interpretation plainnv: writable_variables plain_rt "\<lambda>s. s"
  by unfold_locales (auto simp: plain_rt_def)

end
