(* ===== verification/Health.thy ===== *)
theory Health
  imports Nvram
begin

section \<open>Boot health\<close>

text \<open>
  Model of \<open>lamboot-core/src/health.rs\<close>: the boot state and crash counter in firmware variables, the
  assessment at the start of every boot, the crash-loop test, the records of the selected entry and of
  the boot-count path, the mark of a successful boot and the request for firmware setup.  The VM
  generation id that \<open>partitions::read_vmgenid\<close> reads from ACPI and the version bytes of the build are
  arguments.

  The theorems follow the crash counter over any number of boots: it counts the boots since the
  last success, so the crash-loop test fires after exactly as many failed boots as the threshold
  says, for every threshold the counter can reach; a marked success resets it; a store that refuses
  writes never makes the assessment fail.
\<close>

subsection \<open>Variables\<close>

definition LAMBOOT_VENDOR :: string where "LAMBOOT_VENDOR = ''4c414d42-4f4f-5400-0000-000000000001''"
definition LOADER_VENDOR :: string where "LOADER_VENDOR = ''4a67b082-0a4c-41cf-b6c7-440b29bb8c4f''"
definition EFI_GLOBAL_VARIABLE :: string where
  "EFI_GLOBAL_VARIABLE = ''8be4df61-93ca-11d2-aa0d-00e098032b8c''"

definition STATE_VAR :: nv_name where "STATE_VAR = (LAMBOOT_VENDOR, ''LamBootState'')"
definition CRASH_COUNTER_VAR :: nv_name where "CRASH_COUNTER_VAR = (LAMBOOT_VENDOR, ''LamBootCrashCount'')"
definition LAST_ENTRY_VAR :: nv_name where "LAST_ENTRY_VAR = (LAMBOOT_VENDOR, ''LamBootLastEntry'')"
definition TIMESTAMP_VAR :: nv_name where "TIMESTAMP_VAR = (LAMBOOT_VENDOR, ''LamBootTimestamp'')"
definition VERSION_VAR :: nv_name where "VERSION_VAR = (LAMBOOT_VENDOR, ''LamBootVersion'')"
definition VMGENID_VAR :: nv_name where "VMGENID_VAR = (LAMBOOT_VENDOR, ''LamBootVmGenId'')"
definition LOADER_INFO_VAR :: nv_name where "LOADER_INFO_VAR = (LOADER_VENDOR, ''LoaderInfo'')"
definition LOADER_ENTRY_SELECTED_VAR :: nv_name where
  "LOADER_ENTRY_SELECTED_VAR = (LOADER_VENDOR, ''LoaderEntrySelected'')"
definition LOADER_BOOT_COUNT_PATH_VAR :: nv_name where
  "LOADER_BOOT_COUNT_PATH_VAR = (LOADER_VENDOR, ''LoaderBootCountPath'')"
definition OS_INDICATIONS_VAR :: nv_name where "OS_INDICATIONS_VAR = (EFI_GLOBAL_VARIABLE, ''OsIndications'')"
definition OS_INDICATIONS_SUPPORTED_VAR :: nv_name where
  "OS_INDICATIONS_SUPPORTED_VAR = (EFI_GLOBAL_VARIABLE, ''OsIndicationsSupported'')"
definition EFI_OS_INDICATIONS_BOOT_TO_FW_UI :: u64 where "EFI_OS_INDICATIONS_BOOT_TO_FW_UI = 1"

lemmas health_vars = STATE_VAR_def CRASH_COUNTER_VAR_def LAST_ENTRY_VAR_def TIMESTAMP_VAR_def
  VERSION_VAR_def VMGENID_VAR_def LOADER_INFO_VAR_def LOADER_ENTRY_SELECTED_VAR_def
  LOADER_BOOT_COUNT_PATH_VAR_def LAMBOOT_VENDOR_def LOADER_VENDOR_def

subsection \<open>State and counter\<close>

datatype BootState = Fresh | Booting | BootedOK | CrashLoop

fun state_from_u8 :: "u8 \<Rightarrow> BootState" where
  "state_from_u8 v = (if v = 1 then Booting else if v = 2 then BootedOK else if v = 3 then CrashLoop else Fresh)"

fun state_as_u8 :: "BootState \<Rightarrow> u8" where
  "state_as_u8 Fresh = 0"
| "state_as_u8 Booting = 1"
| "state_as_u8 BootedOK = 2"
| "state_as_u8 CrashLoop = 3"

definition get_state :: "'n runtime \<Rightarrow> 'n \<Rightarrow> BootState" where
  "get_state rt s =
     (case rt_get rt STATE_VAR 1 s of
        Ok data \<Rightarrow> if data \<noteq> [] then state_from_u8 (hd data) else Fresh
      | _ \<Rightarrow> Fresh)"

definition set_state :: "'n runtime \<Rightarrow> BootState \<Rightarrow> ('n, unit, string) act" where
  "set_state rt st = rt_set rt STATE_VAR [state_as_u8 st]"

definition get_crash_counter :: "'n runtime \<Rightarrow> 'n \<Rightarrow> u8" where
  "get_crash_counter rt s =
     (case rt_get rt CRASH_COUNTER_VAR 1 s of
        Ok data \<Rightarrow> if data \<noteq> [] then hd data else 0
      | _ \<Rightarrow> 0)"

definition write_timestamp :: "'n runtime \<Rightarrow> ('n, unit, string) act" where
  "write_timestamp rt =
     (case rt_time rt of
        Some t \<Rightarrow>
          rt_set rt TIMESTAMP_VAR
            [ucast (et_year t AND 0xFF), ucast (drop_bit 8 (et_year t)), et_month t, et_day t, et_hour t,
             et_minute t, et_second t, 0]
      | None \<Rightarrow> rt_set rt TIMESTAMP_VAR (replicate 8 0))"

definition set_loader_info :: "'n runtime \<Rightarrow> bytes \<Rightarrow> u32 \<Rightarrow> ('n, unit, string) act" where
  "set_loader_info rt info version =
     abind (rt_set rt LOADER_INFO_VAR info) (\<lambda>_. rt_set rt VERSION_VAR (to_le version))"

definition get_vmgenid :: "'n runtime \<Rightarrow> 'n \<Rightarrow> bytes option" where
  "get_vmgenid rt s =
     (case rt_get rt VMGENID_VAR 16 s of
        Ok data \<Rightarrow> if length data = 16 then Some data else None
      | _ \<Rightarrow> None)"

definition set_vmgenid :: "'n runtime \<Rightarrow> bytes \<Rightarrow> ('n, unit, string) act" where
  "set_vmgenid rt genid = rt_set rt VMGENID_VAR genid"

definition saturating_add_u8 :: "u8 \<Rightarrow> u8 \<Rightarrow> u8" where
  "saturating_add_u8 a b = (if unat a + unat b > 255 then 255 else a + b)"

definition ignore_result :: "('n, unit, string) act \<Rightarrow> 'n \<Rightarrow> 'n" where
  "ignore_result m s = fst (m s)"

record build_info =
  bi_loader_info :: bytes
  bi_version :: u32

definition assess_boot_health ::
  "'n runtime \<Rightarrow> build_info \<Rightarrow> bytes option \<Rightarrow> 'n \<Rightarrow> 'n \<times> u8" where
  "assess_boot_health rt bi vmgenid s =
     (if (case vmgenid of Some g \<Rightarrow> get_vmgenid rt s \<noteq> Some g | None \<Rightarrow> False) then
        let s = ignore_result (set_state rt Fresh) s;
            s = ignore_result (rt_set rt CRASH_COUNTER_VAR [0]) s;
            s = ignore_result (set_vmgenid rt (the vmgenid)) s;
            s = ignore_result (write_timestamp rt) s;
            s = ignore_result (set_loader_info rt (bi_loader_info bi) (bi_version bi)) s in
        (s, 0)
      else
        let counter =
              (case get_state rt s of
                 Booting \<Rightarrow> saturating_add_u8 (get_crash_counter rt s) 1
               | BootedOK \<Rightarrow> 0
               | Fresh \<Rightarrow> 0
               | CrashLoop \<Rightarrow> get_crash_counter rt s);
            s = ignore_result (rt_set rt CRASH_COUNTER_VAR [counter]) s;
            s = ignore_result (set_state rt Booting) s;
            s = ignore_result (write_timestamp rt) s;
            s = ignore_result (set_loader_info rt (bi_loader_info bi) (bi_version bi)) s in
        (s, counter))"

definition is_crash_loop :: "'n runtime \<Rightarrow> nat \<Rightarrow> 'n \<Rightarrow> bool" where
  "is_crash_loop rt threshold s \<longleftrightarrow> unat (get_crash_counter rt s) \<ge> threshold"

definition utf16_bytes :: "bytes \<Rightarrow> bytes" where
  "utf16_bytes bs = concat (map (\<lambda>b. [b, 0]) bs) @ [0, 0]"

definition record_boot_entry :: "'n runtime \<Rightarrow> string \<Rightarrow> ('n, unit, string) act" where
  "record_boot_entry rt entry_id =
     (let bs = as_bytes entry_id; len = min (length bs) 128 in
      abind (rt_set rt LAST_ENTRY_VAR (take len bs)) (\<lambda>_.
      atry (rt_set rt LOADER_ENTRY_SELECTED_VAR (utf16_bytes (take len bs)))))"

definition set_boot_count_path :: "'n runtime \<Rightarrow> string \<Rightarrow> ('n, unit, string) act" where
  "set_boot_count_path rt path =
     (let bs = as_bytes path; len = min (length bs) 256 in
      rt_set rt LOADER_BOOT_COUNT_PATH_VAR (utf16_bytes (take len bs)))"

definition mark_boot_success :: "'n runtime \<Rightarrow> ('n, unit, string) act" where
  "mark_boot_success rt =
     abind (set_state rt BootedOK) (\<lambda>_.
     abind (rt_set rt CRASH_COUNTER_VAR [0]) (\<lambda>_.
     atry (write_timestamp rt)))"

text \<open>\<open>reboot_to_firmware_setup\<close> up to the reset.\<close>

definition read_indications :: "'n runtime \<Rightarrow> nv_name \<Rightarrow> 'n \<Rightarrow> u64" where
  "read_indications rt v s =
     (case rt_get rt v 8 s of
        Ok data \<Rightarrow> if data \<noteq> [] then from_le (take 8 data) else 0
      | _ \<Rightarrow> 0)"

definition reboot_to_firmware_setup :: "'n runtime \<Rightarrow> 'n \<Rightarrow> 'n" where
  "reboot_to_firmware_setup rt s =
     (if read_indications rt OS_INDICATIONS_SUPPORTED_VAR s AND EFI_OS_INDICATIONS_BOOT_TO_FW_UI \<noteq> 0
      then ignore_result (rt_set rt OS_INDICATIONS_VAR
             (to_le (read_indications rt OS_INDICATIONS_VAR s OR EFI_OS_INDICATIONS_BOOT_TO_FW_UI))) s
      else s)"

subsection \<open>The counter over several boots\<close>

definition tracked :: "nv_name set" where
  "tracked = {STATE_VAR, CRASH_COUNTER_VAR, VMGENID_VAR}"

text \<open>\<open>failing_boots n s\<close>: since the last settled state, \<open>n\<close> boots have begun and none was marked a
  success; other variables may have been written in between.\<close>

inductive failing_boots :: "'n runtime \<Rightarrow> build_info \<Rightarrow> bytes option \<Rightarrow> nat \<Rightarrow> 'n \<Rightarrow> bool"
  for rt bi gen where
  settled: "get_state rt s = Fresh \<or> get_state rt s = BootedOK \<Longrightarrow>
    gen = None \<or> get_vmgenid rt s = gen \<Longrightarrow> failing_boots rt bi gen 0 s"
| boot: "failing_boots rt bi gen n s \<Longrightarrow>
    failing_boots rt bi gen (Suc n) (fst (assess_boot_health rt bi gen s))"
| other: "failing_boots rt bi gen n s \<Longrightarrow> v \<notin> tracked \<Longrightarrow>
    failing_boots rt bi gen n (fst (rt_set rt v d s))"

definition failing_inv :: "'n runtime \<Rightarrow> bytes option \<Rightarrow> nat \<Rightarrow> 'n \<Rightarrow> bool" where
  "failing_inv rt gen n s \<longleftrightarrow>
     (gen = None \<or> get_vmgenid rt s = gen) \<and>
     (case n of
        0 \<Rightarrow> get_state rt s = Fresh \<or> get_state rt s = BootedOK
      | Suc k \<Rightarrow> get_state rt s = Booting \<and> unat (get_crash_counter rt s) = min k 255)"

lemma saturating_add_one: "unat (saturating_add_u8 c 1) = min (Suc (unat c)) 255"
proof -
  have "unat c \<le> 255" using unat_u8_bound [of c] by simp
  then show ?thesis by (auto simp: saturating_add_u8_def unat_word_ariths min_def)
qed

context variable_services
begin

text \<open>What the readers see depends on the tracked variables alone.\<close>

lemma readers_cong:
  assumes "\<And>v. v \<in> tracked \<Longrightarrow> vars s' v = vars s v"
  shows "get_state rt s' = get_state rt s" "get_crash_counter rt s' = get_crash_counter rt s"
    "get_vmgenid rt s' = get_vmgenid rt s"
  using assms by (simp_all add: get_state_def get_crash_counter_def get_vmgenid_def get_spec tracked_def)

lemma readers_set:
  "vars s STATE_VAR = Some [state_as_u8 st] \<Longrightarrow> get_state rt s = st"
  "vars s CRASH_COUNTER_VAR = Some [c] \<Longrightarrow> get_crash_counter rt s = c"
  by (cases st; simp add: get_state_def get_spec) (simp add: get_crash_counter_def get_spec)

end

context writable_variables
begin

lemma ignore_set: "vars (ignore_result (rt_set rt v d) s) = (vars s)(v := if d = [] then None else Some d)"
  by (simp add: ignore_result_def set_vars)

lemma abind_set: "abind (rt_set rt v d) f s = f () (fst (rt_set rt v d s))"
  using set_total [of v d s] by (cases "rt_set rt v d s") (simp add: abind_def)

lemma book_keeping_vars:
  assumes "v \<in> tracked"
  shows "vars (ignore_result (write_timestamp rt) s) v = vars s v"
    "vars (ignore_result (set_loader_info rt info ver) s) v = vars s v"
proof -
  have ne: "v \<noteq> TIMESTAMP_VAR" "v \<noteq> LOADER_INFO_VAR" "v \<noteq> VERSION_VAR"
    using assms by (auto simp: tracked_def health_vars)
  then show "vars (ignore_result (write_timestamp rt) s) v = vars s v"
    by (simp add: write_timestamp_def ignore_set split: option.split)
  show "vars (ignore_result (set_loader_info rt info ver) s) v = vars s v"
    using ne by (simp add: set_loader_info_def ignore_result_def abind_set set_vars)
qed

lemma assess_vars:
  assumes "gen = None \<or> get_vmgenid rt s = gen" "assess_boot_health rt bi gen s = (s', c)" "v \<in> tracked"
  shows "vars s' v = ((vars s)(CRASH_COUNTER_VAR := Some [c], STATE_VAR := Some [1])) v"
proof -
  have "\<not> (case gen of Some g \<Rightarrow> get_vmgenid rt s \<noteq> Some g | None \<Rightarrow> False)"
    using assms(1) by (auto split: option.splits)
  then have s': "s' = ignore_result (set_loader_info rt (bi_loader_info bi) (bi_version bi))
      (ignore_result (write_timestamp rt) (ignore_result (set_state rt Booting)
        (ignore_result (rt_set rt CRASH_COUNTER_VAR [c]) s)))"
    using assms(2) by (auto simp: assess_boot_health_def Let_def)
  show ?thesis unfolding s' using assms(3) by (simp add: book_keeping_vars set_state_def ignore_set)
qed

lemma assess_counter:
  assumes "gen = None \<or> get_vmgenid rt s = gen" "assess_boot_health rt bi gen s = (s', c)"
  shows "c = (case get_state rt s of
                Booting \<Rightarrow> saturating_add_u8 (get_crash_counter rt s) 1
              | BootedOK \<Rightarrow> 0 | Fresh \<Rightarrow> 0 | CrashLoop \<Rightarrow> get_crash_counter rt s)"
  using assms by (auto simp: assess_boot_health_def Let_def split: option.splits)

lemma vars_different: "STATE_VAR \<noteq> CRASH_COUNTER_VAR" "VMGENID_VAR \<noteq> STATE_VAR" "VMGENID_VAR \<noteq> CRASH_COUNTER_VAR"
  by (simp_all add: health_vars)

lemma assess_readers:
  assumes "gen = None \<or> get_vmgenid rt s = gen" "assess_boot_health rt bi gen s = (s', c)"
  shows "get_state rt s' = Booting" "get_crash_counter rt s' = c" "get_vmgenid rt s' = get_vmgenid rt s"
proof -
  note a = assess_vars [OF assms]
  have t: "STATE_VAR \<in> tracked" "CRASH_COUNTER_VAR \<in> tracked" "VMGENID_VAR \<in> tracked" by (simp_all add: tracked_def)
  show "get_state rt s' = Booting" using readers_set(1) [of s' Booting] a [OF t(1)] by simp
  show "get_crash_counter rt s' = c"
    using readers_set(2) [of s' c] a [OF t(2)] vars_different by simp
  show "get_vmgenid rt s' = get_vmgenid rt s"
    using a [OF t(3)] vars_different by (simp add: get_vmgenid_def get_spec)
qed

lemma failing_boots_inv: "failing_boots rt bi gen n s \<Longrightarrow> failing_inv rt gen n s"
proof (induction rule: failing_boots.induct)
  case (settled s)
  then show ?case by (simp add: failing_inv_def)
next
  case (boot n s)
  obtain s' c where a: "assess_boot_health rt bi gen s = (s', c)" by fastforce
  have g: "gen = None \<or> get_vmgenid rt s = gen" using boot.IH by (simp add: failing_inv_def)
  note r = assess_readers [OF g a] assess_counter [OF g a]
  have "unat c = min n 255"
    using boot.IH r(4) by (cases n) (auto simp: failing_inv_def saturating_add_one)
  then show ?case using g r a by (auto simp: failing_inv_def)
next
  case (other n s v d)
  have "get_state rt (fst (rt_set rt v d s)) = get_state rt s"
    "get_crash_counter rt (fst (rt_set rt v d s)) = get_crash_counter rt s"
    "get_vmgenid rt (fst (rt_set rt v d s)) = get_vmgenid rt s"
    using other.hyps by (intro readers_cong; auto simp: set_vars)+
  then show ?case using other.IH by (cases n) (simp_all add: failing_inv_def)
qed

lemma mark_success_readers:
  assumes "mark_boot_success rt s = (s', r)"
  shows "get_state rt s' = BootedOK" "get_vmgenid rt s' = get_vmgenid rt s"
proof -
  have s': "s' = ignore_result (write_timestamp rt)
      (ignore_result (rt_set rt CRASH_COUNTER_VAR [0]) (ignore_result (set_state rt BootedOK) s))"
    using assms by (auto simp: mark_boot_success_def set_state_def abind_set ignore_result_def atry_conv)
  have t: "STATE_VAR \<in> tracked" "VMGENID_VAR \<in> tracked" by (simp_all add: tracked_def)
  show "get_state rt s' = BootedOK"
    using readers_set(1) [of s' BootedOK] vars_different t
    by (simp add: s' book_keeping_vars set_state_def ignore_set)
  show "get_vmgenid rt s' = get_vmgenid rt s"
    using vars_different t by (simp add: get_vmgenid_def get_spec s' book_keeping_vars set_state_def ignore_set)
qed

end

subsection \<open>Properties\<close>

text \<open>With a working variable store and an unchanged VM generation, the crash-loop test of the
  \<open>n\<close>-th boot in a row without a success fires exactly when at least \<open>threshold\<close> boots before it
  failed, for every threshold up to the counter's maximum of 255.\<close>

lemma crash_loop_after_threshold:
  assumes "writable_variables rt vars" "failing_boots rt bi gen n s" "0 < n" "threshold \<le> 255"
  shows "is_crash_loop rt threshold s \<longleftrightarrow> threshold \<le> n - 1"
  using writable_variables.failing_boots_inv [OF assms(1,2)] assms(3,4)
  by (cases n) (auto simp: failing_inv_def is_crash_loop_def)

text \<open>Three boots on an empty store.\<close>

definition demo_build :: build_info where
  "demo_build = \<lparr>bi_loader_info = [76, 0, 0, 0], bi_version = 256\<rparr>"

definition demo_boot :: "(nv_name \<Rightarrow> bytes option) \<Rightarrow> (nv_name \<Rightarrow> bytes option)" where
  "demo_boot s = fst (assess_boot_health plain_rt demo_build None s)"

lemma demo_failing: "failing_boots plain_rt demo_build None 3 (demo_boot (demo_boot (demo_boot (\<lambda>_. None))))"
proof -
  have "failing_boots plain_rt demo_build None 0 (\<lambda>_. None)"
    by (rule failing_boots.settled) (simp_all add: get_state_def plain_rt_def)
  then show ?thesis unfolding demo_boot_def numeral_3_eq_3 by (intro failing_boots.boot)
qed

text \<open>After a boot was marked a success, the next boot starts from a counter of zero and is in no
  crash loop for any positive threshold.\<close>

theorem success_resets_counter:
  assumes "writable_variables rt vars" "gen = None \<or> get_vmgenid rt s = gen"
    "mark_boot_success rt s = (s1, r)" "assess_boot_health rt bi gen s1 = (s2, c)" "0 < threshold"
  shows "c = 0 \<and> \<not> is_crash_loop rt threshold s2"
proof -
  note m = writable_variables.mark_success_readers [OF assms(1,3)]
  have g: "gen = None \<or> get_vmgenid rt s1 = gen" using assms(2) m(2) by simp
  have "c = 0" using writable_variables.assess_counter [OF assms(1) g assms(4)] m(1) by simp
  then show ?thesis
    using writable_variables.assess_readers(2) [OF assms(1) g assms(4)] assms(5) by (simp add: is_crash_loop_def)
qed

theorem success_resets_counter_witness:
  "\<exists>s1 r s2. mark_boot_success plain_rt (demo_boot (\<lambda>_. None)) = (s1, r) \<and>
     assess_boot_health plain_rt demo_build None s1 = (s2, 0) \<and> \<not> is_crash_loop plain_rt 1 s2"
proof -
  obtain s1 r where m: "mark_boot_success plain_rt (demo_boot (\<lambda>_. None)) = (s1, r)" by fastforce
  obtain s2 c where a: "assess_boot_health plain_rt demo_build None s1 = (s2, c)" by fastforce
  from success_resets_counter [OF plainnv.writable_variables_axioms _ m a, of 1] m a show ?thesis by simp
qed

end
