(* ===== verification/Bls.thy ===== *)
theory Bls
  imports Policy Trust_Log Autodiscovery Health
begin

section \<open>Discovery of BLS entries and boot counting\<close>

text \<open>
  Model of \<open>lamboot-core/src/bls.rs\<close>: the scan of a volume's \<open>/loader/entries\<close>, the conversion of
  entries for the menu and the boot-count rename.  It composes the parser, the policy, the volume, the
  ESP writer, the trust log and the boot-count variable.

  The theorems: what a scan returns and records; that the policy's lists are not applied to entries
  that name an EFI program; that every rename consumes one try and keeps the entry's identity, so
  that an entry that is never blessed becomes bad after exactly its tries; and that a successful
  decrement has moved the file's contents to the name with the new counters.
\<close>

subsection \<open>Entries for the menu\<close>

definition entry_title :: "BlsEntry \<Rightarrow> string" where
  "entry_title e =
     (case be_title e of
        Some t \<Rightarrow> t
      | None \<Rightarrow> (case be_version e of Some ver \<Rightarrow> ''Linux '' @ ver | None \<Rightarrow> be_id e))"

definition to_boot_entry :: "BlsEntry \<Rightarrow> BootEntry" where
  "to_boot_entry e =
     (let mk = (\<lambda>i kind fname.
            \<lparr>en_id = i, en_name = entry_title e, en_kind = kind, en_icon = IconLinux, en_bls_filename = fname,
             en_preflight = None, en_source_volume_index = be_source_volume_index e,
             en_source_backend_tag = be_source_backend_tag e\<rparr>) in
      case be_efi e of
        Some p \<Rightarrow> mk (''bls-'' @ be_id e) (Chainload p) (Some (be_filename e))
      | None \<Rightarrow>
          (case be_linux e of
             Some k \<Rightarrow> mk (''bls-'' @ be_id e) (LinuxLegacy k (cleaned_initrd e) (combined_options e))
                        (Some (be_filename e))
           | None \<Rightarrow> mk (be_id e) (Chainload []) None))"

subsection \<open>The scan\<close>

definition ENTRIES_DIR :: string where "ENTRIES_DIR = ''/loader/entries''"

definition candidate_name :: "string \<Rightarrow> bool" where
  "candidate_name f \<longleftrightarrow>
     has_extension_ignore_case f ''conf'' \<and> \<not> prefix ''.'' f \<and> \<not> prefix ''auto-'' f"

definition volume_note :: "nat \<Rightarrow> string \<Rightarrow> string" where
  "volume_note i tag = ''volume_index='' @ dec i @ '' backend='' @ tag"

text \<open>The fields and filters applied to a parsed entry; \<open>None\<close> drops it.\<close>

definition admit ::
  "target_arch \<Rightarrow> Policy \<Rightarrow> nat \<Rightarrow> string \<Rightarrow> 's volume \<Rightarrow> BlsEntry \<Rightarrow> BlsEntry option" where
  "admit target p i tag v e0 =
     (let e = e0\<lparr>be_source_volume_index := i, be_source_backend_tag := tag\<rparr> in
      if (case be_architecture e of Some a \<Rightarrow> \<not> is_native_architecture target a | None \<Rightarrow> False) then None
      else if (case be_linux e of Some k \<Rightarrow> \<not> allowed p k | None \<Rightarrow> False) then None
      else case be_linux e of
        Some k \<Rightarrow>
          if be_initrd e = [] \<and> find_initrd k v \<noteq> [] then Some (e\<lparr>be_initrd := find_initrd k v\<rparr>)
          else Some e
      | None \<Rightarrow> Some e)"

definition scan_file ::
  "target_arch \<Rightarrow> (FsError \<Rightarrow> string) \<Rightarrow> Policy \<Rightarrow> nat \<Rightarrow> string \<Rightarrow> 's volume \<times> TrustLog \<times> BlsEntry list \<Rightarrow>
   's volume \<times> TrustLog \<times> BlsEntry list" where
  "scan_file target show_err p i f st =
     (let (v, l, es) = st; tag = vol_backend_tag v; path = ENTRIES_DIR @ ''/'' @ f in
      if \<not> candidate_name f then st
      else case read_to_string_str path v of
        (v', Ok content) \<Rightarrow>
          (case bls_parse f content of
             Some e0 \<Rightarrow>
               (case admit target p i tag v' e0 of
                  Some e \<Rightarrow> (v', l, es @ [e])
                | None \<Rightarrow> (v', l, es))
           | None \<Rightarrow>
               (v', tl_record (with_note (volume_note i tag @ '' parse=missing_linux_or_efi'')
                      (with_path path (te_new ''bls_entry_invalid''))) l, es))
      | (v', Err e) \<Rightarrow>
          (v', tl_record (with_note (volume_note i tag @ '' err='' @ show_err e)
                 (with_path path (te_new ''bls_entry_read_failed''))) l, es)
      | (v', Panic) \<Rightarrow> (v', l, es))"

definition scan_volume_for_bls ::
  "target_arch \<Rightarrow> (FsError \<Rightarrow> string) \<Rightarrow> nat \<Rightarrow> Policy \<Rightarrow> 's volume \<times> TrustLog \<Rightarrow>
   's volume \<times> TrustLog \<times> BlsEntry list" where
  "scan_volume_for_bls target show_err i p st =
     (let (v, l) = st in
      case read_dir_str ENTRIES_DIR v of
        Ok filenames \<Rightarrow>
          let (v', l', es) = fold (scan_file target show_err p i) filenames (v, l, []);
              l'' = tl_record (with_note (volume_note i (vol_backend_tag v) @ '' count='' @ dec (length es))
                      (te_new ''bls_entries_found'')) l' in
          (v', l'', sort_by (\<lambda>a b. bls_sort_compare a b (po_bls_ignore_sort_key p)) es)
      | _ \<Rightarrow> (v, l, []))"

subsection \<open>Boot counting\<close>

definition U32_MAX :: nat where "U32_MAX = 2 ^ 32 - 1"

definition next_filename :: "BlsEntry \<Rightarrow> nat \<Rightarrow> string" where
  "next_filename e tries_left =
     (let tries_done = (case be_tries_done e of Some d \<Rightarrow> d | None \<Rightarrow> 0);
          new_left = tries_left - 1;
          new_done = min U32_MAX (tries_done + 1);
          left_width = count_digits_in_filename (be_filename e) (CHR ''+'');
          done_width = count_digits_in_filename (be_filename e) (CHR ''-'');
          new_suffix =
            (if done_width > 0
             then ''+'' @ zero_pad (max left_width 1) (dec new_left) @ ''-'' @ zero_pad (max done_width 1) (dec new_done)
             else ''+'' @ zero_pad (max left_width 1) (dec new_left)) in
      be_id e @ new_suffix @ ''.conf'')"

definition decrement_boot_count ::
  "'s sfs \<Rightarrow> 'n runtime \<Rightarrow> BlsEntry \<Rightarrow> 's volume \<times> 'n \<Rightarrow> ('s volume \<times> 'n) \<times> string option" where
  "decrement_boot_count fw rt e st =
     (let (v, n) = st in
      case be_tries_left e of
        None \<Rightarrow> (st, None)
      | Some tries_left \<Rightarrow>
          if tries_left = 0 then (st, None)
          else
            let new_filename = next_filename e tries_left in
            case path_from_str ENTRIES_DIR of
              Ok dir \<Rightarrow>
                if \<not> esp_writer_new v then (st, None)
                else
                  (case esp_rename fw dir (be_filename e) new_filename v of
                     (v', Ok _) \<Rightarrow>
                       ((v', fst (set_boot_count_path rt
                                ([CHR 0x5C] @ ''loader'' @ [CHR 0x5C] @ ''entries'' @ [CHR 0x5C] @ new_filename) n)),
                        Some new_filename)
                   | (v', _) \<Rightarrow> ((v', n), None))
            | _ \<Rightarrow> (st, None))"

subsection \<open>Counters in file names\<close>

lemma parse_counters_bounds:
  assumes "parse_counters f = (i, Some l, d)"
  shows "l \<le> U32_MAX"
proof -
  obtain c where "parse_uint 32 c = Some l"
    using assms by (auto simp: parse_counters_def Let_def split: option.splits prod.splits)
  from parse_uint_bound [OF this] show ?thesis by (simp add: U32_MAX_def)
qed

lemma trim_conf_digits:
  assumes "x \<noteq> []" "is_ascii_digit (last x)"
  shows "trim_end_matches ''.conf'' (x @ ''.conf'') = x"
  using assms suffix_last_conv [of "''.conf''" x]
  by (intro trim_end_matches_once) (auto simp: is_ascii_digit_def)

lemma last_zero_pad: "is_ascii_digit (last (x @ zero_pad w (dec n)))"
  using zero_pad_dec(1,3) [of w n] by (simp add: list_all_iff)

lemma plus_minus_not_digits: "\<not> is_ascii_digit (CHR ''+'')" "\<not> is_ascii_digit (CHR ''-'')"
  by (simp_all add: is_ascii_digit_def)

lemma parse_counters_left:
  assumes "l \<le> U32_MAX"
  shows "parse_counters (i @ ''+'' @ zero_pad w (dec l) @ ''.conf'') = (i, Some l, Some 0)"
proof -
  have "trim_end_matches ''.conf'' ((i @ ''+'' @ zero_pad w (dec l)) @ ''.conf'') = i @ ''+'' @ zero_pad w (dec l)"
    using last_zero_pad [of "i @ ''+''" w l] by (intro trim_conf_digits) simp_all
  moreover have "rsplit_once (CHR ''+'') (i @ ''+'' @ zero_pad w (dec l)) = Some (i, zero_pad w (dec l))"
    using dec_no_char [OF plus_minus_not_digits(1)] by (simp add: rsplit_once_Some_iff)
  moreover have "split_once (CHR ''-'') (zero_pad w (dec l)) = None"
    using dec_no_char [OF plus_minus_not_digits(2)] by (simp add: split_once_None_iff)
  ultimately show ?thesis
    using assms parse_uint_zero_pad_dec [of l 32 w] by (simp add: parse_counters_def U32_MAX_def)
qed

lemma parse_counters_left_done:
  assumes "l \<le> U32_MAX" "d \<le> U32_MAX"
  shows "parse_counters (i @ ''+'' @ zero_pad w (dec l) @ ''-'' @ zero_pad u (dec d) @ ''.conf'') = (i, Some l, Some d)"
proof -
  let ?c = "zero_pad w (dec l) @ ''-'' @ zero_pad u (dec d)"
  have "trim_end_matches ''.conf'' ((i @ ''+'' @ ?c) @ ''.conf'') = i @ ''+'' @ ?c"
    using last_zero_pad [of "i @ ''+'' @ zero_pad w (dec l) @ ''-''" u d] by (intro trim_conf_digits) simp_all
  moreover have "rsplit_once (CHR ''+'') (i @ ''+'' @ ?c) = Some (i, ?c)"
    using dec_no_char [OF plus_minus_not_digits(1)] by (simp add: rsplit_once_Some_iff)
  moreover have "split_once (CHR ''-'') ?c = Some (zero_pad w (dec l), zero_pad u (dec d))"
    using dec_no_char [OF plus_minus_not_digits(2)] by (simp add: split_once_Some_iff)
  ultimately show ?thesis
    using assms parse_uint_zero_pad_dec [of l 32 w] parse_uint_zero_pad_dec [of d 32 u]
    by (simp add: parse_counters_def U32_MAX_def)
qed

definition next_done :: "BlsEntry \<Rightarrow> nat" where
  "next_done e =
     (if count_digits_in_filename (be_filename e) (CHR ''-'') > 0
      then min U32_MAX ((case be_tries_done e of Some d \<Rightarrow> d | None \<Rightarrow> 0) + 1) else 0)"

lemma next_filename_counters:
  assumes "l \<le> U32_MAX"
  shows "parse_counters (next_filename e l) = (be_id e, Some (l - 1), Some (next_done e))"
  using assms parse_counters_left [of "l - 1"] parse_counters_left_done [of "l - 1" "next_done e"]
  by (auto simp: next_filename_def next_done_def Let_def)

text \<open>Following the names an entry goes through when no boot is ever blessed.\<close>

fun name_after :: "nat \<Rightarrow> string \<Rightarrow> string" where
  "name_after 0 f = f"
| "name_after (Suc k) f =
     (case fst (snd (parse_counters f)) of
        Some l \<Rightarrow> if l = 0 then f else name_after k (next_filename (empty_entry f) l)
      | None \<Rightarrow> f)"

lemma empty_entry_counters:
  "parse_counters f = (i, l, d) \<Longrightarrow>
   be_id (empty_entry f) = i \<and> be_tries_left (empty_entry f) = l \<and> be_tries_done (empty_entry f) = d \<and>
   be_filename (empty_entry f) = f"
  by (simp add: empty_entry_def)

lemma name_after_counters:
  assumes "parse_counters f = (i, Some l, d)" "k \<le> l"
  shows "\<exists>d'. parse_counters (name_after k f) = (i, Some (l - k), d')"
  using assms
proof (induction k arbitrary: f l d)
  case (Suc k)
  have "parse_counters (next_filename (empty_entry f) l) = (i, Some (l - 1), Some (next_done (empty_entry f)))"
    using next_filename_counters [OF parse_counters_bounds [OF Suc.prems(1)], of "empty_entry f"]
      empty_entry_counters [OF Suc.prems(1)] by simp
  from Suc.IH [OF this] Suc.prems show ?case by simp
qed auto

text \<open>A name without a separate counter of done tries gets none: \<open>+3\<close> becomes \<open>+2\<close>.\<close>

lemma decrement_without_done_counter: "next_filename (empty_entry ''arch+3.conf'') 3 = ''arch+2.conf''"
proof -
  have "trim_end_matches ''.conf'' (''arch+3'' @ ''.conf'') = ''arch+3''"
    by (rule trim_conf_digits) (simp_all add: is_ascii_digit_def)
  then have t: "trim_end_matches ''.conf'' ''arch+3.conf'' = ''arch+3''" by simp
  have w: "count_digits_in_filename ''arch+3.conf'' (CHR ''+'') = 1" "count_digits_in_filename ''arch+3.conf'' (CHR ''-'') = 0"
    by (simp_all add: count_digits_in_filename_def t is_ascii_digit_def)
  have "dec 2 = ''2''" by code_simp
  moreover have "be_id (empty_entry ''arch+3.conf'') = ''arch''" "be_filename (empty_entry ''arch+3.conf'') = ''arch+3.conf''"
    by (simp_all add: empty_entry_def parse_counters_def t split: prod.split)
  ultimately show ?thesis using w by (simp add: next_filename_def Let_def zero_pad_def)
qed

text \<open>C25: an entry that is never blessed keeps its identifier through all boot-count renames, loses
  one try with each, and is bad after exactly as many renames as it had tries.\<close>

theorem tries_run_out:
  assumes "parse_counters f = (i, Some l, d)" "k \<le> l" "bls_parse (name_after k f) content = Some e"
  shows "be_id e = i \<and> be_tries_left e = Some (l - k) \<and> (boot_count_state e = Bad \<longleftrightarrow> k = l)"
proof -
  obtain d' where c: "parse_counters (name_after k f) = (i, Some (l - k), d')"
    using name_after_counters [OF assms(1,2)] by blast
  have "(be_id e, be_tries_left e, be_tries_done e) = parse_counters (name_after k f)"
    using bls_parse_inv [OF assms(3)] by (simp add: entry_inv_def)
  then show ?thesis using c assms(2) by (auto simp: boot_count_state_def)
qed

lemma demo_counters: "parse_counters ''arch+3.conf'' = (''arch'', Some 3, Some 0)"
proof -
  have "dec 3 = ''3''" by code_simp
  then show ?thesis using parse_counters_left [of 3 "''arch''" 1] by (simp add: U32_MAX_def zero_pad_def)
qed

theorem tries_run_out_witness:
  "\<exists>e. bls_parse (name_after 3 ''arch+3.conf'') sample_conf = Some e \<and> boot_count_state e = Bad"
proof -
  have "\<exists>e. bls_parse f sample_conf = Some e" for f
    by (simp add: bls_parse_def sample_conf_def str_lines_def strip_cr_def parse_line_def trim_def
        trim_start_def trim_end_def is_whitespace_def is_ascii_whitespace_def apply_field_def
        normalize_path_def replace_char_def empty_entry_def split: prod.split)
  then obtain e where e: "bls_parse (name_after 3 ''arch+3.conf'') sample_conf = Some e" by blast
  from tries_run_out [OF demo_counters _ this] e show ?thesis by simp
qed

subsection \<open>Renaming on the medium\<close>

lemma esp_rename_store:
  assumes "esp_rename fw dir old_name new_name v = (v', Ok ())"
  shows "fat_rename fw dir old_name new_name (vol_store v) = (vol_store v', Ok ())"
  using assms
  by (auto simp: esp_rename_def with_sfs_def invalidate_path_def split: if_splits prod.splits outcome.splits)

text \<open>C27: when the decrement of an entry's boot count reports the new file name, that name carries
  the same identifier with one try less, and the entry's contents have moved to it.\<close>

theorem decrement_moves_entry:
  assumes "simple_file_system fw canon view"
    and "decrement_boot_count fw rt e (v, n) = ((v', n'), Some new_name)"
    and "be_tries_left e = Some l" "l \<le> U32_MAX"
    and "fat_join ENTRIES_DIR (be_filename e) = Ok p" "fat_join ENTRIES_DIR new_name = Ok q"
    and "file_id fw canon p \<noteq> file_id fw canon q"
    and "fat_content fw canon view (vol_store v) p = Some b" "fat_content fw canon view (vol_store v) q = None"
  shows "parse_counters new_name = (be_id e, Some (l - 1), Some (next_done e)) \<and>
         fat_content fw canon view (vol_store v') q = Some b \<and>
         fat_content fw canon view (vol_store v') p = None"
proof -
  have dir: "path_from_str ENTRIES_DIR = Ok ENTRIES_DIR"
    by (simp add: ENTRIES_DIR_def path_from_str_def path_render_def)
  have "new_name = next_filename e l" and r: "esp_rename fw ENTRIES_DIR (be_filename e) new_name v = (v', Ok ())"
    using assms(2,3) by (auto simp: decrement_boot_count_def dir Let_def split: if_splits outcome.splits prod.splits)
  then show ?thesis
    using simple_file_system.fat_rename_effect [OF assms(1) esp_rename_store [OF r] assms(5-9)]
      next_filename_counters [OF assms(4)] by simp
qed

definition demo_entries_volume :: "mem_state volume" where
  "demo_entries_volume =
     (demo_volume 1)\<lparr>vol_store :=
       \<lparr>mem_files = [([CHR 0x5C] @ ''loader'' @ [CHR 0x5C] @ ''entries'' @ [CHR 0x5C] @ ''arch+3.conf'', FatFile [7])],
        mem_writes_left = 1\<rparr>\<rparr>"

lemma demo_join:
  "fat_join ENTRIES_DIR ''arch+3.conf'' = Ok ''/loader/entries/arch+3.conf''"
  "fat_join ENTRIES_DIR ''arch+2.conf'' = Ok ''/loader/entries/arch+2.conf''"
  by (simp_all add: fat_join_def ENTRIES_DIR_def path_join_def path_from_str_def path_render_def suffix_def)

lemma demo_rename:
  "\<exists>v'. esp_rename mem_sfs ENTRIES_DIR ''arch+3.conf'' ''arch+2.conf'' demo_entries_volume = (v', Ok ())"
  by (simp add: demo_entries_volume_def esp_rename_def fat_rename_def demo_join read_through_sfs_def drop_old_name_def
      delete_open_file_def demo_defs)

lemma demo_decrement:
  "\<exists>v' n'. decrement_boot_count mem_sfs plain_rt (empty_entry ''arch+3.conf'') (demo_entries_volume, \<lambda>_. None) =
     ((v', n'), Some ''arch+2.conf'')"
proof -
  have dir: "path_from_str ENTRIES_DIR = Ok ENTRIES_DIR"
    by (simp add: ENTRIES_DIR_def path_from_str_def path_render_def)
  have "esp_writer_new demo_entries_volume" by (simp add: esp_writer_new_def demo_entries_volume_def demo_volume_def)
  then show ?thesis
    using demo_rename empty_entry_counters [OF demo_counters] decrement_without_done_counter
    by (auto simp: decrement_boot_count_def dir Let_def)
qed

theorem decrement_moves_entry_witness:
  "\<exists>v' n'. decrement_boot_count mem_sfs plain_rt (empty_entry ''arch+3.conf'') (demo_entries_volume, \<lambda>_. None) =
       ((v', n'), Some ''arch+2.conf'') \<and>
     fat_content mem_sfs mem_canon mem_view (vol_store v') ''/loader/entries/arch+2.conf'' = Some [7]"
proof -
  obtain v' n' where d: "decrement_boot_count mem_sfs plain_rt (empty_entry ''arch+3.conf'')
      (demo_entries_volume, \<lambda>_. None) = ((v', n'), Some ''arch+2.conf'')"
    using demo_decrement by blast
  have e: "be_tries_left (empty_entry ''arch+3.conf'') = Some 3" "(3::nat) \<le> U32_MAX"
    "fat_join ENTRIES_DIR (be_filename (empty_entry ''arch+3.conf'')) = Ok ''/loader/entries/arch+3.conf''"
    using empty_entry_counters [OF demo_counters] by (simp_all add: U32_MAX_def demo_join)
  have "file_id mem_sfs mem_canon ''/loader/entries/arch+3.conf'' \<noteq> file_id mem_sfs mem_canon ''/loader/entries/arch+2.conf''"
    "fat_content mem_sfs mem_canon mem_view (vol_store demo_entries_volume) ''/loader/entries/arch+3.conf'' = Some [7]"
    "fat_content mem_sfs mem_canon mem_view (vol_store demo_entries_volume) ''/loader/entries/arch+2.conf'' = None"
    by (simp_all add: fat_content_def file_id_def demo_entries_volume_def demo_defs)
  from decrement_moves_entry [OF memfs.simple_file_system_axioms d e demo_join(2) this] d show ?thesis by blast
qed

subsection \<open>What a scan returns\<close>

lemma scan_file_spec:
  fixes v :: "'s volume"
  assumes "scan_file target show_err p i f (v, l, es) = (v', l', es')"
  shows "vol_backend_tag v' = vol_backend_tag v \<and>
    (es' = es \<or> (\<exists>content e0 e (w :: 's volume). es' = es @ [e] \<and> candidate_name f \<and> bls_parse f content = Some e0 \<and>
       admit target p i (vol_backend_tag v) w e0 = Some e))"
proof -
  obtain w r where rd: "read_to_string_str (ENTRIES_DIR @ ''/'' @ f) v = (w, r)" by fastforce
  have "vol_backend_tag w = vol_backend_tag v"
  proof -
    have "vol_backend_tag (fst (volume_read q v)) = vol_backend_tag v" for q
      by (auto simp: volume_read_def split: prod.split option.split outcome.split)
    then show ?thesis
      using rd by (auto simp: read_to_string_str_def volume_read_to_string_def Let_def split: outcome.splits prod.splits)
        (metis fst_conv)
  qed
  then show ?thesis
    using assms rd
    by (cases r) (auto simp: scan_file_def Let_def split: if_splits option.splits)
qed

definition admitted :: "target_arch \<Rightarrow> Policy \<Rightarrow> nat \<Rightarrow> string \<Rightarrow> BlsEntry \<Rightarrow> bool" where
  "admitted target p i tag e \<longleftrightarrow>
     candidate_name (be_filename e) \<and> be_source_volume_index e = i \<and> be_source_backend_tag e = tag \<and>
     (be_linux e \<noteq> None \<or> be_efi e \<noteq> None) \<and>
     (\<forall>k. be_linux e = Some k \<longrightarrow> allowed p k) \<and>
     (\<forall>a. be_architecture e = Some a \<longrightarrow> is_native_architecture target a)"

lemma admit_admitted:
  assumes "admit target p i tag v e0 = Some e" "bls_parse f content = Some e0" "candidate_name f"
  shows "admitted target p i tag e"
  using assms(1,3) bls_parse_inv [OF assms(2)]
  by (auto simp: admit_def admitted_def entry_inv_def Let_def split: option.splits if_splits)

lemma scan_files_admitted:
  assumes "fold (scan_file target show_err p i) fs (v, l, es) = (v', l', es')" "vol_backend_tag v = tag"
    "\<forall>e \<in> set es. admitted target p i tag e"
  shows "\<forall>e \<in> set es'. admitted target p i tag e"
  using assms
proof (induction fs arbitrary: v l es)
  case (Cons f fs)
  obtain v1 l1 es1 where sf: "scan_file target show_err p i f (v, l, es) = (v1, l1, es1)"
    by (metis prod_cases3)
  from scan_file_spec [OF sf] have "vol_backend_tag v1 = tag" "\<forall>e \<in> set es1. admitted target p i tag e"
    using Cons.prems(2,3) admit_admitted by auto
  with Cons sf show ?case by simp
qed simp

text \<open>C34: every entry a scan returns comes from a visible \<open>.conf\<close> file, carries the volume it was
  found on, names a kernel or an EFI program, and is for this machine's architecture if it names one; if it names
  a kernel, the policy allows the kernel (of an EFI program the policy is not asked).  The scan ends with an
  event that counts the entries.\<close>

theorem scan_returns_admitted_entries:
  assumes "scan_volume_for_bls target show_err i p (v, l) = (v', l', es)" "e \<in> set es"
  shows "admitted target p i (vol_backend_tag v) e \<and>
         te_event (last (tl_events l')) = ''bls_entries_found'' \<and>
         te_note (last (tl_events l')) = volume_note i (vol_backend_tag v) @ '' count='' @ dec (length es)"
proof -
  obtain fs v1 l1 es1 where r: "fold (scan_file target show_err p i) fs (v, l, []) = (v1, l1, es1)"
    and es: "es = sort_by (\<lambda>a b. bls_sort_compare a b (po_bls_ignore_sort_key p)) es1"
    and l': "l' = tl_record (with_note (volume_note i (vol_backend_tag v) @ '' count='' @ dec (length es1))
                 (te_new ''bls_entries_found'')) l1"
    using assms by (auto simp: scan_volume_for_bls_def Let_def split: outcome.splits prod.splits)
  have "admitted target p i (vol_backend_tag v) e"
    using scan_files_admitted [OF r] assms(2) es by simp
  then show ?thesis by (simp add: l' es tl_record_def with_note_def te_new_def)
qed

definition demo_scan_volume :: "unit volume" where
  "demo_scan_volume =
     \<lparr>vol_backend_tag = ''fat'',
      vol_backend = \<lparr>bk_read = (\<lambda>_ _. Ok (as_bytes sample_conf)), bk_read_at = (\<lambda>_ _ _ _. Err NotFound),
        bk_exists = (\<lambda>_ _. Ok False),
        bk_read_dir = (\<lambda>_ _. Ok [\<lparr>de_name = ''arch+3.conf'', de_kind = Regular, de_size = 0\<rparr>]),
        bk_metadata = (\<lambda>_ _. Err NotFound)\<rparr>,
      vol_store = (), vol_cache = cache_new, vol_has_handle = True, vol_shared = False\<rparr>"

lemma demo_scan_parse:
  "\<exists>e. bls_parse ''arch+3.conf'' sample_conf = Some e \<and> be_linux e = Some (CHR 0x5C # ''vmlinuz'') \<and>
       be_architecture e = None"
  by (simp add: bls_parse_def sample_conf_def str_lines_def strip_cr_def parse_line_def trim_def
      trim_start_def trim_end_def is_whitespace_def is_ascii_whitespace_def apply_field_def
      normalize_path_def replace_char_def empty_entry_def split: prod.split)

lemma demo_scan:
  "\<exists>v' l' e. scan_volume_for_bls Arch_x86_64 (\<lambda>_. []) 0 default_policy (demo_scan_volume, tl_new) = (v', l', [e])"
proof -
  obtain e0 where e0: "bls_parse ''arch+3.conf'' sample_conf = Some e0"
    "be_linux e0 = Some (CHR 0x5C # ''vmlinuz'')" "be_architecture e0 = None"
    using demo_scan_parse by blast
  have utf: "from_utf8 (as_bytes sample_conf) = Some sample_conf"
    by (rule from_utf8_as_bytes) (simp add: sample_conf_def utf8_valid_ascii)
  have cand: "candidate_name ''arch+3.conf''"
    by (simp add: candidate_name_def has_extension_ignore_case_def eq_ignore_ascii_case_def)
  obtain w where rd: "read_to_string_str (ENTRIES_DIR @ ''/'' @ ''arch+3.conf'') demo_scan_volume = (w, Ok sample_conf)"
    by (simp add: read_to_string_str_def path_of_def normalize_path_string_def replace_char_def ENTRIES_DIR_def
        path_from_str_def path_render_def volume_read_to_string_def volume_read_def demo_scan_volume_def
        cache_get_def cache_new_def utf)
  have al: "allowed default_policy k" for k by (simp add: allowed_def is_denied_def default_policy_def)
  have "admit Arch_x86_64 default_policy 0 ''fat'' w e0 \<noteq> None" using e0 al by (simp add: admit_def Let_def)
  then obtain e where e: "admit Arch_x86_64 default_policy 0 ''fat'' w e0 = Some e" by blast
  have "scan_file Arch_x86_64 (\<lambda>_. []) default_policy 0 ''arch+3.conf'' (demo_scan_volume, tl_new, []) = (w, tl_new, [e])"
    using rd cand e0(1) e by (simp add: scan_file_def demo_scan_volume_def)
  moreover have "read_dir_str ENTRIES_DIR demo_scan_volume = Ok [''arch+3.conf'']"
    by (simp add: read_dir_str_def path_of_def normalize_path_string_def replace_char_def ENTRIES_DIR_def
        path_from_str_def path_render_def demo_scan_volume_def)
  ultimately show ?thesis by (simp add: scan_volume_for_bls_def Let_def)
qed

theorem scan_returns_admitted_entries_witness:
  "\<exists>v' l' e. scan_volume_for_bls Arch_x86_64 (\<lambda>_. []) 0 default_policy (demo_scan_volume, tl_new) = (v', l', [e]) \<and>
     admitted Arch_x86_64 default_policy 0 ''fat'' e"
proof -
  obtain v' l' e where s: "scan_volume_for_bls Arch_x86_64 (\<lambda>_. []) 0 default_policy (demo_scan_volume, tl_new) = (v', l', [e])"
    using demo_scan by blast
  from scan_returns_admitted_entries [OF s, of e] s show ?thesis by (auto simp: demo_scan_volume_def)
qed

text \<open>The allow and deny lists are not applied to an entry that names an EFI program: whatever
  the policy says, the entry is listed and boots that program.\<close>

theorem efi_entries_skip_policy:
  assumes "be_efi e0 = Some path" "be_linux e0 = None" "be_architecture e0 = None"
  shows "\<exists>e. admit target p i tag v e0 = Some e \<and> en_kind (to_boot_entry e) = Chainload path"
  using assms by (simp add: admit_def to_boot_entry_def Let_def)

theorem efi_entries_skip_policy_witness:
  "\<exists>e. admit Arch_x86_64 (default_policy\<lparr>po_denylist := [''*'']\<rparr>) 0 ''fat'' (demo_volume 0)
         ((empty_entry ''x.conf'')\<lparr>be_efi := Some [CHR 0x5C, CHR ''x'']\<rparr>) = Some e \<and>
       en_kind (to_boot_entry e) = Chainload [CHR 0x5C, CHR ''x''] \<and>
       \<not> allowed (default_policy\<lparr>po_denylist := [''*'']\<rparr>) [CHR 0x5C, CHR ''x'']"
proof -
  have "\<not> allowed (default_policy\<lparr>po_denylist := [''*'']\<rparr>) [CHR 0x5C, CHR ''x'']"
    by (simp add: allowed_def is_denied_def list_matches_def path_matches_pattern_def default_policy_def)
  then show ?thesis
    using efi_entries_skip_policy [of "(empty_entry ''x.conf'')\<lparr>be_efi := Some [CHR 0x5C, CHR ''x'']\<rparr>"
        "[CHR 0x5C, CHR ''x'']" Arch_x86_64 "default_policy\<lparr>po_denylist := [''*'']\<rparr>" 0 "''fat''" "demo_volume 0"]
    by (simp add: empty_entry_def split: prod.splits)
qed

end
