(* ===== verification/Uki.thy ===== *)
theory Uki
  imports Volume
begin

section \<open>Unified kernel images\<close>

text \<open>
  Model of \<open>lamboot-core/src/uki.rs\<close>: the section table of a unified kernel image, the reading of its small
  metadata sections through a volume, and the parser of \<open>os-release\<close> text.  Sizes and offsets come from 16
  and 32-bit fields, so their saturating sums never saturate.

  The theorems: the table parser never reads outside the header it is given; the \<open>os-release\<close> parser panics
  exactly on a value that is one lone quotation mark.
\<close>

subsection \<open>The section table\<close>

definition SECTION_OSREL :: bytes where "SECTION_OSREL = [0x2E, 0x6F, 0x73, 0x72, 0x65, 0x6C, 0, 0]"
definition SECTION_CMDLINE :: bytes where "SECTION_CMDLINE = [0x2E, 0x63, 0x6D, 0x64, 0x6C, 0x69, 0x6E, 0x65]"
definition SECTION_UNAME :: bytes where "SECTION_UNAME = [0x2E, 0x75, 0x6E, 0x61, 0x6D, 0x65, 0, 0]"

record SectionLoc =
  sl_name :: bytes
  sl_offset :: nat
  sl_size :: nat

definition read_u16_le :: "bytes \<Rightarrow> nat \<Rightarrow> (u16, unit) outcome" where
  "read_u16_le data off =
     obind (at_idx data off) (\<lambda>a. obind (at_idx data (off + 1)) (\<lambda>b. Ok (from_le [a, b])))"

definition read_u32_le :: "bytes \<Rightarrow> nat \<Rightarrow> (u32, unit) outcome" where
  "read_u32_le data off =
     obind (at_idx data off) (\<lambda>a. obind (at_idx data (off + 1)) (\<lambda>b.
     obind (at_idx data (off + 2)) (\<lambda>c. obind (at_idx data (off + 3)) (\<lambda>d. Ok (from_le [a, b, c, d])))))"

fun section_entries :: "bytes \<Rightarrow> nat \<Rightarrow> nat \<Rightarrow> (SectionLoc list, unit) outcome" where
  "section_entries header entry 0 = Ok []"
| "section_entries header entry (Suc n) =
     obind (slice_idx header entry (entry + 8)) (\<lambda>name.
     obind (read_u32_le header (entry + 16)) (\<lambda>raw_size.
     obind (read_u32_le header (entry + 20)) (\<lambda>raw_offset.
     obind (section_entries header (entry + 40) n) (\<lambda>rest.
     Ok (\<lparr>sl_name = name, sl_offset = unat raw_offset, sl_size = unat raw_size\<rparr> # rest)))))"

definition parse_pe_section_table :: "bytes \<Rightarrow> ((u16 \<times> SectionLoc list) option, unit) outcome" where
  "parse_pe_section_table header =
     (if length header < 64 \<or> take 2 header \<noteq> [0x4D, 0x5A] then Ok None
      else obind (read_u32_le header 0x3C) (\<lambda>lfanew.
        let pe_offset = unat lfanew in
        if pe_offset + 24 > length header then Ok None
        else obind (slice_idx header pe_offset (pe_offset + 4)) (\<lambda>sig.
          if sig \<noteq> [0x50, 0x45, 0x00, 0x00] then Ok None
          else let coff_offset = pe_offset + 4 in
            obind (read_u16_le header coff_offset) (\<lambda>machine.
            obind (read_u16_le header (coff_offset + 2)) (\<lambda>num.
            obind (read_u16_le header (coff_offset + 16)) (\<lambda>opt_size.
              let num_sections = unat num; section_table = coff_offset + 20 + unat opt_size in
              if section_table + num_sections * 40 > length header then Ok None
              else obind (section_entries header section_table num_sections) (\<lambda>sections.
                Ok (Some (machine, sections)))))))))"

definition section_name_eq :: "bytes \<Rightarrow> bytes \<Rightarrow> bool" where
  "section_name_eq name target \<longleftrightarrow> 8 \<le> length name \<and> take 8 name = target"

subsection \<open>The \<open>os-release\<close> text\<close>

record OsReleaseInfo =
  or_pretty_name :: "string option"
  or_name :: "string option"
  or_id :: "string option"
  or_version_id :: "string option"

definition display_name :: "OsReleaseInfo \<Rightarrow> string option" where
  "display_name info =
     (case or_pretty_name info of Some n \<Rightarrow> Some n
      | None \<Rightarrow> (case or_name info of Some n \<Rightarrow> Some n | None \<Rightarrow> or_id info))"

definition display_version :: "OsReleaseInfo \<Rightarrow> string option" where
  "display_version info = or_version_id info"

definition dquote :: char where "dquote = CHR 0x22"
definition squote :: char where "squote = CHR 0x27"

text \<open>\<open>&value[1..value.len() - 1]\<close> between matching quotation marks.\<close>

definition strip_quotes :: "string \<Rightarrow> (string, unit) outcome" where
  "strip_quotes v =
     (if prefix [dquote] v \<and> suffix [dquote] v \<or> prefix [squote] v \<and> suffix [squote] v
      then slice_idx v 1 (length v - 1) else Ok v)"

definition set_os_field :: "string \<Rightarrow> string \<Rightarrow> OsReleaseInfo \<Rightarrow> OsReleaseInfo" where
  "set_os_field key value info =
     (if key = ''PRETTY_NAME'' then info\<lparr>or_pretty_name := Some value\<rparr>
      else if key = ''NAME'' then info\<lparr>or_name := Some value\<rparr>
      else if key = ''ID'' then info\<lparr>or_id := Some value\<rparr>
      else if key = ''VERSION_ID'' then info\<lparr>or_version_id := Some value\<rparr>
      else info)"

definition os_release_line :: "string \<Rightarrow> OsReleaseInfo \<Rightarrow> (OsReleaseInfo, unit) outcome" where
  "os_release_line raw info =
     (let line = trim raw in
      if line = [] \<or> prefix ''#'' line then Ok info
      else case split_once (CHR ''='') line of
        None \<Rightarrow> Ok info
      | Some (key, value) \<Rightarrow> obind (strip_quotes (trim value)) (\<lambda>v. Ok (set_os_field key v info)))"

fun os_release_lines :: "string list \<Rightarrow> OsReleaseInfo \<Rightarrow> (OsReleaseInfo, unit) outcome" where
  "os_release_lines [] info = Ok info"
| "os_release_lines (l # ls) info = obind (os_release_line l info) (os_release_lines ls)"

text \<open>Text that is not UTF-8 is cut before its first byte past ASCII.\<close>

definition os_release_text :: "bytes \<Rightarrow> string option" where
  "os_release_text data =
     (case from_utf8 data of
        Some s \<Rightarrow> Some s
      | None \<Rightarrow> from_utf8 (takeWhile (\<lambda>b. \<not> (unat b > 0x7E \<and> b \<noteq> 10 \<and> b \<noteq> 13 \<and> b \<noteq> 9)) data))"

definition parse_os_release :: "bytes \<Rightarrow> (OsReleaseInfo, unit) outcome" where
  "parse_os_release data =
     (let info = \<lparr>or_pretty_name = None, or_name = None, or_id = None, or_version_id = None\<rparr> in
      case os_release_text data of
        None \<Rightarrow> Ok info
      | Some s \<Rightarrow> os_release_lines (str_lines s) info)"

definition parse_os_release_text :: "string \<Rightarrow> (string option \<times> string option, unit) outcome" where
  "parse_os_release_text s = obind (parse_os_release (as_bytes s)) (\<lambda>info. Ok (display_name info, or_id info))"

subsection \<open>Reading the metadata\<close>

record UkiMetadata =
  um_os_name :: "string option"
  um_os_version :: "string option"
  um_kernel_version :: "string option"
  um_cmdline :: "string option"
  um_machine :: u16

definition section_text :: "bytes option \<Rightarrow> string option" where
  "section_text d = (case d of None \<Rightarrow> None
     | Some b \<Rightarrow> map_option (\<lambda>s. trim (trim_end_matches [CHR 0x00] s)) (from_utf8 b))"

definition build_metadata :: "u16 \<Rightarrow> bytes option \<Rightarrow> bytes option \<Rightarrow> bytes option \<Rightarrow> (UkiMetadata, unit) outcome" where
  "build_metadata machine osrel_data cmdline_data uname_data =
     obind (case osrel_data of
              Some osrel \<Rightarrow> obind (parse_os_release osrel) (\<lambda>info. Ok (display_name info, display_version info))
            | None \<Rightarrow> Ok (None, None)) (\<lambda>(os_name, os_version).
     Ok \<lparr>um_os_name = os_name, um_os_version = os_version, um_kernel_version = section_text uname_data,
         um_cmdline = section_text cmdline_data, um_machine = machine\<rparr>)"

record uki_sections =
  us_osrel :: "bytes option"
  us_cmdline :: "bytes option"
  us_uname :: "bytes option"

definition read_section ::
  "string \<Rightarrow> SectionLoc \<Rightarrow> uki_sections \<Rightarrow> ('s volume, uki_sections, unit) act" where
  "read_section path sec u v =
     (let get = (\<lambda>put. case read_at_str path (sl_offset sec) (sl_size sec) v of
            (v', Panic) \<Rightarrow> (v', Panic)
          | (v', r) \<Rightarrow> (v', Ok (put (ok_option r)))) in
      if sl_size sec > 65536 then (v, Ok u)
      else if section_name_eq (sl_name sec) SECTION_OSREL then get (\<lambda>d. u\<lparr>us_osrel := d\<rparr>)
      else if section_name_eq (sl_name sec) SECTION_CMDLINE then get (\<lambda>d. u\<lparr>us_cmdline := d\<rparr>)
      else if section_name_eq (sl_name sec) SECTION_UNAME then get (\<lambda>d. u\<lparr>us_uname := d\<rparr>)
      else (v, Ok u))"

fun read_sections :: "string \<Rightarrow> SectionLoc list \<Rightarrow> uki_sections \<Rightarrow> ('s volume, uki_sections, unit) act" where
  "read_sections path [] u = aret u"
| "read_sections path (sec # secs) u = abind (read_section path sec u) (read_sections path secs)"

definition read_uki_metadata :: "string \<Rightarrow> ('s volume, UkiMetadata option, unit) act" where
  "read_uki_metadata path v =
     (case read_at_str path 0 4096 v of
        (v1, Err e) \<Rightarrow> (v1, Ok None)
      | (v1, Panic) \<Rightarrow> (v1, Panic)
      | (v1, Ok header) \<Rightarrow>
          abind (alift (\<lambda>_. parse_pe_section_table header)) (\<lambda>table.
          case table of
            None \<Rightarrow> aret None
          | Some (machine, sections) \<Rightarrow>
              abind (read_sections path sections \<lparr>us_osrel = None, us_cmdline = None, us_uname = None\<rparr>) (\<lambda>u.
              alift (\<lambda>_. obind (build_metadata machine (us_osrel u) (us_cmdline u) (us_uname u)) (Ok \<circ> Some)))) v1)"

subsection \<open>Bounds of the table\<close>

lemma read_u16_le_Ok: "off + 2 \<le> length data \<Longrightarrow> \<exists>w. read_u16_le data off = Ok w"
  by (simp add: read_u16_le_def)

lemma read_u32_le_Ok: "off + 4 \<le> length data \<Longrightarrow> \<exists>w. read_u32_le data off = Ok w"
  by (simp add: read_u32_le_def)

lemma section_entries_Ok:
  "entry + n * 40 \<le> length header \<Longrightarrow> \<exists>ss. section_entries header entry n = Ok ss \<and> length ss = n"
proof (induction n arbitrary: entry)
  case (Suc n)
  obtain sz where "read_u32_le header (entry + 16) = Ok sz" using read_u32_le_Ok [of "entry + 16" header] Suc.prems by auto
  moreover obtain off where "read_u32_le header (entry + 20) = Ok off"
    using read_u32_le_Ok [of "entry + 20" header] Suc.prems by auto
  moreover obtain ss where "section_entries header (entry + 40) n = Ok ss" "length ss = n"
    using Suc.IH [of "entry + 40"] Suc.prems by auto
  ultimately show ?case using Suc.prems by simp
qed simp

text \<open>On any bytes the section-table parser returns: it never indexes outside the header, and a table it
  accepts has as many sections as the header announces, at most 102 of them in the 4096 bytes that are read.\<close>

theorem uki_section_table_never_panics:
  "\<exists>r. parse_pe_section_table header = Ok r \<and>
     (case r of None \<Rightarrow> True | Some (mach, secs) \<Rightarrow> 40 * length secs \<le> length header)"
proof -
  have "\<exists>r. parse_pe_section_table header = Ok r \<and>
     (case r of None \<Rightarrow> True | Some (mach, secs) \<Rightarrow> 40 * length secs \<le> length header)"
    if big: "\<not> length header < 64" "take 2 header = [0x4D, 0x5A]"
  proof -
    obtain lf where lf: "read_u32_le header 0x3C = Ok lf" using read_u32_le_Ok [of "0x3C" header] big by auto
    show ?thesis
    proof (cases "unat lf + 24 > length header \<or> take 4 (drop (unat lf) header) \<noteq> [0x50, 0x45, 0x00, 0x00]")
      case True
      then show ?thesis
        using big lf by (cases "unat lf + 24 > length header") (simp_all add: parse_pe_section_table_def Let_def)
    next
      case False
      let ?c = "unat lf + 4"
      obtain mach num opt where r: "read_u16_le header ?c = Ok mach"
        "read_u16_le header (?c + 2) = Ok num" "read_u16_le header (?c + 16) = Ok opt"
        using read_u16_le_Ok [of ?c header] read_u16_le_Ok [of "?c + 2" header] read_u16_le_Ok [of "?c + 16" header] False
        by auto
      let ?t = "?c + 20 + unat opt"
      show ?thesis
      proof (cases "?t + unat num * 40 > length header")
        case True
        then show ?thesis using big lf False r by (simp add: parse_pe_section_table_def Let_def)
      next
        case fits: False
        then obtain ss where "section_entries header ?t (unat num) = Ok ss" "length ss = unat num"
          using section_entries_Ok [of ?t "unat num" header] by auto
        then show ?thesis using big lf False r fits by (simp add: parse_pe_section_table_def Let_def)
      qed
    qed
  qed
  then show ?thesis by (cases "length header < 64 \<or> take 2 header \<noteq> [0x4D, 0x5A]") (auto simp: parse_pe_section_table_def)
qed

subsection \<open>The lone quotation mark\<close>

definition lone_quote :: "string \<Rightarrow> bool" where
  "lone_quote raw \<longleftrightarrow>
     \<not> prefix ''#'' (trim raw) \<and>
     (case split_once (CHR ''='') (trim raw) of None \<Rightarrow> False | Some (k, v) \<Rightarrow> trim v = [dquote] \<or> trim v = [squote])"

lemma strip_quotes_Panic: "strip_quotes v = Panic \<longleftrightarrow> v = [dquote] \<or> v = [squote]"
proof -
  have "length v = 1" if "prefix [c] v" "length v < 2" for c using that by (cases v) auto
  then show ?thesis
    by (auto simp: strip_quotes_def slice_idx_Panic_conv length_Suc_conv not_le suffix_def dest: prefix_length_le)
qed

lemma os_release_line_Panic: "os_release_line l info = Panic \<longleftrightarrow> lone_quote l"
  by (auto simp: os_release_line_def lone_quote_def Let_def outcome_simps strip_quotes_Panic split: option.splits)

lemma os_release_line_not_Err: "os_release_line l info \<noteq> Err e"
  by (auto simp: os_release_line_def Let_def strip_quotes_def outcome_simps split: option.splits)

lemma os_release_lines_Panic: "os_release_lines ls info = Panic \<longleftrightarrow> (\<exists>l \<in> set ls. lone_quote l)"
proof (induction ls arbitrary: info)
  case (Cons l ls)
  show ?case
  proof (cases "os_release_line l info")
    case Panic
    then show ?thesis using os_release_line_Panic [of l info] by simp
  next
    case (Ok i)
    then have "\<not> lone_quote l" using os_release_line_Panic [of l info] by simp
    then show ?thesis using Ok Cons by simp
  qed (use os_release_line_not_Err in blast)
qed simp

text \<open>The \<open>os-release\<close> section of an image makes the reading of its metadata panic exactly when some line
  sets a key to one lone quotation mark; every other text is parsed.\<close>

theorem os_release_panics_on_lone_quote:
  "(build_metadata machine (Some osrel) cmdline uname) = Panic \<longleftrightarrow>
   (case os_release_text osrel of None \<Rightarrow> False | Some s \<Rightarrow> \<exists>l \<in> set (str_lines s). lone_quote l)"
  by (auto simp: build_metadata_def parse_os_release_def Let_def outcome_simps os_release_lines_Panic
      split: option.splits prod.splits)

text \<open>A section of seven bytes, \<open>NAME=\<close> with one quotation mark and a line feed, is such a text.\<close>

lemma lone_quote_panics:
  "(build_metadata m (Some (as_bytes (''NAME='' @ [dquote, CHR 0x0A]))) c u) = Panic"
proof -
  have "os_release_text (as_bytes (''NAME='' @ [dquote, CHR 0x0A])) = Some (''NAME='' @ [dquote, CHR 0x0A])"
    by (simp add: os_release_text_def from_utf8_as_bytes utf8_valid_ascii dquote_def)
  moreover have "str_lines (''NAME='' @ [dquote, CHR 0x0A]) = [''NAME='' @ [dquote]]"
    by (simp add: str_lines_def strip_cr_def dquote_def)
  moreover have "lone_quote (''NAME='' @ [dquote])"
    by (simp add: lone_quote_def trim_def trim_start_def trim_end_def is_whitespace_def dquote_def)
  ultimately show ?thesis
    by (simp add: build_metadata_def parse_os_release_def Let_def outcome_simps os_release_line_Panic)
qed

end
