(* ===== verification/Utf16.thy ===== *)
theory Utf16
  imports Rust_Str
begin

section \<open>UTF-16\<close>

text \<open>
  The conversions between the UTF-8 text of the source language and the 16-bit text of the firmware:
  \<open>str::encode_utf16\<close>, \<open>char::from_u32\<close> with \<open>String::push\<close>, and \<open>String::from_utf16_lossy\<close>, which
  puts the replacement character for every unpaired surrogate.  The round trip: text encoded to UTF-16 and
  decoded again is the text.
\<close>

definition is_scalar :: "nat \<Rightarrow> bool" where
  "is_scalar cp \<longleftrightarrow> cp < 0xD800 \<or> 0xE000 \<le> cp \<and> cp \<le> 0x10FFFF"

subsection \<open>From text to code units\<close>

text \<open>The code points of a UTF-8 string, and their code units: the ones past the basic plane as a
  surrogate pair.\<close>

function utf8_chars :: "nat list \<Rightarrow> nat list" where
  "utf8_chars [] = []"
| "utf8_chars (b # r) =
     (let c = (\<lambda>i. (if i < length r then r ! i else 128) mod 64) in
      if b < 192 then b # utf8_chars r
      else if b < 224 then ((b mod 32) * 64 + c 0) # utf8_chars (drop 1 r)
      else if b < 240 then ((b mod 16) * 4096 + c 0 * 64 + c 1) # utf8_chars (drop 2 r)
      else ((b mod 8) * 262144 + c 0 * 4096 + c 1 * 64 + c 2) # utf8_chars (drop 3 r))"
  by pat_completeness auto
termination
  by (relation "measure length") auto

definition utf16_units :: "nat \<Rightarrow> u16 list" where
  "utf16_units cp =
     (if cp < 65536 then [of_nat cp]
      else [of_nat (55296 + (cp - 65536) div 1024), of_nat (56320 + (cp - 65536) mod 1024)])"

definition encode_utf16 :: "string \<Rightarrow> u16 list" where
  "encode_utf16 s = concat (map utf16_units (utf8_chars (map byte_val s)))"

subsection \<open>From code units to text\<close>

definition utf8_encode :: "nat \<Rightarrow> nat list" where
  "utf8_encode cp =
     (if cp < 0x80 then [cp]
      else if cp < 0x800 then [192 + cp div 64, 128 + cp mod 64]
      else if cp < 0x10000 then [224 + cp div 4096, 128 + cp div 64 mod 64, 128 + cp mod 64]
      else [240 + cp div 262144, 128 + cp div 4096 mod 64, 128 + cp div 64 mod 64, 128 + cp mod 64])"

definition utf8_text :: "nat list \<Rightarrow> string" where
  "utf8_text cps = map char_of (concat (map utf8_encode cps))"

definition high_surrogate :: "nat \<Rightarrow> bool" where
  "high_surrogate u \<longleftrightarrow> 0xD800 \<le> u \<and> u < 0xDC00"

definition low_surrogate :: "nat \<Rightarrow> bool" where
  "low_surrogate u \<longleftrightarrow> 0xDC00 \<le> u \<and> u < 0xE000"

fun decode_utf16 :: "nat list \<Rightarrow> nat list" where
  "decode_utf16 [] = []"
| "decode_utf16 [u] = [if high_surrogate u \<or> low_surrogate u then 0xFFFD else u]"
| "decode_utf16 (u # v # us) =
     (if high_surrogate u then
        (if low_surrogate v then (0x10000 + (u - 0xD800) * 1024 + (v - 0xDC00)) # decode_utf16 us
         else 0xFFFD # decode_utf16 (v # us))
      else if low_surrogate u then 0xFFFD # decode_utf16 (v # us)
      else u # decode_utf16 (v # us))"

definition from_utf16_lossy :: "u16 list \<Rightarrow> string" where
  "from_utf16_lossy us = utf8_text (decode_utf16 (map unat us))"

subsection \<open>The round trip\<close>

lemma utf8_pieces:
  fixes b :: nat
  shows "128 \<le> b \<Longrightarrow> b \<le> 0xBF \<Longrightarrow> \<exists>y<64. b = 128 + y"
    "0xC2 \<le> b \<Longrightarrow> b \<le> 0xDF \<Longrightarrow> \<exists>x\<ge>2. x < 32 \<and> b = 192 + x"
    "0xE0 \<le> b \<Longrightarrow> b \<le> 0xEF \<Longrightarrow> \<exists>x<16. b = 224 + x"
    "0xF0 \<le> b \<Longrightarrow> b \<le> 0xF4 \<Longrightarrow> \<exists>x\<le>4. b = 240 + x"
  apply -
  subgoal by (rule exI [of _ "b - 128"]) simp
  subgoal by (rule exI [of _ "b - 192"]) auto
  subgoal by (rule exI [of _ "b - 224"]) simp
  subgoal by (rule exI [of _ "b - 240"]) simp
  done

lemma offset_mods:
  fixes x y u v :: nat
  shows "y < 64 \<Longrightarrow> (128 + y) mod 64 = y" "x < 32 \<Longrightarrow> (192 + x) mod 32 = x"
    "u < 16 \<Longrightarrow> (224 + u) mod 16 = u" "v < 8 \<Longrightarrow> (240 + v) mod 8 = v"
  using mod_mult_self3 [of 2 64 y] mod_mult_self3 [of 6 32 x] mod_mult_self3 [of 14 16 u] mod_mult_self3 [of 30 8 v]
  by simp_all

lemma digit64: "r < 64 \<Longrightarrow> (q * 64 + r) div 64 = q" "r < 64 \<Longrightarrow> (q * 64 + r) mod 64 = r" for q r :: nat
  by simp_all

lemma div_4096: "n div 4096 = n div 64 div 64" "n div 262144 = n div 64 div 64 div 64" for n :: nat
  by (simp_all add: div_mult2_eq [symmetric])

lemma digits64:
  fixes x y z w :: nat
  assumes "y < 64" "z < 64" "w < 64"
  shows "(x * 4096 + y * 64 + z) div 4096 = x" "(x * 4096 + y * 64 + z) div 64 mod 64 = y"
    "(x * 4096 + y * 64 + z) mod 64 = z"
    "(x * 262144 + y * 4096 + z * 64 + w) div 262144 = x" "(x * 262144 + y * 4096 + z * 64 + w) div 4096 mod 64 = y"
    "(x * 262144 + y * 4096 + z * 64 + w) div 64 mod 64 = z" "(x * 262144 + y * 4096 + z * 64 + w) mod 64 = w"
proof -
  have e: "x * 4096 + y * 64 + z = (x * 64 + y) * 64 + z"
    "x * 262144 + y * 4096 + z * 64 + w = ((x * 64 + y) * 64 + z) * 64 + w" by simp_all
  show "(x * 4096 + y * 64 + z) div 4096 = x" "(x * 4096 + y * 64 + z) div 64 mod 64 = y"
    "(x * 4096 + y * 64 + z) mod 64 = z"
    unfolding e div_4096 using assms by (simp_all only: digit64)
  show "(x * 262144 + y * 4096 + z * 64 + w) div 262144 = x" "(x * 262144 + y * 4096 + z * 64 + w) div 4096 mod 64 = y"
    "(x * 262144 + y * 4096 + z * 64 + w) div 64 mod 64 = z" "(x * 262144 + y * 4096 + z * 64 + w) mod 64 = w"
    unfolding e div_4096 using assms by (simp_all only: digit64)
qed

lemma utf8_two:
  assumes "0xC2 \<le> a" "a \<le> 0xDF" "0x80 \<le> b" "b \<le> 0xBF"
  shows "utf8_encode ((a mod 32) * 64 + b mod 64) = [a, b] \<and> is_scalar ((a mod 32) * 64 + b mod 64)"
proof -
  obtain x y where "a = 192 + x" "b = 128 + y" "2 \<le> x" "x < 32" "y < 64" using assms utf8_pieces by metis
  then show ?thesis by (simp add: utf8_encode_def is_scalar_def offset_mods digit64)
qed

lemma utf8_three:
  assumes "0xE0 \<le> a" "a \<le> 0xEF" "(if a = 0xE0 then 0xA0 else 0x80) \<le> b" "b \<le> (if a = 0xED then 0x9F else 0xBF)"
    "0x80 \<le> c" "c \<le> 0xBF"
  shows "utf8_encode ((a mod 16) * 4096 + b mod 64 * 64 + c mod 64) = [a, b, c] \<and>
         is_scalar ((a mod 16) * 4096 + b mod 64 * 64 + c mod 64)"
proof -
  have "0x80 \<le> b" "b \<le> 0xBF" using assms(3,4) by (auto split: if_splits)
  then obtain x y z where eq: "a = 224 + x" "b = 128 + y" "c = 128 + z" "x < 16" "y < 64" "z < 64"
    using assms utf8_pieces by metis
  have lo: "0x800 \<le> x * 4096 + y * 64 + z" using assms(3) eq by (cases "x = 0") auto
  have hi: "x * 4096 + y * 64 + z < 0x10000" using eq by simp
  have sur: "is_scalar (x * 4096 + y * 64 + z)"
    using assms(4) eq by (cases "x < 13"; cases "x = 13") (auto simp: is_scalar_def)
  from lo hi sur eq show ?thesis by (simp add: utf8_encode_def offset_mods digits64)
qed

lemma utf8_four:
  assumes "0xF0 \<le> a" "a \<le> 0xF4" "(if a = 0xF0 then 0x90 else 0x80) \<le> b" "b \<le> (if a = 0xF4 then 0x8F else 0xBF)"
    "0x80 \<le> c" "c \<le> 0xBF" "0x80 \<le> d" "d \<le> 0xBF"
  shows "utf8_encode ((a mod 8) * 262144 + b mod 64 * 4096 + c mod 64 * 64 + d mod 64) = [a, b, c, d] \<and>
         is_scalar ((a mod 8) * 262144 + b mod 64 * 4096 + c mod 64 * 64 + d mod 64)"
proof -
  have "0x80 \<le> b" "b \<le> 0xBF" using assms(3,4) by (auto split: if_splits)
  then obtain x y z w where eq: "a = 240 + x" "b = 128 + y" "c = 128 + z" "d = 128 + w" "x \<le> 4" "y < 64" "z < 64" "w < 64"
    using assms utf8_pieces by metis
  have lo: "0x10000 \<le> x * 262144 + y * 4096 + z * 64 + w" using assms(3) eq by (cases "x = 0") auto
  have hi: "x * 262144 + y * 4096 + z * 64 + w \<le> 0x10FFFF" using assms(4) eq by (cases "x = 4") auto
  have "(240 + x) mod 8 = x" using eq(5) by (simp add: offset_mods)
  with lo hi eq show ?thesis by (simp add: utf8_encode_def is_scalar_def offset_mods digits64)
qed

lemma utf8_valid_cases:
  assumes "utf8_valid (a # s)"
  obtains (One) "a < 0x80" "utf8_valid s"
    | (Two) b s1 where "s = b # s1" "0xC2 \<le> a" "a \<le> 0xDF" "0x80 \<le> b" "b \<le> 0xBF" "utf8_valid s1"
    | (Three) b c s2 where "s = b # c # s2" "0xE0 \<le> a" "a \<le> 0xEF" "(if a = 0xE0 then 0xA0 else 0x80) \<le> b"
        "b \<le> (if a = 0xED then 0x9F else 0xBF)" "0x80 \<le> c" "c \<le> 0xBF" "utf8_valid s2"
    | (Four) b c d s3 where "s = b # c # d # s3" "0xF0 \<le> a" "a \<le> 0xF4" "(if a = 0xF0 then 0x90 else 0x80) \<le> b"
        "b \<le> (if a = 0xF4 then 0x8F else 0xBF)" "0x80 \<le> c" "c \<le> 0xBF" "0x80 \<le> d" "d \<le> 0xBF" "utf8_valid s3"
proof (cases "a < 0x80")
  case True
  then show ?thesis using One assms by simp
next
  case ge: False
  then obtain b s1 where s: "s = b # s1" using assms by (cases s) simp_all
  show ?thesis
  proof (cases "0xC2 \<le> a \<and> a \<le> 0xDF")
    case True
    then show ?thesis using Two [OF s] assms ge s by simp
  next
    case not2: False
    then obtain c s2 where s1: "s1 = c # s2" using assms ge s by (cases s1) (auto split: if_splits)
    show ?thesis
    proof (cases "0xE0 \<le> a \<and> a \<le> 0xEF")
      case True
      then show ?thesis using Three [of b c s2] assms ge not2 s s1 by (auto split: if_splits)
    next
      case not3: False
      then obtain d s3 where "s2 = d # s3" using assms ge not2 s s1 by (cases s2) (auto split: if_splits)
      then show ?thesis using Four [of b c d s3] assms ge not2 not3 s s1 by (auto split: if_splits)
    qed
  qed
qed

lemma utf8_chars_valid:
  "utf8_valid bs \<Longrightarrow> concat (map utf8_encode (utf8_chars bs)) = bs \<and> list_all is_scalar (utf8_chars bs)"
proof (induction bs rule: length_induct)
  case (1 bs)
  note IH = 1(1) [rule_format]
  show ?case
  proof (cases bs)
    case (Cons a s)
    from 1(2) [unfolded Cons] show ?thesis
    proof (cases rule: utf8_valid_cases)
      case One
      then have "utf8_encode a = [a]" "is_scalar a" by (simp_all add: utf8_encode_def is_scalar_def)
      then show ?thesis using One IH [of s] by (simp add: Cons)
    next
      case (Two b s1)
      then show ?thesis using IH [of s1] utf8_two [of a b] by (simp add: Cons)
    next
      case (Three b c s2)
      then show ?thesis using IH [of s2] utf8_three [OF Three(2-7)] by (simp add: Cons)
    next
      case (Four b c d s3)
      then show ?thesis using IH [of s3] utf8_four [OF Four(2-9)] by (simp add: Cons)
    qed
  qed simp
qed

lemma unat_of_nat_u16: "k < 65536 \<Longrightarrow> unat (of_nat k :: u16) = k"
  by (simp add: unat_of_nat)

lemma map_unat_units:
  assumes "is_scalar cp"
  shows "map unat (utf16_units cp) =
     (if cp < 65536 then [cp] else [55296 + (cp - 65536) div 1024, 56320 + (cp - 65536) mod 1024])"
proof -
  have "cp - 65536 < 1048576" using assms by (auto simp: is_scalar_def)
  then have "(cp - 65536) div 1024 < 1024" by simp
  then have "55296 + (cp - 65536) div 1024 < 65536" "56320 + (cp - 65536) mod 1024 < 65536" by simp_all
  then show ?thesis unfolding utf16_units_def by (simp only: unat_of_nat_u16 list.map split: if_split) (simp add: unat_of_nat_u16)
qed

lemma decode_utf16_units:
  assumes "is_scalar cp"
  shows "decode_utf16 (map unat (utf16_units cp) @ us) = cp # decode_utf16 us"
proof (cases "cp < 65536")
  case True
  have "\<not> high_surrogate cp" "\<not> low_surrogate cp"
    using assms by (auto simp: is_scalar_def high_surrogate_def low_surrogate_def)
  then show ?thesis using True by (cases us) (simp_all add: map_unat_units [OF assms])
next
  case False
  define n where "n = cp - 65536"
  have n: "n < 1048576" "cp = 65536 + n" using assms False by (auto simp: is_scalar_def n_def)
  then have d: "n div 1024 < 1024" by simp
  have "high_surrogate (55296 + n div 1024)" "low_surrogate (56320 + n mod 1024)"
    using d by (auto simp: high_surrogate_def low_surrogate_def)
  then show ?thesis unfolding map_unat_units [OF assms] using n(2) by simp
qed

lemma decode_encode_scalars:
  "list_all is_scalar cps \<Longrightarrow> decode_utf16 (map unat (concat (map utf16_units cps))) = cps"
  by (induction cps) (simp_all add: decode_utf16_units)

lemma utf16_round_trip:
  assumes "utf8_valid (map byte_val s)"
  shows "from_utf16_lossy (encode_utf16 s) = s"
  using utf8_chars_valid [OF assms]
  by (simp add: from_utf16_lossy_def encode_utf16_def decode_encode_scalars utf8_text_def comp_def)

text \<open>A code unit of zero comes only from a zero byte.\<close>

lemma utf8_chars_zero: "0 \<notin> set bs \<Longrightarrow> utf8_valid bs \<Longrightarrow> 0 \<notin> set (utf8_chars bs)"
proof
  assume *: "0 \<notin> set bs" "utf8_valid bs" "0 \<in> set (utf8_chars bs)"
  then have "0 \<in> set (concat (map utf8_encode (utf8_chars bs)))" by (auto simp: utf8_encode_def intro!: bexI [of _ 0])
  then show False using * utf8_chars_valid [OF *(2)] by simp
qed

lemma utf16_units_zero:
  assumes "is_scalar cp" "0 \<in> set (utf16_units cp)"
  shows "cp = 0"
proof -
  have "unat (0 :: u16) \<in> set (map unat (utf16_units cp))" using assms(2) unfolding set_map by (rule imageI)
  then show ?thesis unfolding map_unat_units [OF assms(1)] by (auto split: if_splits)
qed

lemma encode_utf16_zero:
  assumes "CHR 0x00 \<notin> set s" "utf8_valid (map byte_val s)"
  shows "0 \<notin> set (encode_utf16 s)"
proof -
  have "c = CHR 0x00" if "byte_val c = 0" for c using that of_char_eq_iff [of c "CHR 0x00", where ?'a = nat] by simp
  then have "0 \<notin> set (map byte_val s)" using assms(1) by auto
  from utf8_chars_zero [OF this assms(2)] utf8_chars_valid [OF assms(2)] show ?thesis
    by (fastforce simp: encode_utf16_def list_all_iff dest: utf16_units_zero)
qed

end
