(* ===== verification/Boot_Entry.thy ===== *)
theory Boot_Entry
  imports Health Utf16
begin

section \<open>The boot entry of the boot loader itself\<close>

text \<open>
  Model of \<open>lamboot-core/src/boot_entry_pure.rs\<close> (the byte formats of \<open>Boot####\<close> and \<open>BootOrder\<close>) and
  \<open>boot_entry.rs\<close> (the path the running image was loaded from, and the installation of a named entry in
  the firmware variables).  \<open>image_env\<close> is what the firmware and the device-path code of the \<open>uefi\<close> crate
  say about the running image; a device path is the list of its nodes.

  The theorems: what is written is read back, so an installation that created an entry finds it at the
  next start and changes nothing; all other variables and the order of all other entries are kept.
\<close>

subsection \<open>The formats\<close>

definition LOAD_OPTION_ACTIVE :: u32 where "LOAD_OPTION_ACTIVE = 1"

definition encode_load_option :: "u32 \<Rightarrow> string \<Rightarrow> bytes \<Rightarrow> bytes \<Rightarrow> bytes" where
  "encode_load_option attributes description device_path optional_data =
     (let fpl_len = (if length device_path < 2 ^ 16 then of_nat (length device_path) else 0xFFFF) :: u16 in
      to_le attributes @ to_le fpl_len @ concat (map to_le (encode_utf16 description)) @ to_le (0 :: u16) @
      device_path @ optional_data)"

fun description_units :: "bytes \<Rightarrow> u16 list" where
  "description_units (a # b # r) =
     (let unit = from_le [a, b] in if unit = 0 then [] else unit # description_units r)"
| "description_units _ = []"

definition parse_load_option_description :: "bytes \<Rightarrow> string option" where
  "parse_load_option_description bs =
     (if length bs < 6 then None else Some (from_utf16_lossy (description_units (drop 6 bs))))"

fun decode_boot_order :: "bytes \<Rightarrow> u16 list" where
  "decode_boot_order (a # b # r) = from_le [a, b] # decode_boot_order r"
| "decode_boot_order _ = []"

definition encode_boot_order :: "u16 list \<Rightarrow> bytes" where
  "encode_boot_order order = concat (map to_le order)"

definition boot_order_with_front :: "u16 list \<Rightarrow> u16 \<Rightarrow> u16 list" where
  "boot_order_with_front order new = (if new \<in> set order then order else new # order)"

definition boot_numbers :: "u16 \<Rightarrow> u16 list" where
  "boot_numbers mx = map of_nat [0..<Suc (unat mx)]"

definition first_free_boot_number :: "u16 list \<Rightarrow> u16 \<Rightarrow> u16 option" where
  "first_free_boot_number used mx = find (\<lambda>n. n \<notin> set used) (boot_numbers mx)"

definition upper_hex_digit :: "nat \<Rightarrow> char" where
  "upper_hex_digit d = (if d < 10 then char_of (48 + d) else char_of (55 + d))"

definition boot_var_name :: "u16 \<Rightarrow> string" where
  "boot_var_name num =
     (let n = unat num in
      ''Boot'' @ [upper_hex_digit (n div 4096 mod 16), upper_hex_digit (n div 256 mod 16),
        upper_hex_digit (n div 16 mod 16), upper_hex_digit (n mod 16)])"

subsection \<open>The running image\<close>

datatype dp_node = DpFile (dp_name: "u16 list") | DpEnd | DpOther bytes

record image_env =
  im_loaded :: bool
  im_file_path :: "dp_node list option"
  im_device :: "nat option"
  im_device_path :: "nat \<Rightarrow> dp_node list option"
  im_build :: "dp_node list \<Rightarrow> bytes option"

fun node_text :: "dp_node \<Rightarrow> string" where
  "node_text (DpFile us) = utf8_text (filter (\<lambda>u. u \<noteq> 0 \<and> is_scalar u) (map unat us))"
| "node_text _ = []"

definition running_image_file_path :: "image_env \<Rightarrow> string option" where
  "running_image_file_path env =
     (if \<not> im_loaded env then None
      else case im_file_path env of
        None \<Rightarrow> None
      | Some nodes \<Rightarrow>
          let out = concat (map node_text nodes) in if out = [] then None else Some out)"

definition ascii_upper :: "char \<Rightarrow> char" where
  "ascii_upper c = (if 97 \<le> byte_val c \<and> byte_val c \<le> 122 then char_of (byte_val c - 32) else c)"

definition booted_via_removable_fallback :: "image_env \<Rightarrow> bool" where
  "booted_via_removable_fallback env =
     (case running_image_file_path env of
        None \<Rightarrow> False
      | Some p \<Rightarrow>
          let up = map ascii_upper p; bs = [CHR 0x5C] in
          suffix (bs @ ''EFI'' @ bs @ ''BOOT'' @ bs @ ''BOOTX64.EFI'') up \<or> suffix ''/EFI/BOOT/BOOTX64.EFI'' up)"

subsection \<open>The installation\<close>

definition BOOT_SCAN_MAX :: u16 where "BOOT_SCAN_MAX = 0x00FF"
definition BOOT_ORDER :: nv_name where "BOOT_ORDER = (EFI_GLOBAL_VARIABLE, ''BootOrder'')"

definition boot_var :: "u16 \<Rightarrow> nv_name" where
  "boot_var num = (EFI_GLOBAL_VARIABLE, boot_var_name num)"

datatype SelfInstall = Created u16 | AlreadyPresent u16 | NoDevicePath | InstallFailed

text \<open>The device path of the entry: the nodes of the partition and the file.\<close>

definition install_path :: "(string \<Rightarrow> u16 list option) \<Rightarrow> image_env \<Rightarrow> string \<Rightarrow> (bytes, SelfInstall) outcome" where
  "install_path cstr16 env install_file_path =
     (if \<not> im_loaded env then Err InstallFailed
      else case im_device env of
        None \<Rightarrow> Err NoDevicePath
      | Some h \<Rightarrow>
          (case im_device_path env h of
             None \<Rightarrow> Err NoDevicePath
           | Some nodes \<Rightarrow>
               (case cstr16 install_file_path of
                  None \<Rightarrow> Err InstallFailed
                | Some name \<Rightarrow>
                    of_option InstallFailed (im_build env (filter (\<lambda>n. n \<noteq> DpEnd) nodes @ [DpFile name])))))"

text \<open>One slot of the scan: the numbers in use and the first one with the name.\<close>

definition scan_slot ::
  "(string \<Rightarrow> u16 list option) \<Rightarrow> 'n runtime \<Rightarrow> string \<Rightarrow> 'n \<Rightarrow> u16 \<Rightarrow> u16 list \<times> u16 option \<Rightarrow> u16 list \<times> u16 option" where
  "scan_slot cstr16 rt description s num = (\<lambda>(used, existing).
     if cstr16 (boot_var_name num) = None then (used, existing)
     else case rt_get_boxed rt (boot_var num) s of
       Ok data \<Rightarrow>
         (used @ [num],
          if existing = None \<and> parse_load_option_description data = Some description then Some num else existing)
     | _ \<Rightarrow> (used, existing))"

definition scan_slots ::
  "(string \<Rightarrow> u16 list option) \<Rightarrow> 'n runtime \<Rightarrow> string \<Rightarrow> 'n \<Rightarrow> u16 list \<times> u16 option" where
  "scan_slots cstr16 rt description s =
     fold (scan_slot cstr16 rt description s) (boot_numbers BOOT_SCAN_MAX) ([], None)"

text \<open>The write of the entry and, when it succeeded, of the order, whose failure is ignored.\<close>

definition install_entry :: "'n runtime \<Rightarrow> u16 \<Rightarrow> bytes \<Rightarrow> 'n \<Rightarrow> 'n \<times> SelfInstall" where
  "install_entry rt num entry s =
     (case rt_set rt (boot_var num) entry s of
        (s1, Ok _) \<Rightarrow>
          let order_bytes = (case rt_get_boxed rt BOOT_ORDER s1 of Ok d \<Rightarrow> d | _ \<Rightarrow> []);
              new_order = boot_order_with_front (decode_boot_order order_bytes) num in
          (fst (rt_set rt BOOT_ORDER (encode_boot_order new_order) s1), Created num)
      | (s1, _) \<Rightarrow> (s1, InstallFailed))"

definition ensure_named_boot_entry ::
  "(string \<Rightarrow> u16 list option) \<Rightarrow> image_env \<Rightarrow> 'n runtime \<Rightarrow> string \<Rightarrow> string \<Rightarrow> 'n \<Rightarrow> 'n \<times> SelfInstall" where
  "ensure_named_boot_entry cstr16 env rt install_file_path description s =
     (case install_path cstr16 env install_file_path of
        Ok dp_bytes \<Rightarrow>
          (case scan_slots cstr16 rt description s of
             (used, Some num) \<Rightarrow> (s, AlreadyPresent num)
           | (used, None) \<Rightarrow>
               (case first_free_boot_number used BOOT_SCAN_MAX of
                  None \<Rightarrow> (s, InstallFailed)
                | Some num \<Rightarrow>
                    if cstr16 (boot_var_name num) = None then (s, InstallFailed)
                    else install_entry rt num (encode_load_option LOAD_OPTION_ACTIVE description dp_bytes []) s))
      | Err r \<Rightarrow> (s, r)
      | Panic \<Rightarrow> (s, InstallFailed))"

subsection \<open>Round trips\<close>

lemma le_pair: "\<exists>a b. to_le (u :: u16) = [a, b]"
  using length_to_le [of u] by (cases "to_le u"; cases "tl (to_le u)") auto

lemma from_le_pair: "to_le (u :: u16) = [a, b] \<Longrightarrow> from_le [a, b] = u"
  using from_le_to_le [of u] by simp

lemma boot_order_round_trip: "decode_boot_order (encode_boot_order order) = order"
proof (induction order)
  case (Cons u order)
  obtain a b where "to_le u = [a, b]" using le_pair by blast
  then show ?case using Cons by (simp add: encode_boot_order_def from_le_pair)
qed (simp add: encode_boot_order_def)

lemma boot_order_bytes_round_trip: "even (length bs) \<Longrightarrow> encode_boot_order (decode_boot_order bs) = bs"
proof (induction bs rule: decode_boot_order.induct)
  case (1 a b r)
  then show ?case using to_le_from_le [of "[a, b]", where ?'w = 16] by (simp add: encode_boot_order_def)
qed (simp_all add: encode_boot_order_def)

lemma description_units_encode:
  "0 \<notin> set us \<Longrightarrow> description_units (concat (map to_le us) @ to_le (0 :: u16) @ rest) = us"
proof (induction us)
  case Nil
  obtain a b where "to_le (0 :: u16) = [a, b]" using le_pair by blast
  then show ?case by (simp add: from_le_pair)
next
  case (Cons u us)
  obtain a b where "to_le u = [a, b]" using le_pair by blast
  then show ?case using Cons by (simp add: from_le_pair)
qed

lemma load_option_round_trip:
  assumes "utf8_valid (map byte_val d)" "CHR 0x00 \<notin> set d"
  shows "parse_load_option_description (encode_load_option a d dp opt) = Some d"
proof -
  have "drop 6 (encode_load_option a d dp opt) =
      concat (map to_le (encode_utf16 d)) @ to_le (0 :: u16) @ dp @ opt"
    by (simp add: encode_load_option_def Let_def)
  moreover have "\<not> length (encode_load_option a d dp opt) < 6" by (simp add: encode_load_option_def Let_def)
  ultimately show ?thesis
    using assms by (simp add: parse_load_option_description_def description_units_encode encode_utf16_zero utf16_round_trip)
qed

subsection \<open>Names and numbers\<close>

lemma upper_hex_digit_val: "d < 16 \<Longrightarrow> byte_val (upper_hex_digit d) = (if d < 10 then 48 + d else 55 + d)"
  by (simp add: upper_hex_digit_def)

lemma upper_hex_digit_inj:
  assumes "d < 16" "e < 16" "upper_hex_digit d = upper_hex_digit e"
  shows "d = e"
proof -
  have "(if d < 10 then 48 + d else 55 + d) = (if e < 10 then 48 + e else 55 + e)"
    using assms(3) upper_hex_digit_val [OF assms(1)] upper_hex_digit_val [OF assms(2)] by metis
  then show ?thesis by (simp split: if_splits)
qed

lemma hex_digits_sum:
  fixes n :: nat
  assumes "n < 65536"
  shows "n = 4096 * (n div 4096 mod 16) + 256 * (n div 256 mod 16) + 16 * (n div 16 mod 16) + n mod 16"
proof -
  have "n div 4096 < 16" using assms by (simp add: less_mult_imp_div_less)
  then have t: "n div 4096 mod 16 = n div 4096" by (rule mod_less)
  have d: "n div 16 div 16 = n div 256" "n div 256 div 16 = n div 4096" by (simp_all add: div_mult2_eq [symmetric])
  have "16 * (n div 16) + n mod 16 = n" "16 * (n div 256) + n div 16 mod 16 = n div 16"
    "16 * (n div 4096) + n div 256 mod 16 = n div 256"
    using mult_div_mod_eq [of 16 n] mult_div_mod_eq [of 16 "n div 16"] mult_div_mod_eq [of 16 "n div 256"]
    unfolding d by this+
  then show ?thesis unfolding t by linarith
qed

lemma upper_hex_mod_inj: "upper_hex_digit (a mod 16) = upper_hex_digit (b mod 16) \<Longrightarrow> a mod 16 = b mod 16"
  by (rule upper_hex_digit_inj) simp_all

lemma boot_var_name_inj:
  assumes "boot_var_name a = boot_var_name b"
  shows "a = b"
proof -
  let ?m = "unat a" and ?n = "unat b"
  have "?m div 4096 mod 16 = ?n div 4096 mod 16" "?m div 256 mod 16 = ?n div 256 mod 16"
    "?m div 16 mod 16 = ?n div 16 mod 16" "?m mod 16 = ?n mod 16"
    using assms by (auto simp: boot_var_name_def Let_def intro: upper_hex_mod_inj)
  moreover have "?m < 65536" "?n < 65536" using unsigned_less [of a, where ?'a = nat] unsigned_less [of b, where ?'a = nat] by simp_all
  ultimately have "?m = ?n" using hex_digits_sum [of ?m] hex_digits_sum [of ?n] by metis
  then show ?thesis by (rule unsigned_word_eqI)
qed

lemma boot_var_eq [simp]: "boot_var a = boot_var b \<longleftrightarrow> a = b"
  by (auto simp: boot_var_def dest: boot_var_name_inj)

lemma boot_var_not_order [simp]: "boot_var a \<noteq> BOOT_ORDER" "BOOT_ORDER \<noteq> boot_var a"
  by (auto simp: boot_var_def BOOT_ORDER_def boot_var_name_def Let_def)

lemma encode_load_option_nonempty [simp]: "encode_load_option a d dp opt \<noteq> []"
proof
  assume "encode_load_option a d dp opt = []"
  then have "length (to_le a) = 0" by (simp add: encode_load_option_def Let_def)
  then show False by simp
qed

text \<open>The free number is the least unused one of the scanned range.\<close>

lemma first_free_boot_number_spec:
  assumes "first_free_boot_number used mx = Some n"
  shows "n \<in> set (boot_numbers mx) \<and> n \<notin> set used \<and> (\<forall>k \<in> set (boot_numbers mx). k < n \<longrightarrow> k \<in> set used)"
proof -
  let ?ns = "boot_numbers mx"
  obtain i where i: "i < length ?ns" "n = ?ns ! i" "n \<notin> set used" "\<forall>j<i. ?ns ! j \<in> set used"
    using assms by (auto simp: first_free_boot_number_def find_Some_iff)
  have val: "unat (?ns ! j) = j" if "j < length ?ns" for j
  proof -
    have "j < 2 ^ 16" using that unsigned_less [of mx, where ?'a = nat] by (simp add: boot_numbers_def)
    then show ?thesis using that by (simp add: boot_numbers_def unat_of_nat del: upt_Suc)
  qed
  have "k \<in> set used" if k: "k \<in> set ?ns" "k < n" for k
  proof -
    obtain j where j: "j < length ?ns" "?ns ! j = k" using k(1) unfolding in_set_conv_nth by blast
    have "unat k < unat n" using k(2) by (simp add: word_less_nat_alt)
    then have "j < i" using val [OF j(1)] val [OF i(1)] j(2) i(2) by simp
    then show ?thesis using i(4) j(2) by blast
  qed
  then show ?thesis using i by auto
qed

subsection \<open>The scan\<close>

definition slot_used :: "(string \<Rightarrow> u16 list option) \<Rightarrow> (nv_name \<Rightarrow> bytes option) \<Rightarrow> u16 \<Rightarrow> bool" where
  "slot_used cstr16 vs n \<longleftrightarrow> cstr16 (boot_var_name n) \<noteq> None \<and> vs (boot_var n) \<noteq> None"

definition slot_named :: "(string \<Rightarrow> u16 list option) \<Rightarrow> string \<Rightarrow> (nv_name \<Rightarrow> bytes option) \<Rightarrow> u16 \<Rightarrow> bool" where
  "slot_named cstr16 d vs n \<longleftrightarrow>
     slot_used cstr16 vs n \<and> parse_load_option_description (the (vs (boot_var n))) = Some d"

context variable_services
begin

lemma scan_slots_fold:
  "fold (scan_slot cstr16 rt d s) ns (u, e) =
     (u @ filter (slot_used cstr16 (vars s)) ns, case e of Some x \<Rightarrow> Some x | None \<Rightarrow> find (slot_named cstr16 d (vars s)) ns)"
proof (induction ns arbitrary: u e)
  case (Cons n ns)
  have "scan_slot cstr16 rt d s n (u, e) =
      (if slot_used cstr16 (vars s) n then u @ [n] else u,
       if e = None \<and> slot_named cstr16 d (vars s) n then Some n else e)"
    by (auto simp: scan_slot_def slot_used_def slot_named_def get_boxed_spec split: option.splits
        simp del: of_option.simps) (simp_all)
  then show ?case using Cons by (simp split: option.split)
qed (simp split: option.split)

lemma scan_slots_spec:
  "scan_slots cstr16 rt d s =
     (filter (slot_used cstr16 (vars s)) (boot_numbers BOOT_SCAN_MAX), find (slot_named cstr16 d (vars s)) (boot_numbers BOOT_SCAN_MAX))"
  by (simp add: scan_slots_def scan_slots_fold)

lemma install_entry_Created:
  assumes "install_entry rt n entry s = (s', Created k)" "entry \<noteq> []"
  shows "vars s' (boot_var n) = Some entry \<and>
    (\<forall>v. v \<noteq> boot_var n \<longrightarrow> v \<noteq> BOOT_ORDER \<longrightarrow> vars s' v = vars s v) \<and>
    (vars s' BOOT_ORDER = vars s BOOT_ORDER \<or>
     vars s' BOOT_ORDER = Some (encode_boot_order (boot_order_with_front
       (decode_boot_order (case vars s BOOT_ORDER of Some d \<Rightarrow> d | None \<Rightarrow> [])) n)))"
proof -
  obtain s1 where s1: "rt_set rt (boot_var n) entry s = (s1, Ok ())"
    using assms(1) by (auto simp: install_entry_def split: prod.splits outcome.splits)
  note v1 = set_ok [OF s1]
  let ?old = "case vars s BOOT_ORDER of Some d \<Rightarrow> d | None \<Rightarrow> []"
  let ?new = "encode_boot_order (boot_order_with_front (decode_boot_order ?old) n)"
  have old: "(case rt_get_boxed rt BOOT_ORDER s1 of Ok d \<Rightarrow> d | _ \<Rightarrow> []) = ?old"
    using v1 by (simp add: get_boxed_spec split: option.split)
  have s': "s' = fst (rt_set rt BOOT_ORDER ?new s1)" 
    using assms(1) s1 old by (auto simp: install_entry_def Let_def)
  have "boot_order_with_front os n \<noteq> []" for os by (auto simp: boot_order_with_front_def)
  then have "?new \<noteq> []" using boot_order_round_trip by (metis decode_boot_order.simps(2))
  then show ?thesis using set_cases [of BOOT_ORDER ?new s1] v1 s' assms(2) by auto
qed

end

lemma install_path_errors: "install_path cstr16 env path \<noteq> Err (Created n)"
  by (auto simp: install_path_def outcome_simps split: option.splits elim: of_option.elims)

lemma install_entry_number: "install_entry rt k entry s = (s', Created n) \<Longrightarrow> k = n"
  by (auto simp: install_entry_def Let_def split: prod.splits outcome.splits)

text \<open>C28: an installation that reports \<open>Created\<close> took the lowest number without an entry, wrote an entry with
  the given name there, put it in front of an otherwise unchanged boot order (or left the order alone, when the
  firmware refused that write) and changed no other variable.  The next installation finds the entry and changes
  nothing.\<close>

theorem self_install_is_idempotent:
  assumes "variable_services rt vars"
    and run: "ensure_named_boot_entry cstr16 env rt path d s = (s', Created n)"
    and name: "utf8_valid (map byte_val d)" "CHR 0x00 \<notin> set d"
  shows "ensure_named_boot_entry cstr16 env rt path d s' = (s', AlreadyPresent n) \<and>
    n \<in> set (boot_numbers BOOT_SCAN_MAX) \<and> \<not> slot_used cstr16 (vars s) n \<and>
    (\<forall>k \<in> set (boot_numbers BOOT_SCAN_MAX). k < n \<longrightarrow> slot_used cstr16 (vars s) k) \<and>
    (\<forall>v. v \<noteq> boot_var n \<longrightarrow> v \<noteq> BOOT_ORDER \<longrightarrow> vars s' v = vars s v) \<and>
    (vars s' BOOT_ORDER = vars s BOOT_ORDER \<or>
     (\<exists>b. vars s' BOOT_ORDER = Some b \<and> decode_boot_order b =
        boot_order_with_front (decode_boot_order (case vars s BOOT_ORDER of Some o' \<Rightarrow> o' | None \<Rightarrow> [])) n))"
proof -
  note sc = variable_services.scan_slots_spec [OF assms(1)]
  let ?ns = "boot_numbers BOOT_SCAN_MAX"
  obtain dp where dp: "install_path cstr16 env path = Ok dp"
    using run by (auto simp: ensure_named_boot_entry_def install_path_errors split: outcome.splits)
  let ?entry = "encode_load_option LOAD_OPTION_ACTIVE d dp []"
  have none: "find (slot_named cstr16 d (vars s)) ?ns = None"
    and free: "first_free_boot_number (filter (slot_used cstr16 (vars s)) ?ns) BOOT_SCAN_MAX = Some n"
    and cs: "cstr16 (boot_var_name n) \<noteq> None"
    and inst: "install_entry rt n ?entry s = (s', Created n)"
    using run dp
    by (auto simp: ensure_named_boot_entry_def sc split: option.splits if_splits dest: install_entry_number)
  let ?old = "decode_boot_order (case vars s BOOT_ORDER of Some o' \<Rightarrow> o' | None \<Rightarrow> [])"
  note eff = variable_services.install_entry_Created [OF assms(1) inst encode_load_option_nonempty]
  have entry: "vars s' (boot_var n) = Some ?entry" by (rule conjunct1 [OF eff])
  have frame: "\<forall>v. v \<noteq> boot_var n \<longrightarrow> v \<noteq> BOOT_ORDER \<longrightarrow> vars s' v = vars s v"
    by (rule conjunct1 [OF conjunct2 [OF eff]])
  have "vars s' BOOT_ORDER = vars s BOOT_ORDER \<or>
      vars s' BOOT_ORDER = Some (encode_boot_order (boot_order_with_front ?old n))"
    by (rule conjunct2 [OF conjunct2 [OF eff]])
  then have order: "vars s' BOOT_ORDER = vars s BOOT_ORDER \<or>
     (\<exists>b. vars s' BOOT_ORDER = Some b \<and> decode_boot_order b = boot_order_with_front ?old n)"
    by (elim disjE) (rule disjI1, assumption, rule disjI2, rule exI, rule conjI, assumption, rule boot_order_round_trip)
  have num: "n \<in> set ?ns" "\<not> slot_used cstr16 (vars s) n"
    "\<forall>k \<in> set ?ns. k < n \<longrightarrow> slot_used cstr16 (vars s) k"
    using first_free_boot_number_spec [OF free] by auto
  have new: "slot_named cstr16 d (vars s') n"
    using entry cs by (simp add: slot_named_def slot_used_def load_option_round_trip [OF name])
  have "k = n" if "k \<in> set ?ns" "slot_named cstr16 d (vars s') k" for k
  proof (rule ccontr)
    assume "k \<noteq> n"
    then have "vars s' (boot_var k) = vars s (boot_var k)" by (intro frame [rule_format]) simp_all
    then have "slot_named cstr16 d (vars s) k" using that(2) by (simp add: slot_named_def slot_used_def)
    then show False using none that(1) by (simp add: find_None_iff)
  qed
  then have "find (slot_named cstr16 d (vars s')) ?ns = Some n" by (rule find_unique [OF num(1), of "slot_named cstr16 d (vars s')", OF new])
  then have "ensure_named_boot_entry cstr16 env rt path d s' = (s', AlreadyPresent n)"
    by (simp add: ensure_named_boot_entry_def dp sc)
  then show ?thesis by (intro conjI num frame order)
qed

text \<open>The running image is on device 1, whose path has one node; no variable is set.\<close>

definition sample_env :: image_env where
  "sample_env =
     \<lparr>im_loaded = True, im_file_path = None, im_device = Some 1, im_device_path = (\<lambda>h. Some [DpOther [7], DpEnd]),
      im_build = (\<lambda>ns. Some (replicate (length ns) 7))\<rparr>"

lemma boot_numbers_zero: "boot_numbers BOOT_SCAN_MAX = 0 # map of_nat [1..<256]"
proof -
  have "[0..<Suc (unat BOOT_SCAN_MAX)] = 0 # [1..<256]"
    using upt_conv_Cons [of 0 256] by (simp add: BOOT_SCAN_MAX_def del: upt_Suc)
  then show ?thesis by (simp add: boot_numbers_def del: upt_Suc)
qed

theorem self_install_is_idempotent_witness:
  "\<exists>s'. ensure_named_boot_entry (\<lambda>s. Some []) sample_env plain_rt ''/lb'' ''LamBoot'' (\<lambda>v. None) = (s', Created 0) \<and>
     ensure_named_boot_entry (\<lambda>s. Some []) sample_env plain_rt ''/lb'' ''LamBoot'' s' = (s', AlreadyPresent 0)"
proof -
  have "scan_slots (\<lambda>s. Some []) plain_rt ''LamBoot'' (\<lambda>v. None) = ([], None)"
    by (simp add: plainnv.scan_slots_spec slot_used_def slot_named_def find_None_iff)
  then have "\<exists>s'. ensure_named_boot_entry (\<lambda>s. Some []) sample_env plain_rt ''/lb'' ''LamBoot'' (\<lambda>v. None) = (s', Created 0)"
    by (simp add: ensure_named_boot_entry_def install_path_def sample_env_def first_free_boot_number_def
        boot_numbers_zero install_entry_def plain_rt_def Let_def)
  then obtain s' where run: "ensure_named_boot_entry (\<lambda>s. Some []) sample_env plain_rt ''/lb'' ''LamBoot'' (\<lambda>v. None) = (s', Created 0)"
    by blast
  have "utf8_valid (map byte_val ''LamBoot'')" by (rule utf8_valid_ascii) simp
  from self_install_is_idempotent [OF plainnv.variable_services_axioms run this] run show ?thesis by auto
qed

end
