(* ===== verification/Block_Source.thy ===== *)
theory Block_Source
  imports Volume
begin

section \<open>Block sources\<close>

text \<open>
  Model of \<open>lamboot-core/src/block_source.rs\<close>: the byte-addressed sources a file system is read over (a
  block device, a file of a mounted volume), the alignment arithmetic, and the one loop that fills a
  buffer from an offset.  64-bit values are natural numbers with the saturating and checked operations
  of the code written out.

  The firmware's block device is a parameter.  The locale \<open>byte_source\<close> is the contract of a source: it has
  contents and a position, a read returns the bytes at the position, possibly fewer than asked for, and
  none only at the end.  Both sources of the code satisfy it, and on its basis the filling loop
  terminates with exactly the requested bytes, however the source splits its reads.
\<close>

subsection \<open>Arithmetic\<close>

definition U64_MAX :: nat where "U64_MAX = 2 ^ 64 - 1"

definition sat_add :: "nat \<Rightarrow> nat \<Rightarrow> nat" where "sat_add a b = min (a + b) U64_MAX"
definition sat_mul :: "nat \<Rightarrow> nat \<Rightarrow> nat" where "sat_mul a b = min (a * b) U64_MAX"

definition fits_u64 :: "nat \<Rightarrow> nat option" where
  "fits_u64 n = (if n \<le> U64_MAX then Some n else None)"

definition compute_aligned_read :: "nat \<Rightarrow> nat \<Rightarrow> nat \<Rightarrow> (nat \<times> nat \<times> nat) option" where
  "compute_aligned_read start_byte dst_len block_size =
     (if dst_len = 0 \<or> block_size = 0 then None
      else let first_lba = start_byte div block_size in
        Option.bind (fits_u64 (start_byte + dst_len)) (\<lambda>end_byte.
        let last_lba = (end_byte - 1) div block_size;
            aligned_blocks = last_lba - first_lba + 1 in
        Option.bind (fits_u64 (aligned_blocks * block_size)) (\<lambda>aligned_len.
        let intra = start_byte - first_lba * block_size in
        Option.bind (fits_u64 (intra + dst_len)) (\<lambda>e.
        if e > aligned_len then None else Some (first_lba, aligned_len, intra)))))"

subsection \<open>Sources\<close>

datatype SeekFrom = SeekStart nat | SeekEnd int | SeekCurrent int

text \<open>A source: a read into a buffer of a given size, a seek, and the length.\<close>

record 'a source =
  src_read :: "nat \<Rightarrow> ('a, bytes, string) act"
  src_seek :: "SeekFrom \<Rightarrow> ('a, nat, string) act"
  src_len :: "'a \<Rightarrow> nat"

text \<open>\<open>base.checked_add(x)\<close> in signed 64 bits and back, for the two relative seeks.\<close>

definition seek_from :: "string \<Rightarrow> string \<Rightarrow> string \<Rightarrow> nat \<Rightarrow> int \<Rightarrow> (nat, string) outcome" where
  "seek_from too_big overflow neg base x =
     (if base \<ge> 2 ^ 63 then Err too_big
      else let t = int base + x in
        if t \<ge> 2 ^ 63 \<or> t < - (2 ^ 63) then Err overflow
        else if t < 0 then Err neg else Ok (nat t))"

text \<open>The errors, in the debug rendering the callers put into theirs.\<close>

definition BlockIoError :: "string \<Rightarrow> string" where
  "BlockIoError m = ''BlockIoError('' @ [CHR 0x22] @ m @ [CHR 0x22] @ '')''"
definition FileSourceError :: "string \<Rightarrow> string" where
  "FileSourceError m = ''FileSourceError('' @ [CHR 0x22] @ m @ [CHR 0x22] @ '')''"

subsection \<open>A block device\<close>

record BlockMedia =
  bm_media_id :: u32
  bm_block_size :: u32
  bm_last_block :: nat

record block_io =
  bi_open :: "bool \<Rightarrow> nat \<Rightarrow> (BlockMedia, string) outcome"
  bi_read_blocks :: "nat \<Rightarrow> u32 \<Rightarrow> nat \<Rightarrow> nat \<Rightarrow> (bytes, string) outcome"

record BlockIoSource =
  bs_handle :: nat
  bs_media_id :: u32
  bs_block_size :: nat
  bs_position :: nat
  bs_media_len :: nat

definition from_block_io :: "nat \<Rightarrow> BlockMedia \<Rightarrow> (BlockIoSource, FsError) outcome" where
  "from_block_io h media =
     (let block_size = unat (bm_block_size media) in
      if block_size = 0 then Err (Unsupported ''block_size=0'')
      else Ok \<lparr>bs_handle = h, bs_media_id = bm_media_id media, bs_block_size = block_size, bs_position = 0,
               bs_media_len = sat_mul (sat_add (bm_last_block media) 1) block_size\<rparr>)"

definition block_io_open :: "block_io \<Rightarrow> nat \<Rightarrow> (BlockIoSource, FsError) outcome" where
  "block_io_open fw h = obind (omap_err FsIo (bi_open fw True h)) (from_block_io h)"

definition block_io_open_shared :: "block_io \<Rightarrow> nat \<Rightarrow> (BlockIoSource, FsError) outcome" where
  "block_io_open_shared fw h = obind (omap_err FsIo (bi_open fw False h)) (from_block_io h)"

definition block_io_read :: "block_io \<Rightarrow> nat \<Rightarrow> (BlockIoSource, bytes, string) act" where
  "block_io_read fw n s =
     (if n = 0 then (s, Ok [])
      else let remaining = bs_media_len s - bs_position s in
        if remaining = 0 then (s, Ok [])
        else let want = min n remaining in
          case compute_aligned_read (bs_position s) want (bs_block_size s) of
            None \<Rightarrow> (s, Err (BlockIoError ''alignment-compute overflow''))
          | Some (first_lba, aligned_len, intra) \<Rightarrow>
              (case bi_read_blocks fw (bs_handle s) (bs_media_id s) first_lba aligned_len of
                 Ok buf \<Rightarrow>
                   (case slice_idx buf intra (intra + want) of
                      Ok d \<Rightarrow> (s\<lparr>bs_position := sat_add (bs_position s) want\<rparr>, Ok d)
                    | Err e \<Rightarrow> (s, Err e)
                    | Panic \<Rightarrow> (s, Panic))
               | Err e \<Rightarrow> (s, Err (BlockIoError ''BlockIO::read_blocks failed''))
               | Panic \<Rightarrow> (s, Panic)))"

fun block_io_seek :: "SeekFrom \<Rightarrow> (BlockIoSource, nat, string) act" where
  "block_io_seek (SeekStart x) s = (s\<lparr>bs_position := x\<rparr>, Ok x)"
| "block_io_seek (SeekEnd x) s =
     (case seek_from (BlockIoError ''media_len overflows i64'') (BlockIoError ''seek-from-end overflow'') (BlockIoError ''seek-from-end negative'')
        (bs_media_len s) x of
        Ok t \<Rightarrow> (s\<lparr>bs_position := t\<rparr>, Ok t) | Err e \<Rightarrow> (s, Err e) | Panic \<Rightarrow> (s, Panic))"
| "block_io_seek (SeekCurrent x) s =
     (case seek_from (BlockIoError ''position overflows i64'') (BlockIoError ''seek-from-current overflow'') (BlockIoError ''seek-from-current negative'')
        (bs_position s) x of
        Ok t \<Rightarrow> (s\<lparr>bs_position := t\<rparr>, Ok t) | Err e \<Rightarrow> (s, Err e) | Panic \<Rightarrow> (s, Panic))"

definition block_io_source :: "block_io \<Rightarrow> BlockIoSource source" where
  "block_io_source fw = \<lparr>src_read = block_io_read fw, src_seek = block_io_seek, src_len = bs_media_len\<rparr>"

subsection \<open>A file of a volume\<close>

text \<open>The shared backend is never borrowed twice, so the busy errors of the code do not occur; the holding
  volume is only read while the source is open.\<close>

record 's FileBlockSource =
  fb_backend :: "'s backend"
  fb_store :: 's
  fb_path :: string
  fb_len :: nat
  fb_position :: nat

definition file_source_new :: "'s backend \<Rightarrow> 's \<Rightarrow> string \<Rightarrow> ('s FileBlockSource, FsError) outcome" where
  "file_source_new bk store path =
     obind (bk_metadata bk store path) (\<lambda>md.
     Ok \<lparr>fb_backend = bk, fb_store = store, fb_path = path, fb_len = md_size md, fb_position = 0\<rparr>)"

definition file_source_read :: "nat \<Rightarrow> ('s FileBlockSource, bytes, string) act" where
  "file_source_read n s =
     (if n = 0 then (s, Ok [])
      else let remaining = fb_len s - fb_position s in
        if remaining = 0 then (s, Ok [])
        else let want = min n remaining in
          case bk_read_at (fb_backend s) (fb_store s) (fb_path s) (fb_position s) want of
            Ok got \<Rightarrow>
              (let k = min (length got) n in
               (s\<lparr>fb_position := sat_add (fb_position s) k\<rparr>, Ok (take k got)))
          | Err e \<Rightarrow> (s, Err (FileSourceError ''holding read_at failed''))
          | Panic \<Rightarrow> (s, Panic))"

fun file_source_seek :: "SeekFrom \<Rightarrow> ('s FileBlockSource, nat, string) act" where
  "file_source_seek (SeekStart x) s = (s\<lparr>fb_position := x\<rparr>, Ok x)"
| "file_source_seek (SeekEnd x) s =
     (case seek_from (FileSourceError ''len overflows i64'') (FileSourceError ''seek-from-end overflow'') (FileSourceError ''seek-from-end negative'') (fb_len s) x of
        Ok t \<Rightarrow> (s\<lparr>fb_position := t\<rparr>, Ok t) | Err e \<Rightarrow> (s, Err e) | Panic \<Rightarrow> (s, Panic))"
| "file_source_seek (SeekCurrent x) s =
     (case seek_from (FileSourceError ''position overflows i64'') (FileSourceError ''seek-from-current overflow'') (FileSourceError ''seek-from-current negative'')
        (fb_position s) x of
        Ok t \<Rightarrow> (s\<lparr>fb_position := t\<rparr>, Ok t) | Err e \<Rightarrow> (s, Err e) | Panic \<Rightarrow> (s, Panic))"

definition file_source :: "'s FileBlockSource source" where
  "file_source = \<lparr>src_read = file_source_read, src_seek = file_source_seek, src_len = fb_len\<rparr>"

subsection \<open>Filling a buffer\<close>

text \<open>The loop: a source never returns more than the rest of the buffer, which \<open>take\<close> makes explicit.\<close>

function fill_loop :: "'a source \<Rightarrow> nat \<Rightarrow> bytes \<Rightarrow> ('a, bytes, string) act" where
  "fill_loop src missing filled s =
     (if missing = 0 then (s, Ok filled)
      else case src_read src missing s of
        (s', Ok got) \<Rightarrow>
          if got = [] then (s', Err ''EOF before read completed'')
          else fill_loop src (missing - length got) (filled @ take missing got) s'
      | (s', Err e) \<Rightarrow> (s', Err (''read: '' @ e))
      | (s', Panic) \<Rightarrow> (s', Panic))"
  by pat_completeness auto
termination
  by (relation "measure (\<lambda>(src, missing, filled, s). missing)") auto

declare fill_loop.simps [simp del]

definition fill_at :: "'a source \<Rightarrow> nat \<Rightarrow> nat \<Rightarrow> ('a, bytes, string) act" where
  "fill_at src offset n =
     (if n = 0 then aret []
      else abind (amap_err (\<lambda>e. ''seek: '' @ e) (src_seek src (SeekStart offset))) (\<lambda>_.
        fill_loop src n []))"

subsection \<open>Aligned reads\<close>

text \<open>The aligned range starts on a block, covers the request at the offset the caller copies from, is a
  whole number of blocks and ends with the block of the last byte.\<close>

lemma aligned_read_covers:
  fixes start n bs :: nat
  assumes "0 < n" "0 < bs"
  shows "start div bs * bs + (start - start div bs * bs) = start"
    and "start - start div bs * bs + n \<le> ((start + n - 1) div bs - start div bs + 1) * bs"
    and "start div bs * bs + ((start + n - 1) div bs - start div bs + 1) * bs = ((start + n - 1) div bs + 1) * bs"
proof -
  have le: "start div bs * bs \<le> start" by (rule div_times_less_eq_dividend)
  show "start div bs * bs + (start - start div bs * bs) = start" using le by simp
  have mono: "start div bs \<le> (start + n - 1) div bs" using assms(1) by (intro div_le_mono) simp
  show e: "start div bs * bs + ((start + n - 1) div bs - start div bs + 1) * bs = ((start + n - 1) div bs + 1) * bs"
  proof -
    obtain k where "(start + n - 1) div bs = start div bs + k" using mono le_Suc_ex by blast
    then show ?thesis by (simp add: algebra_simps)
  qed
  have "start + n - 1 < ((start + n - 1) div bs + 1) * bs"
    using dividend_less_div_times [OF assms(2), of "start + n - 1"] by simp
  then show "start - start div bs * bs + n \<le> ((start + n - 1) div bs - start div bs + 1) * bs"
    using e le assms(1) by linarith
qed

lemma compute_aligned_read_Some:
  assumes "compute_aligned_read start n bs = Some (lba, len, intra)"
  shows "0 < n \<and> 0 < bs \<and> lba = start div bs \<and> lba * bs + intra = start \<and> intra + n \<le> len \<and> bs dvd len \<and>
    lba * bs + len = ((start + n - 1) div bs + 1) * bs"
  using assms aligned_read_covers [of n bs start]
  by (auto simp: compute_aligned_read_def fits_u64_def Let_def split: if_splits Option.bind_splits)

text \<open>The last test of the code never fires: the only refusals are empty requests and overflows.\<close>

lemma compute_aligned_read_total:
  assumes "0 < n" "0 < bs" "((start + n - 1) div bs + 1) * bs \<le> U64_MAX"
  shows "compute_aligned_read start n bs \<noteq> None"
proof -
  note c = aligned_read_covers [OF assms(1,2), of start]
  have "start + n - 1 < ((start + n - 1) div bs + 1) * bs"
    using dividend_less_div_times [OF assms(2), of "start + n - 1"] by simp
  then have "start + n \<le> U64_MAX" using assms(1,3) by linarith
  then show ?thesis
    using assms c by (simp add: compute_aligned_read_def fits_u64_def Let_def)
qed

subsection \<open>The contract of a source\<close>

locale byte_source =
  fixes src :: "'a source" and valid :: "'a \<Rightarrow> bool" and content :: "'a \<Rightarrow> bytes" and pos :: "'a \<Rightarrow> nat"
  assumes seek_start: "valid s \<Longrightarrow>
      \<exists>s'. src_seek src (SeekStart p) s = (s', Ok p) \<and> valid s' \<and> content s' = content s \<and> pos s' = p"
    and read_ok: "valid s \<Longrightarrow> src_read src n s = (s', Ok d) \<Longrightarrow>
      valid s' \<and> content s' = content s \<and> length d \<le> n \<and> d = take (length d) (drop (pos s) (content s)) \<and>
      pos s' = pos s + length d"
    and read_end: "valid s \<Longrightarrow> src_read src n s = (s', Ok []) \<Longrightarrow> 0 < n \<Longrightarrow> length (content s) \<le> pos s"
begin

text \<open>One round of a loop that collects a range: what has been collected stays a prefix of the range.\<close>

lemma read_extends:
  assumes "valid s" "filled = take (length filled) (drop off (content s))" "pos s = off + length filled"
    and "src_read src missing s = (s1, Ok got)"
  shows "valid s1" "content s1 = content s" "pos s1 = off + length (filled @ got)"
    and "take (length (filled @ got)) (drop off (content s)) = filled @ got"
    and "take missing got = got"
    and "length (filled @ got) + (missing - length got) = length filled + missing"
proof -
  note k = read_ok [OF assms(1,4)]
  have t: "take (length filled) (drop off (content s)) = filled"
    "take (length got) (drop (length filled + off) (content s)) = got"
    using assms(2,3) k by (simp_all add: add.commute)
  show "valid s1" "content s1 = content s" "pos s1 = off + length (filled @ got)" "take missing got = got"
    "length (filled @ got) + (missing - length got) = length filled + missing"
    using k assms(3) by simp_all
  show "take (length (filled @ got)) (drop off (content s)) = filled @ got" by (simp add: take_add t)
qed

lemma fill_loop_correct:
  assumes "valid s" "filled = take (length filled) (drop off (content s))" "pos s = off + length filled"
    and "fill_loop src missing filled s = (s', Ok d)"
  shows "valid s' \<and> content s' = content s \<and> d = take (length filled + missing) (drop off (content s)) \<and>
    length d = length filled + missing"
  using assms
proof (induction missing arbitrary: filled s rule: less_induct)
  case (less missing)
  show ?case
  proof (cases "missing = 0")
    case True
    then show ?thesis using less.prems by (auto simp: fill_loop.simps [of src 0])
  next
    case False
    then obtain s1 got where r: "src_read src missing s = (s1, Ok got)" and ne: "got \<noteq> []"
      and rest: "fill_loop src (missing - length got) (filled @ take missing got) s1 = (s', Ok d)"
      using less.prems(4)
      by (auto simp: fill_loop.simps [of src missing] split: prod.splits outcome.splits if_splits)
    note k = read_extends [OF less.prems(1-3) r]
    have lt: "missing - length got < missing" using ne False by (cases got) auto
    have "valid s' \<and> content s' = content s1 \<and>
        d = take (length (filled @ got) + (missing - length got)) (drop off (content s1)) \<and>
        length d = length (filled @ got) + (missing - length got)"
      by (rule less.IH [OF lt k(1) _ k(3) rest [unfolded k(5)]]) (simp only: k(2,4))
    then show ?thesis unfolding k(2,6) .
  qed
qed

text \<open>Whatever the reads of the source look like, a successful fill is the requested range.\<close>

lemma fill_at_correct:
  assumes "valid s" "fill_at src off n s = (s', Ok d)"
  shows "valid s' \<and> content s' = content s \<and> d = take n (drop off (content s)) \<and> length d = n"
proof (cases "n = 0")
  case True
  then show ?thesis using assms by (auto simp: fill_at_def aret_def)
next
  case False
  obtain s1 where k: "src_seek src (SeekStart off) s = (s1, Ok off)" "valid s1" "content s1 = content s" "pos s1 = off"
    using seek_start [OF assms(1)] by blast
  then show ?thesis
    using fill_loop_correct [of s1 "[]" off n s' d] assms(2) False
    by (auto simp: fill_at_def abind_def amap_err_def)
qed

text \<open>A source whose reads succeed serves every range inside its contents.\<close>

lemma fill_loop_serves:
  assumes serves: "\<And>s n. valid s \<Longrightarrow> \<exists>s' d. src_read src n s = (s', Ok d)"
    and "valid s" "pos s + missing \<le> length (content s)"
  shows "\<exists>s' d. fill_loop src missing filled s = (s', Ok d)"
  using assms(2,3)
proof (induction missing arbitrary: filled s rule: less_induct)
  case (less missing)
  show ?case
  proof (cases "missing = 0")
    case True
    then show ?thesis by (simp add: fill_loop.simps [of src 0])
  next
    case False
    obtain s1 got where r: "src_read src missing s = (s1, Ok got)" using serves [OF less.prems(1)] by blast
    have ne: "got \<noteq> []" using read_end [OF less.prems(1)] r less.prems(2) False by fastforce
    note k = read_ok [OF less.prems(1) r]
    show ?thesis
      using less.IH [of "missing - length got" s1 "filled @ take missing got"] less.prems(2) k r ne False
      by (simp add: fill_loop.simps [of src missing])
  qed
qed

lemma fill_at_serves:
  assumes "\<And>s n. valid s \<Longrightarrow> \<exists>s' d. src_read src n s = (s', Ok d)"
    and "valid s" "off + n \<le> length (content s)"
  shows "\<exists>s'. fill_at src off n s = (s', Ok (take n (drop off (content s))))"
proof -
  have "\<exists>s' d. fill_at src off n s = (s', Ok d)"
  proof (cases "n = 0")
    case True
    then show ?thesis by (simp add: fill_at_def aret_def)
  next
    case False
    obtain s1 where "src_seek src (SeekStart off) s = (s1, Ok off)" "valid s1" "content s1 = content s" "pos s1 = off"
      using seek_start [OF assms(2)] by blast
    then show ?thesis
      using fill_loop_serves [OF assms(1), of s1 n "[]"] assms(3) False
      by (simp add: fill_at_def abind_def amap_err_def)
  qed
  then show ?thesis using fill_at_correct [OF assms(2)] by blast
qed

end

subsection \<open>The block device is such a source\<close>

text \<open>The contract of the firmware's block device: a read of whole blocks inside the medium that succeeds
  returns the bytes of the medium.\<close>

locale block_device =
  fixes fw :: block_io and h :: nat and bs :: nat and disk :: bytes
  assumes block_size: "0 < bs" "bs dvd length disk"
    and disk_bound: "length disk \<le> U64_MAX"
    and read_blocks: "lba * bs + n \<le> length disk \<Longrightarrow> bi_read_blocks fw h mid lba n = Ok d \<Longrightarrow>
      d = take n (drop (lba * bs) disk)"
    and read_blocks_no_panic: "bi_read_blocks fw h mid lba n \<noteq> Panic"

definition on_device :: "nat \<Rightarrow> nat \<Rightarrow> bytes \<Rightarrow> BlockIoSource \<Rightarrow> bool" where
  "on_device h bs disk s \<longleftrightarrow> bs_handle s = h \<and> bs_block_size s = bs \<and> bs_media_len s = length disk"

lemma last_block_inside:
  fixes bs l :: nat
  assumes "0 < bs" "bs dvd l" "e < l"
  shows "(e div bs + 1) * bs \<le> l"
proof -
  obtain k where k: "l = bs * k" using assms(2) by (rule dvdE)
  then have "e div bs < k" using assms by (simp add: div_less_iff_less_mult mult.commute)
  then show ?thesis using k by (metis Suc_eq_plus1 Suc_leI mult.commute mult_le_mono2)
qed

context block_device
begin

text \<open>A read of the source: the range is inside the medium and aligned, so the copied slice is the bytes at
  the position.\<close>

lemma block_io_read_cases:
  assumes "on_device h bs disk s" "bs_position s < length disk" "0 < n"
  defines "want \<equiv> min n (length disk - bs_position s)"
  shows "block_io_read fw n s =
      (s\<lparr>bs_position := bs_position s + want\<rparr>, Ok (take want (drop (bs_position s) disk))) \<or>
    (\<exists>e lba len e'. block_io_read fw n s = (s, Err e) \<and> bs dvd len \<and> lba * bs + len \<le> length disk \<and>
      bi_read_blocks fw h (bs_media_id s) lba len = Err e')"
proof -
  let ?p = "bs_position s"
  have w: "0 < want" "?p + want \<le> length disk" "want \<noteq> 0" using assms by auto
  then have inside: "((?p + want - 1) div bs + 1) * bs \<le> length disk"
    by (intro last_block_inside block_size) linarith
  then obtain lba len intra where c: "compute_aligned_read ?p want bs = Some (lba, len, intra)"
    using compute_aligned_read_total [of want bs ?p] w(1) block_size(1) disk_bound by force
  note k = compute_aligned_read_Some [OF c]
  have "lba * bs + len = ((?p + want - 1) div bs + 1) * bs" using k by blast
  then have fits: "lba * bs + len \<le> length disk" using inside by linarith
  show ?thesis
  proof (cases "bi_read_blocks fw h (bs_media_id s) lba len")
    case (Ok d)
    have d: "d = take len (drop (lba * bs) disk)" by (rule read_blocks [OF fits Ok])
    have sl: "slice_idx d intra (intra + want) = (Ok (take want (drop ?p disk)) :: (bytes, string) outcome)"
    proof -
      have "length d = len" using fits d by simp
      moreover have "drop intra d = take (len - intra) (drop ?p disk)"
        using k by (simp add: d drop_take) (metis add.commute)
      moreover have "intra + want \<le> len" "want \<le> len - intra" using k by linarith+
      ultimately show ?thesis by (simp add: min_def)
    qed
    show ?thesis
      using assms w c Ok sl disk_bound
      by (simp add: block_io_read_def on_device_def Let_def sat_add_def want_def [symmetric])
  next
    case (Err e)
    then have "block_io_read fw n s = (s, Err (BlockIoError ''BlockIO::read_blocks failed''))"
      using assms w c by (simp add: block_io_read_def on_device_def Let_def want_def [symmetric])
    then show ?thesis using Err fits k by blast
  next
    case Panic
    then show ?thesis using read_blocks_no_panic by simp
  qed
qed

lemma block_io_read_end:
  assumes "on_device h bs disk s" "length disk \<le> bs_position s \<or> n = 0"
  shows "block_io_read fw n s = (s, Ok [])"
  using assms by (auto simp: block_io_read_def on_device_def Let_def)

lemma block_io_read_serves:
  assumes "\<forall>mid lba len. bs dvd len \<longrightarrow> lba * bs + len \<le> length disk \<longrightarrow> (\<exists>b. bi_read_blocks fw h mid lba len = Ok b)"
    and "on_device h bs disk s"
  shows "\<exists>s' d. src_read (block_io_source fw) n s = (s', Ok d)"
proof (cases "bs_position s < length disk \<and> 0 < n")
  case True
  have "bi_read_blocks fw h mid lba len \<noteq> Err e" if "bs dvd len" "lba * bs + len \<le> length disk" for mid lba len e
    using assms(1) [rule_format, OF that, of mid] by auto
  then show ?thesis
    using block_io_read_cases [OF assms(2), of n] True unfolding block_io_source_def source.simps by blast
next
  case False
  then show ?thesis using block_io_read_end [OF assms(2), of n] by (auto simp: block_io_source_def)
qed

end

sublocale block_device \<subseteq> dev: byte_source "block_io_source fw" "on_device h bs disk" "\<lambda>_. disk" bs_position
proof unfold_locales
  fix s p assume "on_device h bs disk s"
  then show "\<exists>s'. src_seek (block_io_source fw) (SeekStart p) s = (s', Ok p) \<and> on_device h bs disk s' \<and>
      disk = disk \<and> bs_position s' = p"
    by (simp add: block_io_source_def on_device_def)
next
  fix s n s' d assume "on_device h bs disk s" "src_read (block_io_source fw) n s = (s', Ok d)"
  then show "on_device h bs disk s' \<and> disk = disk \<and> length d \<le> n \<and>
      d = take (length d) (drop (bs_position s) disk) \<and> bs_position s' = bs_position s + length d"
    using block_io_read_cases [of s n] block_io_read_end [of s n]
    by (cases "bs_position s < length disk \<and> 0 < n") (auto simp: block_io_source_def on_device_def min_def not_less)
next
  fix s n s' assume "on_device h bs disk s" "src_read (block_io_source fw) n s = (s', Ok [])" "0 < n"
  then show "length disk \<le> bs_position s"
    using block_io_read_cases [of s n] by (cases "bs_position s < length disk") (auto simp: block_io_source_def)
qed

context block_device
begin

lemmas dev_fill = dev.fill_at_correct

lemma dev_serves:
  assumes "\<forall>mid lba len. bs dvd len \<longrightarrow> lba * bs + len \<le> length disk \<longrightarrow> (\<exists>b. bi_read_blocks fw h mid lba len = Ok b)"
    and "on_device h bs disk s" "off + n \<le> length disk"
  shows "\<exists>s'. fill_at (block_io_source fw) off n s = (s', Ok (take n (drop off disk)))"
  by (rule dev.fill_at_serves [OF block_io_read_serves [OF assms(1)] assms(2,3)])

end

text \<open>A source opened on the device stands at its start.\<close>

lemma from_block_io_on_device:
  assumes "from_block_io h media = Ok s" "length disk = (bm_last_block media + 1) * unat (bm_block_size media)"
    and "length disk \<le> U64_MAX"
  shows "on_device h (unat (bm_block_size media)) disk s \<and> 0 < unat (bm_block_size media) \<and>
    unat (bm_block_size media) dvd length disk \<and> bs_position s = 0"
proof -
  let ?b = "unat (bm_block_size media)"
  have p: "0 < ?b" using assms(1) by (auto simp: from_block_io_def Let_def split: if_splits)
  have "bm_last_block media + 1 \<le> (bm_last_block media + 1) * ?b" using p by (cases ?b) auto
  then have "bm_last_block media + 1 \<le> U64_MAX" using assms(2,3) by linarith
  then show ?thesis using assms p by (auto simp: from_block_io_def Let_def on_device_def sat_add_def sat_mul_def)
qed

subsection \<open>A file of a volume is such a source\<close>

definition on_file :: "'s backend \<Rightarrow> ('s \<Rightarrow> string \<Rightarrow> bytes option) \<Rightarrow> 's FileBlockSource \<Rightarrow> bool" where
  "on_file bk content s \<longleftrightarrow>
     fb_backend s = bk \<and> (\<exists>b. content (fb_store s) (fb_path s) = Some b \<and> fb_len s = length b)"

definition file_bytes :: "('s \<Rightarrow> string \<Rightarrow> bytes option) \<Rightarrow> 's FileBlockSource \<Rightarrow> bytes" where
  "file_bytes content s = (case content (fb_store s) (fb_path s) of Some b \<Rightarrow> b | None \<Rightarrow> [])"

context medium
begin

lemma file_source_read_Ok:
  assumes "on_file bk content s" "file_source_read n s = (s', Ok d)"
  shows "s' = s\<lparr>fb_position := fb_position s + length d\<rparr> \<and>
    d = take (min n (fb_len s - fb_position s)) (drop (fb_position s) (file_bytes content s))"
proof (cases "n = 0 \<or> fb_len s \<le> fb_position s")
  case True
  then show ?thesis using assms(2) by (auto simp: file_source_read_def Let_def split: if_splits)
next
  case False
  obtain b where b: "content (fb_store s) (fb_path s) = Some b" "fb_len s = length b" "fb_backend s = bk"
    using assms(1) by (auto simp: on_file_def)
  let ?w = "min n (fb_len s - fb_position s)"
  obtain got where g: "bk_read_at bk (fb_store s) (fb_path s) (fb_position s) ?w = Ok got"
    and r: "s' = s\<lparr>fb_position := sat_add (fb_position s) (min (length got) n)\<rparr>" "d = take (min (length got) n) got"
    using assms(2) False b(3) by (auto simp: file_source_read_def Let_def split: outcome.splits)
  have got: "got = take ?w (drop (fb_position s) b)" using read_at_sound [OF g] b(1) by auto
  then have "length got \<le> n" "fb_position s + length got \<le> U64_MAX"
    using content_bound [OF b(1)] False b(2) by (auto simp: U64_MAX_def USIZE_MAX_def)
  then show ?thesis using r got b(1,2) by (simp add: sat_add_def file_bytes_def)
qed

end

sublocale medium \<subseteq> region: byte_source file_source "on_file bk content" "file_bytes content" fb_position
proof unfold_locales
  fix s p assume "on_file bk content s"
  then show "\<exists>s'. src_seek file_source (SeekStart p) s = (s', Ok p) \<and> on_file bk content s' \<and>
      file_bytes content s' = file_bytes content s \<and> fb_position s' = p"
    by (simp add: file_source_def on_file_def file_bytes_def)
next
  fix s n s' d assume v: "on_file bk content s" and "src_read file_source n s = (s', Ok d)"
  then have r: "file_source_read n s = (s', Ok d)" by (simp add: file_source_def)
  note k = file_source_read_Ok [OF v r]
  then have "length d \<le> n" by auto
  then show "on_file bk content s' \<and> file_bytes content s' = file_bytes content s \<and> length d \<le> n \<and>
      d = take (length d) (drop (fb_position s) (file_bytes content s)) \<and> fb_position s' = fb_position s + length d"
    using k v by (auto simp: on_file_def file_bytes_def min_def)
next
  fix s n s' assume v: "on_file bk content s" and "src_read file_source n s = (s', Ok [])" and n: "0 < n"
  then have r: "file_source_read n s = (s', Ok [])" by (simp add: file_source_def)
  show "length (file_bytes content s) \<le> fb_position s"
    using file_source_read_Ok [OF v r] v n by (auto simp: on_file_def file_bytes_def min_def split: if_splits)
qed

lemma file_source_new_on_file:
  assumes "file_source_new bk store path = Ok s" "content store path = Some b"
    and "\<And>md. bk_metadata bk store path = Ok md \<Longrightarrow> md_size md = length b"
  shows "on_file bk content s \<and> file_bytes content s = b \<and> fb_position s = 0"
  using assms by (auto simp: file_source_new_def on_file_def file_bytes_def obind_Ok_conv)

subsection \<open>Ranges are read exactly\<close>

text \<open>A block device held in memory, with the firmware's refusal of ranges past its end or not in whole
  blocks.\<close>

definition mem_block_io :: "nat \<Rightarrow> bytes \<Rightarrow> block_io" where
  "mem_block_io bs disk =
     \<lparr>bi_open = (\<lambda>excl h. Ok \<lparr>bm_media_id = 1, bm_block_size = of_nat bs, bm_last_block = length disk div bs - 1\<rparr>),
      bi_read_blocks = (\<lambda>h mid lba n.
        if lba * bs + n \<le> length disk \<and> n mod bs = 0 then Ok (take n (drop (lba * bs) disk))
        else Err ''INVALID_PARAMETER'')\<rparr>"

lemma mem_block_device:
  assumes "0 < bs" "bs dvd length disk" "length disk \<le> U64_MAX"
  shows "block_device (mem_block_io bs disk) h bs disk"
  using assms by unfold_locales (auto simp: mem_block_io_def split: if_splits)

definition demo_disk :: bytes where "demo_disk = [1, 2, 3, 4, 5, 6, 7, 8, 9, 10, 11, 12]"

interpretation memdev: block_device "mem_block_io 4 demo_disk" h 4 demo_disk
  by (rule mem_block_device) (simp_all add: demo_disk_def U64_MAX_def dvd_def exI [of _ "3::nat"])

text \<open>C15: Reads of arbitrary byte ranges over a block device are exact.  Whatever the block size, the
  alignment of the range and the length the caller asks for, a fill that succeeds has copied exactly the
  bytes of the medium at that offset; a device that serves every read inside its medium serves every
  range inside it; and a range that is not inside the medium is refused, never padded or shortened.\<close>

theorem block_ranges_are_exact:
  assumes "block_device fw h bs disk" "on_device h bs disk s"
  shows "(\<forall>s' d. fill_at (block_io_source fw) off n s = (s', Ok d) \<longrightarrow> d = take n (drop off disk) \<and> length d = n) \<and>
    ((\<forall>mid lba len. bs dvd len \<longrightarrow> lba * bs + len \<le> length disk \<longrightarrow> (\<exists>b. bi_read_blocks fw h mid lba len = Ok b)) \<longrightarrow>
      off + n \<le> length disk \<longrightarrow> (\<exists>s'. fill_at (block_io_source fw) off n s = (s', Ok (take n (drop off disk))))) \<and>
    (0 < n \<longrightarrow> length disk < off + n \<longrightarrow> (\<forall>s' d. fill_at (block_io_source fw) off n s \<noteq> (s', Ok d)))"
proof -
  note c = block_device.dev_fill [OF assms]
  show ?thesis
  proof (intro conjI allI impI)
    fix s' d assume "fill_at (block_io_source fw) off n s = (s', Ok d)"
    then show "d = take n (drop off disk)" "length d = n" using c by blast+
  next
    assume "\<forall>mid lba len. bs dvd len \<longrightarrow> lba * bs + len \<le> length disk \<longrightarrow> (\<exists>b. bi_read_blocks fw h mid lba len = Ok b)"
      "off + n \<le> length disk"
    then show "\<exists>s'. fill_at (block_io_source fw) off n s = (s', Ok (take n (drop off disk)))" by (rule block_device.dev_serves [OF assms(1) _ assms(2)])
  next
    fix s' d assume "0 < n" "length disk < off + n"
    then show "fill_at (block_io_source fw) off n s \<noteq> (s', Ok d)" using c [of off n s' d] by auto
  qed
qed

theorem block_ranges_are_exact_witness:
  "\<exists>s s'. block_io_open (mem_block_io 4 demo_disk) 0 = Ok s \<and>
     fill_at (block_io_source (mem_block_io 4 demo_disk)) 3 6 s = (s', Ok [4, 5, 6, 7, 8, 9])"
proof -
  have "\<exists>s. block_io_open (mem_block_io 4 demo_disk) 0 = Ok s \<and> on_device 0 4 demo_disk s"
    by (simp add: block_io_open_def mem_block_io_def from_block_io_def on_device_def sat_add_def sat_mul_def
        U64_MAX_def demo_disk_def)
  then obtain s where s: "block_io_open (mem_block_io 4 demo_disk) 0 = Ok s" "on_device 0 4 demo_disk s" by blast
  have "block_device (mem_block_io 4 demo_disk) 0 4 demo_disk" by unfold_locales
  from block_ranges_are_exact [OF this s(2), of 3 6]
  have "\<exists>s'. fill_at (block_io_source (mem_block_io 4 demo_disk)) 3 6 s = (s', Ok (take 6 (drop 3 demo_disk)))"
    by (auto simp: mem_block_io_def demo_disk_def)
  then show ?thesis using s(1) by (auto simp: demo_disk_def)
qed

end
