(* ===== verification/Partitions.thy ===== *)
theory Partitions
  imports Block_Source Boot_Types Utf16
begin

section \<open>Partitions and their superblocks\<close>

text \<open>
  Model of \<open>lamboot-core/src/partitions.rs\<close> and \<open>partition_classify_pure.rs\<close>: the scan for partitions over
  the protocols of the firmware, the probe for a file-system superblock, a physical volume of LVM or an
  optical disc, and the root parameter added to kernel command lines.

  A handle is a number.  A GUID is its canonical text, which is how the code prints it.  What the firmware
  says about its handles is \<open>part_firmware\<close>; a block device is the \<open>block_io\<close> of theory \<open>Block_Source\<close>.  A
  failed block read leaves the buffer as it was allocated, all zeros.

  The theorems: the scan never returns the EFI system partition, nor a partition the firmware already reads;
  the added root parameter reaches every kernel entry that has none and nothing else; and the superblock
  probe depends on the bytes of the medium alone, not on the block size of the device.
\<close>

subsection \<open>Data\<close>

type_synonym Guid = string

definition ROOT_PARTITION_TYPE :: "target_arch \<Rightarrow> Guid" where
  "ROOT_PARTITION_TYPE arch =
     (if arch = Arch_aarch64 then ''b921b045-1df0-41c3-af44-4c6f280d3fae''
      else ''4f68bce3-e8cd-4db1-96e7-fbcaf984b709'')"
definition XBOOTLDR_PARTITION_TYPE :: Guid where
  "XBOOTLDR_PARTITION_TYPE = ''bc13c2ff-59e6-4262-a352-b275fd6f7172''"
definition ESP_PARTITION_TYPE :: Guid where "ESP_PARTITION_TYPE = ''c12a7328-f81f-11d2-ba4b-00a0c93ec93b''"
definition GUID_ZERO :: Guid where "GUID_ZERO = ''00000000-0000-0000-0000-000000000000''"

datatype PartType = PtRoot | PtXbootldr | PtOpaque

record DiscoveredPartition =
  dp_partition_type :: PartType
  dp_unique_guid :: Guid
  dp_handle :: nat

text \<open>What \<open>PartitionInfo\<close> says of a handle: a GPT entry (type and unique GUID) or an MBR record (type
  byte), either possibly missing, or another kind of table.\<close>

datatype partition_info = GptInfo "(Guid \<times> Guid) option" | MbrInfo "u8 option" | OtherInfo

record part_firmware =
  pf_info_handles :: "nat list option"
  pf_info :: "nat \<Rightarrow> partition_info option"
  pf_block_handles :: "nat list option"
  pf_sfs_handles :: "nat list option"
  pf_block :: block_io
  pf_logical :: "nat \<Rightarrow> bool"
  pf_present :: "nat \<Rightarrow> bool"

definition or_default :: "'a list option \<Rightarrow> 'a list" where
  "or_default x = (case x of Some l \<Rightarrow> l | None \<Rightarrow> [])"

subsection \<open>The scan\<close>

definition mbr_os_type_is_mountable :: "u8 \<Rightarrow> bool" where
  "mbr_os_type_is_mountable t \<longleftrightarrow> t \<notin> {0x00, 0x05, 0x0F, 0x85, 0xEE, 0xEF}"

fun classify_gpt_partition :: "target_arch \<Rightarrow> (Guid \<times> Guid) option \<Rightarrow> (PartType \<times> Guid) option" where
  "classify_gpt_partition arch None = None"
| "classify_gpt_partition arch (Some (type_guid, unique_guid)) =
     (if type_guid = ESP_PARTITION_TYPE then None
      else Some
        (if type_guid = ROOT_PARTITION_TYPE arch then PtRoot
         else if type_guid = XBOOTLDR_PARTITION_TYPE then PtXbootldr
         else PtOpaque, unique_guid))"

fun classify_mbr_partition :: "u8 option \<Rightarrow> (PartType \<times> Guid) option" where
  "classify_mbr_partition None = None"
| "classify_mbr_partition (Some os_type) =
     (if mbr_os_type_is_mountable os_type then Some (PtOpaque, GUID_ZERO) else None)"

fun classify_info :: "target_arch \<Rightarrow> partition_info \<Rightarrow> (PartType \<times> Guid) option" where
  "classify_info arch (GptInfo e) = classify_gpt_partition arch e"
| "classify_info arch (MbrInfo r) = classify_mbr_partition r"
| "classify_info arch OtherInfo = None"

definition info_partition :: "target_arch \<Rightarrow> part_firmware \<Rightarrow> nat \<Rightarrow> DiscoveredPartition option" where
  "info_partition arch fw h =
     (case pf_info fw h of
        None \<Rightarrow> None
      | Some info \<Rightarrow>
          map_option (\<lambda>(t, g). \<lparr>dp_partition_type = t, dp_unique_guid = g, dp_handle = h\<rparr>) (classify_info arch info))"

definition can_open :: "bool \<Rightarrow> part_firmware \<Rightarrow> nat \<Rightarrow> BlockMedia option" where
  "can_open excl fw h = ok_option (bi_open (pf_block fw) excl h)"

definition scan_block_io_logical_partitions_without_fs :: "part_firmware \<Rightarrow> nat list" where
  "scan_block_io_logical_partitions_without_fs fw =
     (let sfs = or_default (pf_sfs_handles fw) in
      filter (\<lambda>h. h \<notin> set sfs \<and> can_open False fw h \<noteq> None \<and> pf_logical fw h) (or_default (pf_block_handles fw)))"

text \<open>The loop over the block devices: those not seen yet are kept, and then count as seen.\<close>

fun add_unseen :: "nat list \<Rightarrow> nat list \<Rightarrow> DiscoveredPartition list" where
  "add_unseen seen [] = []"
| "add_unseen seen (h # hs) =
     (if h \<in> set seen then add_unseen seen hs
      else \<lparr>dp_partition_type = PtOpaque, dp_unique_guid = GUID_ZERO, dp_handle = h\<rparr> # add_unseen (seen @ [h]) hs)"

definition scan_discoverable_partitions :: "target_arch \<Rightarrow> part_firmware \<Rightarrow> DiscoveredPartition list" where
  "scan_discoverable_partitions arch fw =
     (let described = List.map_filter (info_partition arch fw) (or_default (pf_info_handles fw)) in
      described @ add_unseen (map dp_handle described) (scan_block_io_logical_partitions_without_fs fw))"

subsection \<open>The root parameter\<close>

fun append_root :: "Guid \<Rightarrow> EntryKind \<Rightarrow> EntryKind" where
  "append_root partuuid (LinuxLegacy k i options) =
     LinuxLegacy k i (if str_contains options ''root='' then options
       else options @ '' root=PARTUUID='' @ partuuid @ '' rw'')"
| "append_root partuuid kind = kind"

definition auto_append_root :: "DiscoveredPartition list \<Rightarrow> BootEntry list \<Rightarrow> BootEntry list" where
  "auto_append_root parts entries =
     (case find (\<lambda>p. dp_partition_type p = PtRoot) parts of
        None \<Rightarrow> entries
      | Some root \<Rightarrow> map (\<lambda>e. e\<lparr>en_kind := append_root (dp_unique_guid root) (en_kind e)\<rparr>) entries)"

subsection \<open>Superblocks\<close>

datatype FsType = FsExt4 | FsBtrfs | FsXfs | FsF2fs | FsZfs | FsExFat | FsUnknown

record FsInfo =
  fi_fs_type :: FsType
  fi_uuid :: "string option"

definition nibble :: "nat \<Rightarrow> char" where
  "nibble d = (if d < 10 then char_of (48 + d) else char_of (87 + d))"

definition hex2 :: "u8 \<Rightarrow> string" where
  "hex2 b = [nibble (unat b div 16), nibble (unat b mod 16)]"

definition format_fs_uuid :: "bytes \<Rightarrow> string" where
  "format_fs_uuid b =
     (if length b < 16 then ''unknown''
      else let h = (\<lambda>i j. concat (map hex2 (take (j - i) (drop i b)))) in
        h 0 4 @ ''-'' @ h 4 6 @ ''-'' @ h 6 8 @ ''-'' @ h 8 10 @ ''-'' @ h 10 16)"

definition upper_hex4 :: "nat \<Rightarrow> string" where
  "upper_hex4 n = (let d = (\<lambda>k. if k < 10 then char_of (48 + k) else char_of (55 + k)) in
     [d (n div 4096 mod 16), d (n div 256 mod 16), d (n div 16 mod 16), d (n mod 16)])"

definition parse_ext4_superblock :: "bytes \<Rightarrow> FsInfo option" where
  "parse_ext4_superblock sb =
     (if length sb < 0x78 then None
      else if (from_le [sb ! 0x38, sb ! 0x39] :: u16) \<noteq> 0xEF53 then None
      else Some \<lparr>fi_fs_type = FsExt4, fi_uuid = Some (format_fs_uuid (take 16 (drop 0x68 sb)))\<rparr>)"

text \<open>\<open>read_blocks\<close> into a zeroed buffer of \<open>n\<close> bytes: whether it succeeded, and the buffer.\<close>

definition read_buf :: "block_io \<Rightarrow> nat \<Rightarrow> u32 \<Rightarrow> nat \<Rightarrow> nat \<Rightarrow> bool \<times> bytes" where
  "read_buf fw h mid lba n =
     (case bi_read_blocks fw h mid lba n of
        Ok d \<Rightarrow> (True, take n (d @ replicate n 0))
      | _ \<Rightarrow> (False, replicate n 0))"

definition div_ceil :: "nat \<Rightarrow> nat \<Rightarrow> nat" where "div_ceil a b = (a + b - 1) div b"

definition BTRFS_MAGIC :: bytes where "BTRFS_MAGIC = [0x5F, 0x42, 0x48, 0x52, 0x66, 0x53, 0x5F, 0x4D]"
definition XFS_MAGIC :: bytes where "XFS_MAGIC = [0x58, 0x46, 0x53, 0x42]"
definition EXFAT_MAGIC :: bytes where "EXFAT_MAGIC = [0x45, 0x58, 0x46, 0x41, 0x54, 0x20, 0x20, 0x20]"
definition F2FS_MAGIC :: bytes where "F2FS_MAGIC = [0x10, 0x20, 0xF5, 0xF2]"
definition ZFS_UBERBLOCK_MAGIC :: u64 where "ZFS_UBERBLOCK_MAGIC = 0x0000000000bab10c"
definition ZFS_UB_ARRAY_BYTES :: nat where "ZFS_UB_ARRAY_BYTES = 128 * 1024"
definition ZFS_UB_MIN_SLOT :: nat where "ZFS_UB_MIN_SLOT = 1024"

definition btrfs_at :: "nat \<Rightarrow> bytes \<Rightarrow> (FsInfo option, unit) outcome" where
  "btrfs_at off buf =
     (if off + 0x200 \<le> length buf then
        obind (slice_idx buf (off + 0x40) (off + 0x48)) (\<lambda>magic.
        if magic = BTRFS_MAGIC then
          obind (slice_idx buf (off + 0x20) (off + 0x30)) (\<lambda>uuid.
          Ok (Some \<lparr>fi_fs_type = FsBtrfs, fi_uuid = Some (format_fs_uuid uuid)\<rparr>))
        else Ok None)
      else Ok None)"

definition xfs_at :: "bytes \<Rightarrow> (FsInfo option, unit) outcome" where
  "xfs_at buf =
     (if length buf \<ge> 0x60 then
        obind (slice_idx buf 0 4) (\<lambda>magic.
        if magic = XFS_MAGIC then
          obind (slice_idx buf 0x20 0x30) (\<lambda>uuid.
          Ok (Some \<lparr>fi_fs_type = FsXfs, fi_uuid = Some (format_fs_uuid uuid)\<rparr>))
        else Ok None)
      else Ok None)"

definition exfat_at :: "bytes \<Rightarrow> (FsInfo option, unit) outcome" where
  "exfat_at buf =
     (if length buf \<ge> 0x68 then
        obind (slice_idx buf 3 11) (\<lambda>magic.
        if magic = EXFAT_MAGIC then
          obind (slice_idx buf 100 104) (\<lambda>s.
          let serial = unat (from_le s :: u32) in
          Ok (Some \<lparr>fi_fs_type = FsExFat,
            fi_uuid = Some (upper_hex4 (serial div 65536) @ ''-'' @ upper_hex4 (serial mod 65536))\<rparr>))
        else Ok None)
      else Ok None)"

definition f2fs_at :: "nat \<Rightarrow> bytes \<Rightarrow> (FsInfo option, unit) outcome" where
  "f2fs_at off buf =
     (if length buf \<ge> off + 4 then
        obind (slice_idx buf off (off + 4)) (\<lambda>magic.
        if magic = F2FS_MAGIC \<and> off + 0x7C \<le> length buf then
          obind (slice_idx buf (off + 0x6C) (off + 0x7C)) (\<lambda>uuid.
          Ok (Some \<lparr>fi_fs_type = FsF2fs, fi_uuid = Some (format_fs_uuid uuid)\<rparr>))
        else Ok None)
      else Ok None)"

text \<open>The loop over the slots of the uberblock array.\<close>

function zfs_scan :: "bytes \<Rightarrow> nat \<Rightarrow> bool" where
  "zfs_scan buf off =
     (if off + 8 \<le> length buf then
        (let m = take 8 (drop off buf) in
         (from_le m :: u64) = ZFS_UBERBLOCK_MAGIC \<or> (from_le (rev m) :: u64) = ZFS_UBERBLOCK_MAGIC \<or>
         zfs_scan buf (off + ZFS_UB_MIN_SLOT))
      else False)"
  by pat_completeness auto
termination
  by (relation "measure (\<lambda>(buf, off). length buf - off)") (auto simp: ZFS_UB_MIN_SLOT_def)

declare zfs_scan.simps [simp del]

text \<open>The alternatives in order: the first that recognises something wins.\<close>

fun or_else :: "('a option, unit) outcome \<Rightarrow> ('a option, unit) outcome \<Rightarrow> ('a option, unit) outcome" where
  "or_else (Ok None) b = b"
| "or_else a b = a"

definition probe_superblock :: "block_io \<Rightarrow> nat \<Rightarrow> (FsInfo option, unit) outcome" where
  "probe_superblock fw h =
     (case bi_open fw True h of
        Ok media \<Rightarrow>
          let block_size = unat (bm_block_size media); mid = bm_media_id media in
          if block_size = 0 then Ok None
          else
            let sectors = div_ceil 4096 block_size; sb_offset = 1024 mod block_size;
                (ext4_ok, ext4_buf) = read_buf fw h mid (1024 div block_size) (sectors * block_size);
                (btrfs_ok, btrfs_buf) = read_buf fw h mid (0x10000 div block_size) (sectors * block_size);
                (xfs_ok, xfs_buf) = read_buf fw h mid 0 (max block_size 512);
                (zfs_ok, zfs_buf) = read_buf fw h mid (0x20000 div block_size)
                  (div_ceil ZFS_UB_ARRAY_BYTES block_size * block_size) in
            or_else (Ok (if ext4_ok \<and> sb_offset \<le> length ext4_buf
                         then parse_ext4_superblock (drop sb_offset ext4_buf) else None))
            (or_else (if btrfs_ok then btrfs_at (0x10000 mod block_size) btrfs_buf else Ok None)
            (or_else (if xfs_ok then xfs_at xfs_buf else Ok None)
            (or_else (exfat_at xfs_buf)
            (or_else (f2fs_at sb_offset ext4_buf)
              (Ok (if zfs_ok \<and> zfs_scan zfs_buf 0 then Some \<lparr>fi_fs_type = FsZfs, fi_uuid = None\<rparr> else None))))))
      | _ \<Rightarrow> Ok None)"

subsection \<open>Physical volumes and optical discs\<close>

definition LABELONE :: bytes where "LABELONE = [0x4C, 0x41, 0x42, 0x45, 0x4C, 0x4F, 0x4E, 0x45]"

definition lvm_label :: "block_io \<Rightarrow> nat \<Rightarrow> BlockMedia \<Rightarrow> bool" where
  "lvm_label fw h media =
     (let block_size = unat (bm_block_size media) in
      block_size \<noteq> 0 \<and>
      (let (ok, buf) = read_buf fw h (bm_media_id media) (512 div block_size) (div_ceil 1024 block_size * block_size);
           off = 512 mod block_size in
       ok \<and> off + 8 \<le> length buf \<and> take 8 (drop off buf) = LABELONE))"

definition probe_lvm_pv :: "part_firmware \<Rightarrow> nat \<Rightarrow> bool" where
  "probe_lvm_pv fw h = (case can_open True fw h of None \<Rightarrow> False | Some media \<Rightarrow> lvm_label (pf_block fw) h media)"

definition scan_block_io_partitions_for_lvm :: "part_firmware \<Rightarrow> nat list" where
  "scan_block_io_partitions_for_lvm fw =
     filter (\<lambda>h. case can_open False fw h of
         None \<Rightarrow> False
       | Some media \<Rightarrow> pf_logical fw h \<and> lvm_label (pf_block fw) h media) (or_default (pf_block_handles fw))"

definition parse_pvd_label :: "bytes \<Rightarrow> string" where
  "parse_pvd_label raw = trim_end (utf8_text (map unat (takeWhile (\<lambda>b. b \<noteq> 0) raw)))"

definition CD001 :: bytes where "CD001 = [0x43, 0x44, 0x30, 0x30, 0x31]"

definition optical_label :: "part_firmware \<Rightarrow> nat \<Rightarrow> (nat \<times> string) option" where
  "optical_label fw h =
     (case can_open False fw h of
        None \<Rightarrow> None
      | Some media \<Rightarrow>
          if \<not> pf_present fw h \<or> pf_logical fw h \<or> bm_block_size media \<noteq> 2048 then None
          else let (ok, buf) = read_buf (pf_block fw) h (bm_media_id media) 16 2048 in
            if \<not> ok then None
            else if buf ! 0 \<noteq> 1 \<or> take 5 (drop 1 buf) \<noteq> CD001 then None
            else Some (h, parse_pvd_label (take 32 (drop 40 buf))))"

definition scan_optical_handles :: "part_firmware \<Rightarrow> (nat \<times> string) list" where
  "scan_optical_handles fw = List.map_filter (optical_label fw) (or_default (pf_block_handles fw))"

subsection \<open>What the scan returns\<close>

lemma add_unseen_handles: "dp_handle ` set (add_unseen seen hs) = set hs - set seen"
  by (induction hs arbitrary: seen) auto

lemma add_unseen_distinct: "distinct (map dp_handle (add_unseen seen hs))"
proof (induction hs arbitrary: seen)
  case (Cons h hs)
  have "h \<notin> dp_handle ` set (add_unseen (seen @ [h]) hs)" by (simp add: add_unseen_handles)
  then show ?case using Cons by simp
qed simp

lemma info_partition_handle: "info_partition arch fw h = Some p \<Longrightarrow> dp_handle p = h"
  by (auto simp: info_partition_def split: option.splits)

lemma described_handles:
  "dp_handle ` set (List.map_filter (info_partition arch fw) hs) = {h \<in> set hs. info_partition arch fw h \<noteq> None}"
  by (induction hs) (auto simp: List.map_filter_simps dest: info_partition_handle split: option.split)

lemma described_distinct:
  "distinct hs \<Longrightarrow> distinct (map dp_handle (List.map_filter (info_partition arch fw) hs))"
proof (induction hs)
  case (Cons h hs)
  have "h \<notin> dp_handle ` set (List.map_filter (info_partition arch fw) hs)" using Cons.prems by (simp add: described_handles)
  then show ?case using Cons by (auto simp: List.map_filter_simps dest: info_partition_handle split: option.split)
qed (simp add: List.map_filter_simps)

lemma scan_distinct:
  assumes "distinct (or_default (pf_info_handles fw))"
  shows "distinct (map dp_handle (scan_discoverable_partitions arch fw))"
  using described_distinct [OF assms] add_unseen_distinct add_unseen_handles
  by (auto simp: scan_discoverable_partitions_def Let_def)

text \<open>The scan returns exactly the partitions whose table entry is classified and, of the rest, every
  logical partition the firmware has no file system for.  The second part does not ask why an entry was not
  classified: a slot that the first part skips as an extended container or as an EFI system partition comes
  back through the second when the firmware has no file system on it.\<close>

theorem partition_scan_spec:
  "h \<in> dp_handle ` set (scan_discoverable_partitions arch fw) \<longleftrightarrow>
     h \<in> set (or_default (pf_info_handles fw)) \<and> info_partition arch fw h \<noteq> None \<or>
     h \<in> set (or_default (pf_block_handles fw)) \<and> h \<notin> set (or_default (pf_sfs_handles fw)) \<and>
       can_open False fw h \<noteq> None \<and> pf_logical fw h"
  unfolding scan_discoverable_partitions_def Let_def set_append image_Un add_unseen_handles described_handles set_map
  by (auto simp: scan_block_io_logical_partitions_without_fs_def Let_def)

subsection \<open>The root parameter is added once\<close>

lemma str_find_append: "str_find pat (a @ pat @ b) \<noteq> None"
proof (induction a)
  case Nil
  have "prefix pat (pat @ b)" by simp
  then show ?case by (cases "pat @ b") auto
qed simp

lemma append_root_has_root:
  "append_root g (LinuxLegacy k i opts) = LinuxLegacy k i opts' \<Longrightarrow> str_contains opts' ''root=''"
  using str_find_append [of "''root=''" "opts @ '' ''" "''PARTUUID='' @ g @ '' rw''"]
  by (auto simp: str_contains_def split: if_splits)

lemma append_root_idem: "append_root g' (append_root g k) = append_root g k"
proof (cases k)
  case (LinuxLegacy kp i opts)
  then show ?thesis
    using append_root_has_root [of g kp i opts] by (cases "append_root g k") (auto split: if_splits)
qed auto

lemma auto_append_root_idem: "auto_append_root parts (auto_append_root parts es) = auto_append_root parts es"
  by (simp add: auto_append_root_def append_root_idem split: option.split)

subsection \<open>The probe depends on the contents only\<close>

definition zfs_magic :: "bytes \<Rightarrow> bool" where
  "zfs_magic m \<longleftrightarrow> (from_le m :: u64) = ZFS_UBERBLOCK_MAGIC \<or> (from_le (rev m) :: u64) = ZFS_UBERBLOCK_MAGIC"

text \<open>The file system of a medium, by the magic numbers at their places.\<close>

definition superblock_of :: "bytes \<Rightarrow> FsInfo option" where
  "superblock_of d =
     (let uuid = (\<lambda>off. Some (format_fs_uuid (take 16 (drop off d)))) in
      if (from_le (take 2 (drop 0x438 d)) :: u16) = 0xEF53 then Some \<lparr>fi_fs_type = FsExt4, fi_uuid = uuid 0x468\<rparr>
      else if take 8 (drop 0x10040 d) = BTRFS_MAGIC then Some \<lparr>fi_fs_type = FsBtrfs, fi_uuid = uuid 0x10020\<rparr>
      else if take 4 d = XFS_MAGIC then Some \<lparr>fi_fs_type = FsXfs, fi_uuid = uuid 0x20\<rparr>
      else if take 8 (drop 3 d) = EXFAT_MAGIC then
        Some \<lparr>fi_fs_type = FsExFat,
          fi_uuid = (let n = unat (from_le (take 4 (drop 100 d)) :: u32) in
            Some (upper_hex4 (n div 65536) @ ''-'' @ upper_hex4 (n mod 65536)))\<rparr>
      else if take 4 (drop 0x400 d) = F2FS_MAGIC then Some \<lparr>fi_fs_type = FsF2fs, fi_uuid = uuid 0x46C\<rparr>
      else if \<exists>i<128. zfs_magic (take 8 (drop (0x20000 + 1024 * i) d)) then Some \<lparr>fi_fs_type = FsZfs, fi_uuid = None\<rparr>
      else None)"

lemma take_drop_window:
  "o' + m \<le> n \<Longrightarrow> take m (drop o' (take n (drop base d))) = take m (drop (base + o') d)"
  by (simp add: drop_take min_def add.commute)

lemma take_pair: "Suc i < length xs \<Longrightarrow> take 2 (drop i xs) = [xs ! i, xs ! Suc i]"
  by (simp add: Cons_nth_drop_Suc [symmetric] numeral_2_eq_2)

lemma zfs_scan_iff:
  "zfs_scan buf off \<longleftrightarrow> (\<exists>i. off + 1024 * i + 8 \<le> length buf \<and> zfs_magic (take 8 (drop (off + 1024 * i) buf)))"
proof (induction buf off rule: zfs_scan.induct)
  case (1 buf off)
  show ?case
  proof (cases "off + 8 \<le> length buf")
    case True
    have "zfs_scan buf off \<longleftrightarrow> zfs_magic (take 8 (drop off buf)) \<or> zfs_scan buf (off + ZFS_UB_MIN_SLOT)"
      using True by (subst zfs_scan.simps) (simp add: zfs_magic_def Let_def)
    also have "\<dots> \<longleftrightarrow> (\<exists>i. off + 1024 * i + 8 \<le> length buf \<and> zfs_magic (take 8 (drop (off + 1024 * i) buf)))" (is "_ \<longleftrightarrow> (\<exists>i. ?P i)")
    proof -
      have "zfs_scan buf (off + ZFS_UB_MIN_SLOT) \<longleftrightarrow> (\<exists>i. ?P (Suc i))"
        using 1 [OF True refl] by (simp add: ZFS_UB_MIN_SLOT_def add.assoc)
      moreover have "zfs_magic (take 8 (drop off buf)) \<longleftrightarrow> ?P 0" using True by simp
      ultimately show ?thesis by (metis not0_implies_Suc)
    qed
    finally show ?thesis .
  next
    case False
    then show ?thesis by (subst zfs_scan.simps) auto
  qed
qed

lemma div_ceil_bounds:
  fixes a b :: nat
  assumes "0 < b"
  shows "a \<le> div_ceil a b * b" "div_ceil a b * b < a + b" "b dvd a \<Longrightarrow> div_ceil a b * b = a"
proof -
  have e: "(a + b - 1) div b * b + (a + b - 1) mod b = a + b - 1" by simp
  have "(a + b - 1) mod b < b" using assms by simp
  then show "a \<le> div_ceil a b * b" "div_ceil a b * b < a + b"
    using e assms unfolding div_ceil_def by linarith+
  assume "b dvd a"
  then obtain k where k: "a = b * k" by (rule dvdE)
  have "a + b - 1 = (b - 1) + b * k" using assms k by simp
  moreover have "((b - 1) + b * k) div b = k" using assms by (subst div_mult_self2) simp_all
  ultimately show "div_ceil a b * b = a" using k by (simp add: div_ceil_def)
qed

text \<open>A device that serves every read inside its medium.\<close>

locale serving_device = block_device +
  assumes serves: "bs dvd n \<Longrightarrow> lba * bs + n \<le> length disk \<Longrightarrow> \<exists>b. bi_read_blocks fw h mid lba n = Ok b"
begin

lemma read_buf_serves:
  assumes "bs dvd n" "lba * bs + n \<le> length disk"
  shows "read_buf fw h mid lba n = (True, take n (drop (lba * bs) disk))"
proof -
  obtain b where b: "bi_read_blocks fw h mid lba n = Ok b" using serves [OF assms] by blast
  then have "b = take n (drop (lba * bs) disk)" using read_blocks [OF assms(2)] by simp
  moreover have "length b = n" using calculation assms(2) by simp
  ultimately show ?thesis using b by (simp add: read_buf_def)
qed

lemma read_buf_at:
  assumes "bs dvd 65536" "off + 131072 \<le> length disk" "n \<le> 65536"
  shows "read_buf fw h mid (off div bs) (div_ceil n bs * bs) =
     (True, take (div_ceil n bs * bs) (drop (off - off mod bs) disk))"
proof -
  have "bs \<le> 65536" using assms(1) by (rule dvd_imp_le) simp
  then have "div_ceil n bs * bs < 131072" using div_ceil_bounds(2) [OF block_size(1), of n] assms(3) by linarith
  moreover have e: "off div bs * bs = off - off mod bs" by (simp add: minus_mod_eq_div_mult [symmetric])
  ultimately have "off div bs * bs + div_ceil n bs * bs \<le> length disk" using assms(2) by linarith
  from read_buf_serves [OF _ this] show ?thesis unfolding e by simp
qed

text \<open>The pieces of the probe, each over the window of the medium it reads.\<close>

lemma ext4_window:
  assumes "0x78 + o' \<le> n" "base + n \<le> length disk"
  shows "parse_ext4_superblock (drop o' (take n (drop base disk))) =
    (if (from_le (take 2 (drop (base + o' + 0x38) disk)) :: u16) = 0xEF53
     then Some \<lparr>fi_fs_type = FsExt4, fi_uuid = Some (format_fs_uuid (take 16 (drop (base + o' + 0x68) disk)))\<rparr> else None)"
proof -
  let ?sb = "drop o' (take n (drop base disk))"
  have len: "\<not> length ?sb < 0x78" using assms by simp
  have "[?sb ! 0x38, ?sb ! 0x39] = take 2 (drop 0x38 ?sb)" using take_pair [of "0x38" ?sb] len by simp
  also have "\<dots> = take 2 (drop (base + o' + 0x38) disk)"
    using take_drop_window [of "o' + 0x38" 2 n base disk] assms by (simp add: add.assoc add.commute)
  finally have m: "[?sb ! 0x38, ?sb ! 0x39] = take 2 (drop (base + o' + 0x38) disk)" .
  have "take 16 (drop 0x68 ?sb) = take 16 (drop (base + o' + 0x68) disk)"
    using take_drop_window [of "o' + 0x68" 16 n base disk] assms by (simp add: add.assoc add.commute)
  then show ?thesis using len m by (simp add: parse_ext4_superblock_def)
qed

lemma slice_window:
  assumes "lo + m \<le> n" "base + n \<le> length disk"
  shows "slice_idx (take n (drop base disk)) lo (lo + m) = Ok (take m (drop (base + lo) disk))"
proof -
  have "length (take n (drop base disk)) = n" using assms(2) by simp
  then show ?thesis using assms(1) take_drop_window [OF assms(1), of base disk] by (subst slice_idx_Ok) simp_all
qed

lemma btrfs_window:
  assumes "0x200 \<le> n" "base + n \<le> length disk"
  shows "btrfs_at 0 (take n (drop base disk)) =
    Ok (if take 8 (drop (base + 0x40) disk) = BTRFS_MAGIC
        then Some \<lparr>fi_fs_type = FsBtrfs, fi_uuid = Some (format_fs_uuid (take 16 (drop (base + 0x20) disk)))\<rparr> else None)"
  using assms slice_window [of "0x40" 8 n base] slice_window [of "0x20" 16 n base] by (simp add: btrfs_at_def)

lemma xfs_window:
  assumes "0x68 \<le> n" "n \<le> length disk"
  shows "xfs_at (take n disk) =
    Ok (if take 4 disk = XFS_MAGIC
        then Some \<lparr>fi_fs_type = FsXfs, fi_uuid = Some (format_fs_uuid (take 16 (drop 0x20 disk)))\<rparr> else None)"
    "exfat_at (take n disk) =
    Ok (if take 8 (drop 3 disk) = EXFAT_MAGIC
        then Some \<lparr>fi_fs_type = FsExFat, fi_uuid = (let k = unat (from_le (take 4 (drop 100 disk)) :: u32) in
            Some (upper_hex4 (k div 65536) @ ''-'' @ upper_hex4 (k mod 65536)))\<rparr> else None)"
  using assms slice_window [of 0 4 n 0] slice_window [of "0x20" 16 n 0] slice_window [of 3 8 n 0]
    slice_window [of 100 4 n 0]
  by (simp_all add: xfs_at_def exfat_at_def Let_def)

lemma f2fs_window:
  assumes "o' + 0x7C \<le> n" "base + n \<le> length disk"
  shows "f2fs_at o' (take n (drop base disk)) =
    Ok (if take 4 (drop (base + o') disk) = F2FS_MAGIC
        then Some \<lparr>fi_fs_type = FsF2fs, fi_uuid = Some (format_fs_uuid (take 16 (drop (base + o' + 0x6C) disk)))\<rparr> else None)"
  using assms slice_window [of o' 4 n base] slice_window [of "o' + 0x6C" 16 n base]
  by (simp add: f2fs_at_def add.assoc add.commute)

lemma zfs_window:
  assumes "base + 131072 \<le> length disk"
  shows "zfs_scan (take 131072 (drop base disk)) 0 \<longleftrightarrow> (\<exists>i<128. zfs_magic (take 8 (drop (base + 1024 * i) disk)))"
proof -
  have len: "length (take 131072 (drop base disk)) = 131072" using assms by simp
  have w: "take 8 (drop (1024 * i) (take 131072 (drop base disk))) = take 8 (drop (base + 1024 * i) disk)"
    if "i < 128" for i using that take_drop_window [of "1024 * i" 8 131072 base disk] by simp
  have r: "1024 * i + 8 \<le> 131072 \<longleftrightarrow> i < 128" for i :: nat by auto
  show ?thesis unfolding zfs_scan_iff len using w by (auto simp: r)
qed

lemma or_else_Ok: "or_else (Ok x) (Ok y) = Ok (case x of None \<Rightarrow> y | Some v \<Rightarrow> Some v)"
  by (cases x) auto

lemma probe_is_superblock_of:
  assumes "bi_open fw True h = Ok media" "unat (bm_block_size media) = bs" "512 dvd bs" "bs dvd 65536"
    and "0x40000 \<le> length disk"
  shows "probe_superblock fw h = Ok (superblock_of disk)"
proof -
  let ?n = "div_ceil 4096 bs * bs" and ?b = "1024 - 1024 mod bs"
  have n: "4096 \<le> ?n" "?n < 131072"
    using div_ceil_bounds(1,2) [OF block_size(1), of 4096] dvd_imp_le [OF assms(4)] by linarith+
  have b: "?b + 1024 mod bs = 1024" "1024 mod bs \<le> 1024" by simp_all
  have z: "65536 mod bs = 0" "131072 mod bs = 0" "bs dvd 131072"
    using assms(4) dvd_mult [of bs 65536 2] by (simp_all add: dvd_imp_mod_0)
  have "512 \<le> bs" using assms(3) block_size(1) by (rule dvd_imp_le)
  then have x: "read_buf fw h m 0 (max bs 512) = (True, take bs disk)" "0x68 \<le> bs" "bs \<le> length disk" for m
    using read_buf_serves [of bs 0 m] dvd_imp_le [OF assms(4)] assms(5) by (simp_all add: max_def)
  have e: "read_buf fw h m (1024 div bs) ?n = (True, take ?n (drop ?b disk))"
    "read_buf fw h m (65536 div bs) ?n = (True, take ?n (drop 65536 disk))" for m
    using read_buf_at [OF assms(4), of 1024 4096 m] read_buf_at [OF assms(4), of 65536 4096 m] assms(5) z by simp_all
  have zf: "read_buf fw h m (131072 div bs) (div_ceil ZFS_UB_ARRAY_BYTES bs * bs) = (True, take 131072 (drop 131072 disk))" for m
    using read_buf_serves [OF z(3), of "131072 div bs" m] div_ceil_bounds(3) [OF block_size(1) z(3)] assms(5) z
    by (simp add: ZFS_UB_ARRAY_BYTES_def)
  have "1024 mod bs \<le> ?n" using n(1) b(2) by linarith
  then have l: "1024 mod bs \<le> length (take ?n (drop ?b disk))" using n(2) assms(5) by simp
  have p: "parse_ext4_superblock (drop (1024 mod bs) (take ?n (drop ?b disk))) =
      (if (from_le (take 2 (drop 0x438 disk)) :: u16) = 0xEF53
       then Some \<lparr>fi_fs_type = FsExt4, fi_uuid = Some (format_fs_uuid (take 16 (drop 0x468 disk)))\<rparr> else None)"
    using ext4_window [of "1024 mod bs" ?n ?b] n b assms(5) by simp
  have f: "f2fs_at (1024 mod bs) (take ?n (drop ?b disk)) =
      Ok (if take 4 (drop 0x400 disk) = F2FS_MAGIC
          then Some \<lparr>fi_fs_type = FsF2fs, fi_uuid = Some (format_fs_uuid (take 16 (drop 0x46C disk)))\<rparr> else None)"
    using f2fs_window [of "1024 mod bs" ?n ?b] n b assms(5) by simp
  have bt: "btrfs_at 0 (take ?n (drop 65536 disk)) =
      Ok (if take 8 (drop 0x10040 disk) = BTRFS_MAGIC
          then Some \<lparr>fi_fs_type = FsBtrfs, fi_uuid = Some (format_fs_uuid (take 16 (drop 0x10020 disk)))\<rparr> else None)"
    using btrfs_window [of ?n 65536] n assms(5) by simp
  show ?thesis
    unfolding probe_superblock_def assms(1,2) outcome.case Let_def
    using block_size(1) l zfs_window [of 131072] assms(5)
    by (simp add: e x zf z p f bt xfs_window or_else_Ok superblock_of_def Let_def)
qed

end

text \<open>Over a device that serves its medium, with a block size of 512 to 65536 bytes, the superblock probe
  gives what the magic numbers of the medium say, at their byte offsets and in the order of the probe: neither
  the block size nor the alignment of the reads matters, and no read runs off a buffer.\<close>

theorem superblock_probe_ignores_block_size:
  assumes "serving_device fw h bs disk" "bi_open fw True h = Ok media" "unat (bm_block_size media) = bs"
    and "512 dvd bs" "bs dvd 65536" "0x40000 \<le> length disk"
  shows "probe_superblock fw h = Ok (superblock_of disk)"
  by (rule serving_device.probe_is_superblock_of [OF assms])

text \<open>A medium of zeros with the magic of ext4, on a device with blocks of 4096 bytes.\<close>

definition ext4_disk :: bytes where
  "ext4_disk = replicate 0x438 0 @ [0x53, 0xEF] @ replicate 0x3FBC6 0"

lemma mem_serving_device:
  assumes "0 < bs" "bs dvd length disk" "length disk \<le> U64_MAX"
  shows "serving_device (mem_block_io bs disk) h bs disk"
  by (rule serving_device.intro [OF mem_block_device [OF assms]], unfold_locales) (auto simp: mem_block_io_def)

lemma ext4_disk_length: "length ext4_disk = 0x40000"
  by (simp add: ext4_disk_def)

interpretation ext4dev: serving_device "mem_block_io 4096 ext4_disk" h 4096 ext4_disk
  by (rule mem_serving_device) (simp_all add: ext4_disk_length U64_MAX_def)

theorem superblock_probe_ignores_block_size_witness:
  "\<exists>u. probe_superblock (mem_block_io 4096 ext4_disk) 0 = Ok (Some \<lparr>fi_fs_type = FsExt4, fi_uuid = u\<rparr>)"
proof -
  have "take 2 (drop 0x438 ext4_disk) = [0x53, 0xEF]" by (simp add: ext4_disk_def)
  then have "\<exists>u. superblock_of ext4_disk = Some \<lparr>fi_fs_type = FsExt4, fi_uuid = u\<rparr>"
    by (simp add: superblock_of_def Let_def from_le_def)
  moreover have opened: "bi_open (mem_block_io 4096 ext4_disk) True 0 =
      Ok \<lparr>bm_media_id = 1, bm_block_size = 4096, bm_last_block = 63\<rparr>"
    by (simp add: mem_block_io_def ext4_disk_length)
  moreover have "probe_superblock (mem_block_io 4096 ext4_disk) 0 = Ok (superblock_of ext4_disk)"
    by (rule superblock_probe_ignores_block_size [OF ext4dev.serving_device_axioms opened]) (simp_all add: ext4_disk_length)
  ultimately show ?thesis by simp
qed

end
