(* ===== verification/Discovery.thy ===== *)
theory Discovery
  imports Bls Uki Boot_Entry Partitions
begin

section \<open>Discovery of boot entries\<close>

text \<open>
  Model of \<open>lamboot-core/src/discovery.rs\<close> and \<open>discovery_pure.rs\<close>: the scan of all volumes for boot entries.  It
  composes the BLS scan, the reader of unified kernel images, the policy, the partition scan and the trust
  log.  \<open>disc_platform\<close> gathers what the code takes from the firmware and the build.  Only the reading of the
  metadata of unified kernel images can panic.

  The theorems: the entries of a scan have pairwise different keys and are, in order, the first ones found
  with their key; what the scanners of the ESP return exists and is allowed; the boot loader never offers the
  removable-media path it was itself started from.  And where the code does otherwise than it says: the key is
  a file name only, so kernels of different systems displace each other, and the policy is asked about
  unified kernel images with a spelling of their path that no documented pattern matches.
\<close>

subsection \<open>Names\<close>

definition bspath :: "string list \<Rightarrow> string" where
  "bspath ps = concat (map (\<lambda>p. bslash # p) ps)"

definition looks_like_distro_uuid_dir :: "string \<Rightarrow> bool" where
  "looks_like_distro_uuid_dir dirname =
     (case split_once (CHR ''-'') dirname of
        None \<Rightarrow> False
      | Some (name, suff) \<Rightarrow>
          name \<noteq> [] \<and> 4 \<le> length suff \<and> is_ascii_alphabetic (hd name) \<and>
          list_all (\<lambda>c. is_ascii_alphanumeric c \<or> c = CHR ''_'') name \<and>
          list_all (\<lambda>c. is_ascii_hexdigit c \<or> c = CHR ''-'') suff \<and>
          4 \<le> length (filter is_ascii_hexdigit suff))"

definition pretty_name_from_distro_uuid_dir :: "string \<Rightarrow> string" where
  "pretty_name_from_distro_uuid_dir dirname =
     (let pre = (case split_once (CHR ''-'') dirname of Some (a, b) \<Rightarrow> a | None \<Rightarrow> dirname) in
      if pre = ''Pop_OS'' then ''Pop!_OS'' else pre)"

definition forward_to_backslash :: "string \<Rightarrow> string" where
  "forward_to_backslash path = replace_char (CHR ''/'') bslash path"

definition last_component :: "string \<Rightarrow> string" where
  "last_component path = (case rsplit_once bslash path of Some (d, f) \<Rightarrow> f | None \<Rightarrow> path)"

definition extract_filename_lower :: "string \<Rightarrow> string" where
  "extract_filename_lower path = to_lowercase (last_component path)"

definition extract_filename :: "string \<Rightarrow> string" where
  "extract_filename path = trim_end_matches ''.efi'' (last_component path)"

subsection \<open>Platform\<close>

record disc_platform =
  dc_target :: target_arch
  dc_show_err :: "FsError \<Rightarrow> string"
  dc_image :: image_env
  dc_sha :: "bytes \<Rightarrow> bytes"
  dc_parts :: part_firmware

definition volume_read_dir :: "string \<Rightarrow> 's volume \<Rightarrow> (DirEntry list, FsError) outcome" where
  "volume_read_dir p v = bk_read_dir (vol_backend v) (vol_store v) p"

definition mk_entry :: "string \<Rightarrow> string \<Rightarrow> EntryKind \<Rightarrow> Icon \<Rightarrow> BootEntry" where
  "mk_entry i name kind icon =
     \<lparr>en_id = i, en_name = name, en_kind = kind, en_icon = icon, en_bls_filename = None, en_preflight = None,
      en_source_volume_index = 0, en_source_backend_tag = []\<rparr>"

definition stamp :: "nat \<Rightarrow> string \<Rightarrow> BootEntry \<Rightarrow> BootEntry" where
  "stamp i tag e = e\<lparr>en_source_volume_index := i, en_source_backend_tag := tag\<rparr>"

subsection \<open>Duplicates\<close>

text \<open>Entries with the file name and the contents of an earlier one are dropped; with the same name and other
  contents both are kept and the anomaly is logged.\<close>

definition duplicate_note :: "BlsEntry \<Rightarrow> BlsEntry \<Rightarrow> string" where
  "duplicate_note e entry =
     ''volume_a='' @ dec (be_source_volume_index e) @ '' backend_a='' @ be_source_backend_tag e @
     '' volume_b='' @ dec (be_source_volume_index entry) @ '' backend_b='' @ be_source_backend_tag entry"

definition dedup_bls_step :: "BlsEntry \<Rightarrow> BlsEntry list \<times> TrustLog \<Rightarrow> BlsEntry list \<times> TrustLog" where
  "dedup_bls_step entry = (\<lambda>(deduped, l).
     case find (\<lambda>e. eq_ignore_ascii_case (be_filename e) (be_filename entry)) deduped of
       Some e \<Rightarrow>
         if content_eq e entry then (deduped, l)
         else (deduped @ [entry],
               tl_record (with_note (duplicate_note e entry)
                 (with_path (be_filename entry) (te_new ''bls_duplicate_filename''))) l)
     | None \<Rightarrow> (deduped @ [entry], l))"

definition dedup_bls_entries :: "BlsEntry list \<Rightarrow> TrustLog \<Rightarrow> BlsEntry list \<times> TrustLog" where
  "dedup_bls_entries entries l = fold dedup_bls_step entries ([], l)"

fun dedup_key :: "EntryKind \<Rightarrow> string" where
  "dedup_key (Chainload p) = extract_filename_lower p"
| "dedup_key (Uki p opts) = extract_filename_lower p"
| "dedup_key (LinuxLegacy k i opts) = extract_filename_lower k"
| "dedup_key (Iso (IsoFile p)) = extract_filename_lower p"
| "dedup_key (Iso (IsoOptical h label)) = ''optical:'' @ to_lowercase label"

fun retain_new :: "string list \<Rightarrow> BootEntry list \<Rightarrow> BootEntry list" where
  "retain_new seen [] = []"
| "retain_new seen (e # es) =
     (if dedup_key (en_kind e) \<in> set seen then retain_new seen es
      else e # retain_new (seen @ [dedup_key (en_kind e)]) es)"

definition dedup_entries :: "BootEntry list \<Rightarrow> BootEntry list" where
  "dedup_entries entries = retain_new [] entries"

subsection \<open>The cohort split\<close>

record CohortGroup =
  cg_with_sort_key :: nat
  cg_without_sort_key :: nat
  cg_highest_in_without :: "string option"
  cg_highest_in_with :: "string option"

record CohortSplit =
  cs_notice :: string
  cs_with_sort_key :: nat
  cs_without_sort_key :: nat
  cs_highest_version_without :: "string option"

definition empty_group :: CohortGroup where
  "empty_group = \<lparr>cg_with_sort_key = 0, cg_without_sort_key = 0, cg_highest_in_without = None, cg_highest_in_with = None\<rparr>"

definition newest :: "string option \<Rightarrow> string option \<Rightarrow> string option" where
  "newest cur ver =
     (case ver of
        None \<Rightarrow> cur
      | Some v \<Rightarrow>
          (case cur of None \<Rightarrow> Some v | Some c \<Rightarrow> if version_compare v c = Greater then Some v else cur))"

definition update_group :: "BlsEntry \<Rightarrow> CohortGroup \<Rightarrow> CohortGroup" where
  "update_group e g =
     (if be_sort_key e \<noteq> None
      then g\<lparr>cg_with_sort_key := cg_with_sort_key g + 1, cg_highest_in_with := newest (cg_highest_in_with g) (be_version e)\<rparr>
      else g\<lparr>cg_without_sort_key := cg_without_sort_key g + 1,
             cg_highest_in_without := newest (cg_highest_in_without g) (be_version e)\<rparr>)"

text \<open>The ordered map of the groups: \<open>entry(k).or_insert(d)\<close> followed by an update.\<close>

fun upsert :: "'k::linorder \<Rightarrow> 'v \<Rightarrow> ('v \<Rightarrow> 'v) \<Rightarrow> ('k \<times> 'v) list \<Rightarrow> ('k \<times> 'v) list" where
  "upsert k d f [] = [(k, f d)]"
| "upsert k d f ((k', v) # m) =
     (if k = k' then (k, f v) # m
      else if k < k' then (k, f d) # (k', v) # m
      else (k', v) # upsert k d f m)"

definition group_entry :: "BlsEntry \<Rightarrow> (string \<times> CohortGroup) list \<Rightarrow> (string \<times> CohortGroup) list" where
  "group_entry e groups =
     (case be_machine_id e of
        None \<Rightarrow> groups
      | Some mid \<Rightarrow> if mid = [] then groups else upsert mid empty_group (update_group e) groups)"

definition split_notice :: "CohortGroup \<Rightarrow> string" where
  "split_notice g =
     ''cohort split: '' @ dec (cg_with_sort_key g) @ '' entries with sort-key, '' @ dec (cg_without_sort_key g) @
     '' without; newest in sort-key-less is '' @
     (case cg_highest_in_without g of Some v \<Rightarrow> v | None \<Rightarrow> ''?'') @
     '' '' @ [CHR 0xE2, CHR 0x80, CHR 0x94] @
     '' set bls_ignore_sort_key=true or default_pattern in policy.toml to override''"

definition mixed :: "CohortGroup \<Rightarrow> bool" where
  "mixed g \<longleftrightarrow> 0 < cg_with_sort_key g \<and> 0 < cg_without_sort_key g"

definition detect_cohort_split :: "BlsEntry list \<Rightarrow> CohortSplit option" where
  "detect_cohort_split es =
     map_option (\<lambda>(mid, g).
       \<lparr>cs_notice = split_notice g, cs_with_sort_key = cg_with_sort_key g,
        cs_without_sort_key = cg_without_sort_key g, cs_highest_version_without = cg_highest_in_without g\<rparr>)
     (find (\<lambda>(mid, g). mixed g) (fold group_entry es []))"

subsection \<open>Images\<close>

definition iso_entries_of :: "string \<Rightarrow> 's volume \<Rightarrow> BootEntry list" where
  "iso_entries_of dir v =
     (case path_from_str dir of
        Ok p \<Rightarrow>
          (case volume_read_dir p v of
             Ok listing \<Rightarrow>
               map (\<lambda>de. mk_entry (''iso-'' @ de_name de) (''ISO: '' @ de_name de)
                      (Iso (IsoFile (dir @ ''/'' @ de_name de))) IconLinux)
                 (filter (\<lambda>de. de_kind de \<noteq> Directory \<and> suffix ''.iso'' (to_lowercase (de_name de))) listing)
           | _ \<Rightarrow> [])
      | _ \<Rightarrow> [])"

definition discover_iso_files :: "'s volume \<Rightarrow> BootEntry list" where
  "discover_iso_files v = concat (map (\<lambda>dir. iso_entries_of dir v) [''/isos'', ''/boot/isos''])"

definition optical_entry :: "nat \<times> string \<Rightarrow> BootEntry" where
  "optical_entry = (\<lambda>(handle, label).
     (mk_entry (''optical-'' @ to_lowercase label) (''Optical: '' @ (if label = [] then ''optical disc'' else label))
        (Iso (IsoOptical handle label)) IconLinux)\<lparr>en_source_backend_tag := ''optical''\<rparr>)"

definition discover_optical :: "part_firmware \<Rightarrow> TrustLog \<Rightarrow> BootEntry list \<times> TrustLog" where
  "discover_optical fw l =
     (let discs = scan_optical_handles fw in
      (map optical_entry discs,
       fold (\<lambda>(h, label). tl_record (with_note (''label='' @ label) (te_new ''iso_optical_discovered''))) discs l))"

subsection \<open>Scanners of the ESP\<close>

definition WINDOWS_PATH :: string where
  "WINDOWS_PATH = bspath [''EFI'', ''Microsoft'', ''Boot'', ''bootmgfw.efi'']"

definition discover_windows :: "Policy \<Rightarrow> 's volume \<Rightarrow> BootEntry list" where
  "discover_windows policy esp =
     (if exists_str WINDOWS_PATH esp \<and> allowed policy WINDOWS_PATH
      then [mk_entry ''windows'' ''Windows Boot Manager'' (Chainload WINDOWS_PATH) IconWindows] else [])"

definition uki_name :: "string \<Rightarrow> UkiMetadata option \<Rightarrow> string" where
  "uki_name path metadata =
     (case metadata of
        Some m \<Rightarrow>
          (case um_os_name m of
             Some os \<Rightarrow> (case um_kernel_version m of Some kv \<Rightarrow> os @ '' ('' @ kv @ '')'' | None \<Rightarrow> os)
           | None \<Rightarrow> ''Linux ('' @ extract_filename path @ '')'')
      | None \<Rightarrow> ''Linux ('' @ extract_filename path @ '')'')"

fun uki_entries :: "Policy \<Rightarrow> string list \<Rightarrow> BootEntry list \<Rightarrow> ('s volume, BootEntry list, unit) act" where
  "uki_entries policy [] entries = aret entries"
| "uki_entries policy (path # paths) entries =
     (if \<not> allowed policy path then uki_entries policy paths entries
      else abind (read_uki_metadata path) (\<lambda>metadata.
        let options = (case metadata of
              Some m \<Rightarrow> (case um_cmdline m of Some c \<Rightarrow> c | None \<Rightarrow> []) | None \<Rightarrow> []) in
        uki_entries policy paths
          (entries @ [mk_entry (''uki-'' @ dec (length entries)) (uki_name path metadata) (Uki path options) IconLinux])))"

definition extract_uki_version :: "BootEntry \<Rightarrow> string" where
  "extract_uki_version e =
     (case rsplit_once (CHR ''('') (en_name e) of
        Some (before_open, after_open) \<Rightarrow>
          (case rsplit_once (CHR '')'') (en_name e) of
             Some (before_close, after_close) \<Rightarrow>
               if length before_open < length before_close
               then drop (length before_open + 1) before_close else en_id e
           | None \<Rightarrow> en_id e)
      | None \<Rightarrow> en_id e)"

definition UKI_GLOB :: string where "UKI_GLOB = ''/EFI/Linux/*.efi''"

definition discover_linux_uki :: "Policy \<Rightarrow> ('s volume, BootEntry list, unit) act" where
  "discover_linux_uki policy esp =
     abind (uki_entries policy (volume_glob UKI_GLOB esp) []) (\<lambda>entries.
       aret (sort_by (\<lambda>a b. ord_reverse (version_compare (extract_uki_version a) (extract_uki_version b))) entries)) esp"

definition BOOTX64_PATH :: string where "BOOTX64_PATH = bspath [''EFI'', ''BOOT'', ''BOOTX64.EFI'']"

definition LOADERS :: "(string \<times> string \<times> string) list" where
  "LOADERS =
     [(bspath [''EFI'', ''grub'', ''grubx64.efi''], ''grub'', ''GRUB Bootloader''),
      (bspath [''EFI'', ''refind'', ''refind_x64.efi''], ''refind'', ''rEFInd Boot Manager''),
      (BOOTX64_PATH, ''fallback'', ''EFI Fallback'')]"

definition self_loop :: "disc_platform \<Rightarrow> bytes option \<Rightarrow> 's volume \<Rightarrow> 's volume \<times> bool" where
  "self_loop dc self_image_sha256 esp =
     (if booted_via_removable_fallback (dc_image dc) then (esp, True)
      else case self_image_sha256 of
        None \<Rightarrow> (esp, False)
      | Some self_hash \<Rightarrow>
          (case path_from_str ''/EFI/BOOT/BOOTX64.EFI'' of
             Ok p \<Rightarrow>
               (case volume_read p esp of
                  (esp', Ok data) \<Rightarrow> (esp', dc_sha dc data = self_hash)
                | (esp', _) \<Rightarrow> (esp', False))
           | _ \<Rightarrow> (esp, False)))"

fun loader_entries ::
  "disc_platform \<Rightarrow> Policy \<Rightarrow> bytes option \<Rightarrow> (string \<times> string \<times> string) list \<Rightarrow> 's volume \<Rightarrow> 's volume \<times> BootEntry list" where
  "loader_entries dc policy self_hash [] esp = (esp, [])"
| "loader_entries dc policy self_hash ((path, i, name) # ls) esp =
     (if \<not> (exists_str path esp \<and> allowed policy path) then loader_entries dc policy self_hash ls esp
      else
        let (esp1, skip) = (if path = BOOTX64_PATH then self_loop dc self_hash esp else (esp, False));
            (esp2, rest) = loader_entries dc policy self_hash ls esp1 in
        (esp2, if skip then rest else mk_entry i name (Chainload path) IconEfi # rest))"

definition discover_other_loaders ::
  "disc_platform \<Rightarrow> Policy \<Rightarrow> bytes option \<Rightarrow> 's volume \<Rightarrow> 's volume \<times> BootEntry list" where
  "discover_other_loaders dc policy self_hash esp = loader_entries dc policy self_hash LOADERS esp"

text \<open>A directory \<open>EFI/name-uuid\<close> with a kernel and, next to it, a command line or an initrd.\<close>

definition dir_entries :: "Policy \<Rightarrow> DirEntry \<Rightarrow> 's volume \<Rightarrow> 's volume \<times> BootEntry list" where
  "dir_entries policy de esp =
     (let dir = ''/EFI/'' @ de_name de; kpath = dir @ ''/vmlinuz.efi''; ipath = dir @ ''/initrd.img'';
          prev_kpath = dir @ ''/vmlinuz-previous.efi''; prev_ipath = dir @ ''/initrd.img-previous'';
          bs = forward_to_backslash in
      if de_kind de = Regular \<or> de_kind de = Symlink then (esp, [])
      else if \<not> looks_like_distro_uuid_dir (de_name de) then (esp, [])
      else if \<not> exists_str kpath esp then (esp, [])
      else if \<not> allowed policy (bs kpath) then (esp, [])
      else
        let (esp', r) = read_to_string_str (dir @ ''/cmdline'') esp;
            cmdline = trim (case r of Ok s \<Rightarrow> s | _ \<Rightarrow> []);
            initrds = (if exists_str ipath esp' then [bs ipath] else []);
            display = pretty_name_from_distro_uuid_dir (de_name de);
            i = ''sdboot-'' @ de_name de in
        if cmdline = [] \<and> initrds = [] then (esp', [])
        else
          (esp',
           mk_entry i display (LinuxLegacy (bs kpath) initrds cmdline) IconLinux #
           (if exists_str prev_kpath esp' \<and> allowed policy (bs prev_kpath)
            then [mk_entry (i @ ''-previous'') (display @ '' (previous kernel)'')
                   (LinuxLegacy (bs prev_kpath) (if exists_str prev_ipath esp' then [bs prev_ipath] else []) cmdline)
                   IconLinux]
            else [])))"

fun all_dir_entries :: "Policy \<Rightarrow> DirEntry list \<Rightarrow> 's volume \<Rightarrow> 's volume \<times> BootEntry list" where
  "all_dir_entries policy [] esp = (esp, [])"
| "all_dir_entries policy (de # des) esp =
     (let (esp1, es) = dir_entries policy de esp; (esp2, rest) = all_dir_entries policy des esp1 in (esp2, es @ rest))"

definition discover_systemd_boot_dir_style :: "Policy \<Rightarrow> 's volume \<Rightarrow> 's volume \<times> BootEntry list" where
  "discover_systemd_boot_dir_style policy esp =
     (case path_from_str ''/EFI'' of
        Ok p \<Rightarrow>
          (case volume_read_dir p esp of
             Ok dirs \<Rightarrow>
               let (esp', es) = all_dir_entries policy dirs esp in (esp', sort_by (\<lambda>a b. rcmp (en_id a) (en_id b)) es)
           | _ \<Rightarrow> (esp, []))
      | _ \<Rightarrow> (esp, []))"

subsection \<open>Tools\<close>

definition manifest_line :: "string \<Rightarrow> (string \<times> string) list \<times> string option \<Rightarrow> (string \<times> string) list \<times> string option" where
  "manifest_line raw = (\<lambda>(modules, current).
     let line = trim raw in
     if line = [] \<or> prefix ''#'' line then (modules, current)
     else if prefix ''[modules.'' line then
       (case rsplit_once (CHR '']'') line of
          Some (head, rest) \<Rightarrow> (modules, Some (drop 9 head))
        | None \<Rightarrow> (modules, current))
     else case current of
       None \<Rightarrow> (modules, current)
     | Some module_id \<Rightarrow>
         (case split_once (CHR ''='') line of
            Some (key, value) \<Rightarrow>
              if trim key = ''name'' then (modules @ [(module_id, trim_matches (CHR 0x22) (trim value))], current)
              else (modules, current)
          | None \<Rightarrow> (modules, current)))"

definition MANIFEST_PATH :: string where
  "MANIFEST_PATH = bspath [''EFI'', ''LamBoot'', ''modules'', ''manifest.toml'']"

definition load_module_manifest :: "'s volume \<Rightarrow> 's volume \<times> (string \<times> string) list" where
  "load_module_manifest esp =
     (case read_to_string_str MANIFEST_PATH esp of
        (esp', Ok content) \<Rightarrow> (esp', fst (fold manifest_line (str_lines content) ([], None)))
      | (esp', _) \<Rightarrow> (esp', []))"

definition tool_entry :: "(string \<times> string) list \<Rightarrow> string \<Rightarrow> BootEntry" where
  "tool_entry manifest path =
     (let filename = extract_filename path in
      mk_entry (''tool-'' @ filename)
        (case find (\<lambda>(i, n). i = filename) manifest of Some (i, n) \<Rightarrow> n | None \<Rightarrow> ''Tool: '' @ filename)
        (Chainload path) IconTools)"

definition TOOLS_GLOB :: string where "TOOLS_GLOB = ''/EFI/LamBoot/modules/*.efi''"

definition discover_tools :: "Policy \<Rightarrow> 's volume \<Rightarrow> 's volume \<times> BootEntry list" where
  "discover_tools policy esp =
     (if \<not> po_modules_enabled policy then (esp, [])
      else let (esp', manifest) = load_module_manifest esp in
        (esp', map (tool_entry manifest) (filter (allowed policy) (volume_glob TOOLS_GLOB esp'))))"

subsection \<open>All entries\<close>

record DiscoveryResult =
  ds_entries :: "BootEntry list"
  ds_cohort_split :: "CohortSplit option"

fun scan_all_bls ::
  "disc_platform \<Rightarrow> Policy \<Rightarrow> nat \<Rightarrow> 's volume list \<Rightarrow> TrustLog \<Rightarrow> 's volume list \<times> TrustLog \<times> BlsEntry list" where
  "scan_all_bls dc policy i [] l = ([], l, [])"
| "scan_all_bls dc policy i (v # vs) l =
     (let (v', l1, es) = scan_volume_for_bls (dc_target dc) (dc_show_err dc) i policy (v, l);
          (vs', l2, rest) = scan_all_bls dc policy (Suc i) vs l1 in
      (v' # vs', l2, es @ rest))"

definition split_event :: "CohortSplit \<Rightarrow> TrustEvent" where
  "split_event s =
     with_note (''with_sort_key='' @ dec (cs_with_sort_key s) @ '' without_sort_key='' @ dec (cs_without_sort_key s) @
       '' highest_in_without='' @ (case cs_highest_version_without s of Some v \<Rightarrow> v | None \<Rightarrow> ''?''))
     (te_new ''cohort_split_detected'')"

definition all_iso_entries :: "'s volume list \<Rightarrow> BootEntry list" where
  "all_iso_entries vs =
     concat (map (\<lambda>(i, v). map (stamp i (vol_backend_tag v)) (discover_iso_files v)) (enumerate 0 vs))"

text \<open>The scanners of the ESP, in order.\<close>

definition discover_esp ::
  "disc_platform \<Rightarrow> Policy \<Rightarrow> bytes option \<Rightarrow> ('s volume, BootEntry list, unit) act" where
  "discover_esp dc policy self_hash esp =
     (let tag = vol_backend_tag esp in
      case discover_linux_uki policy esp of
        (esp1, Ok ukis) \<Rightarrow>
          let (esp2, dirs) = discover_systemd_boot_dir_style policy esp1;
              (esp3, loaders) = discover_other_loaders dc policy self_hash esp2;
              (esp4, tools) = discover_tools policy esp3 in
          (esp4, Ok (map (stamp 0 tag) (discover_windows policy esp @ ukis @ dirs @ loaders @ tools)))
      | (esp1, Err e) \<Rightarrow> (esp1, Err e)
      | (esp1, Panic) \<Rightarrow> (esp1, Panic))"

definition discover_all_entries ::
  "disc_platform \<Rightarrow> Policy \<Rightarrow> bytes option \<Rightarrow> ('s volume list \<times> TrustLog, DiscoveryResult, unit) act" where
  "discover_all_entries dc policy self_hash = (\<lambda>(vols, l).
     let (vols1, l1, found) = scan_all_bls dc policy 0 vols l;
         (bls, l2) = dedup_bls_entries found l1;
         split = detect_cohort_split bls;
         l3 = (case split of None \<Rightarrow> l2 | Some s \<Rightarrow> tl_record (split_event s) l2);
         isos = (if po_iso_enabled policy then all_iso_entries vols1 else []);
         (optical, l4) = (if po_iso_optical_enabled policy then discover_optical (dc_parts dc) l3 else ([], l3));
         found_so_far = map to_boot_entry bls @ isos @ optical;
         result = (\<lambda>es. \<lparr>ds_entries = dedup_entries es, ds_cohort_split = split\<rparr>) in
     case vols1 of
       [] \<Rightarrow> ((vols1, l4), Ok (result found_so_far))
     | esp # extra \<Rightarrow>
         (case discover_esp dc policy self_hash esp of
            (esp', Ok es) \<Rightarrow> ((esp' # extra, l4), Ok (result (found_so_far @ es)))
          | (esp', Err e) \<Rightarrow> ((esp' # extra, l4), Err e)
          | (esp', Panic) \<Rightarrow> ((esp' # extra, l4), Panic)))"

subsection \<open>The keys of the entries are distinct\<close>

definition entry_key :: "BootEntry \<Rightarrow> string" where "entry_key e = dedup_key (en_kind e)"

lemma retain_new_keys:
  "entry_key ` set (retain_new seen es) = entry_key ` set es - set seen"
  by (induction seen es rule: retain_new.induct) (auto simp: entry_key_def)

lemma retain_new_distinct: "distinct (map entry_key (retain_new seen es))"
proof (induction seen es rule: retain_new.induct)
  case (2 seen e es)
  then show ?case
    using retain_new_keys [of "seen @ [entry_key e]" es] by (auto simp: entry_key_def)
qed simp

lemma retain_new_subseq: "subseq (retain_new seen es) es"
  by (induction seen es rule: retain_new.induct) (auto intro: subseq_Cons')

lemma retain_new_find:
  "find (\<lambda>e. entry_key e = k) (retain_new seen es) =
   (if k \<in> set seen then None else find (\<lambda>e. entry_key e = k) es)"
proof (induction seen es rule: retain_new.induct)
  case (2 seen e es)
  then show ?case by (auto simp: entry_key_def)
qed simp

text \<open>C29: the list of a scan keeps the order of the entries found, holds no two with the same key, and for
  every key holds the first entry found with it: a BLS entry, found first, wins over every other.\<close>

theorem dedup_entries_spec:
  "subseq (dedup_entries es) es \<and> distinct (map entry_key (dedup_entries es)) \<and>
   (\<forall>k. find (\<lambda>e. entry_key e = k) (dedup_entries es) = find (\<lambda>e. entry_key e = k) es)"
  by (simp add: dedup_entries_def retain_new_subseq retain_new_distinct retain_new_find)

lemma dedup_entries_length: "length (dedup_entries es) \<le> card (entry_key ` set es)"
  using retain_new_distinct [of "[]" es] retain_new_keys [of "[]" es]
  by (simp add: dedup_entries_def distinct_card flip: set_map)
    (metis distinct_card length_map list.set_map order_refl)

subsection \<open>One key for all systems in directories\<close>

lemma last_component_append: "bslash \<notin> set f \<Longrightarrow> last_component (a @ bslash # f) = f"
  by (simp add: last_component_def rsplit_once_last)

definition dir_keys :: "string set" where "dir_keys = {''vmlinuz.efi'', ''vmlinuz-previous.efi''}"

lemma forward_to_backslash_file:
  assumes "CHR ''/'' \<notin> set f" "bslash \<notin> set f"
  shows "extract_filename_lower (forward_to_backslash (d @ CHR ''/'' # f)) = to_lowercase f"
proof -
  have "replace_char (CHR ''/'') bslash f = f"
    using assms by (auto simp: replace_char_def intro: map_idI)
  then show ?thesis
    using assms by (simp add: extract_filename_lower_def forward_to_backslash_def replace_char_def last_component_append)
qed

lemma to_lowercase_id: "list_all (\<lambda>c. ascii_lower c = c) f \<Longrightarrow> to_lowercase f = f"
  by (induction f) auto

lemma dir_kernel_keys:
  "extract_filename_lower (forward_to_backslash (d @ ''/vmlinuz.efi'')) = ''vmlinuz.efi''"
  "extract_filename_lower (forward_to_backslash (d @ ''/vmlinuz-previous.efi'')) = ''vmlinuz-previous.efi''"
  using forward_to_backslash_file [of "''vmlinuz.efi''" d] forward_to_backslash_file [of "''vmlinuz-previous.efi''" d]
  by (simp_all add: bslash_def ascii_lower_def)

lemma dir_entries_keys: "entry_key ` set (snd (dir_entries policy de esp)) \<subseteq> dir_keys"
  using dir_kernel_keys [of "''/EFI/'' @ de_name de"]
  by (auto simp: dir_entries_def Let_def entry_key_def mk_entry_def dir_keys_def split: prod.splits if_splits)

lemma snd_all_dir_entries_Cons:
  "snd (all_dir_entries policy (de # des) esp) =
   snd (dir_entries policy de esp) @ snd (all_dir_entries policy des (fst (dir_entries policy de esp)))"
  by (simp add: Let_def case_prod_beta del: prod.case_eq_if)

lemma snd_discover_dirs:
  obtains "snd (discover_systemd_boot_dir_style policy esp) = []"
  | des where "snd (discover_systemd_boot_dir_style policy esp) =
      sort_by (\<lambda>a b. rcmp (en_id a) (en_id b)) (snd (all_dir_entries policy des esp))"
proof (cases "path_from_str ''/EFI''")
  case (Ok p)
  then show thesis
    using that by (cases "volume_read_dir p esp") (auto simp: discover_systemd_boot_dir_style_def Let_def case_prod_beta)
qed (use that in \<open>auto simp: discover_systemd_boot_dir_style_def\<close>)

lemma all_dir_entries_keys: "entry_key ` set (snd (all_dir_entries policy des esp)) \<subseteq> dir_keys"
proof (induction des arbitrary: esp)
  case (Cons de des)
  then show ?case
    using dir_entries_keys [of policy de esp] by (simp only: snd_all_dir_entries_Cons set_append image_Un Un_least)
qed simp

text \<open>C32: however many systems are installed in the directory style, at most two of their entries, one
  current and one previous kernel, survive the removal of duplicates: the key is the name of the kernel file,
  which is the same in all their directories.\<close>

theorem dir_style_systems_collapse:
  "length (dedup_entries (snd (discover_systemd_boot_dir_style policy esp))) \<le> 2"
proof -
  let ?es = "snd (discover_systemd_boot_dir_style policy esp)"
  have "entry_key ` set ?es \<subseteq> dir_keys"
    by (rule snd_discover_dirs [of policy esp]) (simp_all add: all_dir_entries_keys)
  then have "card (entry_key ` set ?es) \<le> card dir_keys"
    by (intro card_mono) (simp_all add: dir_keys_def)
  then show ?thesis
    using dedup_entries_length [of ?es] by (simp add: dir_keys_def card_insert_if)
qed

subsection \<open>The policy and the entries of the ESP\<close>

text \<open>The path an entry starts.\<close>

fun boot_path :: "EntryKind \<Rightarrow> string" where
  "boot_path (Chainload p) = p"
| "boot_path (Uki p opts) = p"
| "boot_path (LinuxLegacy k i opts) = k"
| "boot_path (Iso (IsoFile p)) = p"
| "boot_path (Iso (IsoOptical h label)) = []"

definition offered :: "Policy \<Rightarrow> BootEntry \<Rightarrow> bool" where
  "offered policy e = allowed policy (boot_path (en_kind e))"

lemma offered_mk_entry [simp]:
  "offered policy (mk_entry i n (Chainload p) c) = allowed policy p"
  "offered policy (mk_entry i n (Uki p opts) c) = allowed policy p"
  "offered policy (mk_entry i n (LinuxLegacy p ini opts) c) = allowed policy p"
  "offered policy (stamp k tag e) = offered policy e"
  by (simp_all add: offered_def mk_entry_def stamp_def)

lemma uki_entries_offered:
  "uki_entries policy paths es v = (v', Ok es') \<Longrightarrow> list_all (offered policy) es \<Longrightarrow> list_all (offered policy) es'"
  by (induction policy paths es arbitrary: v rule: uki_entries.induct)
    (auto simp: act_simps Let_def split: if_splits)

lemma discover_linux_uki_offered:
  "discover_linux_uki policy v = (v', Ok es) \<Longrightarrow> list_all (offered policy) es"
  by (auto simp: discover_linux_uki_def act_simps list_all_iff dest!: uki_entries_offered)

lemma dir_entries_offered: "list_all (offered policy) (snd (dir_entries policy de esp))"
  by (auto simp: dir_entries_def Let_def split: prod.splits)

lemma all_dir_entries_offered: "list_all (offered policy) (snd (all_dir_entries policy des esp))"
proof (induction des arbitrary: esp)
  case (Cons de des)
  then show ?case
    using dir_entries_offered [of policy de esp] by (simp only: snd_all_dir_entries_Cons list_all_append simp_thms)
qed simp

lemma discover_dirs_offered: "list_all (offered policy) (snd (discover_systemd_boot_dir_style policy esp))"
proof (rule snd_discover_dirs [of policy esp])
  fix des
  assume "snd (discover_systemd_boot_dir_style policy esp) =
    sort_by (\<lambda>a b. rcmp (en_id a) (en_id b)) (snd (all_dir_entries policy des esp))"
  then show ?thesis using all_dir_entries_offered [of policy des esp] by (simp add: list_all_iff)
qed simp

lemma loader_entries_offered: "list_all (offered policy) (snd (loader_entries dc policy h ls esp))"
proof (induction ls arbitrary: esp)
  case (Cons l ls)
  obtain p i n where l: "l = (p, i, n)" by (cases l)
  show ?case using Cons by (simp add: l Let_def case_prod_beta)
qed simp

lemma discover_tools_offered: "list_all (offered policy) (snd (discover_tools policy esp))"
  by (auto simp: discover_tools_def Let_def list_all_iff tool_entry_def split: prod.splits)

lemma discover_windows_offered: "list_all (offered policy) (discover_windows policy esp)"
  by (simp add: discover_windows_def)

text \<open>C30: every entry the scanners of the ESP return starts a path that the policy allows.\<close>

theorem esp_entries_are_allowed:
  "list_all (offered policy) (case snd (discover_esp dc policy h esp) of Ok es \<Rightarrow> es | _ \<Rightarrow> [])"
proof (cases "discover_linux_uki policy esp")
  case (Pair esp1 r)
  show ?thesis
  proof (cases r)
    case (Ok ukis)
    have "list_all (offered policy) ukis" using Pair Ok discover_linux_uki_offered by blast
    then show ?thesis
      by (simp add: discover_esp_def Pair Ok Let_def discover_other_loaders_def case_prod_beta list.pred_map comp_def
          discover_windows_offered discover_dirs_offered loader_entries_offered discover_tools_offered)
  qed (simp_all add: discover_esp_def Pair)
qed

subsection \<open>Two spellings of a path\<close>

lemma ascii_lower_bslash [simp]: "ascii_lower c = bslash \<longleftrightarrow> c = bslash"
proof -
  have "char_of (n + 32) \<noteq> bslash" if "65 \<le> n" "n \<le> 90" for n :: nat
  proof
    assume "char_of (n + 32) = bslash"
    then have "of_char (char_of (n + 32)) = (92 :: nat)" by (simp add: bslash_def)
    then show False using that by (simp add: mod_less)
  qed
  then show ?thesis by (auto simp: ascii_lower_def bslash_def)
qed

lemma bslash_lowercase [simp]: "bslash \<in> set (to_lowercase s) \<longleftrightarrow> bslash \<in> set s"
  by (induction s) (auto simp: eq_commute [of bslash])

lemma path_matches_bslash:
  assumes m: "path_matches_pattern path pattern" and b: "bslash \<in> set pattern"
  shows "bslash \<in> set path"
proof -
  let ?p = "to_lowercase path" and ?q = "to_lowercase pattern"
  have q: "bslash \<in> set ?q" using b by simp
  have star: "CHR ''*'' \<noteq> bslash" by (simp add: bslash_def)
  have both: "bslash \<in> set (take (length ?q - 2) (drop 1 ?q))" if ends: "prefix ''*'' ?q" "suffix ''*'' ?q"
  proof -
    obtain r where r: "?q = CHR ''*'' # r" using ends(1) by (auto simp: prefix_def)
    then have "r \<noteq> []" using q star by auto
    then obtain mid c where mid: "r = mid @ [c]" by (metis rev_exhaust)
    then have "c = CHR ''*''" using ends(2) r by (simp add: suffix_def)
    then show ?thesis using q r mid star by simp
  qed
  have "bslash \<in> set ?p"
  proof (cases "prefix ''*'' ?q \<and> suffix ''*'' ?q")
    case True
    then have "str_contains ?p (take (length ?q - 2) (drop 1 ?q))"
      using m b star by (auto simp: path_matches_pattern_def Let_def prefix_def split: if_splits)
    then obtain a t where "?p = a @ take (length ?q - 2) (drop 1 ?q) @ t" by (auto simp: str_contains_conv)
    then show ?thesis using both True by (metis UnCI set_append)
  next
    case False
    have tail: "bslash \<in> set r" if "?q = CHR ''*'' # r" for r using that q star by auto
    have front: "bslash \<in> set (take (length ?q - 1) ?q)" if ends: "suffix ''*'' ?q"
    proof -
      obtain zs where zs: "?q = zs @ ''*''" using ends by (auto simp: suffix_def)
      have "bslash \<in> set zs" using q star unfolding zs by simp
      then show ?thesis by (simp add: zs)
    qed
    have "(\<exists>r. ?q = CHR ''*'' # r \<and> suffix r ?p) \<or> (suffix ''*'' ?q \<and> prefix (take (length ?q - 1) ?q) ?p) \<or> ?p = ?q"
      using m False b star
      by (auto simp: path_matches_pattern_def Let_def strip_prefix_def prefix_def split: if_splits)
    then show ?thesis using tail front q by (metis subsetD set_mono_prefix set_mono_suffix)
  qed
  then show ?thesis by simp
qed

lemma list_matches_bslash: "list_matches path q \<Longrightarrow> bslash \<in> set q \<Longrightarrow> bslash \<in> set path"
  by (auto simp: list_matches_def eq_ignore_ascii_case_def path_matches_bslash split: if_splits)
    (metis bslash_lowercase)

lemma allowed_other_spelling:
  assumes "list_all (\<lambda>q. bslash \<in> set q) (po_allowlist policy @ po_denylist policy)" "bslash \<notin> set path"
  shows "allowed policy path \<longleftrightarrow> po_allowlist policy = []"
  using assms list_matches_bslash [of path] by (auto simp: allowed_def is_denied_def list_all_iff list_ex_iff)

lemma glob_uki:
  "volume_glob UKI_GLOB esp =
     (case volume_read_dir ''/EFI/Linux'' esp of
        Ok es \<Rightarrow> map (\<lambda>e. ''/EFI/Linux/'' @ de_name e) (filter (\<lambda>e. suffix ''.efi'' (de_name e)) es)
      | _ \<Rightarrow> [])"
proof -
  have dir: "path_from_str ''/EFI/Linux'' = Ok ''/EFI/Linux''"
    by (simp add: path_from_str_def path_render_def)
  have pat: "matches_glob n ''*.efi'' = suffix ''.efi'' n" for n
    by (simp add: matches_glob_def strip_prefix_def suffix_def)
  show ?thesis
    by (simp add: volume_glob_def UKI_GLOB_def volume_read_dir_def normalize_path_string_def replace_char_def dir pat Let_def
        split: outcome.split)
qed

lemma uki_entries_cong:
  "(\<And>path. path \<in> set paths \<Longrightarrow> allowed p path \<longleftrightarrow> allowed q path) \<Longrightarrow> uki_entries p paths es = uki_entries q paths es"
proof (induction paths arbitrary: es)
  case (Cons path paths)
  have "allowed p path \<longleftrightarrow> allowed q path" using Cons.prems by simp
  then show ?case using Cons.IH [OF Cons.prems [OF list.set_intros(2)]] by simp
qed simp

lemma uki_entries_none: "(\<And>path. path \<in> set paths \<Longrightarrow> \<not> allowed p path) \<Longrightarrow> uki_entries p paths es = aret es"
  by (induction paths) auto

text \<open>C31: the discovery of unified kernel images asks the policy about paths with forward slashes.  A policy
  written with backslashes, as documented, therefore decides nothing about them: with such a deny list the
  discovery returns the same entries as with no deny list at all, whatever it names, and with such an allow list
  it returns none, although every image may be named in it.\<close>

theorem uki_policy_is_void:
  assumes "volume_read_dir ''/EFI/Linux'' esp = Ok listing" "list_all (\<lambda>e. bslash \<notin> set (de_name e)) listing"
    "list_all (\<lambda>q. bslash \<in> set q) (po_allowlist policy @ po_denylist policy)"
  shows "discover_linux_uki policy esp =
    (if po_allowlist policy = [] then discover_linux_uki (policy\<lparr>po_denylist := []\<rparr>) esp else (esp, Ok []))"
proof -
  have "allowed policy path \<longleftrightarrow> po_allowlist policy = []" if "path \<in> set (volume_glob UKI_GLOB esp)" for path
    using that assms(1,2) allowed_other_spelling [OF assms(3), of path]
    by (auto simp: glob_uki list_all_iff bslash_def)
  moreover have "allowed (policy\<lparr>po_denylist := []\<rparr>) path" if "po_allowlist policy = []" for path
    using that by (simp add: allowed_def is_denied_def)
  ultimately have "uki_entries policy (volume_glob UKI_GLOB esp) [] esp =
      (if po_allowlist policy = [] then uki_entries (policy\<lparr>po_denylist := []\<rparr>) (volume_glob UKI_GLOB esp) [] esp
       else aret [] esp)"
    by (simp add: uki_entries_cong [of "volume_glob UKI_GLOB esp" policy "policy\<lparr>po_denylist := []\<rparr>"]
        uki_entries_none [of "volume_glob UKI_GLOB esp" policy])
  then show ?thesis by (simp add: discover_linux_uki_def abind_def aret_def)
qed

definition demo_uki_volume :: "unit volume" where
  "demo_uki_volume = demo_scan_volume\<lparr>vol_backend := (vol_backend demo_scan_volume)\<lparr>
     bk_read_dir := (\<lambda>_ _. Ok [\<lparr>de_name = ''evil.efi'', de_kind = Regular, de_size = 0\<rparr>])\<rparr>\<rparr>"

theorem uki_policy_is_void_witness:
  "discover_linux_uki (default_policy\<lparr>po_denylist := [bspath [''EFI'', ''Linux'', ''evil.efi'']]\<rparr>) demo_uki_volume =
     discover_linux_uki default_policy demo_uki_volume \<and>
   discover_linux_uki (default_policy\<lparr>po_allowlist := [bspath [''EFI'', ''Linux'', ''evil.efi'']]\<rparr>) demo_uki_volume =
     (demo_uki_volume, Ok [])"
proof -
  have d: "volume_read_dir ''/EFI/Linux'' demo_uki_volume = Ok [\<lparr>de_name = ''evil.efi'', de_kind = Regular, de_size = 0\<rparr>]"
    by (simp add: volume_read_dir_def demo_uki_volume_def)
  show ?thesis
    using uki_policy_is_void [OF d, of "default_policy\<lparr>po_denylist := [bspath [''EFI'', ''Linux'', ''evil.efi'']]\<rparr>"]
      uki_policy_is_void [OF d, of "default_policy\<lparr>po_allowlist := [bspath [''EFI'', ''Linux'', ''evil.efi'']]\<rparr>"]
    by (simp add: default_policy_def bspath_def bslash_def)
qed

subsection \<open>The removable-media loader\<close>

lemma loaders_distinct_paths:
  "bspath [''EFI'', ''grub'', ''grubx64.efi''] \<noteq> BOOTX64_PATH"
  "bspath [''EFI'', ''refind'', ''refind_x64.efi''] \<noteq> BOOTX64_PATH"
  by (simp_all add: BOOTX64_PATH_def bspath_def)

lemma loader_entries_other:
  "path \<noteq> BOOTX64_PATH \<Longrightarrow> snd (loader_entries dc policy h ((path, i, name) # ls) esp) =
     (if exists_str path esp \<and> allowed policy path then [mk_entry i name (Chainload path) IconEfi] else []) @
     snd (loader_entries dc policy h ls esp)"
  by (simp add: Let_def case_prod_beta)

lemma loader_entries_fallback:
  "snd (loader_entries dc policy h [(BOOTX64_PATH, i, name)] esp) =
     (if exists_str BOOTX64_PATH esp \<and> allowed policy BOOTX64_PATH \<and> \<not> snd (self_loop dc h esp)
      then [mk_entry i name (Chainload BOOTX64_PATH) IconEfi] else [])"
  by (simp add: Let_def case_prod_beta)

text \<open>The removable-media loader is offered exactly when it exists, the policy allows it, this boot
  loader was not itself started from that path and the file is not a copy of the running image.\<close>

theorem fallback_loader_offered_iff:
  "Chainload BOOTX64_PATH \<in> en_kind ` set (snd (discover_other_loaders dc policy h esp)) \<longleftrightarrow>
   exists_str BOOTX64_PATH esp \<and> allowed policy BOOTX64_PATH \<and>
   \<not> booted_via_removable_fallback (dc_image dc) \<and>
   \<not> (\<exists>v data self_hash. volume_read ''/EFI/BOOT/BOOTX64.EFI'' esp = (v, Ok data) \<and> h = Some self_hash \<and>
        dc_sha dc data = self_hash)"
proof -
  have p: "path_from_str ''/EFI/BOOT/BOOTX64.EFI'' = Ok ''/EFI/BOOT/BOOTX64.EFI''"
    by (simp add: path_from_str_def path_render_def)
  have skip: "snd (self_loop dc h esp) \<longleftrightarrow> booted_via_removable_fallback (dc_image dc) \<or>
      (\<exists>v data self_hash. volume_read ''/EFI/BOOT/BOOTX64.EFI'' esp = (v, Ok data) \<and> h = Some self_hash \<and>
        dc_sha dc data = self_hash)"
    by (auto simp: self_loop_def p split: option.splits prod.splits outcome.splits)
  have "Chainload BOOTX64_PATH \<in> en_kind ` set (snd (discover_other_loaders dc policy h esp)) \<longleftrightarrow>
      exists_str BOOTX64_PATH esp \<and> allowed policy BOOTX64_PATH \<and> \<not> snd (self_loop dc h esp)"
    using loaders_distinct_paths loaders_distinct_paths [symmetric]
    by (auto simp: discover_other_loaders_def LOADERS_def loader_entries_other loader_entries_fallback mk_entry_def
        simp del: loader_entries.simps split: if_splits)
  then show ?thesis using skip by blast
qed

end
