(* ===== verification/Secure.thy ===== *)
theory Secure
  imports Health
begin

section \<open>Secure Boot: detection, shim verification and the authentication override\<close>

text \<open>
  Model of \<open>lamboot-core/src/sb_classify_pure.rs\<close>, \<open>boot_route_pure.rs\<close>, \<open>secure.rs\<close> and
  \<open>security_override.rs\<close>.

  The firmware is a record of the calls the sources make.  Its answers may depend on everything that
  happened before: the argument of a call is the firmware state, which holds the trace of the
  security-relevant calls of this boot and the statics of the override.  \<open>LoadImage\<close> gets the image
  authentication function that is installed when it is called, as the UEFI PI specification says, and
  may run it.  The locale \<open>image_authentication\<close> is the documented contract: an image that loads was
  accepted by that function, and loading changes nothing else.

  The theorems show that detection is fail-closed and reads at most twice, which loads go to the native
  loader, and that the override is taken back after every load, with the firmware's own check
  never lost on the way.
\<close>

subsection \<open>Classification of the SecureBoot variable\<close>

datatype SbReadOutcome = SbValue "u8 option" | SbNotFound | SbUnsupported | SbBufferTooSmall | SbTransientError

text \<open>The loop, with the reader as a state transformer and the number of the attempt.\<close>

function classify_loop :: "('f \<Rightarrow> 'f \<times> SbReadOutcome) \<Rightarrow> nat \<Rightarrow> 'f \<Rightarrow> 'f \<times> bool" where
  "classify_loop next attempt s =
     (case next s of
        (s', SbValue (Some byte)) \<Rightarrow> (s', byte = 1)
      | (s', SbNotFound) \<Rightarrow> (s', False)
      | (s', SbUnsupported) \<Rightarrow> (s', False)
      | (s', SbBufferTooSmall) \<Rightarrow> (s', True)
      | (s', SbValue None) \<Rightarrow> if attempt = 0 then classify_loop next (attempt + 1) s' else (s', True)
      | (s', SbTransientError) \<Rightarrow> if attempt = 0 then classify_loop next (attempt + 1) s' else (s', True))"
  by pat_completeness auto
termination
  by (relation "measure (\<lambda>(next, attempt, s). 1 - attempt)") auto

declare classify_loop.simps [simp del]

definition classify_secure_boot :: "('f \<Rightarrow> 'f \<times> SbReadOutcome) \<Rightarrow> 'f \<Rightarrow> 'f \<times> bool" where
  "classify_secure_boot next s = classify_loop next 0 s"

subsection \<open>The load route\<close>

datatype NativePeMode = ModeAuto | ModeAlways | ModeNever
datatype SbPosture = PostureDisabled | PostureShim | PostureDirect
datatype LoadRoute = RouteNative | RouteFirmware

fun decide_load_route :: "NativePeMode \<Rightarrow> SbPosture \<Rightarrow> LoadRoute" where
  "decide_load_route ModeNever posture = RouteFirmware"
| "decide_load_route ModeAlways posture = RouteNative"
| "decide_load_route ModeAuto posture = (if posture = PostureDirect then RouteFirmware else RouteNative)"

subsection \<open>Firmware state and calls\<close>

text \<open>The trace: reads of the variable, shim and firmware checks of a buffer with their verdict, TPM
  extends with their success, images loaded by the firmware and by the native loader, and the
  starts.\<close>

datatype 'li boot_call =
    ReadSecureBoot
  | ShimVerify bytes bool
  | DbCheck bytes bool
  | Extend nat bytes bool
  | FirmwareLoad bytes nat
  | FirmwareStart nat
  | NativeLoad bytes 'li
  | NativeStart 'li
  | InstallInitrd bytes
  | UninstallInitrd

text \<open>Which function a protocol table holds: the firmware's own or the hook of the sources.\<close>

datatype auth_fn = FirmwareAuth | LamBootHook

text \<open>\<open>ov_active\<close>, \<open>ov_security\<close>, \<open>ov_security2\<close>, \<open>ov_original\<close> and \<open>ov_original2\<close> are the statics of the
  override (the two pointers as \<open>is not null\<close>); \<open>ov_table\<close> and \<open>ov_table2\<close> are the entries of the
  firmware's protocol tables the sources write to.  The counters are the diagnostics.\<close>

record override =
  ov_active :: bool
  ov_security :: bool
  ov_security2 :: bool
  ov_original :: "auth_fn option"
  ov_original2 :: "auth_fn option"
  ov_table :: auth_fn
  ov_table2 :: auth_fn
  ov_hook2_calls :: u64
  ov_validate_calls :: u64
  ov_validate_true :: u64
  ov_delegate_calls :: u64
  ov_not_found :: u64

record 'li fw_state =
  fs_trace :: "'li boot_call list"
  fs_override :: override

definition emit :: "'li boot_call \<Rightarrow> 'li fw_state \<Rightarrow> 'li fw_state" where
  "emit c s = s\<lparr>fs_trace := fs_trace s @ [c]\<rparr>"

definition on_override :: "(override \<Rightarrow> override) \<Rightarrow> 'li fw_state \<Rightarrow> 'li fw_state" where
  "on_override f s = s\<lparr>fs_override := f (fs_override s)\<rparr>"

text \<open>\<open>LoadImage\<close> takes the authentication function: an action that returns a status.\<close>

type_synonym 'li auth = "bytes \<Rightarrow> ('li fw_state, string, string) act"

record 'li boot_firmware =
  bf_get_secure_boot :: "'li fw_state \<Rightarrow> (bytes, string) outcome"
  bf_shim_handle :: "'li fw_state \<Rightarrow> (unit, string) outcome"
  bf_shim_open :: "'li fw_state \<Rightarrow> (unit, string) outcome"
  bf_shim_verify :: "bytes \<Rightarrow> 'li fw_state \<Rightarrow> (unit, string) outcome"
  bf_has_security :: "'li fw_state \<Rightarrow> bool"
  bf_has_security2 :: "'li fw_state \<Rightarrow> bool"
  bf_file_authentication_state :: "'li fw_state \<Rightarrow> string"
  bf_file_authentication :: "bytes \<Rightarrow> 'li fw_state \<Rightarrow> string"
  bf_load_image :: "'li auth \<Rightarrow> bytes \<Rightarrow> ('li fw_state, nat, string) act"

subsection \<open>Detection\<close>

datatype SecureBootState = SbDisabled | ActiveWithShim | ActiveDirect

definition sb_read_outcome :: "(bytes, string) outcome \<Rightarrow> SbReadOutcome" where
  "sb_read_outcome r =
     (case r of
        Ok data \<Rightarrow> if data \<noteq> [] then SbValue (Some (hd data)) else SbValue None
      | Err e \<Rightarrow>
          if e = ''NOT_FOUND'' then SbNotFound
          else if e = ''UNSUPPORTED'' then SbUnsupported
          else if e = ''BUFFER_TOO_SMALL'' then SbBufferTooSmall
          else SbTransientError
      | Panic \<Rightarrow> SbTransientError)"

definition read_secure_boot_once :: "'li boot_firmware \<Rightarrow> 'li fw_state \<Rightarrow> 'li fw_state \<times> SbReadOutcome" where
  "read_secure_boot_once fw s = (emit ReadSecureBoot s, sb_read_outcome (bf_get_secure_boot fw s))"

definition read_secure_boot_enabled :: "'li boot_firmware \<Rightarrow> 'li fw_state \<Rightarrow> 'li fw_state \<times> bool" where
  "read_secure_boot_enabled fw = classify_secure_boot (read_secure_boot_once fw)"

definition shim_lock_present :: "'li boot_firmware \<Rightarrow> 'li fw_state \<Rightarrow> bool" where
  "shim_lock_present fw s \<longleftrightarrow> bf_shim_handle fw s = Ok ()"

definition detect_secure_boot :: "'li boot_firmware \<Rightarrow> 'li fw_state \<Rightarrow> 'li fw_state \<times> SecureBootState" where
  "detect_secure_boot fw s =
     (let (s', on) = read_secure_boot_enabled fw s in
      (s', if \<not> on then SbDisabled else if shim_lock_present fw s' then ActiveWithShim else ActiveDirect))"

subsection \<open>Verification by shim\<close>

definition shim_verify :: "'li boot_firmware \<Rightarrow> bytes \<Rightarrow> ('li fw_state, unit, string) act" where
  "shim_verify fw data s =
     (case bf_shim_verify fw data s of
        Ok _ \<Rightarrow> (emit (ShimVerify data True) s, Ok ())
      | Err e \<Rightarrow> (emit (ShimVerify data False) s, Err e)
      | Panic \<Rightarrow> (s, Panic))"

fun verify_image :: "'li boot_firmware \<Rightarrow> bytes \<Rightarrow> SecureBootState \<Rightarrow> ('li fw_state, unit, string) act" where
  "verify_image fw data SbDisabled = aret ()"
| "verify_image fw data ActiveWithShim =
     abind (alift (bf_shim_handle fw)) (\<lambda>_.
     abind (alift (bf_shim_open fw)) (\<lambda>_.
     shim_verify fw data))"
| "verify_image fw data ActiveDirect = aret ()"

definition shim_validate :: "'li boot_firmware \<Rightarrow> bytes \<Rightarrow> 'li fw_state \<Rightarrow> 'li fw_state \<times> bool" where
  "shim_validate fw data s =
     (if bf_shim_handle fw s \<noteq> Ok ()
      then (on_override (\<lambda>v. v\<lparr>ov_not_found := ov_not_found v + 1\<rparr>) s, False)
      else if bf_shim_open fw s \<noteq> Ok () then (s, False)
      else case shim_verify fw data s of (s', r) \<Rightarrow> (s', r = Ok ()))"

subsection \<open>The override\<close>

text \<open>The firmware's own checks of an image: by device path, and of a buffer.  The second one is on
  the trace.\<close>

definition firmware_auth :: "'li boot_firmware \<Rightarrow> ('li fw_state, string, string) act" where
  "firmware_auth fw s = (s, Ok (bf_file_authentication_state fw s))"

definition firmware_auth2 :: "'li boot_firmware \<Rightarrow> 'li auth" where
  "firmware_auth2 fw data s =
     (let st = bf_file_authentication fw data s in (emit (DbCheck data (st = ''SUCCESS'')) s, Ok st))"

text \<open>A hook that finds itself saved as the original would call itself without end: a \<open>Panic\<close>.\<close>

definition hook_security :: "'li boot_firmware \<Rightarrow> ('li fw_state, string, string) act" where
  "hook_security fw s =
     (case ov_original (fs_override s) of
        Some FirmwareAuth \<Rightarrow> firmware_auth fw s
      | Some LamBootHook \<Rightarrow> (s, Panic)
      | None \<Rightarrow> (s, Ok ''SECURITY_VIOLATION''))"

definition delegate2 :: "'li boot_firmware \<Rightarrow> 'li auth" where
  "delegate2 fw data s =
     (let t = on_override (\<lambda>v. v\<lparr>ov_delegate_calls := ov_delegate_calls v + 1\<rparr>) s in
      case ov_original2 (fs_override t) of
        Some FirmwareAuth \<Rightarrow> firmware_auth2 fw data t
      | Some LamBootHook \<Rightarrow> (t, Panic)
      | None \<Rightarrow> (t, Ok ''SECURITY_VIOLATION''))"

definition hook_security2 :: "'li boot_firmware \<Rightarrow> 'li auth" where
  "hook_security2 fw data s =
     (let s1 = on_override (\<lambda>v. v\<lparr>ov_hook2_calls := ov_hook2_calls v + 1\<rparr>) s in
      if data \<noteq> [] then
        (let s2 = on_override (\<lambda>v. v\<lparr>ov_validate_calls := ov_validate_calls v + 1\<rparr>) s1;
             (s3, ok) = shim_validate fw data s2 in
         if ok then (on_override (\<lambda>v. v\<lparr>ov_validate_true := ov_validate_true v + 1\<rparr>) s3, Ok ''SUCCESS'')
         else delegate2 fw data s3)
      else delegate2 fw data s1)"

definition install_security_override :: "'li boot_firmware \<Rightarrow> 'li fw_state \<Rightarrow> 'li fw_state \<times> bool" where
  "install_security_override fw s =
     (if ov_active (fs_override s) then (s, False)
      else let sec2 = bf_has_security2 fw s; sec = bf_has_security fw s in
        if \<not> sec2 \<and> \<not> sec then (on_override (\<lambda>v. v\<lparr>ov_active := False\<rparr>) s, False)
        else (on_override (\<lambda>v.
           let v = v\<lparr>ov_active := True, ov_security := sec, ov_security2 := sec2\<rparr>;
               v = (if sec then v\<lparr>ov_original := Some (ov_table v), ov_table := LamBootHook\<rparr> else v) in
           if sec2 then v\<lparr>ov_original2 := Some (ov_table2 v), ov_table2 := LamBootHook\<rparr> else v) s, True))"

definition uninstall_security_override :: "override \<Rightarrow> override" where
  "uninstall_security_override v =
     (if \<not> ov_active v then v
      else
        let v = (if ov_security2 v then
                   (case ov_original2 v of None \<Rightarrow> v | Some f \<Rightarrow> v\<lparr>ov_table2 := f\<rparr>)
                     \<lparr>ov_original2 := None, ov_security2 := False\<rparr>
                 else v);
            v = (if ov_security v then
                   (case ov_original v of None \<Rightarrow> v | Some f \<Rightarrow> v\<lparr>ov_table := f\<rparr>)
                     \<lparr>ov_original := None, ov_security := False\<rparr>
                 else v) in
        v\<lparr>ov_active := False\<rparr>)"

definition diagnostic_counters :: "override \<Rightarrow> u64 \<times> u64 \<times> u64 \<times> u64 \<times> u64" where
  "diagnostic_counters v =
     (ov_hook2_calls v, ov_validate_calls v, ov_validate_true v, ov_delegate_calls v, ov_not_found v)"

text \<open>The function the firmware finds in its table when it authenticates a buffer.\<close>

definition installed_auth :: "'li boot_firmware \<Rightarrow> 'li auth" where
  "installed_auth fw data s =
     (case ov_table2 (fs_override s) of
        FirmwareAuth \<Rightarrow> firmware_auth2 fw data s
      | LamBootHook \<Rightarrow> hook_security2 fw data s)"

text \<open>\<open>boot.rs\<close> loads every firmware image through this function.  The guard is dropped when the
  function returns, by a value or by \<open>?\<close>.\<close>

definition load_efi_image_from_buffer :: "'li boot_firmware \<Rightarrow> bytes \<Rightarrow> ('li fw_state, nat, string) act" where
  "load_efi_image_from_buffer fw data s =
     (let (s1, guard) = install_security_override fw s;
          (s2, r) = bf_load_image fw (installed_auth fw) data s1;
          s3 = (case r of Ok h \<Rightarrow> emit (FirmwareLoad data h) s2 | _ \<Rightarrow> s2) in
      (if guard then on_override uninstall_security_override s3 else s3, r))"

text \<open>Shim is asked to keep its protocol installed, once at the start of a boot.\<close>

definition SHIM_RETAIN_VAR :: nv_name where
  "SHIM_RETAIN_VAR = (''605dab50-e046-4300-abb6-3dd810dd8b23'', ''ShimRetainProtocol'')"

definition request_shim_retain_protocol :: "'li boot_firmware \<Rightarrow> 'n runtime \<Rightarrow> 'li fw_state \<Rightarrow> 'n \<Rightarrow> 'n" where
  "request_shim_retain_protocol fw rt s n =
     (if bf_shim_handle fw s \<noteq> Ok () then n else fst (rt_set rt SHIM_RETAIN_VAR [1] n))"

subsection \<open>What the firmware promises\<close>

text \<open>The runs of an authentication function on a buffer, with the verdicts in order.\<close>

inductive auth_runs :: "'li auth \<Rightarrow> bytes \<Rightarrow> 'li fw_state \<Rightarrow> (string, string) outcome list \<Rightarrow> 'li fw_state \<Rightarrow> bool"
  for auth :: "'li auth" and data :: bytes and s :: "'li fw_state" where
  none: "auth_runs auth data s [] s"
| again: "auth_runs auth data s rs t \<Longrightarrow> auth data t = (t', r) \<Longrightarrow> auth_runs auth data s (rs @ [r]) t'"

text \<open>\<open>LoadImage\<close> does nothing to this state but run the installed function, and crashes only with it.\<close>

locale loads_by_auth =
  fixes fw :: "'li boot_firmware"
  assumes load_runs: "bf_load_image fw auth data s = (s', r) \<Longrightarrow>
      \<exists>rs. auth_runs auth data s rs s' \<and> (r = Panic \<longrightarrow> Panic \<in> set rs)"

text \<open>With Secure Boot enabled an image loads only if a run of the function returned success.\<close>

locale image_authentication = loads_by_auth +
  assumes load_accepted: "bf_load_image fw auth data s = (s', Ok h) \<Longrightarrow>
      \<exists>rs. auth_runs auth data s rs s' \<and> Ok ''SUCCESS'' \<in> set rs"

subsection \<open>Detection is fail-closed\<close>

fun says_off :: "SbReadOutcome \<Rightarrow> bool" where
  "says_off (SbValue (Some b)) \<longleftrightarrow> b \<noteq> 1"
| "says_off SbNotFound \<longleftrightarrow> True"
| "says_off SbUnsupported \<longleftrightarrow> True"
| "says_off _ \<longleftrightarrow> False"

fun indeterminate :: "SbReadOutcome \<Rightarrow> bool" where
  "indeterminate (SbValue None) \<longleftrightarrow> True"
| "indeterminate SbTransientError \<longleftrightarrow> True"
| "indeterminate _ \<longleftrightarrow> False"

lemma classify_loop_step:
  "classify_loop next attempt s =
     (let (s', r) = next s in
      if indeterminate r \<and> attempt = 0 then classify_loop next (attempt + 1) s' else (s', \<not> says_off r))"
  by (subst classify_loop.simps) (auto split: SbReadOutcome.split option.split prod.split)

lemma classify_secure_boot_spec:
  "classify_secure_boot next s =
     (let (s1, r1) = next s; (s2, r2) = next s1 in
      if indeterminate r1 then (s2, \<not> says_off r2) else (s1, \<not> says_off r1))"
  unfolding classify_secure_boot_def
  by (subst classify_loop_step, subst classify_loop_step) (auto simp: Let_def split: prod.split)

lemma indeterminate_not_off: "indeterminate r \<Longrightarrow> \<not> says_off r"
  by (cases r rule: indeterminate.cases) auto

text \<open>C11: The posture is \<open>Disabled\<close> exactly when a read of the SecureBoot variable said so: the first
  read, or the second one after an indeterminate first.  An error, an empty value or a value that does
  not fit never disables verification.  The variable is read once or twice.\<close>

theorem secure_boot_detection_fails_closed:
  "(snd (detect_secure_boot fw s) = SbDisabled \<longleftrightarrow>
      (let r1 = sb_read_outcome (bf_get_secure_boot fw s);
           r2 = sb_read_outcome (bf_get_secure_boot fw (emit ReadSecureBoot s)) in
       says_off r1 \<or> (indeterminate r1 \<and> says_off r2))) \<and>
   (fs_trace (fst (detect_secure_boot fw s)) = fs_trace s @ [ReadSecureBoot] \<or>
    fs_trace (fst (detect_secure_boot fw s)) = fs_trace s @ [ReadSecureBoot, ReadSecureBoot])"
proof -
  let ?r1 = "sb_read_outcome (bf_get_secure_boot fw s)"
  show ?thesis
    using indeterminate_not_off [of ?r1]
    by (cases "indeterminate ?r1")
      (auto simp: detect_secure_boot_def read_secure_boot_enabled_def classify_secure_boot_spec
        read_secure_boot_once_def Let_def emit_def)
qed

subsection \<open>The override is scoped\<close>

text \<open>The protocol tables and the statics, without the counters.\<close>

definition hooks_of :: "override \<Rightarrow> bool \<times> bool \<times> bool \<times> auth_fn option \<times> auth_fn option \<times> auth_fn \<times> auth_fn" where
  "hooks_of v =
     (ov_active v, ov_security v, ov_security2 v, ov_original v, ov_original2 v, ov_table v, ov_table2 v)"

definition idle :: "override \<Rightarrow> bool" where
  "idle v \<longleftrightarrow> hooks_of v = (False, False, False, None, None, FirmwareAuth, FirmwareAuth)"

fun is_check :: "'li boot_call \<Rightarrow> bool" where
  "is_check (ShimVerify data ok) = True"
| "is_check (DbCheck data ok) = True"
| "is_check _ = False"

text \<open>What an authentication does to the state: it adds checks to the trace.\<close>

definition checks_only :: "'li fw_state \<Rightarrow> 'li fw_state \<Rightarrow> bool" where
  "checks_only s t \<longleftrightarrow>
     hooks_of (fs_override t) = hooks_of (fs_override s) \<and>
     (\<exists>ext. fs_trace t = fs_trace s @ ext \<and> list_all is_check ext)"

definition checked :: "'li boot_call list \<Rightarrow> bytes \<Rightarrow> bool" where
  "checked tr data \<longleftrightarrow> ShimVerify data True \<in> set tr \<or> DbCheck data True \<in> set tr"

lemma checks_only_refl [simp]: "checks_only s s"
  by (simp add: checks_only_def)

lemma checks_only_trans: "checks_only s t \<Longrightarrow> checks_only t u \<Longrightarrow> checks_only s u"
  by (force simp: checks_only_def)

lemma checks_only_emit: "is_check c \<Longrightarrow> checks_only s (emit c s)"
  by (simp add: checks_only_def emit_def)

lemma checks_only_counters:
  "(\<And>v. hooks_of (f v) = hooks_of v) \<Longrightarrow> checks_only s t \<Longrightarrow> checks_only s (on_override f t)"
  by (auto simp: checks_only_def on_override_def)

lemma checked_mono: "checked tr data \<Longrightarrow> checked (pre @ tr @ ext) data"
  by (auto simp: checked_def)

text \<open>A check between two states.\<close>

definition checked_since :: "'li fw_state \<Rightarrow> 'li fw_state \<Rightarrow> bytes \<Rightarrow> bool" where
  "checked_since s t data \<longleftrightarrow> (\<exists>ext. fs_trace t = fs_trace s @ ext \<and> checked ext data)"

lemma checked_since_emit:
  "c = ShimVerify data True \<or> c = DbCheck data True \<Longrightarrow> checked_since s (emit c s) data"
  by (auto simp: checked_since_def checked_def emit_def)

lemma checked_since_later: "checked_since s t data \<Longrightarrow> checks_only t u \<Longrightarrow> checked_since s u data"
  unfolding checked_since_def checks_only_def using checked_mono [of _ data "[]"] by fastforce

lemma checked_since_earlier: "checks_only s t \<Longrightarrow> checked_since t u data \<Longrightarrow> checked_since s u data"
  unfolding checked_since_def checks_only_def using checked_mono [of _ data _ "[]"] by fastforce

lemma checked_since_override [simp]: "checked_since s (on_override f t) data = checked_since s t data"
  by (simp add: checked_since_def on_override_def)

lemma shim_verify_checks: "shim_verify fw data s = (s', r) \<Longrightarrow> checks_only s s'"
  by (auto simp: shim_verify_def checks_only_emit split: outcome.splits)

lemma shim_verify_success: "shim_verify fw data s = (s', Ok ()) \<Longrightarrow> checked_since s s' data"
  by (auto simp: shim_verify_def checked_since_emit split: outcome.splits)

lemma shim_validate_checks: "shim_validate fw data s = (s', ok) \<Longrightarrow> checks_only s s'"
  by (auto simp: shim_validate_def split: if_splits prod.splits
      intro: shim_verify_checks checks_only_counters simp: hooks_of_def)

lemma shim_validate_success: "shim_validate fw data s = (s', True) \<Longrightarrow> checked_since s s' data"
  by (auto simp: shim_validate_def split: if_splits prod.splits dest: shim_verify_success)

lemma firmware_auth2_checks: "firmware_auth2 fw data s = (s', r) \<Longrightarrow> checks_only s s'"
  by (auto simp: firmware_auth2_def Let_def checks_only_emit)

lemma firmware_auth2_success:
  "firmware_auth2 fw data s = (s', Ok ''SUCCESS'') \<Longrightarrow> checked_since s s' data"
  by (auto simp: firmware_auth2_def Let_def checked_since_emit)

lemma delegate2_checks: "delegate2 fw data s = (s', r) \<Longrightarrow> checks_only s s'"
proof -
  let ?t = "on_override (\<lambda>v. v\<lparr>ov_delegate_calls := ov_delegate_calls v + 1\<rparr>) s"
  assume "delegate2 fw data s = (s', r)"
  then have "s' = ?t \<or> firmware_auth2 fw data ?t = (s', r)"
    by (auto simp: delegate2_def Let_def split: option.splits auth_fn.splits)
  then have "checks_only ?t s'" by (auto dest: firmware_auth2_checks)
  moreover have "checks_only s ?t" by (rule checks_only_counters) (simp_all add: hooks_of_def)
  ultimately show ?thesis by (rule checks_only_trans [rotated])
qed

lemma delegate2_success: "delegate2 fw data s = (s', Ok ''SUCCESS'') \<Longrightarrow> checked_since s s' data"
  by (auto simp: delegate2_def Let_def split: option.splits auth_fn.splits dest!: firmware_auth2_success)
    (simp add: checked_since_def on_override_def)

lemma delegate2_no_panic:
  "ov_original2 (fs_override s) \<noteq> Some LamBootHook \<Longrightarrow> snd (delegate2 fw data s) \<noteq> Panic"
  by (auto simp: delegate2_def Let_def on_override_def firmware_auth2_def split: option.split auth_fn.split)

lemma hook_security2_cases:
  obtains (shim) s1 s2 where "checks_only s s1" "shim_validate fw data s1 = (s2, True)"
      "hook_security2 fw data s = (on_override (\<lambda>v. v\<lparr>ov_validate_true := ov_validate_true v + 1\<rparr>) s2, Ok ''SUCCESS'')"
  | (firmware) s1 where "checks_only s s1" "hook_security2 fw data s = delegate2 fw data s1"
proof -
  define s1 where "s1 = on_override (\<lambda>v. v\<lparr>ov_hook2_calls := ov_hook2_calls v + 1\<rparr>) s"
  define s2 where "s2 = on_override (\<lambda>v. v\<lparr>ov_validate_calls := ov_validate_calls v + 1\<rparr>) s1"
  have c: "checks_only s s1" "checks_only s s2"
    unfolding s1_def s2_def by (rule checks_only_counters; simp add: hooks_of_def checks_only_counters)+
  obtain s3 ok where v: "shim_validate fw data s2 = (s3, ok)" by fastforce
  have c3: "checks_only s s3" using c(2) shim_validate_checks [OF v] by (rule checks_only_trans)
  show ?thesis
  proof (cases "data \<noteq> [] \<and> ok")
    case True
    then show ?thesis
      using v c(2) by (intro shim [of s2 s3]) (simp_all add: hook_security2_def s1_def s2_def)
  next
    case False
    then show ?thesis
      using v c(1) c3 firmware [of s1] firmware [of s3]
      by (cases "data = []") (simp_all add: hook_security2_def s1_def s2_def)
  qed
qed

lemma hook_security2_checks: "hook_security2 fw data s = (s', r) \<Longrightarrow> checks_only s s'"
proof (cases rule: hook_security2_cases [of s fw data])
  case (shim s1 s2)
  assume "hook_security2 fw data s = (s', r)"
  moreover have "checks_only s s2" using shim(1) shim_validate_checks [OF shim(2)] by (rule checks_only_trans)
  ultimately show ?thesis using shim(3) by (auto simp: hooks_of_def intro: checks_only_counters)
next
  case (firmware s1)
  assume "hook_security2 fw data s = (s', r)"
  then have "checks_only s1 s'" using firmware(2) by (intro delegate2_checks) simp
  then show ?thesis using firmware(1) by (rule checks_only_trans [rotated])
qed

lemma hook_security2_success:
  "hook_security2 fw data s = (s', Ok ''SUCCESS'') \<Longrightarrow> checked_since s s' data"
proof (cases rule: hook_security2_cases [of s fw data])
  case (shim s1 s2)
  assume "hook_security2 fw data s = (s', Ok ''SUCCESS'')"
  moreover have "checked_since s s2 data"
    by (rule checked_since_earlier [OF shim(1) shim_validate_success [OF shim(2)]])
  ultimately show ?thesis using shim(3) by auto
next
  case (firmware s1)
  assume "hook_security2 fw data s = (s', Ok ''SUCCESS'')"
  then have "checked_since s1 s' data" using firmware(2) by (intro delegate2_success) simp
  then show ?thesis by (rule checked_since_earlier [OF firmware(1)])
qed

lemma hook_security2_no_panic:
  assumes "ov_original2 (fs_override s) \<noteq> Some LamBootHook"
  shows "snd (hook_security2 fw data s) \<noteq> Panic"
proof (cases rule: hook_security2_cases [of s fw data])
  case (firmware s1)
  then have "ov_original2 (fs_override s1) \<noteq> Some LamBootHook"
    using assms by (simp add: checks_only_def hooks_of_def)
  then show ?thesis using firmware(2) delegate2_no_panic by metis
qed simp

lemma installed_auth_checks: "installed_auth fw data s = (s', r) \<Longrightarrow> checks_only s s'"
  by (auto simp: installed_auth_def split: auth_fn.splits dest: firmware_auth2_checks hook_security2_checks)

lemma installed_auth_success:
  "installed_auth fw data s = (s', Ok ''SUCCESS'') \<Longrightarrow> checked_since s s' data"
  by (auto simp: installed_auth_def split: auth_fn.splits dest: firmware_auth2_success hook_security2_success)

lemma installed_auth_no_panic:
  "ov_original2 (fs_override s) \<noteq> Some LamBootHook \<Longrightarrow> snd (installed_auth fw data s) \<noteq> Panic"
  by (cases "ov_table2 (fs_override s)")
    (simp_all add: installed_auth_def firmware_auth2_def Let_def hook_security2_no_panic)

lemma auth_runs_checks: "auth_runs (installed_auth fw) data s rs t \<Longrightarrow> checks_only s t"
  by (induction rule: auth_runs.induct) (auto dest: installed_auth_checks intro: checks_only_trans)

lemma auth_runs_success:
  assumes "auth_runs (installed_auth fw) data s rs t" "Ok ''SUCCESS'' \<in> set rs"
  shows "checked_since s t data"
  using assms
proof (induction rule: auth_runs.induct)
  case (again rs t t' r)
  show ?case
  proof (cases "r = Ok ''SUCCESS''")
    case True
    then have "checked_since t t' data" using again.hyps(2) installed_auth_success by simp
    then show ?thesis by (rule checked_since_earlier [OF auth_runs_checks [OF again.hyps(1)]])
  next
    case False
    then have "checked_since s t data" using again by simp
    then show ?thesis using installed_auth_checks [OF again.hyps(2)] by (rule checked_since_later)
  qed
qed simp

lemma auth_runs_no_panic:
  assumes "auth_runs (installed_auth fw) data s rs t" "ov_original2 (fs_override s) \<noteq> Some LamBootHook"
  shows "Panic \<notin> set rs"
  using assms
proof (induction rule: auth_runs.induct)
  case (again rs t t' r)
  have "ov_original2 (fs_override t) \<noteq> Some LamBootHook"
    using auth_runs_checks [OF again.hyps(1)] again.prems by (simp add: checks_only_def hooks_of_def)
  then have "r \<noteq> Panic" using installed_auth_no_panic again.hyps(2) by (metis snd_conv)
  then show ?case using again by simp
qed simp

text \<open>Installing from idle saves the firmware's functions; taking back restores them.\<close>

lemma install_idle:
  assumes "idle (fs_override s)" "install_security_override fw s = (s', guard)"
  shows "fs_trace s' = fs_trace s \<and> ov_original2 (fs_override s') \<noteq> Some LamBootHook \<and>
    (guard \<longrightarrow> (\<forall>v. hooks_of v = hooks_of (fs_override s') \<longrightarrow> idle (uninstall_security_override v))) \<and>
    (\<not> guard \<longrightarrow> idle (fs_override s'))"
  using assms
  by (auto simp: install_security_override_def uninstall_security_override_def idle_def hooks_of_def
      on_override_def Let_def split: if_splits)

text \<open>What a load does: no hook stays behind, nothing crashes, the trace gains checks and the load.\<close>

context loads_by_auth
begin

lemma load_decompose:
  assumes "idle (fs_override s)" "load_efi_image_from_buffer fw data s = (s', r)"
  obtains s1 guard s2 rs where "install_security_override fw s = (s1, guard)"
    "bf_load_image fw (installed_auth fw) data s1 = (s2, r)" "auth_runs (installed_auth fw) data s1 rs s2"
    "r = Panic \<Longrightarrow> Panic \<in> set rs"
    "s' = (let s3 = (case r of Ok h \<Rightarrow> emit (FirmwareLoad data h) s2 | _ \<Rightarrow> s2) in
           if guard then on_override uninstall_security_override s3 else s3)"
proof -
  obtain s1 guard where i: "install_security_override fw s = (s1, guard)" by fastforce
  obtain s2 r' where l: "bf_load_image fw (installed_auth fw) data s1 = (s2, r')" by fastforce
  have "r' = r" using assms(2) i l by (simp add: load_efi_image_from_buffer_def Let_def)
  then show ?thesis
    using assms(2) i l load_runs [OF l] that by (auto simp: load_efi_image_from_buffer_def Let_def)
qed

lemma load_idle:
  assumes "idle (fs_override s)" "load_efi_image_from_buffer fw data s = (s', r)"
  shows "idle (fs_override s')"
proof -
  obtain s1 guard s2 rs where d: "install_security_override fw s = (s1, guard)"
    "auth_runs (installed_auth fw) data s1 rs s2"
    "s' = (let s3 = (case r of Ok h \<Rightarrow> emit (FirmwareLoad data h) s2 | _ \<Rightarrow> s2) in
           if guard then on_override uninstall_security_override s3 else s3)"
    using load_decompose [OF assms] by metis
  have "hooks_of (fs_override s2) = hooks_of (fs_override s1)"
    using auth_runs_checks [OF d(2)] by (simp add: checks_only_def)
  then show ?thesis
    using install_idle [OF assms(1) d(1)] d(3)
    by (cases guard) (auto simp: idle_def emit_def on_override_def split: outcome.split)
qed

lemma load_no_panic:
  assumes "idle (fs_override s)" "load_efi_image_from_buffer fw data s = (s', r)"
  shows "r \<noteq> Panic"
proof -
  obtain s1 guard s2 rs where d: "install_security_override fw s = (s1, guard)"
    "auth_runs (installed_auth fw) data s1 rs s2" "r = Panic \<Longrightarrow> Panic \<in> set rs"
    using load_decompose [OF assms] by metis
  show ?thesis using auth_runs_no_panic [OF d(2)] install_idle [OF assms(1) d(1)] d(3) by blast
qed

text \<open>The trace gains checks and, on success, the load of these bytes.\<close>

lemma load_trace:
  assumes "idle (fs_override s)" "load_efi_image_from_buffer fw data s = (s', r)"
  obtains ext where "list_all is_check ext"
    "fs_trace s' = fs_trace s @ ext @ (case r of Ok h \<Rightarrow> [FirmwareLoad data h] | _ \<Rightarrow> [])"
proof -
  obtain s1 guard s2 rs where d: "install_security_override fw s = (s1, guard)"
    "auth_runs (installed_auth fw) data s1 rs s2"
    "s' = (let s3 = (case r of Ok h \<Rightarrow> emit (FirmwareLoad data h) s2 | _ \<Rightarrow> s2) in
           if guard then on_override uninstall_security_override s3 else s3)"
    using load_decompose [OF assms] by metis
  obtain ext where "fs_trace s2 = fs_trace s @ ext" "list_all is_check ext"
    using auth_runs_checks [OF d(2)] install_idle [OF assms(1) d(1)] by (auto simp: checks_only_def)
  then show ?thesis
    using d(3) that [of ext] by (auto simp: emit_def on_override_def Let_def split: outcome.split)
qed

end

context image_authentication
begin

lemma load_checked:
  assumes "idle (fs_override s)" "load_efi_image_from_buffer fw data s = (s', Ok h)"
  shows "checked_since s s' data"
proof -
  obtain s1 guard where i: "install_security_override fw s = (s1, guard)" by fastforce
  obtain s2 r where l: "bf_load_image fw (installed_auth fw) data s1 = (s2, r)" by fastforce
  have r: "r = Ok h" "fs_trace s' = fs_trace s2 @ [FirmwareLoad data h]"
    using assms(2) i l by (auto simp: load_efi_image_from_buffer_def Let_def emit_def on_override_def)
  obtain rs where "auth_runs (installed_auth fw) data s1 rs s2" "Ok ''SUCCESS'' \<in> set rs"
    using load_accepted l r(1) by blast
  then obtain ext where "fs_trace s2 = fs_trace s @ ext" "checked ext data"
    using auth_runs_success install_idle [OF assms(1) i] by (fastforce simp: checked_since_def)
  then show ?thesis
    using r(2) checked_mono [of ext data "[]" "[FirmwareLoad data h]"] by (auto simp: checked_since_def)
qed

end

subsection \<open>A firmware in memory\<close>

text \<open>Shim trusts one list of images and the firmware's database another; \<open>LoadImage\<close> runs the installed
  authentication once.  This firmware satisfies the contract.\<close>

definition sample_boot_fw :: "bool \<Rightarrow> bytes list \<Rightarrow> bytes list \<Rightarrow> 'li boot_firmware" where
  "sample_boot_fw shim mok db =
     \<lparr>bf_get_secure_boot = (\<lambda>s. Ok [1]),
      bf_shim_handle = (\<lambda>s. if shim then Ok () else Err ''NOT_FOUND''),
      bf_shim_open = (\<lambda>s. Ok ()),
      bf_shim_verify = (\<lambda>data s. if data \<in> set mok then Ok () else Err ''SECURITY_VIOLATION''),
      bf_has_security = (\<lambda>s. True), bf_has_security2 = (\<lambda>s. True),
      bf_file_authentication_state = (\<lambda>s. ''SUCCESS''),
      bf_file_authentication = (\<lambda>data s. if data \<in> set db then ''SUCCESS'' else ''ACCESS_DENIED''),
      bf_load_image = (\<lambda>auth data s.
        case auth data s of
          (s', Ok st) \<Rightarrow> if st = ''SUCCESS'' then (s', Ok (length (fs_trace s'))) else (s', Err st)
        | (s', Err e) \<Rightarrow> (s', Err e)
        | (s', Panic) \<Rightarrow> (s', Panic))\<rparr>"

lemma auth_runs_once: "auth data s = (s', r) \<Longrightarrow> auth_runs auth data s [r] s'"
  using auth_runs.again [OF auth_runs.none, of auth data s s' r] by simp

interpretation samplefw: image_authentication "sample_boot_fw shim mok db"
proof unfold_locales
  fix auth :: "'li auth" and data s s' r
  assume "bf_load_image (sample_boot_fw shim mok db) auth data s = (s', r)"
  then have "\<exists>v. auth data s = (s', v) \<and> (r = Panic \<longrightarrow> v = Panic)"
    by (auto simp: sample_boot_fw_def split: prod.splits outcome.splits if_splits)
  then show "\<exists>rs. auth_runs auth data s rs s' \<and> (r = Panic \<longrightarrow> Panic \<in> set rs)"
    by (metis auth_runs_once list.set_intros(1))
next
  fix auth :: "'li auth" and data s s' h
  assume "bf_load_image (sample_boot_fw shim mok db) auth data s = (s', Ok h)"
  then have "auth data s = (s', Ok ''SUCCESS'')"
    by (auto simp: sample_boot_fw_def split: prod.splits outcome.splits if_splits)
  then show "\<exists>rs. auth_runs auth data s rs s' \<and> Ok ''SUCCESS'' \<in> set rs"
    by (metis auth_runs_once list.set_intros(1))
qed

definition idle_override :: override where
  "idle_override =
     \<lparr>ov_active = False, ov_security = False, ov_security2 = False, ov_original = None, ov_original2 = None,
      ov_table = FirmwareAuth, ov_table2 = FirmwareAuth, ov_hook2_calls = 0, ov_validate_calls = 0,
      ov_validate_true = 0, ov_delegate_calls = 0, ov_not_found = 0\<rparr>"

definition fresh_fw :: "'li fw_state" where
  "fresh_fw = \<lparr>fs_trace = [], fs_override = idle_override\<rparr>"

text \<open>C7: The replacement of the firmware's image authentication is scoped to one load.  From the idle
  state, whatever the firmware answers, after the load the protocol tables and the saved hooks are as
  before, the hooks never call themselves, and an image that loaded was accepted during this very
  load, by shim or by the firmware's own check.\<close>

theorem security_override_is_scoped:
  assumes "image_authentication fw" "idle (fs_override s)"
    and "load_efi_image_from_buffer fw data s = (s', r)"
  shows "idle (fs_override s') \<and> r \<noteq> Panic \<and> ((\<exists>h. r = Ok h) \<longrightarrow> checked_since s s' data)"
proof -
  note l = image_authentication.axioms(1) [OF assms(1)]
  show ?thesis
    using loads_by_auth.load_idle [OF l assms(2,3)] loads_by_auth.load_no_panic [OF l assms(2,3)]
      image_authentication.load_checked [OF assms(1,2)] assms(3) by blast
qed

theorem security_override_is_scoped_witness:
  "\<exists>s'. load_efi_image_from_buffer (sample_boot_fw True [[77, 90]] [] :: unit boot_firmware) [77, 90] fresh_fw
       = (s', Ok 1) \<and> idle (fs_override s') \<and> checked_since fresh_fw s' [77, 90]"
proof -
  let ?fw = "sample_boot_fw True [[77, 90]] [] :: unit boot_firmware"
  have i: "idle (fs_override (fresh_fw :: unit fw_state))"
    by (simp add: fresh_fw_def idle_override_def idle_def hooks_of_def)
  obtain s' where l: "load_efi_image_from_buffer ?fw [77, 90] fresh_fw = (s', Ok 1)"
    by (simp add: load_efi_image_from_buffer_def install_security_override_def sample_boot_fw_def
        installed_auth_def hook_security2_def shim_validate_def shim_verify_def fresh_fw_def idle_override_def
        on_override_def emit_def Let_def)
  show ?thesis using security_override_is_scoped [OF samplefw.image_authentication_axioms i l] l by blast
qed

end
