(* ===== verification/Report.thy ===== *)
theory Report
  imports Trust_Log Boot_Types Nvram
begin

section \<open>Boot reports, diagnostics and firmware quirks\<close>

text \<open>
  Model of \<open>lamboot-core/src/report.rs\<close> (the JSON boot report and the audit log), \<open>diag.rs\<close> (the gated
  breadcrumbs, written one by one or coalesced in memory) and \<open>firmware_quirks.rs\<close>, with the data types
  of \<open>smbios.rs\<close> and \<open>acpi.rs\<close> they read.  All writes go through the ESP writer of theory \<open>Fat_Volume\<close>.

  The lemmas show that an escaped string cannot break out of its JSON literal and reads back, that the
  coalescing buffer stays within its cap, and which parts of a volume a breadcrumb leaves alone.
\<close>

subsection \<open>System information and quirks\<close>

record SystemInfo =
  si_manufacturer :: "string option"
  si_product_name :: "string option"
  si_version :: "string option"
  si_serial_number :: "string option"
  si_family :: "string option"

record DeviceScope =
  ds_scope_type :: u8
  ds_enumeration_id :: u8
  ds_start_bus :: u8
  ds_path :: "(u8 \<times> u8) list"

record DrhdUnit =
  dr_segment :: u16
  dr_register_base :: u64
  dr_include_pci_all :: bool
  dr_device_scopes :: "DeviceScope list"

record RmrrRegion =
  rr_base_address :: u64
  rr_limit_address :: u64
  rr_segment :: u16
  rr_device_scopes :: "DeviceScope list"

record IommuInfo =
  io_intel_vt_d :: bool
  io_amd_vi :: bool
  io_drhd_units :: "DrhdUnit list"
  io_rmrr_regions :: "RmrrRegion list"

record FirmwareQuirks =
  conout_fat_coupling :: bool

definition KNOWN_QUIRKY_SYSTEMS :: "(string \<times> string \<times> FirmwareQuirks) list" where
  "KNOWN_QUIRKY_SYSTEMS =
     [(''ASUSTeK COMPUTER INC.'', ''G10AJ'', \<lparr>conout_fat_coupling = True\<rparr>)]"

definition quirks_detect :: "SystemInfo \<Rightarrow> FirmwareQuirks" where
  "quirks_detect info =
     (case (si_manufacturer info, si_product_name info) of
        (Some mfr, Some product) \<Rightarrow>
          (case find (\<lambda>(m, p, q). eq_ignore_ascii_case mfr m \<and> prefix p product) KNOWN_QUIRKY_SYSTEMS of
             Some (m, p, q) \<Rightarrow> q
           | None \<Rightarrow> \<lparr>conout_fat_coupling = False\<rparr>)
      | _ \<Rightarrow> \<lparr>conout_fat_coupling = False\<rparr>)"

definition quirks_summary :: "FirmwareQuirks \<Rightarrow> string" where
  "quirks_summary q =
     (let parts = (if conout_fat_coupling q then [''conout_fat_coupling=true''] else []) in
      if parts = [] then ''none'' else str_join '' '' parts)"

subsection \<open>Reports\<close>

definition REPORTS_DIR :: string where "REPORTS_DIR = ''/EFI/LamBoot/reports''"
definition BOOT_REPORT :: string where "BOOT_REPORT = ''/EFI/LamBoot/reports/boot.json''"
definition AUDIT_LOG :: string where "AUDIT_LOG = ''/EFI/LamBoot/reports/audit.log''"
definition ERROR_REPORT :: string where "ERROR_REPORT = ''/EFI/LamBoot/reports/error.json''"

record BootContext =
  bc_sys_info :: SystemInfo
  bc_fleet_id :: "string option"
  bc_os_name :: "string option"
  bc_hypervisor :: "string option"
  bc_iommu :: IommuInfo
  bc_vmid :: "string option"
  bc_role :: "string option"
  bc_host_node :: "string option"
  bc_telemetry_json :: string
  bc_report_sb :: ReportSbState
  bc_native_pe_never :: bool

definition get_timestamp :: "'n runtime \<Rightarrow> string" where
  "get_timestamp rt =
     (case rt_time rt of
        Some t \<Rightarrow>
          zero_pad 4 (dec (unat (et_year t))) @ ''-'' @ zero_pad 2 (dec (unat (et_month t))) @ ''-'' @
          zero_pad 2 (dec (unat (et_day t))) @ ''T'' @ zero_pad 2 (dec (unat (et_hour t))) @ '':'' @
          zero_pad 2 (dec (unat (et_minute t))) @ '':'' @ zero_pad 2 (dec (unat (et_second t)))
      | None \<Rightarrow> ''unknown'')"

definition report_path :: "string \<Rightarrow> (string, string) outcome" where
  "report_path p = omap_err (\<lambda>_. ''INVALID_PARAMETER'') (path_from_str p)"

text \<open>\<open>writer_for\<close> and the writer's method: \<open>w.m(\<dots>)?\<close>, with the file-system error as a status.\<close>

definition writer_for :: "('s volume, 'a, FsError) act \<Rightarrow> ('s volume, 'a, string) act" where
  "writer_for m v =
     (if esp_writer_new v then amap_err to_uefi_status m v else (v, Err ''UNSUPPORTED''))"

definition json_escape_char :: "char \<Rightarrow> string" where
  "json_escape_char c =
     (if c = bslash then [bslash, bslash]
      else if c = quote then [bslash, quote]
      else if c = CHR 0x0A then [bslash, CHR ''n'']
      else if c = CHR 0x0D then [bslash, CHR ''r'']
      else if c = CHR 0x09 then [bslash, CHR ''t'']
      else if c = CHR 0x08 then [bslash, CHR ''b'']
      else if c = CHR 0x0C then [bslash, CHR ''f'']
      else if byte_val c < 32 then bslash # CHR ''u'' # hex4 (byte_val c)
      else [c])"

definition json_escape :: "string \<Rightarrow> string" where
  "json_escape s = concat (map json_escape_char s)"

definition NL :: string where "NL = [CHR 0x0A]"

definition json_text :: "string \<Rightarrow> string" where
  "json_text s = [quote] @ s @ [quote]"

definition append_audit_log :: "'s sfs \<Rightarrow> string \<Rightarrow> ('s volume, unit, string) act" where
  "append_audit_log fw message =
     abind (alift (\<lambda>_. report_path AUDIT_LOG)) (\<lambda>audit.
     writer_for (esp_true_append fw audit (as_bytes message)))"

fun entry_type :: "EntryKind \<Rightarrow> string" where
  "entry_type (Chainload p) = ''chainload''"
| "entry_type (Uki p opts) = ''uki''"
| "entry_type (LinuxLegacy k i opts) = ''linux_legacy''"
| "entry_type (Iso src) = ''iso''"

fun entry_path :: "EntryKind \<Rightarrow> string" where
  "entry_path (Chainload p) = p"
| "entry_path (Uki p opts) = p"
| "entry_path (LinuxLegacy k i opts) = k"
| "entry_path (Iso (IsoFile p)) = p"
| "entry_path (Iso (IsoOptical h label)) = label"

definition or_empty :: "string option \<Rightarrow> string" where
  "or_empty x = (case x of None \<Rightarrow> [] | Some s \<Rightarrow> s)"

definition iommu_type :: "IommuInfo \<Rightarrow> string" where
  "iommu_type i = (if io_intel_vt_d i then ''Intel VT-d'' else if io_amd_vi i then ''AMD-Vi'' else [])"

fun is_chainload :: "EntryKind \<Rightarrow> bool" where
  "is_chainload (Chainload p) = True"
| "is_chainload _ = False"

text \<open>The version and the target of the build are arguments.\<close>

definition boot_report_json :: "string \<Rightarrow> string \<Rightarrow> string \<Rightarrow> BootEntry \<Rightarrow> BootContext \<Rightarrow> string" where
  "boot_report_json version target now e ctx =
     (let chain = is_chainload (en_kind e);
          field = (\<lambda>(k, v). ''  '' @ json_text k @ '': '' @ json_text v @ '','' @ NL) in
      ''{'' @ NL @
      concat (map field
        [(''lamboot_version'', json_escape version),
         (''lamboot_arch'', json_escape target),
         (''timestamp'', json_escape now),
         (''entry_id'', json_escape (en_id e)),
         (''entry_name'', json_escape (en_name e)),
         (''entry_type'', entry_type (en_kind e)),
         (''path'', json_escape (entry_path (en_kind e))),
         (''verified_via'', json_escape (if chain then [] else report_verified_via (bc_report_sb ctx))),
         (''loader'', json_escape (report_loader (bc_native_pe_never ctx) chain)),
         (''system_manufacturer'', json_escape (or_empty (si_manufacturer (bc_sys_info ctx)))),
         (''system_product'', json_escape (or_empty (si_product_name (bc_sys_info ctx)))),
         (''fleet_id'', json_escape (or_empty (bc_fleet_id ctx))),
         (''vmid'', json_escape (or_empty (bc_vmid ctx))),
         (''role'', json_escape (or_empty (bc_role ctx))),
         (''host_node'', json_escape (or_empty (bc_host_node ctx))),
         (''os_name'', json_escape (or_empty (bc_os_name ctx))),
         (''hypervisor'', json_escape (or_empty (bc_hypervisor ctx))),
         (''iommu'', json_escape (iommu_type (bc_iommu ctx)))]) @
      ''  '' @ json_text ''iommu_units'' @ '': '' @ dec (length (io_drhd_units (bc_iommu ctx))) @ '','' @ NL @
      ''  '' @ json_text ''boot_timing_ms'' @ '': '' @ bc_telemetry_json ctx @ NL @
      ''}'' @ NL)"

definition write_boot_report ::
  "'s sfs \<Rightarrow> 'n runtime \<Rightarrow> string \<Rightarrow> string \<Rightarrow> BootEntry \<Rightarrow> BootContext \<Rightarrow> ('s volume, unit, string) act" where
  "write_boot_report fw rt version target e ctx =
     abind (alift (\<lambda>_. report_path REPORTS_DIR)) (\<lambda>reports_dir.
     abind (alift (\<lambda>_. report_path BOOT_REPORT)) (\<lambda>boot_report.
     abind (writer_for (atry (esp_ensure_dir fw reports_dir))) (\<lambda>_.
     abind (writer_for (esp_write fw boot_report
       (as_bytes (boot_report_json version target (get_timestamp rt) e ctx)))) (\<lambda>_.
     append_audit_log fw
       (''['' @ get_timestamp rt @ ''] Boot: '' @ en_name e @ '' ('' @ en_id e @ '')'' @ NL)))))"

subsection \<open>Breadcrumbs\<close>

definition DIAG_BUF_CAP :: nat where "DIAG_BUF_CAP = 32 * 1024"

record Diag =
  dg_enabled :: bool
  dg_coalesce :: bool
  dg_buf :: "string option"

definition diag_set_enabled :: "bool \<Rightarrow> Diag \<Rightarrow> Diag" where
  "diag_set_enabled b d = d\<lparr>dg_enabled := b\<rparr>"

definition diag_set_coalesce :: "bool \<Rightarrow> Diag \<Rightarrow> Diag" where
  "diag_set_coalesce b d = d\<lparr>dg_coalesce := b\<rparr>"

definition buffer_push :: "string \<Rightarrow> Diag \<Rightarrow> Diag" where
  "buffer_push msg d =
     (let buf = (case dg_buf d of None \<Rightarrow> [] | Some b \<Rightarrow> b) in
      d\<lparr>dg_buf := Some (if length buf + length msg \<le> DIAG_BUF_CAP then buf @ msg else buf)\<rparr>)"

definition diag_append :: "'s sfs \<Rightarrow> string \<Rightarrow> Diag \<times> 's volume \<Rightarrow> Diag \<times> 's volume" where
  "diag_append fw msg = (\<lambda>(d, v).
     if \<not> dg_enabled d then (d, v)
     else if dg_coalesce d then (buffer_push msg d, v)
     else (d, fst (append_audit_log fw msg v)))"

definition diag_flush :: "'s sfs \<Rightarrow> Diag \<times> 's volume \<Rightarrow> Diag \<times> 's volume" where
  "diag_flush fw = (\<lambda>(d, v).
     if \<not> dg_coalesce d then (d, v)
     else case dg_buf d of
       None \<Rightarrow> (d, v)
     | Some buf \<Rightarrow>
         if buf \<noteq> [] then (d\<lparr>dg_buf := Some []\<rparr>, fst (append_audit_log fw buf v)) else (d, v))"

subsection \<open>Escaped text\<close>

text \<open>A reader for the body of a JSON string literal, up to its closing quote.\<close>

fun json_unescape :: "string \<Rightarrow> (string \<times> string) option" where
  "json_unescape [] = None"
| "json_unescape (c # s) =
     (if c = quote then Some ([], s)
      else if c \<noteq> bslash then map_option (\<lambda>(x, r). (c # x, r)) (json_unescape s)
      else case s of
        [] \<Rightarrow> None
      | e # s' \<Rightarrow>
          if e = CHR ''u'' then
            (case s' of
               a # b # c' # d # r \<Rightarrow>
                 map_option (\<lambda>(x, q).
                   (char_of (4096 * hex_val a + 256 * hex_val b + 16 * hex_val c' + hex_val d) # x, q))
                   (json_unescape r)
             | _ \<Rightarrow> None)
          else map_option (\<lambda>(x, r).
            ((if e = CHR ''n'' then CHR 0x0A else if e = CHR ''r'' then CHR 0x0D
              else if e = CHR ''t'' then CHR 0x09 else if e = CHR ''b'' then CHR 0x08
              else if e = CHR ''f'' then CHR 0x0C else e) # x, r)) (json_unescape s'))"

lemma json_unescape_char:
  "json_unescape (json_escape_char c @ r) = map_option (\<lambda>(x, y). (c # x, y)) (json_unescape r)"
proof -
  have "char_of (4096 * hex_val a + 256 * hex_val b + 16 * hex_val c' + hex_val d) = c"
    if "hex4 (byte_val c) = [a, b, c', d]" for a b c' d
    using read_escape_hex4 [of c r] that by simp
  then show ?thesis
    by (auto simp: json_escape_char_def quote_def bslash_def hex4_def)
qed

text \<open>Whatever a field holds, the literal ends where the report ends it and reads back as the field.\<close>

lemma json_unescape_escape: "json_unescape (json_escape s @ quote # r) = Some (s, r)"
  by (induction s) (simp_all add: json_escape_def json_unescape_char)

subsection \<open>Breadcrumbs stay bounded\<close>

definition diag_ok :: "Diag \<Rightarrow> bool" where
  "diag_ok d \<longleftrightarrow> (case dg_buf d of None \<Rightarrow> True | Some b \<Rightarrow> length b \<le> DIAG_BUF_CAP)"

lemma diag_ok_append: "diag_ok (fst s) \<Longrightarrow> diag_ok (fst (diag_append fw msg s))"
  by (cases s) (auto simp: diag_append_def buffer_push_def diag_ok_def Let_def split: option.splits)

lemma diag_ok_flush: "diag_ok (fst s) \<Longrightarrow> diag_ok (fst (diag_flush fw s))"
  by (cases s) (auto simp: diag_flush_def diag_ok_def split: option.splits)

text \<open>Disabled diagnostics touch nothing; coalesced ones do not touch the volume before a flush.\<close>

lemma diag_append_disabled: "\<not> dg_enabled d \<Longrightarrow> diag_append fw msg (d, v) = (d, v)"
  by (simp add: diag_append_def)

lemma diag_append_coalesced: "dg_coalesce d \<Longrightarrow> snd (diag_append fw msg (d, v)) = v"
  by (simp add: diag_append_def)

end
