(* ===== verification/Pe_Loader_Pure.thy ===== *)
theory Pe_Loader_Pure
  imports Prelude
begin

section \<open>The PE/COFF parser, validator and relocator\<close>

text \<open>
  Model of \<open>lamboot-core/src/pe_loader_pure.rs\<close>: the error type, the header summary, the header
  parser, the conformance check and the base relocator.  The diagnostic callback of the parser only
  prints and is left out.  The build target's architecture, a \<open>cfg\<close> of the source, is the argument
  of \<open>expected_machine\<close> and of \<open>validate_headers\<close>.

  The lemmas show that no input makes the parser, the validator or the relocator panic, that a
  validated summary confines every section copy, and that the relocator is a fold over the fixups of
  the directory which touches the bytes of those fixups only.
\<close>

subsection \<open>Constants, errors and the summary\<close>

definition MAX_IMAGE_SIZE :: u64 where "MAX_IMAGE_SIZE = 256 * 1024 * 1024"
definition MAX_SECTIONS :: u16 where "MAX_SECTIONS = 256"

definition PE32_PLUS_MAGIC :: u16 where "PE32_PLUS_MAGIC = 0x20B"
definition PE32_MAGIC :: u16 where "PE32_MAGIC = 0x10B"
definition MACHINE_X86_64 :: u16 where "MACHINE_X86_64 = 0x8664"
definition MACHINE_AARCH64 :: u16 where "MACHINE_AARCH64 = 0xAA64"

definition SUBSYSTEM_EFI_APPLICATION :: u16 where "SUBSYSTEM_EFI_APPLICATION = 10"
definition SUBSYSTEM_EFI_BOOT_SERVICE_DRIVER :: u16 where "SUBSYSTEM_EFI_BOOT_SERVICE_DRIVER = 11"
definition SUBSYSTEM_EFI_RUNTIME_DRIVER :: u16 where "SUBSYSTEM_EFI_RUNTIME_DRIVER = 12"

definition REL_ABSOLUTE :: u16 where "REL_ABSOLUTE = 0"
definition REL_HIGH :: u16 where "REL_HIGH = 1"
definition REL_LOW :: u16 where "REL_LOW = 2"
definition REL_HIGHLOW :: u16 where "REL_HIGHLOW = 3"
definition REL_DIR64 :: u16 where "REL_DIR64 = 10"

lemmas pe_const_defs =
  MAX_IMAGE_SIZE_def MAX_SECTIONS_def PE32_PLUS_MAGIC_def PE32_MAGIC_def
  MACHINE_X86_64_def MACHINE_AARCH64_def SUBSYSTEM_EFI_APPLICATION_def
  SUBSYSTEM_EFI_BOOT_SERVICE_DRIVER_def SUBSYSTEM_EFI_RUNTIME_DRIVER_def

lemmas rel_const_defs =
  REL_ABSOLUTE_def REL_HIGH_def REL_LOW_def REL_HIGHLOW_def REL_DIR64_def

datatype PeLoadError =
    TooShort usize usize
  | BadDosSignature
  | NtOffsetOutOfBounds u32
  | BadNtSignature
  | UnsupportedMachine u16
  | UnsupportedPe32
  | BadOptionalHeaderMagic u16
  | UnsupportedSubsystem u16
  | ImageTooLarge u64 u64
  | TooManySections u16 u16
  | HasImports
  | HasTlsCallbacks
  | SectionOutOfBounds usize string
  | RelocationMalformed string
  | UnsupportedRelocationType u16
  | EntryPointOutOfBounds
  | ParseFailed string

fun pe_as_log_token :: "PeLoadError \<Rightarrow> string" where
  "pe_as_log_token (TooShort have need) = ''pe_too_short''"
| "pe_as_log_token BadDosSignature = ''pe_bad_dos_sig''"
| "pe_as_log_token (NtOffsetOutOfBounds off) = ''pe_nt_offset_oob''"
| "pe_as_log_token BadNtSignature = ''pe_bad_nt_sig''"
| "pe_as_log_token (UnsupportedMachine m) = ''pe_unsupported_machine''"
| "pe_as_log_token UnsupportedPe32 = ''pe_unsupported_pe32''"
| "pe_as_log_token (BadOptionalHeaderMagic m) = ''pe_bad_opt_magic''"
| "pe_as_log_token (UnsupportedSubsystem s) = ''pe_unsupported_subsystem''"
| "pe_as_log_token (ImageTooLarge claimed mx) = ''pe_image_too_large''"
| "pe_as_log_token (TooManySections claimed mx) = ''pe_too_many_sections''"
| "pe_as_log_token HasImports = ''pe_has_imports''"
| "pe_as_log_token HasTlsCallbacks = ''pe_has_tls''"
| "pe_as_log_token (SectionOutOfBounds i detail) = ''pe_section_oob''"
| "pe_as_log_token (RelocationMalformed why) = ''pe_reloc_malformed''"
| "pe_as_log_token (UnsupportedRelocationType t) = ''pe_reloc_unsupported''"
| "pe_as_log_token EntryPointOutOfBounds = ''pe_entry_oob''"
| "pe_as_log_token (ParseFailed why) = ''pe_parse_failed''"

record DataDir =
  dd_virtual_address :: u32
  dd_size :: u32

record SectionPlan =
  sp_index :: usize
  sp_virt_addr :: u32
  sp_virt_size :: u32
  sp_raw_offset :: u32
  sp_copy_len :: u32
  sp_executable :: bool

record PeSummary =
  ps_machine :: u16
  ps_subsystem :: u16
  ps_preferred_base :: u64
  ps_size_of_image :: u64
  ps_entry_rva :: u32
  ps_num_sections :: u16
  ps_opt_magic :: u16
  ps_sections :: "SectionPlan list"
  ps_reloc_dir :: "DataDir option"
  ps_import_dir_size :: u32
  ps_tls_dir_size :: u32
  ps_entry_in_executable_section :: bool

subsection \<open>Readers\<close>

definition rd_u16 :: "bytes \<Rightarrow> usize \<Rightarrow> (u16, PeLoadError) outcome" where
  "rd_u16 b off =
     obind (of_option (ParseFailed ''u16 read past end of image'') (get_range b off (off + 2)))
       (\<lambda>s. Ok (from_le s))"

definition rd_u32 :: "bytes \<Rightarrow> usize \<Rightarrow> (u32, PeLoadError) outcome" where
  "rd_u32 b off =
     obind (of_option (ParseFailed ''u32 read past end of image'') (get_range b off (off + 4)))
       (\<lambda>s. Ok (from_le s))"

definition rd_u64 :: "bytes \<Rightarrow> usize \<Rightarrow> (u64, PeLoadError) outcome" where
  "rd_u64 b off =
     obind (of_option (ParseFailed ''u64 read past end of image'') (get_range b off (off + 8)))
       (\<lambda>s. Ok (from_le s))"

definition read_data_dir :: "bytes \<Rightarrow> usize \<Rightarrow> u32 \<Rightarrow> u32 \<Rightarrow> DataDir option" where
  "read_data_dir bytes start n_rva idx =
     (if idx \<ge> n_rva then None
      else let off = start + unat idx * 8 in
        case ok_option (rd_u32 bytes off) of None \<Rightarrow> None
        | Some va \<Rightarrow>
          (case ok_option (rd_u32 bytes (off + 4)) of None \<Rightarrow> None
           | Some sz \<Rightarrow>
             if va = 0 \<and> sz = 0 then None
             else Some \<lparr>dd_virtual_address = va, dd_size = sz\<rparr>))"

definition dir_size :: "DataDir option \<Rightarrow> u32" where
  "dir_size d = (case d of None \<Rightarrow> 0 | Some d \<Rightarrow> dd_size d)"

subsection \<open>The header parser\<close>

text \<open>One iteration of the section loop: the five fields of a 40-byte entry, read with panicking
  slice indices as in the source.\<close>

definition parse_section :: "bytes \<Rightarrow> usize \<Rightarrow> usize \<Rightarrow> (SectionPlan, PeLoadError) outcome" where
  "parse_section bytes base i =
     obind (slice_idx bytes (base + 8) (base + 12)) (\<lambda>vs.
     obind (slice_idx bytes (base + 12) (base + 16)) (\<lambda>va.
     obind (slice_idx bytes (base + 16) (base + 20)) (\<lambda>rs.
     obind (slice_idx bytes (base + 20) (base + 24)) (\<lambda>ro.
     obind (slice_idx bytes (base + 36) (base + 40)) (\<lambda>ch.
       let virt_size = from_le vs; raw_size = from_le rs in
       Ok \<lparr>sp_index = i, sp_virt_addr = from_le va, sp_virt_size = virt_size,
           sp_raw_offset = from_le ro, sp_copy_len = min raw_size virt_size,
           sp_executable = ((from_le ch :: u32) AND 0x20000000 \<noteq> 0)\<rparr>)))))"

definition section_holds_entry :: "u32 \<Rightarrow> SectionPlan \<Rightarrow> bool" where
  "section_holds_entry entry_rva plan \<longleftrightarrow>
     sp_executable plan \<and> sp_virt_addr plan \<le> entry_rva \<and>
     (ucast entry_rva :: u64) < ucast (sp_virt_addr plan) + ucast (sp_virt_size plan)"

primrec parse_sections ::
  "nat \<Rightarrow> bytes \<Rightarrow> usize \<Rightarrow> u32 \<Rightarrow> usize \<Rightarrow> SectionPlan list \<Rightarrow> bool
   \<Rightarrow> (SectionPlan list \<times> bool, PeLoadError) outcome" where
  "parse_sections 0 bytes start entry_rva i sections found = Ok (sections, found)"
| "parse_sections (Suc n) bytes start entry_rva i sections found =
     obind (parse_section bytes (start + i * 40) i) (\<lambda>plan.
       parse_sections n bytes start entry_rva (Suc i) (sections @ [plan])
         (found \<or> section_holds_entry entry_rva plan))"

definition parse_pe32_plus ::
  "bytes \<Rightarrow> u16 \<Rightarrow> u16 \<Rightarrow> usize \<Rightarrow> usize \<Rightarrow> u16 \<Rightarrow> (PeSummary, PeLoadError) outcome" where
  "parse_pe32_plus bytes machine num_sections size_of_optional_header opt_off opt_magic =
     obind (rd_u32 bytes (opt_off + 0x10)) (\<lambda>entry_rva.
     obind (rd_u64 bytes (opt_off + 0x18)) (\<lambda>preferred_base.
     obind (rd_u32 bytes (opt_off + 0x38)) (\<lambda>size_of_image.
     obind (rd_u16 bytes (opt_off + 0x44)) (\<lambda>subsystem.
     obind (rd_u32 bytes (opt_off + 0x6C)) (\<lambda>n_rva.
       let data_dir_start = opt_off + 0x70;
           import_dir_size = dir_size (read_data_dir bytes data_dir_start n_rva 1);
           reloc_dir = read_data_dir bytes data_dir_start n_rva 5;
           tls_dir_size = dir_size (read_data_dir bytes data_dir_start n_rva 9) in
       if num_sections > MAX_SECTIONS then Err (TooManySections num_sections MAX_SECTIONS)
       else
         let sections_offset_start = opt_off + size_of_optional_header;
             needed = unat num_sections * 40 in
         if sections_offset_start + needed > length bytes
         then Err (ParseFailed ''section table extends past file end'')
         else
           obind (parse_sections (unat num_sections) bytes sections_offset_start entry_rva 0 []
                    False) (\<lambda>(sections, found).
             Ok \<lparr>ps_machine = machine, ps_subsystem = subsystem,
                 ps_preferred_base = preferred_base, ps_size_of_image = ucast size_of_image,
                 ps_entry_rva = entry_rva, ps_num_sections = num_sections,
                 ps_opt_magic = opt_magic, ps_sections = sections, ps_reloc_dir = reloc_dir,
                 ps_import_dir_size = import_dir_size, ps_tls_dir_size = tls_dir_size,
                 ps_entry_in_executable_section = found\<rparr>))))))"

definition parse_headers :: "bytes \<Rightarrow> (PeSummary, PeLoadError) outcome" where
  "parse_headers bytes =
     (if length bytes < 64 then Err (TooShort (length bytes) 64) else
      obind (slice_idx bytes 0 2) (\<lambda>mz.
      if mz \<noteq> [0x4D, 0x5A] then Err BadDosSignature else
      obind (at_idx bytes 0x3C) (\<lambda>b0.
      obind (at_idx bytes 0x3D) (\<lambda>b1.
      obind (at_idx bytes 0x3E) (\<lambda>b2.
      obind (at_idx bytes 0x3F) (\<lambda>b3.
      let e_lfanew = from_le [b0, b1, b2, b3] :: u32 in
      if unat e_lfanew + 4 > length bytes then Err (NtOffsetOutOfBounds e_lfanew) else
      let nt_off = unat e_lfanew in
      obind (slice_idx bytes nt_off (nt_off + 4)) (\<lambda>sig.
      if sig \<noteq> [0x50, 0x45, 0, 0] then Err BadNtSignature else
      let coff_off = nt_off + 4 in
      obind (rd_u16 bytes coff_off) (\<lambda>machine.
      obind (rd_u16 bytes (coff_off + 2)) (\<lambda>num_sections.
      obind (rd_u16 bytes (coff_off + 16)) (\<lambda>soh.
      let opt_off = coff_off + 20 in
      obind (rd_u16 bytes opt_off) (\<lambda>opt_magic.
      if opt_magic \<noteq> PE32_PLUS_MAGIC then
        Ok \<lparr>ps_machine = machine, ps_subsystem = 0, ps_preferred_base = 0, ps_size_of_image = 0,
            ps_entry_rva = 0, ps_num_sections = num_sections, ps_opt_magic = opt_magic,
            ps_sections = [], ps_reloc_dir = None, ps_import_dir_size = 0, ps_tls_dir_size = 0,
            ps_entry_in_executable_section = False\<rparr>
      else parse_pe32_plus bytes machine num_sections (unat soh) opt_off opt_magic)))))))))))"

subsection \<open>The conformance check\<close>

fun expected_machine :: "target_arch \<Rightarrow> u16" where
  "expected_machine Arch_x86_64 = MACHINE_X86_64"
| "expected_machine Arch_aarch64 = MACHINE_AARCH64"
| "expected_machine Arch_other = MACHINE_X86_64"

text \<open>The loop over the section plans; \<open>None\<close> means every plan passed.  The sums are the source's:
  64-bit for the virtual range, \<open>usize\<close> for the raw range.\<close>

fun check_sections :: "u64 \<Rightarrow> usize \<Rightarrow> SectionPlan list \<Rightarrow> PeLoadError option" where
  "check_sections size_of_image len [] = None"
| "check_sections size_of_image len (plan # rest) =
     (let virt_end = (ucast (sp_virt_addr plan) :: u64) + ucast (sp_virt_size plan) in
      if virt_end > size_of_image
      then Some (SectionOutOfBounds (sp_index plan) ''virtual range exceeds SizeOfImage'')
      else if sp_copy_len plan > 0 \<and> unat (sp_raw_offset plan) + unat (sp_copy_len plan) > len
      then Some (SectionOutOfBounds (sp_index plan) ''raw range exceeds input'')
      else check_sections size_of_image len rest)"

definition validate_headers ::
  "target_arch \<Rightarrow> PeSummary \<Rightarrow> bytes \<Rightarrow> (unit, PeLoadError) outcome" where
  "validate_headers arch s bytes =
     (if ps_machine s \<noteq> expected_machine arch then Err (UnsupportedMachine (ps_machine s))
      else if ps_opt_magic s = PE32_MAGIC then Err UnsupportedPe32
      else if ps_opt_magic s \<noteq> PE32_PLUS_MAGIC then Err (BadOptionalHeaderMagic (ps_opt_magic s))
      else if ps_subsystem s \<noteq> SUBSYSTEM_EFI_APPLICATION
           \<and> ps_subsystem s \<noteq> SUBSYSTEM_EFI_BOOT_SERVICE_DRIVER
           \<and> ps_subsystem s \<noteq> SUBSYSTEM_EFI_RUNTIME_DRIVER
      then Err (UnsupportedSubsystem (ps_subsystem s))
      else if ps_size_of_image s > MAX_IMAGE_SIZE
      then Err (ImageTooLarge (ps_size_of_image s) MAX_IMAGE_SIZE)
      else if ps_import_dir_size s \<noteq> 0 then Err HasImports
      else if ps_tls_dir_size s \<noteq> 0 then Err HasTlsCallbacks
      else case check_sections (ps_size_of_image s) (length bytes) (ps_sections s) of
        Some e \<Rightarrow> Err e
      | None \<Rightarrow>
          if (ucast (ps_entry_rva s) :: u64) \<ge> ps_size_of_image s then Err EntryPointOutOfBounds
          else if \<not> ps_entry_in_executable_section s then Err EntryPointOutOfBounds
          else Ok ())"

subsection \<open>Base relocations\<close>

text \<open>One directory entry: the fixup of \<open>reloc_type\<close> at \<open>target_rva\<close>.  The source leaves a partly
  relocated image behind when it returns an error; its only caller frees the image then, so the
  model returns the image on success only.\<close>

definition apply_fixup :: "u64 \<Rightarrow> u16 \<Rightarrow> usize \<Rightarrow> bytes \<Rightarrow> (bytes, PeLoadError) outcome" where
  "apply_fixup delta reloc_type target_rva img =
     (if reloc_type = REL_ABSOLUTE then Ok img
      else if reloc_type = REL_DIR64 then
        (if target_rva + 8 > length img
         then Err (RelocationMalformed ''DIR64 fixup target out of bounds'')
         else obind (slice_idx img target_rva (target_rva + 8)) (\<lambda>slot.
           write_slice img target_rva (to_le ((from_le slot :: u64) + delta))))
      else if reloc_type = REL_HIGHLOW then
        (if target_rva + 4 > length img
         then Err (RelocationMalformed ''HIGHLOW fixup target out of bounds'')
         else obind (slice_idx img target_rva (target_rva + 4)) (\<lambda>slot.
           write_slice img target_rva (to_le ((from_le slot :: u32) + ucast delta))))
      else if reloc_type = REL_HIGH \<or> reloc_type = REL_LOW
      then Err (UnsupportedRelocationType reloc_type)
      else Err (UnsupportedRelocationType reloc_type))"

primrec apply_entries ::
  "nat \<Rightarrow> u64 \<Rightarrow> usize \<Rightarrow> bytes \<Rightarrow> usize \<Rightarrow> usize \<Rightarrow> bytes \<Rightarrow> (bytes, PeLoadError) outcome" where
  "apply_entries 0 delta virt_addr reloc_bytes cursor i img = Ok img"
| "apply_entries (Suc n) delta virt_addr reloc_bytes cursor i img =
     (let entry_offset = cursor + 8 + i * 2 in
      obind (slice_idx reloc_bytes entry_offset (entry_offset + 2)) (\<lambda>e.
        let entry = from_le e :: u16;
            reloc_type = drop_bit 12 entry;
            within_page = unat (entry AND 0x0FFF);
            target_rva = virt_addr + within_page in
        obind (apply_fixup delta reloc_type target_rva img) (\<lambda>img'.
          apply_entries n delta virt_addr reloc_bytes cursor (Suc i) img')))"

function apply_blocks :: "u64 \<Rightarrow> bytes \<Rightarrow> usize \<Rightarrow> bytes \<Rightarrow> (bytes, PeLoadError) outcome" where
  "apply_blocks delta reloc_bytes cursor img =
     (if cursor < length reloc_bytes then
        (if cursor + 8 > length reloc_bytes
         then Err (RelocationMalformed ''block header truncated'') else
         obind (slice_idx reloc_bytes cursor (cursor + 4)) (\<lambda>va.
         obind (slice_idx reloc_bytes (cursor + 4) (cursor + 8)) (\<lambda>sz.
         let virt_addr = unat (from_le va :: u32);
             size_of_block = unat (from_le sz :: u32) in
         if size_of_block = 0 then Ok img
         else if size_of_block < 8 then Err (RelocationMalformed ''SizeOfBlock < 8'')
         else if cursor + size_of_block > length reloc_bytes
         then Err (RelocationMalformed ''block extends past directory'')
         else let entries_bytes = size_of_block - 8 in
         if entries_bytes mod 2 \<noteq> 0 then Err (RelocationMalformed ''odd entries_bytes'')
         else obind (apply_entries (entries_bytes div 2) delta virt_addr reloc_bytes cursor 0 img)
                (\<lambda>img'. apply_blocks delta reloc_bytes (cursor + size_of_block) img'))))
      else Ok img)"
  by pat_completeness auto
termination
  by (relation "measure (\<lambda>(delta, reloc_bytes, cursor, img). length reloc_bytes - cursor)") auto

declare apply_blocks.simps [simp del]

definition apply_relocations_to_slice ::
  "bytes \<Rightarrow> u64 \<Rightarrow> u64 \<Rightarrow> bytes \<Rightarrow> (bytes, PeLoadError) outcome" where
  "apply_relocations_to_slice img preferred_base actual_base reloc_bytes =
     (let delta = actual_base - preferred_base in
      if delta = 0 then Ok img else apply_blocks delta reloc_bytes 0 img)"

subsection \<open>Digest formatting\<close>

definition HEX :: string where "HEX = ''0123456789abcdef''"

definition hex_byte :: "u8 \<Rightarrow> string" where
  "hex_byte b = [HEX ! unat (drop_bit 4 b), HEX ! unat (b AND 0x0F)]"

definition hex_encode_32 :: "bytes \<Rightarrow> string" where
  "hex_encode_32 digest = concat (map hex_byte digest)"

subsection \<open>The parser does not panic\<close>

lemma rd_no_panic [simp, no_panic]:
  "rd_u16 b off \<noteq> Panic" "rd_u32 b off \<noteq> Panic" "rd_u64 b off \<noteq> Panic"
  by (simp_all add: rd_u16_def rd_u32_def rd_u64_def outcome_simps)

lemma parse_section_in_table:
  "base + 40 \<le> length bytes \<Longrightarrow> \<exists>plan. parse_section bytes base i = Ok plan"
  by (simp add: parse_section_def Let_def)

lemma parse_sections_in_table:
  "start + (i + n) * 40 \<le> length bytes \<Longrightarrow>
   \<exists>r. parse_sections n bytes start entry_rva i sections found = Ok r"
proof (induction n arbitrary: i sections found)
  case (Suc n)
  then have "start + i * 40 + 40 \<le> length bytes" by simp
  from parse_section_in_table [OF this, of i]
  obtain plan where "parse_section bytes (start + i * 40) i = Ok plan" ..
  with Suc show ?case by simp
qed simp

lemma parse_pe32_plus_no_panic [no_panic]:
  "parse_pe32_plus bytes machine n soh opt_off magic \<noteq> Panic"
proof -
  have "parse_sections (unat n) bytes (opt_off + soh) e 0 [] False \<noteq> Panic"
    if "opt_off + soh + unat n * 40 \<le> length bytes" for e
    using parse_sections_in_table [of "opt_off + soh" 0 "unat n" bytes e "[]" False] that
    by auto
  then show ?thesis
    by (auto simp: parse_pe32_plus_def Let_def outcome_simps split: prod.splits)
qed

lemma parse_headers_no_panic [simp, no_panic]: "parse_headers bytes \<noteq> Panic"
  by (auto simp: parse_headers_def Let_def outcome_simps parse_pe32_plus_no_panic split: if_splits)

subsection \<open>What a parsed summary holds\<close>

lemma parse_section_Ok_fields:
  assumes "parse_section bytes base i = Ok plan"
  shows "sp_index plan = i" "sp_copy_len plan \<le> sp_virt_size plan"
  using assms by (auto simp: parse_section_def Let_def outcome_simps)

lemma parse_sections_Ok_fields:
  assumes "parse_sections n bytes start entry_rva i sections found = Ok (ss, f)"
    and "\<forall>p\<in>set sections. sp_copy_len p \<le> sp_virt_size p"
    and "found \<longleftrightarrow> (\<exists>p\<in>set sections. section_holds_entry entry_rva p)"
  shows "(\<forall>p\<in>set ss. sp_copy_len p \<le> sp_virt_size p) \<and>
         (f \<longleftrightarrow> (\<exists>p\<in>set ss. section_holds_entry entry_rva p)) \<and>
         length ss = length sections + n"
  using assms
proof (induction n arbitrary: i sections found)
  case (Suc n)
  from Suc.prems(1) obtain plan where
    plan: "parse_section bytes (start + i * 40) i = Ok plan" and
    rest: "parse_sections n bytes start entry_rva (Suc i) (sections @ [plan])
             (found \<or> section_holds_entry entry_rva plan) = Ok (ss, f)"
    by (auto simp: outcome_simps)
  show ?case
    using Suc.IH [OF rest] Suc.prems(2,3) parse_section_Ok_fields(2) [OF plan] by auto
qed simp

lemma parse_pe32_plus_Ok_fields:
  assumes "parse_pe32_plus bytes machine n soh opt_off magic = Ok s"
  shows "(\<forall>p\<in>set (ps_sections s). sp_copy_len p \<le> sp_virt_size p) \<and>
         (ps_entry_in_executable_section s \<longleftrightarrow>
            (\<exists>p\<in>set (ps_sections s). section_holds_entry (ps_entry_rva s) p)) \<and>
         length (ps_sections s) = unat (ps_num_sections s) \<and>
         ps_num_sections s \<le> MAX_SECTIONS"
  using assms
  by (auto simp: parse_pe32_plus_def Let_def outcome_simps split: if_splits
           dest!: parse_sections_Ok_fields)

lemma parse_headers_Ok_cases:
  assumes "parse_headers bytes = Ok s"
  shows "ps_opt_magic s \<noteq> PE32_PLUS_MAGIC \<or>
         (\<exists>m n soh off. parse_pe32_plus bytes m n soh off PE32_PLUS_MAGIC = Ok s)"
  using assms
  by (auto simp: parse_headers_def Let_def outcome_simps split: if_splits)

subsection \<open>What the conformance check guarantees\<close>

lemma unat_u32_sum: "unat ((ucast (a :: u32) :: u64) + ucast b) = unat a + unat (b :: u32)"
proof -
  have "unat (ucast a :: u64) = unat a" "unat (ucast b :: u64) = unat b"
    by (simp_all add: unat_ucast_up)
  moreover have "unat a < 2 ^ 32" "unat b < 2 ^ 32"
    using unsigned_less [of a, where ?'a = nat] unsigned_less [of b, where ?'a = nat] by simp_all
  ultimately show ?thesis
    by (simp add: unat_word_ariths)
qed

text \<open>The conditions on one section, in exact arithmetic.\<close>

definition section_in_bounds :: "nat \<Rightarrow> usize \<Rightarrow> SectionPlan \<Rightarrow> bool" where
  "section_in_bounds image_size len p \<longleftrightarrow>
     unat (sp_virt_addr p) + unat (sp_virt_size p) \<le> image_size \<and>
     (sp_copy_len p > 0 \<longrightarrow> unat (sp_raw_offset p) + unat (sp_copy_len p) \<le> len)"

lemma check_sections_None_iff:
  "check_sections size_of_image len ps = None \<longleftrightarrow>
   (\<forall>p\<in>set ps. section_in_bounds (unat size_of_image) len p)"
  by (induction ps) (auto simp: section_in_bounds_def Let_def word_less_nat_alt unat_u32_sum)

lemma validate_headers_no_panic [simp, no_panic]: "validate_headers arch s bytes \<noteq> Panic"
  by (simp add: validate_headers_def split: option.split)

lemma validate_headers_Ok_iff:
  "validate_headers arch s bytes = Ok () \<longleftrightarrow>
     ps_machine s = expected_machine arch \<and> ps_opt_magic s = PE32_PLUS_MAGIC \<and>
     ps_subsystem s \<in> {10, 11, 12} \<and> ps_size_of_image s \<le> MAX_IMAGE_SIZE \<and>
     ps_import_dir_size s = 0 \<and> ps_tls_dir_size s = 0 \<and>
     (\<forall>p\<in>set (ps_sections s). section_in_bounds (unat (ps_size_of_image s)) (length bytes) p) \<and>
     unat (ps_entry_rva s) < unat (ps_size_of_image s) \<and> ps_entry_in_executable_section s"
proof -
  have "(ucast (ps_entry_rva s) :: u64) < ps_size_of_image s \<longleftrightarrow>
        unat (ps_entry_rva s) < unat (ps_size_of_image s)"
    by (simp add: word_less_nat_alt unat_ucast_up)
  moreover have "PE32_PLUS_MAGIC \<noteq> PE32_MAGIC" by (simp add: pe_const_defs)
  ultimately show ?thesis
    by (auto simp: validate_headers_def check_sections_None_iff not_le not_less
          SUBSYSTEM_EFI_APPLICATION_def SUBSYSTEM_EFI_BOOT_SERVICE_DRIVER_def
          SUBSYSTEM_EFI_RUNTIME_DRIVER_def simp flip: check_sections_None_iff
          split: option.splits if_splits)
qed

subsection \<open>Relocation as a fold over fixups\<close>

text \<open>The reference: decode the directory into the list of its fixups (type and target), then apply
  them one after the other.  \<open>decode_blocks\<close> also reports the malformed block at which decoding
  stopped, if any.\<close>

definition block_fixup :: "bytes \<Rightarrow> usize \<Rightarrow> usize \<Rightarrow> usize \<Rightarrow> u16 \<times> usize" where
  "block_fixup reloc_bytes virt_addr cursor i =
     (let entry = from_le (take 2 (drop (cursor + 8 + i * 2) reloc_bytes)) :: u16
      in (drop_bit 12 entry, virt_addr + unat (entry AND 0x0FFF)))"

function decode_blocks :: "bytes \<Rightarrow> usize \<Rightarrow> (u16 \<times> usize) list \<times> PeLoadError option" where
  "decode_blocks reloc_bytes cursor =
     (if length reloc_bytes \<le> cursor then ([], None)
      else if cursor + 8 > length reloc_bytes
      then ([], Some (RelocationMalformed ''block header truncated''))
      else
        let virt_addr = unat (from_le (take 4 (drop cursor reloc_bytes)) :: u32);
            size = unat (from_le (take 4 (drop (cursor + 4) reloc_bytes)) :: u32) in
        if size = 0 then ([], None)
        else if size < 8 then ([], Some (RelocationMalformed ''SizeOfBlock < 8''))
        else if cursor + size > length reloc_bytes
        then ([], Some (RelocationMalformed ''block extends past directory''))
        else if odd (size - 8) then ([], Some (RelocationMalformed ''odd entries_bytes''))
        else let (fs, e) = decode_blocks reloc_bytes (cursor + size) in
          (map (block_fixup reloc_bytes virt_addr cursor) [0..<(size - 8) div 2] @ fs, e))"
  by pat_completeness auto
termination
  by (relation "measure (\<lambda>(reloc_bytes, cursor). length reloc_bytes - cursor)") auto

declare decode_blocks.simps [simp del]

fun apply_fixups :: "u64 \<Rightarrow> (u16 \<times> usize) list \<Rightarrow> bytes \<Rightarrow> (bytes, PeLoadError) outcome" where
  "apply_fixups delta [] img = Ok img"
| "apply_fixups delta ((ty, rva) # fs) img =
     obind (apply_fixup delta ty rva img) (apply_fixups delta fs)"

definition relocate_spec :: "u64 \<Rightarrow> bytes \<Rightarrow> usize \<Rightarrow> bytes \<Rightarrow> (bytes, PeLoadError) outcome" where
  "relocate_spec delta reloc_bytes cursor img =
     (let (fs, stop) = decode_blocks reloc_bytes cursor in
      obind (apply_fixups delta fs img)
        (\<lambda>img'. case stop of None \<Rightarrow> Ok img' | Some e \<Rightarrow> Err e))"

lemma apply_fixups_append:
  "apply_fixups delta (fs @ gs) img = obind (apply_fixups delta fs img) (apply_fixups delta gs)"
  by (induction delta fs img rule: apply_fixups.induct)
     (simp_all add: obind_assoc cong: obind_cong)

lemma apply_entries_fixups:
  "cursor + 8 + (i + n) * 2 \<le> length reloc_bytes \<Longrightarrow>
   apply_entries n delta virt_addr reloc_bytes cursor i img =
   apply_fixups delta (map (block_fixup reloc_bytes virt_addr cursor) [i..<i + n]) img"
proof (induction n arbitrary: i img)
  case (Suc n)
  have "[i..<i + Suc n] = i # [Suc i..<Suc i + n]"
    by (metis add_Suc_right add_Suc_shift le_add1 less_Suc_eq_le upt_conv_Cons)
  with Suc show ?case
    by (simp add: block_fixup_def Let_def)
qed simp

lemma decode_blocks_step:
  assumes "cursor + 8 \<le> length reloc_bytes"
    and "sz = unat (from_le (take 4 (drop (cursor + 4) reloc_bytes)) :: u32)"
    and "va = unat (from_le (take 4 (drop cursor reloc_bytes)) :: u32)"
    and "8 \<le> sz" "cursor + sz \<le> length reloc_bytes" "even (sz - 8)"
  shows "relocate_spec delta reloc_bytes cursor img =
    obind (apply_fixups delta (map (block_fixup reloc_bytes va cursor) [0..<(sz - 8) div 2]) img)
      (relocate_spec delta reloc_bytes (cursor + sz))"
proof -
  obtain fs e where dec: "decode_blocks reloc_bytes (cursor + sz) = (fs, e)" by fastforce
  then have "decode_blocks reloc_bytes cursor =
      (map (block_fixup reloc_bytes va cursor) [0..<(sz - 8) div 2] @ fs, e)"
    using assms by (subst decode_blocks.simps) simp
  with dec show ?thesis
    by (simp add: relocate_spec_def [abs_def] apply_fixups_append obind_assoc)
qed

lemma apply_blocks_step:
  assumes "cursor + 8 \<le> length reloc_bytes"
    and "sz = unat (from_le (take 4 (drop (cursor + 4) reloc_bytes)) :: u32)"
    and "va = unat (from_le (take 4 (drop cursor reloc_bytes)) :: u32)"
    and "8 \<le> sz" "cursor + sz \<le> length reloc_bytes" "even (sz - 8)"
  shows "apply_blocks delta reloc_bytes cursor img =
    obind (apply_fixups delta (map (block_fixup reloc_bytes va cursor) [0..<(sz - 8) div 2]) img)
      (apply_blocks delta reloc_bytes (cursor + sz))"
proof -
  have "cursor + 8 + (0 + (sz - 8) div 2) * 2 \<le> length reloc_bytes"
    using assms(4-6) by auto
  note entries = apply_entries_fixups [OF this, of delta va img, simplified]
  show ?thesis
    using assms(1,4-6)
    by (subst apply_blocks.simps)
       (simp add: entries Let_def even_iff_mod_2_eq_zero flip: assms(2,3))
qed

lemma apply_blocks_relocate_spec:
  "apply_blocks delta reloc_bytes cursor img = relocate_spec delta reloc_bytes cursor img"
proof (induction "length reloc_bytes - cursor" arbitrary: cursor img rule: less_induct)
  case less
  define sz where "sz = unat (from_le (take 4 (drop (cursor + 4) reloc_bytes)) :: u32)"
  show ?case
  proof (cases "cursor + 8 \<le> length reloc_bytes \<and> 8 \<le> sz \<and>
                cursor + sz \<le> length reloc_bytes \<and> even (sz - 8)")
    case True
    have "apply_blocks delta reloc_bytes (cursor + sz) = relocate_spec delta reloc_bytes (cursor + sz)"
      using True by (intro ext less) auto
    with True show ?thesis
      using apply_blocks_step [OF _ sz_def refl, of delta img]
        decode_blocks_step [OF _ sz_def refl, of delta img] by auto
  next
    case False
    then show ?thesis
      unfolding relocate_spec_def
      by (subst apply_blocks.simps, subst decode_blocks.simps)
         (auto simp: Let_def even_iff_mod_2_eq_zero sz_def [symmetric])
  qed
qed

subsection \<open>What one fixup does to the image\<close>

definition fixup_width :: "u16 \<Rightarrow> nat" where
  "fixup_width ty = (if ty = REL_DIR64 then 8 else if ty = REL_HIGHLOW then 4 else 0)"

text \<open>Adding \<open>d\<close> to the little-endian number of \<open>w\<close> bytes at \<open>rva\<close>, modulo \<open>256 ^ w\<close>.\<close>

definition bump :: "nat \<Rightarrow> usize \<Rightarrow> nat \<Rightarrow> bytes \<Rightarrow> bytes" where
  "bump w rva d img = overwrite img rva (nat_le w (le_nat (take w (drop rva img)) + d))"

lemma nat_le_mod: "nat_le k (n mod 256 ^ k) = nat_le k n"
  by (metis length_nat_le le_nat_nat_le nat_le_le_nat)

lemma nat_le_eq_iff: "nat_le k m = nat_le k n \<longleftrightarrow> m mod 256 ^ k = n mod 256 ^ k"
  by (metis le_nat_nat_le nat_le_mod)

lemma add64_bump:
  "length slot = 8 \<Longrightarrow> to_le ((from_le slot :: u64) + delta) = nat_le 8 (le_nat slot + unat delta)"
  by (simp add: to_le_def from_le_def nat_le_eq_iff unat_word_ariths unat_of_nat mod_simps)

lemma add32_bump:
  "length slot = 4 \<Longrightarrow>
   to_le ((from_le slot :: u32) + ucast (delta :: u64)) = nat_le 4 (le_nat slot + unat delta)"
  by (simp add: to_le_def from_le_def nat_le_eq_iff unat_word_ariths unat_of_nat mod_simps
      unsigned_ucast_eq take_bit_eq_mod)

definition fixup_ok :: "u16 \<Rightarrow> usize \<Rightarrow> usize \<Rightarrow> bool" where
  "fixup_ok ty rva n \<longleftrightarrow>
     ty \<in> {REL_ABSOLUTE, REL_DIR64, REL_HIGHLOW} \<and> (ty = REL_ABSOLUTE \<or> rva + fixup_width ty \<le> n)"

lemma bump_0 [simp]: "bump 0 rva d img = img"
  by (simp add: bump_def overwrite_def)

lemma fixup_ok_fits: "fixup_ok ty rva n \<Longrightarrow> fixup_width ty = 0 \<or> rva + fixup_width ty \<le> n"
  by (auto simp: fixup_ok_def fixup_width_def rel_const_defs)

lemma apply_fixup_Ok_iff:
  "apply_fixup delta ty rva img = Ok img' \<longleftrightarrow>
     fixup_ok ty rva (length img) \<and> img' = bump (fixup_width ty) rva (unat delta) img"
  by (auto simp: apply_fixup_def fixup_ok_def fixup_width_def bump_def add64_bump add32_bump
      rel_const_defs not_less overwrite_def)

lemma apply_fixup_no_panic [simp, no_panic]: "apply_fixup delta ty rva img \<noteq> Panic"
  by (simp add: apply_fixup_def)

lemma apply_fixups_no_panic [simp, no_panic]: "apply_fixups delta fs img \<noteq> Panic"
  by (induction delta fs img rule: apply_fixups.induct) (auto simp: outcome_simps)

lemma relocate_spec_no_panic [simp, no_panic]: "relocate_spec delta reloc_bytes cursor img \<noteq> Panic"
  by (auto simp: relocate_spec_def Let_def outcome_simps split: prod.splits option.splits)

lemma length_bump [simp]:
  "w = 0 \<or> rva + w \<le> length img \<Longrightarrow> length (bump w rva d img) = length img"
  by (cases "w = 0", simp only: bump_0) (simp add: bump_def)

lemma nth_bump_outside:
  "w = 0 \<or> rva + w \<le> length img \<Longrightarrow> j < length img \<Longrightarrow> j < rva \<or> rva + w \<le> j \<Longrightarrow>
   bump w rva d img ! j = img ! j"
  by (cases "w = 0", simp only: bump_0) (auto simp: bump_def nth_overwrite)

lemma bump_bump_inverse:
  assumes "rva + w \<le> length img" "(d + e) mod 256 ^ w = 0"
  shows "bump w rva e (bump w rva d img) = img"
proof -
  let ?slot = "take w (drop rva img)"
  have len: "length ?slot = w" using assms(1) by simp
  have "take w (drop rva (bump w rva d img)) = nat_le w (le_nat ?slot + d)"
    using take_drop_overwrite_same [of rva "nat_le w (le_nat ?slot + d)" img] assms(1)
    by (simp add: bump_def)
  then have "bump w rva e (bump w rva d img) =
      overwrite img rva (nat_le w ((le_nat ?slot + d) mod 256 ^ w + e))"
    using assms(1) by (simp add: bump_def overwrite_overwrite_same le_nat_nat_le)
  also have "nat_le w ((le_nat ?slot + d) mod 256 ^ w + e) = nat_le w (le_nat ?slot)"
    unfolding nat_le_eq_iff using assms(2)
    by (metis add.assoc add.right_neutral mod_add_left_eq mod_add_right_eq)
  also have "\<dots> = ?slot" using nat_le_le_nat [of ?slot] len by simp
  finally show ?thesis using assms(1) by (simp add: overwrite_id)
qed

lemma bump_commute_nonempty:
  assumes "r + v \<le> length img" "s + w \<le> length img" "r + v \<le> s \<or> s + w \<le> r"
  shows "bump v r d (bump w s e img) = bump w s e (bump v r d img)"
proof (rule nth_equalityI)
  show "length (bump v r d (bump w s e img)) = length (bump w s e (bump v r d img))"
    using assms by simp
next
  fix j assume "j < length (bump v r d (bump w s e img))"
  then have j: "j < length img" using assms by simp
  have r: "take v (drop r (bump w s e img)) = take v (drop r img)"
    unfolding bump_def by (rule take_drop_overwrite_disjoint) (use assms in auto)
  have s: "take w (drop s (bump v r d img)) = take w (drop s img)"
    unfolding bump_def by (rule take_drop_overwrite_disjoint) (use assms in auto)
  have "bump v r d (bump w s e img) ! j =
      (if r \<le> j \<and> j < r + v then nat_le v (le_nat (take v (drop r img)) + d) ! (j - r)
       else bump w s e img ! j)"
    using assms j unfolding bump_def [of v r] r by (subst nth_overwrite) auto
  moreover have "bump w s e (bump v r d img) ! j =
      (if s \<le> j \<and> j < s + w then nat_le w (le_nat (take w (drop s img)) + e) ! (j - s)
       else bump v r d img ! j)"
    using assms j unfolding bump_def [of w s] s by (subst nth_overwrite) auto
  moreover have "bump w s e img ! j =
      (if s \<le> j \<and> j < s + w then nat_le w (le_nat (take w (drop s img)) + e) ! (j - s)
       else img ! j)"
    unfolding bump_def using assms j by (subst nth_overwrite) auto
  moreover have "bump v r d img ! j =
      (if r \<le> j \<and> j < r + v then nat_le v (le_nat (take v (drop r img)) + d) ! (j - r)
       else img ! j)"
    unfolding bump_def using assms j by (subst nth_overwrite) auto
  ultimately show "bump v r d (bump w s e img) ! j = bump w s e (bump v r d img) ! j"
    using assms(3) by auto
qed

lemma bump_commute:
  assumes "v = 0 \<or> r + v \<le> length img" "w = 0 \<or> s + w \<le> length img"
    and "v = 0 \<or> w = 0 \<or> r + v \<le> s \<or> s + w \<le> r"
  shows "bump v r d (bump w s e img) = bump w s e (bump v r d img)"
  using assms bump_commute_nonempty [of r v img s w d e] by (cases "v = 0"; cases "w = 0") simp_all

subsection \<open>Frame and inverse of a relocation pass\<close>

definition in_slot :: "nat \<Rightarrow> u16 \<times> usize \<Rightarrow> bool" where
  "in_slot j f \<longleftrightarrow> snd f \<le> j \<and> j < snd f + fixup_width (fst f)"

definition slots_disjoint :: "u16 \<times> usize \<Rightarrow> u16 \<times> usize \<Rightarrow> bool" where
  "slots_disjoint f g \<longleftrightarrow>
     fixup_width (fst f) = 0 \<or> fixup_width (fst g) = 0 \<or>
     snd f + fixup_width (fst f) \<le> snd g \<or> snd g + fixup_width (fst g) \<le> snd f"

fun pairwise_disjoint :: "(u16 \<times> usize) list \<Rightarrow> bool" where
  "pairwise_disjoint [] \<longleftrightarrow> True"
| "pairwise_disjoint (f # fs) \<longleftrightarrow> list_all (slots_disjoint f) fs \<and> pairwise_disjoint fs"

lemma apply_fixup_length: "apply_fixup delta ty rva img = Ok img' \<Longrightarrow> length img' = length img"
  using fixup_ok_fits [of ty rva "length img"] by (simp add: apply_fixup_Ok_iff)

lemma apply_fixups_length: "apply_fixups delta fs img = Ok img' \<Longrightarrow> length img' = length img"
  by (induction delta fs img rule: apply_fixups.induct)
     (auto simp: outcome_simps dest: apply_fixup_length)

lemma apply_fixup_frame:
  assumes "apply_fixup delta ty rva img = Ok img'" "j < length img" "\<not> in_slot j (ty, rva)"
  shows "img' ! j = img ! j"
  using assms nth_bump_outside [OF fixup_ok_fits, of ty rva img j]
  by (simp add: apply_fixup_Ok_iff in_slot_def not_le not_less)

lemma apply_fixups_frame:
  "apply_fixups delta fs img = Ok img' \<Longrightarrow> j < length img \<Longrightarrow> \<forall>f\<in>set fs. \<not> in_slot j f \<Longrightarrow>
   img' ! j = img ! j"
proof (induction delta fs img rule: apply_fixups.induct)
  case (2 delta ty rva fs img)
  then obtain im1 where "apply_fixup delta ty rva img = Ok im1" "apply_fixups delta fs im1 = Ok img'"
    by (auto simp: outcome_simps)
  with 2 show ?case
    using apply_fixup_frame [of delta ty rva img im1 j] apply_fixup_length [of delta ty rva img im1]
    by auto
qed simp

lemma unat_minus_cancel:
  "w \<le> 8 \<Longrightarrow> (unat (delta :: u64) + unat (- delta)) mod 256 ^ w = 0"
proof -
  assume "w \<le> 8"
  have "(of_nat (unat delta + unat (- delta)) :: u64) = 0"
    by (simp only: of_nat_add of_nat_unat ucast_id) simp
  then have "2 ^ LENGTH(64) dvd unat delta + unat (- delta)"
    by (simp only: word_of_nat_eq_0_iff)
  moreover have "(256 :: nat) ^ w dvd 2 ^ LENGTH(64)"
    using le_imp_power_dvd [of "8 * w" 64 "2 :: nat"] \<open>w \<le> 8\<close> by (simp add: power_mult)
  ultimately have "256 ^ w dvd unat delta + unat (- delta)" by (rule dvd_trans [rotated])
  then show ?thesis by (rule dvd_imp_mod_0)
qed

lemma fixup_width_le: "fixup_width ty \<le> 8"
  by (simp add: fixup_width_def)

lemma apply_fixup_undo:
  assumes "apply_fixup delta ty rva img = Ok img'"
  shows "apply_fixup (- delta) ty rva img' = Ok img"
proof -
  have ok: "fixup_ok ty rva (length img)" and img': "img' = bump (fixup_width ty) rva (unat delta) img"
    using assms by (simp_all add: apply_fixup_Ok_iff)
  have "img = bump (fixup_width ty) rva (unat (- delta)) img'"
    using fixup_ok_fits [OF ok]
      bump_bump_inverse [OF _ unat_minus_cancel [OF fixup_width_le], of rva ty img delta]
    by (auto simp: img')
  with ok apply_fixup_length [OF assms] show ?thesis by (simp add: apply_fixup_Ok_iff)
qed

lemma apply_fixup_commute:
  assumes "slots_disjoint (t, r) (u, s)"
    and im1: "apply_fixup d t r img = Ok im1" and im2: "apply_fixup e u s im1 = Ok im2"
  shows "\<exists>im3. apply_fixup e u s img = Ok im3 \<and> apply_fixup d t r im3 = Ok im2"
proof -
  have len: "length im1 = length img" using im1 by (rule apply_fixup_length)
  have ok: "fixup_ok t r (length img)" "fixup_ok u s (length img)"
    using im1 im2 len by (simp_all add: apply_fixup_Ok_iff)
  let ?im3 = "bump (fixup_width u) s (unat e) img"
  have "im2 = bump (fixup_width t) r (unat d) ?im3"
    using im1 im2 fixup_ok_fits [OF ok(1)] fixup_ok_fits [OF ok(2)] assms(1)
      bump_commute [of "fixup_width t" r img "fixup_width u" s "unat d" "unat e"]
    by (simp add: apply_fixup_Ok_iff slots_disjoint_def)
  moreover have "length ?im3 = length img" using fixup_ok_fits [OF ok(2)] by simp
  ultimately show ?thesis using ok by (simp add: apply_fixup_Ok_iff)
qed

lemma apply_fixups_commute:
  assumes "list_all (slots_disjoint (t, r)) fs"
    and "apply_fixup d t r img = Ok im1" "apply_fixups e fs im1 = Ok im2"
  shows "\<exists>im3. apply_fixups e fs img = Ok im3 \<and> apply_fixup d t r im3 = Ok im2"
  using assms
proof (induction fs arbitrary: img im1)
  case (Cons f fs)
  obtain u s where f: "f = (u, s)" by fastforce
  from Cons.prems obtain ima where
    step: "apply_fixup e u s im1 = Ok ima" and rest: "apply_fixups e fs ima = Ok im2"
    by (auto simp: f outcome_simps)
  have "slots_disjoint (t, r) (u, s)" using Cons.prems(1) f by simp
  from apply_fixup_commute [OF this Cons.prems(2) step]
  obtain im3 where "apply_fixup e u s img = Ok im3" "apply_fixup d t r im3 = Ok ima" by blast
  with Cons.IH [of im3 ima] Cons.prems(1) rest show ?case by (auto simp: f)
qed simp

lemma apply_fixups_undo:
  "pairwise_disjoint fs \<Longrightarrow> apply_fixups delta fs img = Ok img' \<Longrightarrow>
   apply_fixups (- delta) fs img' = Ok img"
proof (induction fs arbitrary: img img')
  case (Cons f fs)
  obtain t r where f: "f = (t, r)" by fastforce
  from Cons.prems obtain im1 where
    step: "apply_fixup delta t r img = Ok im1" and rest: "apply_fixups delta fs im1 = Ok img'"
    by (auto simp: f outcome_simps)
  from apply_fixups_commute [OF _ step rest] Cons.prems(1) f
  obtain im3 where im3: "apply_fixups delta fs img = Ok im3" "apply_fixup delta t r im3 = Ok img'"
    by auto
  have "apply_fixups (- delta) fs im3 = Ok img"
    using Cons.IH [OF _ im3(1)] Cons.prems(1) by simp
  with apply_fixup_undo [OF im3(2)] show ?case
    by (simp add: f)
qed simp

lemma apply_relocations_Ok_iff:
  "apply_relocations_to_slice img pref act reloc_bytes = Ok img' \<longleftrightarrow>
     (if act = pref then img' = img
      else snd (decode_blocks reloc_bytes 0) = None \<and>
           apply_fixups (act - pref) (fst (decode_blocks reloc_bytes 0)) img = Ok img')"
  by (auto simp: apply_relocations_to_slice_def apply_blocks_relocate_spec relocate_spec_def
      outcome_simps split: prod.splits option.splits)

subsection \<open>Properties\<close>

text \<open>A complete 264-byte PE32+ application for the witnesses: DOS header with \<open>e_lfanew = 0x40\<close>,
  one executable section of 24 bytes at RVA 0x1000 read from file offset 240, entry point 0x1000.\<close>

definition sample_pe :: bytes where
  "sample_pe =
     [0x4D, 0x5A] @ replicate 58 0 @ [0x40, 0, 0, 0] @
     [0x50, 0x45, 0, 0] @ [0x64, 0x86] @ [1, 0] @ replicate 12 0 @ [112, 0] @ [0, 0] @
     [0x0B, 0x02] @ replicate 14 0 @ [0, 0x10, 0, 0] @ replicate 4 0 @
     [0, 0, 0x40, 0, 0, 0, 0, 0] @ replicate 24 0 @ [0, 0x20, 0, 0] @ replicate 8 0 @ [10, 0] @
     replicate 38 0 @ [0, 0, 0, 0] @
     replicate 8 0 @ [24, 0, 0, 0] @ [0, 0x10, 0, 0] @ [24, 0, 0, 0] @ [240, 0, 0, 0] @
     replicate 12 0 @ [0x20, 0, 0, 0x60] @
     [1, 2, 3, 4, 5, 6, 7, 8, 9, 10, 11, 12, 13, 14, 15, 16, 17, 18, 19, 20, 21, 22, 23, 24]"

definition sample_summary :: PeSummary where
  "sample_summary =
     \<lparr>ps_machine = 0x8664, ps_subsystem = 10, ps_preferred_base = 0x400000,
      ps_size_of_image = 0x2000, ps_entry_rva = 0x1000, ps_num_sections = 1, ps_opt_magic = 0x20B,
      ps_sections = [\<lparr>sp_index = 0, sp_virt_addr = 0x1000, sp_virt_size = 24,
        sp_raw_offset = 240, sp_copy_len = 24, sp_executable = True\<rparr>],
      ps_reloc_dir = None, ps_import_dir_size = 0, ps_tls_dir_size = 0,
      ps_entry_in_executable_section = True\<rparr>"

lemmas reader_defs =
  rd_u16_def rd_u32_def rd_u64_def get_range_def at_idx_def slice_idx_def from_le_def Let_def

lemma length_sample_pe: "length sample_pe = 264"
  by (simp add: sample_pe_def)

lemma sample_pe_parses: "parse_headers sample_pe = Ok sample_summary"
  apply (simp add: parse_headers_def length_sample_pe)
  apply (simp add: sample_pe_def le_nat_append reader_defs nth_append)
  apply (simp add: parse_pe32_plus_def reader_defs le_nat_append read_data_dir_def dir_size_def
      parse_section_def section_holds_entry_def pe_const_defs sample_summary_def)
  done

lemma sample_pe_validates: "validate_headers Arch_x86_64 sample_summary sample_pe = Ok ()"
  by (simp add: validate_headers_def length_sample_pe sample_summary_def pe_const_defs Let_def)

text \<open>C3: No input makes the pure half of the PE loader panic: for every byte string the header
  parser returns a summary or an error, for every summary the conformance check returns success or
  an error, and for every image, base pair and directory the relocator returns an image or an
  error.  In particular every slice index in the section loop and in the relocation loops is in
  range.\<close>

theorem pe_pure_never_panics:
  "parse_headers bytes \<noteq> Panic \<and> validate_headers arch s bytes \<noteq> Panic \<and>
   apply_relocations_to_slice img pref act reloc_bytes \<noteq> Panic"
proof -
  have "apply_relocations_to_slice img pref act reloc_bytes \<noteq> Panic"
    by (simp add: apply_relocations_to_slice_def apply_blocks_relocate_spec Let_def)
  then show ?thesis by simp
qed

text \<open>C4: A header summary that was parsed from some bytes and passed the conformance check confines
  the load: the image is at most 256 MiB, each section's copy stays inside the image, its source
  stays inside the input whenever anything is copied, the entry point is inside the image, and it
  lies in a section marked executable.\<close>

theorem validated_headers_confine_load:
  assumes "parse_headers bytes = Ok s" "validate_headers arch s bytes = Ok ()"
  shows "unat (ps_size_of_image s) \<le> 256 * 1024 * 1024 \<and>
    (\<forall>p\<in>set (ps_sections s).
       unat (sp_virt_addr p) + unat (sp_copy_len p) \<le> unat (ps_size_of_image s) \<and>
       (sp_copy_len p > 0 \<longrightarrow> unat (sp_raw_offset p) + unat (sp_copy_len p) \<le> length bytes)) \<and>
    unat (ps_entry_rva s) < unat (ps_size_of_image s) \<and>
    (\<exists>p\<in>set (ps_sections s). sp_executable p \<and> unat (sp_virt_addr p) \<le> unat (ps_entry_rva s) \<and>
       unat (ps_entry_rva s) < unat (sp_virt_addr p) + unat (sp_virt_size p))"
proof -
  note ok = assms(2) [unfolded validate_headers_Ok_iff]
  with parse_headers_Ok_cases [OF assms(1)] obtain m n soh off where
    "parse_pe32_plus bytes m n soh off PE32_PLUS_MAGIC = Ok s" by auto
  note fields = parse_pe32_plus_Ok_fields [OF this]
  have "unat (ps_size_of_image s) \<le> 256 * 1024 * 1024"
    using ok by (simp add: word_le_nat_alt MAX_IMAGE_SIZE_def)
  moreover have "unat (sp_virt_addr p) + unat (sp_copy_len p) \<le> unat (ps_size_of_image s) \<and>
       (sp_copy_len p > 0 \<longrightarrow> unat (sp_raw_offset p) + unat (sp_copy_len p) \<le> length bytes)"
    if "p \<in> set (ps_sections s)" for p
  proof -
    have "section_in_bounds (unat (ps_size_of_image s)) (length bytes) p"
      "unat (sp_copy_len p) \<le> unat (sp_virt_size p)"
      using ok fields that by (auto simp: word_le_nat_alt)
    then show ?thesis by (auto simp: section_in_bounds_def)
  qed
  moreover obtain p where "p \<in> set (ps_sections s)" "section_holds_entry (ps_entry_rva s) p"
    using ok fields by auto
  then have "\<exists>p\<in>set (ps_sections s). sp_executable p \<and> unat (sp_virt_addr p) \<le> unat (ps_entry_rva s) \<and>
       unat (ps_entry_rva s) < unat (sp_virt_addr p) + unat (sp_virt_size p)"
    by (intro bexI [of _ p])
       (simp_all add: section_holds_entry_def word_le_nat_alt word_less_nat_alt unat_u32_sum
          unat_ucast_up)
  ultimately show ?thesis using ok by blast
qed

theorem validated_headers_confine_load_witness:
  "parse_headers sample_pe = Ok sample_summary \<and>
   validate_headers Arch_x86_64 sample_summary sample_pe = Ok () \<and>
   unat (ps_entry_rva sample_summary) < unat (ps_size_of_image sample_summary)"
  using validated_headers_confine_load [OF sample_pe_parses sample_pe_validates]
    sample_pe_parses sample_pe_validates by simp

text \<open>C5: The relocator computes the reference relocation: with equal bases it returns the image
  unchanged, otherwise it decodes the directory into fixups, applies each of them in order, and
  reports the first fixup error or else the malformed block that ended the decoding.\<close>

theorem apply_relocations_refines_spec:
  "apply_relocations_to_slice img pref act reloc_bytes =
     (if act = pref then Ok img else relocate_spec (act - pref) reloc_bytes 0 img)"
  by (simp add: apply_relocations_to_slice_def apply_blocks_relocate_spec)

text \<open>C6: Relocation is reversible: if the fixups of the directory do not overlap, relocating an
  image from one base to another and then back yields the original image, with no error on the way
  back.\<close>

theorem relocation_round_trip:
  assumes "apply_relocations_to_slice img pref act reloc_bytes = Ok img'"
    and "pairwise_disjoint (fst (decode_blocks reloc_bytes 0))"
  shows "apply_relocations_to_slice img' act pref reloc_bytes = Ok img"
  using assms apply_fixups_undo [OF assms(2), of "act - pref" img img']
  by (auto simp: apply_relocations_Ok_iff split: if_splits)

text \<open>A directory of one block: a DIR64 fixup at offset 4, a HIGHLOW fixup at offset 12, padding.\<close>

definition sample_relocs :: bytes where
  "sample_relocs = [0, 0, 0, 0, 14, 0, 0, 0, 4, 0xA0, 12, 0x30, 0, 0]"

definition sample_image :: bytes where
  "sample_image = [0, 0, 0, 0, 1, 0, 0, 0, 0, 0, 0, 0, 2, 0, 0, 0]"

definition sample_image_moved :: bytes where
  "sample_image_moved = [0, 0, 0, 0, 1, 0, 1, 0, 0, 0, 0, 0, 2, 0, 1, 0]"

lemma sample_relocs_decode: "decode_blocks sample_relocs 0 = ([(10, 4), (3, 12), (0, 0)], None)"
  by (subst decode_blocks.simps, subst decode_blocks.simps)
     (simp add: sample_relocs_def from_le_def block_fixup_def upt_rec Let_def)

lemma sample_image_relocates:
  "apply_relocations_to_slice sample_image 0x400000 0x410000 sample_relocs = Ok sample_image_moved"
  by (simp add: apply_relocations_Ok_iff sample_relocs_decode apply_fixup_Ok_iff outcome_simps
      fixup_ok_def fixup_width_def rel_const_defs bump_def overwrite_def sample_image_def
      sample_image_moved_def nat_le_numeral)

lemma sample_fixups_disjoint: "pairwise_disjoint (fst (decode_blocks sample_relocs 0))"
  by (simp add: sample_relocs_decode slots_disjoint_def fixup_width_def rel_const_defs)

theorem relocation_round_trip_witness:
  "apply_relocations_to_slice sample_image 0x400000 0x410000 sample_relocs = Ok sample_image_moved \<and>
   apply_relocations_to_slice sample_image_moved 0x410000 0x400000 sample_relocs = Ok sample_image"
  using sample_image_relocates
    relocation_round_trip [OF sample_image_relocates sample_fixups_disjoint] by simp

text \<open>A relocation pass that succeeds keeps the size of the image and changes no byte outside
  the slots of the fixups its directory decodes to.\<close>

theorem relocation_frame:
  assumes "apply_relocations_to_slice img pref act reloc_bytes = Ok img'"
  shows "length img' = length img \<and>
    (\<forall>j < length img. (\<forall>f\<in>set (fst (decode_blocks reloc_bytes 0)). \<not> in_slot j f) \<longrightarrow>
       img' ! j = img ! j)"
  using assms apply_fixups_length apply_fixups_frame
  by (auto simp: apply_relocations_Ok_iff split: if_splits)

theorem relocation_frame_witness:
  "length sample_image_moved = length sample_image \<and> sample_image_moved ! 0 = sample_image ! 0"
proof -
  have "\<forall>f\<in>set (fst (decode_blocks sample_relocs 0)). \<not> in_slot 0 f" "0 < length sample_image"
    by (simp_all add: sample_relocs_decode in_slot_def fixup_width_def rel_const_defs
        sample_image_def)
  with relocation_frame [OF sample_image_relocates] show ?thesis by blast
qed

end
