(* ===== verification/Pe_Loader.thy ===== *)
theory Pe_Loader
  imports Pe_Loader_Pure
begin

section \<open>Loading a PE image into firmware pages\<close>

text \<open>
  Model of \<open>lamboot-core/src/pe_loader.rs\<close>: page allocation, zeroing, the section copies, the
  relocation decision, the installation of the loaded-image protocol and the hand-off.

  The firmware is the argument \<open>fw\<close>: whether a fixed-address allocation succeeds, where an
  any-address allocation lands, and which handle a protocol installation returns.  The SHA-256 of
  the \<open>sha2\<close> crate is the argument \<open>sha\<close>.  An operation returns the list of firmware calls it made,
  in order, with its outcome.  The pages themselves are the byte list \<open>li_mem\<close>; a raw copy
  outside the input or outside the pages, undefined behaviour in the source, is a \<open>Panic\<close>.  The
  breadcrumbs \<open>PE1\<close> to \<open>PE15\<close>, which append to the audit log of the ESP and do not touch the load, are left out.
\<close>

subsection \<open>Firmware interface and loaded images\<close>

datatype fw_call =
    AllocPages u64 usize
  | FreePages u64 usize
  | InstallLoadedImage u64 u64 nat
  | EnterImage u64 nat

record pe_firmware =
  fw_alloc_at :: "u64 \<Rightarrow> usize \<Rightarrow> bool"
  fw_alloc_any :: "usize \<Rightarrow> u64 option"
  fw_install :: "u64 \<Rightarrow> u64 \<Rightarrow> nat \<Rightarrow> nat option"

record LoadedImage =
  li_image_base :: u64
  li_image_size :: usize
  li_entry_point :: u64
  li_handle :: nat
  li_pages_allocated :: usize
  li_sha256 :: bytes
  li_source_backend :: string
  li_load_options :: "u16 list option"
  li_mem :: bytes

definition sha256_hex :: "LoadedImage \<Rightarrow> string" where
  "sha256_hex li = hex_encode_32 (li_sha256 li)"

subsection \<open>Allocation and copies\<close>

definition div_ceil :: "nat \<Rightarrow> nat \<Rightarrow> nat" where
  "div_ceil a b = (a + b - 1) div b"

definition allocate_image_pages ::
  "pe_firmware \<Rightarrow> PeSummary \<Rightarrow> (u64 \<times> usize \<times> u64, PeLoadError) outcome" where
  "allocate_image_pages fw summary =
     (let size = unat (ps_size_of_image summary); pages = div_ceil size 4096 in
      if ps_preferred_base summary > 0 \<and> fw_alloc_at fw (ps_preferred_base summary) pages
      then Ok (ps_preferred_base summary, pages, ps_preferred_base summary)
      else case fw_alloc_any fw pages of
        None \<Rightarrow> Err (ParseFailed ''allocate_pages failed'')
      | Some addr \<Rightarrow> Ok (addr, pages, addr))"

fun copy_sections :: "bytes \<Rightarrow> SectionPlan list \<Rightarrow> bytes \<Rightarrow> (bytes, PeLoadError) outcome" where
  "copy_sections bytes [] mem = Ok mem"
| "copy_sections bytes (plan # rest) mem =
     (if sp_copy_len plan = 0 then copy_sections bytes rest mem
      else
        let src = unat (sp_raw_offset plan); n = unat (sp_copy_len plan) in
        obind (slice_idx bytes src (src + n)) (\<lambda>s.
        obind (write_slice mem (unat (sp_virt_addr plan)) s) (copy_sections bytes rest)))"

definition free_pages :: "u64 \<Rightarrow> usize \<Rightarrow> fw_call list" where
  "free_pages base pages = (if base = 0 then [] else [FreePages base pages])"

text \<open>The protocol structure records the byte length of the load options (16-bit units).\<close>

definition load_options_size :: "u16 list option \<Rightarrow> nat" where
  "load_options_size lo = (case lo of None \<Rightarrow> 0 | Some buf \<Rightarrow> (length buf * 2) mod 2 ^ 32)"

definition install_loaded_image_protocol ::
  "pe_firmware \<Rightarrow> u64 \<Rightarrow> u64 \<Rightarrow> u16 list option
   \<Rightarrow> fw_call list \<times> (nat, PeLoadError) outcome" where
  "install_loaded_image_protocol fw base image_size lo =
     (case fw_install fw base image_size (load_options_size lo) of
        None \<Rightarrow> ([], Err (ParseFailed ''install_protocol_interface failed''))
      | Some h \<Rightarrow> ([InstallLoadedImage base image_size (load_options_size lo)], Ok h))"

subsection \<open>Loading\<close>

text \<open>The tail both paths share: install the protocol, free the pages when that fails, compute the
  entry point.\<close>

definition finish_load ::
  "pe_firmware \<Rightarrow> u64 \<Rightarrow> usize \<Rightarrow> PeSummary \<Rightarrow> bytes \<Rightarrow> string \<Rightarrow> u16 list option \<Rightarrow> bytes
   \<Rightarrow> fw_call list \<times> (LoadedImage, PeLoadError) outcome" where
  "finish_load fw base pages summary digest backend lo mem =
     (case install_loaded_image_protocol fw base (ps_size_of_image summary) lo of
        (calls, Ok h) \<Rightarrow>
          (calls, Ok \<lparr>li_image_base = base, li_image_size = unat (ps_size_of_image summary),
             li_entry_point = base + ucast (ps_entry_rva summary), li_handle = h,
             li_pages_allocated = pages, li_sha256 = digest, li_source_backend = backend,
             li_load_options = lo, li_mem = mem\<rparr>)
      | (calls, Err e) \<Rightarrow> (calls @ free_pages base pages, Err e)
      | (calls, Panic) \<Rightarrow> (calls, Panic))"

definition finish_load_without_relocs ::
  "pe_firmware \<Rightarrow> u64 \<Rightarrow> usize \<Rightarrow> PeSummary \<Rightarrow> bytes \<Rightarrow> string \<Rightarrow> u16 list option \<Rightarrow> bytes
   \<Rightarrow> fw_call list \<times> (LoadedImage, PeLoadError) outcome" where
  "finish_load_without_relocs = finish_load"

definition relocate_and_finish ::
  "pe_firmware \<Rightarrow> u64 \<Rightarrow> usize \<Rightarrow> u64 \<Rightarrow> PeSummary \<Rightarrow> DataDir \<Rightarrow> bytes \<Rightarrow> string \<Rightarrow> u16 list option
   \<Rightarrow> bytes \<Rightarrow> fw_call list \<times> (LoadedImage, PeLoadError) outcome" where
  "relocate_and_finish fw base pages actual_base summary reloc_dir digest backend lo mem =
     (let size = unat (ps_size_of_image summary);
          image_slice = take size mem;
          reloc_start = unat (dd_virtual_address reloc_dir);
          reloc_end = reloc_start + unat (dd_size reloc_dir) in
      if reloc_end > length image_slice
      then (free_pages base pages, Err (RelocationMalformed ''reloc directory outside image bounds''))
      else case slice_idx image_slice reloc_start reloc_end of
        Ok reloc_bytes \<Rightarrow>
          (case apply_relocations_to_slice image_slice (ps_preferred_base summary) actual_base
                  reloc_bytes of
             Ok img \<Rightarrow> finish_load fw base pages summary digest backend lo (img @ drop size mem)
           | Err e \<Rightarrow> (free_pages base pages, Err e)
           | Panic \<Rightarrow> ([], Panic))
      | Err e \<Rightarrow> ([], Err e)
      | Panic \<Rightarrow> ([], Panic))"

definition load_into ::
  "pe_firmware \<Rightarrow> u64 \<Rightarrow> usize \<Rightarrow> u64 \<Rightarrow> PeSummary \<Rightarrow> bytes \<Rightarrow> bytes \<Rightarrow> string \<Rightarrow> u16 list option
   \<Rightarrow> fw_call list \<times> (LoadedImage, PeLoadError) outcome" where
  "load_into fw base pages actual_base summary bytes digest backend lo =
     (case copy_sections bytes (ps_sections summary) (replicate (pages * 4096) 0) of
        Ok mem \<Rightarrow>
          (if actual_base \<noteq> ps_preferred_base summary then
             (case ps_reloc_dir summary of
                Some d \<Rightarrow>
                  if dd_size d > 0
                  then relocate_and_finish fw base pages actual_base summary d digest backend lo mem
                  else finish_load_without_relocs fw base pages summary digest backend lo mem
              | None \<Rightarrow> finish_load_without_relocs fw base pages summary digest backend lo mem)
           else finish_load fw base pages summary digest backend lo mem)
      | Err e \<Rightarrow> ([], Err e)
      | Panic \<Rightarrow> ([], Panic))"

definition load_pe ::
  "target_arch \<Rightarrow> (bytes \<Rightarrow> bytes) \<Rightarrow> pe_firmware \<Rightarrow> bytes \<Rightarrow> u16 list option \<Rightarrow> string
   \<Rightarrow> fw_call list \<times> (LoadedImage, PeLoadError) outcome" where
  "load_pe arch sha fw bytes lo backend =
     (case parse_headers bytes of
        Ok summary \<Rightarrow>
          (case validate_headers arch summary bytes of
             Ok _ \<Rightarrow>
               (case allocate_image_pages fw summary of
                  Ok (base, pages, actual_base) \<Rightarrow>
                    (let (calls, r) =
                       load_into fw base pages actual_base summary bytes (sha bytes) backend lo
                     in (AllocPages base pages # calls, r))
                | Err e \<Rightarrow> ([], Err e)
                | Panic \<Rightarrow> ([], Panic))
           | Err e \<Rightarrow> ([], Err e)
           | Panic \<Rightarrow> ([], Panic))
      | Err e \<Rightarrow> ([], Err e)
      | Panic \<Rightarrow> ([], Panic))"

text \<open>\<open>start_image\<close> enters the image.  \<open>run\<close> is the image's code: \<open>None\<close> when it never returns (a
  kernel that leaves boot services), its status otherwise; only then the image is dropped, which
  frees its pages.\<close>

definition drop_loaded_image :: "LoadedImage \<Rightarrow> fw_call list" where
  "drop_loaded_image li =
     (if li_pages_allocated li > 0 then free_pages (li_image_base li) (li_pages_allocated li) else [])"

definition start_image :: "(u64 \<Rightarrow> nat \<Rightarrow> u64 option) \<Rightarrow> LoadedImage \<Rightarrow> fw_call list \<times> u64 option" where
  "start_image run li =
     (case run (li_entry_point li) (li_handle li) of
        None \<Rightarrow> ([EnterImage (li_entry_point li) (li_handle li)], None)
      | Some status \<Rightarrow>
          (EnterImage (li_entry_point li) (li_handle li) # drop_loaded_image li, Some status))"

subsection \<open>The pages cover the image and the copies stay inside them\<close>

lemma div_ceil_covers: "0 < b \<Longrightarrow> a \<le> div_ceil a b * b"
proof -
  assume "0 < b"
  then have "(a + b - 1) mod b < b" by simp
  then show ?thesis
    using div_mult_mod_eq [of "a + b - 1" b] unfolding div_ceil_def by linarith
qed

text \<open>The copy obligations of a plan, against the input and the destination.\<close>

definition plan_fits :: "usize \<Rightarrow> usize \<Rightarrow> SectionPlan \<Rightarrow> bool" where
  "plan_fits len n p \<longleftrightarrow> sp_copy_len p = 0 \<or>
     (unat (sp_raw_offset p) + unat (sp_copy_len p) \<le> len \<and>
      unat (sp_virt_addr p) + unat (sp_copy_len p) \<le> n)"

lemma copy_sections_step:
  assumes "plan_fits (length bytes) (length mem) p" "sp_copy_len p \<noteq> 0"
  shows "copy_sections bytes (p # ps) mem =
    copy_sections bytes ps (overwrite mem (unat (sp_virt_addr p))
      (take (unat (sp_copy_len p)) (drop (unat (sp_raw_offset p)) bytes)))"
  using assms length_take_drop [of "unat (sp_raw_offset p)" "unat (sp_copy_len p)" bytes]
  by (simp add: plan_fits_def Let_def del: length_take)

lemma copy_sections_Ok:
  "\<forall>p\<in>set ps. plan_fits (length bytes) (length mem) p \<Longrightarrow>
   \<exists>mem'. copy_sections bytes ps mem = Ok mem' \<and> length mem' = length mem"
proof (induction ps arbitrary: mem)
  case (Cons p ps)
  show ?case
  proof (cases "sp_copy_len p = 0")
    case False
    let ?s = "take (unat (sp_copy_len p)) (drop (unat (sp_raw_offset p)) bytes)"
    have "length (overwrite mem (unat (sp_virt_addr p)) ?s) = length mem"
      using Cons.prems False
        length_take_drop [of "unat (sp_raw_offset p)" "unat (sp_copy_len p)" bytes]
      by (simp add: plan_fits_def del: length_take)
    with Cons.IH [of "overwrite mem (unat (sp_virt_addr p)) ?s"] Cons.prems False
    show ?thesis by (simp add: copy_sections_step del: copy_sections.simps)
  qed (use Cons in simp)
qed simp

lemma validated_plan_fits:
  assumes "parse_headers bytes = Ok s" "validate_headers arch s bytes = Ok ()"
    and "p \<in> set (ps_sections s)" "unat (ps_size_of_image s) \<le> n"
  shows "plan_fits (length bytes) n p"
proof -
  note ok = assms(2) [unfolded validate_headers_Ok_iff]
  with parse_headers_Ok_cases [OF assms(1)] obtain m k soh off where
    "parse_pe32_plus bytes m k soh off PE32_PLUS_MAGIC = Ok s" by auto
  then have "sp_copy_len p \<le> sp_virt_size p" using parse_pe32_plus_Ok_fields assms(3) by blast
  with ok assms(3,4) show ?thesis
    by (auto simp: plan_fits_def section_in_bounds_def word_le_nat_alt word_neq_0_conv)
qed

subsection \<open>Where the copied bytes end up\<close>

definition copies_disjoint :: "SectionPlan \<Rightarrow> SectionPlan \<Rightarrow> bool" where
  "copies_disjoint p q \<longleftrightarrow> sp_copy_len p = 0 \<or> sp_copy_len q = 0 \<or>
     unat (sp_virt_addr p) + unat (sp_copy_len p) \<le> unat (sp_virt_addr q) \<or>
     unat (sp_virt_addr q) + unat (sp_copy_len q) \<le> unat (sp_virt_addr p)"

fun plans_disjoint :: "SectionPlan list \<Rightarrow> bool" where
  "plans_disjoint [] \<longleftrightarrow> True"
| "plans_disjoint (p # ps) \<longleftrightarrow> list_all (copies_disjoint p) ps \<and> plans_disjoint ps"

definition section_bytes :: "bytes \<Rightarrow> SectionPlan \<Rightarrow> bytes" where
  "section_bytes bytes p = take (unat (sp_copy_len p)) (drop (unat (sp_raw_offset p)) bytes)"

definition placed :: "bytes \<Rightarrow> SectionPlan \<Rightarrow> bytes" where
  "placed mem p = take (unat (sp_copy_len p)) (drop (unat (sp_virt_addr p)) mem)"

lemma copy_sections_keeps:
  assumes "\<forall>q\<in>set ps. plan_fits (length bytes) (length mem) q" "list_all (copies_disjoint p) ps"
    and "plan_fits (length bytes) (length mem) p" "copy_sections bytes ps mem = Ok mem'"
  shows "placed mem' p = placed mem p"
  using assms
proof (induction ps arbitrary: mem)
  case (Cons q ps)
  show ?case
  proof (cases "sp_copy_len q = 0 \<or> sp_copy_len p = 0")
    case True
    show ?thesis
    proof (cases "sp_copy_len q = 0")
      case True
      then show ?thesis using Cons by simp
    next
      case False
      with True show ?thesis by (simp add: placed_def)
    qed
  next
    case False
    let ?s = "section_bytes bytes q" and ?a = "unat (sp_virt_addr q)"
    have fit: "plan_fits (length bytes) (length mem) q" using Cons.prems(1) by simp
    have len: "length ?s = unat (sp_copy_len q)"
      using fit False unfolding section_bytes_def plan_fits_def by (intro length_take_drop) auto
    then have le: "?a + length ?s \<le> length mem" using fit False by (simp add: plan_fits_def)
    have "copy_sections bytes ps (overwrite mem ?a ?s) = Ok mem'"
      using Cons.prems(4) fit False
      by (simp add: copy_sections_step section_bytes_def del: copy_sections.simps)
    then have "placed mem' p = placed (overwrite mem ?a ?s) p"
      using Cons.prems le by (intro Cons.IH) auto
    also have "\<dots> = placed mem p"
      unfolding placed_def using le len Cons.prems(2,3) False
      by (intro take_drop_overwrite_disjoint) (auto simp: copies_disjoint_def plan_fits_def)
    finally show ?thesis .
  qed
qed simp

lemma copy_sections_places:
  assumes "\<forall>q\<in>set ps. plan_fits (length bytes) (length mem) q" "plans_disjoint ps"
    and "copy_sections bytes ps mem = Ok mem'" "p \<in> set ps"
  shows "placed mem' p = section_bytes bytes p"
  using assms
proof (induction ps arbitrary: mem)
  case (Cons q ps)
  show ?case
  proof (cases "sp_copy_len q = 0")
    case True
    then show ?thesis using Cons by (auto simp: placed_def section_bytes_def)
  next
    case False
    let ?s = "section_bytes bytes q" and ?a = "unat (sp_virt_addr q)"
    have fit: "plan_fits (length bytes) (length mem) q" using Cons.prems(1) by simp
    have len: "length ?s = unat (sp_copy_len q)"
      using fit False unfolding section_bytes_def plan_fits_def by (intro length_take_drop) auto
    then have le: "?a + length ?s \<le> length mem" using fit False by (simp add: plan_fits_def)
    have rest: "copy_sections bytes ps (overwrite mem ?a ?s) = Ok mem'"
      using Cons.prems(3) fit False
      by (simp add: copy_sections_step section_bytes_def del: copy_sections.simps)
    show ?thesis
    proof (cases "p = q")
      case True
      have "placed mem' q = placed (overwrite mem ?a ?s) q"
        using Cons.prems(1,2) le rest by (intro copy_sections_keeps [where ps = ps]) auto
      also have "\<dots> = ?s"
        using take_drop_overwrite_same [OF le] len by (simp add: placed_def)
      finally show ?thesis by (simp add: True)
    next
      case False
      then show ?thesis using Cons.prems rest le by (intro Cons.IH) auto
    qed
  qed
qed simp

subsection \<open>The outcome of a load\<close>

lemma finish_load_no_panic [simp]: "snd (finish_load fw b n s d k lo mem) \<noteq> Panic"
  by (simp add: finish_load_def install_loaded_image_protocol_def split: option.split)

lemma relocate_and_finish_no_panic:
  "unat (ps_size_of_image s) \<le> length mem \<Longrightarrow>
   snd (relocate_and_finish fw b n a s dir d k lo mem) \<noteq> Panic"
  by (auto simp: relocate_and_finish_def Let_def apply_relocations_to_slice_def
      apply_blocks_relocate_spec split: outcome.splits)

lemma load_into_no_panic:
  assumes "\<forall>p\<in>set (ps_sections s). plan_fits (length bytes) (n * 4096) p"
    and "unat (ps_size_of_image s) \<le> n * 4096"
  shows "snd (load_into fw b n a s bytes d k lo) \<noteq> Panic"
proof -
  obtain mem where "copy_sections bytes (ps_sections s) (replicate (n * 4096) 0) = Ok mem"
      "length mem = n * 4096"
    using copy_sections_Ok [of "ps_sections s" bytes "replicate (n * 4096) 0"] assms(1) by auto
  with assms(2) relocate_and_finish_no_panic [of s mem] show ?thesis
    by (simp add: load_into_def finish_load_without_relocs_def split: option.split)
qed

lemma allocate_pages_Ok:
  assumes "allocate_image_pages fw s = Ok (b, n, a)"
  shows "unat (ps_size_of_image s) \<le> n * 4096" "b = a"
    "fw_alloc_any fw n \<noteq> Some 0 \<Longrightarrow> b \<noteq> 0"
proof -
  show "unat (ps_size_of_image s) \<le> n * 4096"
    using assms div_ceil_covers [of 4096 "unat (ps_size_of_image s)"]
    by (auto simp: allocate_image_pages_def Let_def split: if_splits option.splits)
  show "b = a" "fw_alloc_any fw n \<noteq> Some 0 \<Longrightarrow> b \<noteq> 0"
    using assms
    by (auto simp: allocate_image_pages_def Let_def split: if_splits option.splits)
qed

lemma load_pe_cases:
  obtains (early) e where "load_pe arch sha fw bytes lo k = ([], Err e)"
  | (alloc) s b n calls r where
      "parse_headers bytes = Ok s" "validate_headers arch s bytes = Ok ()"
      "allocate_image_pages fw s = Ok (b, n, b)"
      "\<forall>p\<in>set (ps_sections s). plan_fits (length bytes) (n * 4096) p"
      "unat (ps_size_of_image s) \<le> n * 4096"
      "load_into fw b n b s bytes (sha bytes) k lo = (calls, r)"
      "load_pe arch sha fw bytes lo k = (AllocPages b n # calls, r)"
proof (cases "\<exists>s. parse_headers bytes = Ok s \<and> validate_headers arch s bytes = Ok () \<and>
               (\<exists>x. allocate_image_pages fw s = Ok x)")
  case True
  then obtain s b n a where *: "parse_headers bytes = Ok s" "validate_headers arch s bytes = Ok ()"
      "allocate_image_pages fw s = Ok (b, n, a)" by auto
  obtain calls r where "load_into fw b n a s bytes (sha bytes) k lo = (calls, r)" by fastforce
  moreover note allocate_pages_Ok(1,2) [OF *(3)]
  ultimately show ?thesis
    using alloc [of s b n calls r] * validated_plan_fits [OF *(1,2)]
    by (simp add: load_pe_def)
next
  case False
  moreover have "allocate_image_pages fw s \<noteq> Panic" for s
    by (simp add: allocate_image_pages_def Let_def split: option.split)
  ultimately have "\<exists>e. load_pe arch sha fw bytes lo k = ([], Err e)"
    by (auto simp: load_pe_def split: outcome.splits)
  then show ?thesis using early by blast
qed

subsection \<open>Page accounting\<close>

text \<open>The allocations a call list leaves open.\<close>

fun open_pages :: "fw_call list \<Rightarrow> (u64 \<times> usize) list" where
  "open_pages [] = []"
| "open_pages (c # cs) =
     (case c of
        AllocPages b n \<Rightarrow>
          (if FreePages b n \<in> set cs then open_pages cs else (b, n) # open_pages cs)
      | _ \<Rightarrow> open_pages cs)"

definition frees_only :: "fw_call list \<Rightarrow> bool" where
  "frees_only cs \<longleftrightarrow> (\<forall>b n. AllocPages b n \<notin> set cs)"

lemma open_pages_frees_only: "frees_only cs \<Longrightarrow> open_pages cs = []"
  by (induction cs) (auto simp: frees_only_def split: fw_call.split)

lemma load_into_calls:
  assumes "load_into fw b n a s bytes d k lo = (calls, r)" "b \<noteq> 0"
    and "\<forall>p\<in>set (ps_sections s). plan_fits (length bytes) (n * 4096) p"
    and "unat (ps_size_of_image s) \<le> n * 4096"
  shows "frees_only calls \<and>
    (case r of Ok li \<Rightarrow> FreePages b n \<notin> set calls \<and> li_image_base li = b \<and> li_pages_allocated li = n
     | Err e \<Rightarrow> FreePages b n \<in> set calls
     | Panic \<Rightarrow> False)"
proof -
  have fin: "finish_load fw b n s d k lo mem = (calls, r) \<Longrightarrow> ?thesis" for mem
    using assms(2)
    by (auto simp: finish_load_def install_loaded_image_protocol_def free_pages_def frees_only_def
        split: option.splits)
  have np: "r \<noteq> Panic" using load_into_no_panic [OF assms(3,4), of fw b a d k lo] assms(1) by simp
  obtain mem where mem: "copy_sections bytes (ps_sections s) (replicate (n * 4096) 0) = Ok mem"
      "length mem = n * 4096"
    using copy_sections_Ok [of "ps_sections s" bytes "replicate (n * 4096) 0"] assms(3) by auto
  have rel: "relocate_and_finish fw b n a s dir d k lo mem = (calls, r) \<Longrightarrow> ?thesis" for dir
    using fin assms(2,4) mem np
    by (auto simp: relocate_and_finish_def Let_def free_pages_def frees_only_def
        split: if_splits outcome.splits)
  show ?thesis
    using assms(1) mem fin rel
    by (auto simp: load_into_def finish_load_without_relocs_def split: if_splits option.splits)
qed

subsection \<open>Properties\<close>

definition sample_firmware :: pe_firmware where
  "sample_firmware = \<lparr>fw_alloc_at = \<lambda>_ _. False, fw_alloc_any = \<lambda>_. Some 0x100000,
     fw_install = \<lambda>_ _ _. Some 7\<rparr>"

text \<open>C10: Loading a PE image is memory safe on every input and every firmware: no raw section copy
  reads outside the input or writes outside the allocated pages, and no slice of the relocation
  path is out of range.\<close>

theorem load_pe_memory_safe: "snd (load_pe arch sha fw bytes lo backend) \<noteq> Panic"
proof (cases rule: load_pe_cases [of arch sha fw bytes lo backend])
  case (alloc s b n calls r)
  then show ?thesis using load_into_no_panic [of s bytes n fw b b "sha bytes" backend lo] by simp
qed simp

text \<open>C12: Page accounting: a load that fails leaves no page allocation open, whichever step failed,
  and a load that succeeds leaves exactly the allocation the returned image records.  The firmware
  is assumed not to hand out address 0, which \<open>NonNull\<close> excludes.\<close>

theorem load_pe_page_accounting:
  assumes "\<forall>n. fw_alloc_any fw n \<noteq> Some 0"
  shows "case load_pe arch sha fw bytes lo backend of
      (calls, Ok li) \<Rightarrow> open_pages calls = [(li_image_base li, li_pages_allocated li)]
    | (calls, _) \<Rightarrow> open_pages calls = []"
proof (cases rule: load_pe_cases [of arch sha fw bytes lo backend])
  case (alloc s b n calls r)
  have "b \<noteq> 0" using allocate_pages_Ok(3) [OF alloc(3)] assms by simp
  from load_into_calls [OF alloc(6) this alloc(4,5)] show ?thesis
    by (auto simp: alloc(7) open_pages_frees_only split: outcome.split)
qed simp

theorem load_pe_page_accounting_witness:
  "case load_pe Arch_x86_64 (\<lambda>_. []) sample_firmware sample_pe None ''ext4'' of
      (calls, Ok li) \<Rightarrow> open_pages calls = [(li_image_base li, li_pages_allocated li)]
    | (calls, _) \<Rightarrow> open_pages calls = []"
  by (rule load_pe_page_accounting) (simp add: sample_firmware_def)

text \<open>C13: A successful load that needs no relocation puts the program where its headers say: if
  the sections do not overlap, the bytes of each section in the loaded image are the bytes of the
  file it names, the pages cover the image, the entry point is the base plus the entry RVA, and the
  recorded digest is the digest of the input.\<close>

theorem load_pe_places_sections:
  assumes "load_pe arch sha fw bytes lo backend = (calls, Ok li)"
    and "parse_headers bytes = Ok s" "plans_disjoint (ps_sections s)"
    and "li_image_base li = ps_preferred_base s \<or> ps_reloc_dir s = None"
  shows "(\<forall>p\<in>set (ps_sections s). placed (li_mem li) p = section_bytes bytes p) \<and>
    li_image_size li \<le> length (li_mem li) \<and>
    li_entry_point li = li_image_base li + ucast (ps_entry_rva s) \<and> li_sha256 li = sha bytes"
proof (cases rule: load_pe_cases [of arch sha fw bytes lo backend])
  case (alloc s' b n cs r)
  have s': "s' = s" and r: "r = Ok li" using alloc(1,7) assms(1,2) by simp_all
  obtain mem where mem: "copy_sections bytes (ps_sections s) (replicate (n * 4096) 0) = Ok mem"
      "length mem = n * 4096"
    using copy_sections_Ok [of "ps_sections s" bytes "replicate (n * 4096) 0"] alloc(4) s' by auto
  have base: "li_image_base li = b"
    using alloc(6) mem(1) r s'
    by (auto simp: load_into_def relocate_and_finish_def finish_load_without_relocs_def
        finish_load_def install_loaded_image_protocol_def Let_def
        split: if_splits option.splits outcome.splits)
  have "finish_load fw b n s (sha bytes) backend lo mem = (cs, Ok li)"
    using alloc(6) mem(1) r s' base assms(4)
    by (auto simp: load_into_def finish_load_without_relocs_def split: if_splits option.splits)
  then have "li_mem li = mem" "li_image_size li = unat (ps_size_of_image s)"
      "li_entry_point li = b + ucast (ps_entry_rva s)" "li_sha256 li = sha bytes"
    by (auto simp: finish_load_def install_loaded_image_protocol_def split: option.splits)
  moreover have "placed mem p = section_bytes bytes p" if "p \<in> set (ps_sections s)" for p
    using copy_sections_places [OF _ assms(3) mem(1) that] alloc(4) s' by simp
  ultimately show ?thesis using alloc(5) mem(2) base s' by simp
qed (use assms(1) in simp)

lemma sample_load:
  "\<exists>calls li. load_pe Arch_x86_64 sha sample_firmware sample_pe None backend = (calls, Ok li) \<and>
     li_sha256 li = sha sample_pe"
proof -
  have "\<exists>mem. copy_sections sample_pe (ps_sections sample_summary) (replicate (2 * 4096) 0) = Ok mem"
    using copy_sections_Ok [of "ps_sections sample_summary" sample_pe "replicate (2 * 4096) 0"]
    by (auto simp: sample_summary_def plan_fits_def length_sample_pe)
  moreover have "allocate_image_pages sample_firmware sample_summary = Ok (0x100000, 2, 0x100000)"
    by (simp add: allocate_image_pages_def sample_firmware_def div_ceil_def sample_summary_def)
  moreover have "ps_reloc_dir sample_summary = None" by (simp add: sample_summary_def)
  ultimately show ?thesis
    by (auto simp: load_pe_def sample_pe_parses sample_pe_validates load_into_def
        finish_load_without_relocs_def finish_load_def install_loaded_image_protocol_def
        sample_firmware_def)
qed

theorem load_pe_places_sections_witness:
  "\<exists>calls li. load_pe Arch_x86_64 (\<lambda>_. []) sample_firmware sample_pe None ''ext4'' = (calls, Ok li) \<and>
     placed (li_mem li) (ps_sections sample_summary ! 0) =
       [1, 2, 3, 4, 5, 6, 7, 8, 9, 10, 11, 12, 13, 14, 15, 16, 17, 18, 19, 20, 21, 22, 23, 24]"
proof -
  obtain calls li where li:
    "load_pe Arch_x86_64 (\<lambda>_. []) sample_firmware sample_pe None ''ext4'' = (calls, Ok li)"
    using sample_load by blast
  have "plans_disjoint (ps_sections sample_summary)" "ps_reloc_dir sample_summary = None"
    by (simp_all add: sample_summary_def)
  with load_pe_places_sections [OF li sample_pe_parses] li show ?thesis
    by (auto simp: sample_summary_def section_bytes_def sample_pe_def)
qed

end
