(* ===== verification/Machine.thy ===== *)
theory Machine
  imports Secure Report Pe_Loader Policy Utf16
begin

section \<open>The machine a boot runs on\<close>

text \<open>
  The state the boot path works on and the firmware calls it makes: the mounted volumes (the ESP
  first), the trust log, the breadcrumbs and the firmware state of theory \<open>Secure\<close>.  With it the models of
  \<open>lamboot-core/src/tpm.rs\<close> (measurements) and \<open>initrd.rs\<close> (the initrd offered to the kernel).

  \<open>platform\<close> gathers what is not part of the sources: the file-system protocol, the Secure Boot calls, the
  page allocator, SHA-256, the UTF-16 conversion of the \<open>uefi\<close> crate, the TPM, the image calls, the code of
  the images that are started and the text \<open>Debug\<close> gives a load error and a status.  Starting an image may never return: then
  \<open>pl_start\<close> and \<open>pl_run\<close> are \<open>None\<close> and the action ends with \<open>HandedOver\<close>.
\<close>

subsection \<open>Platform and state\<close>

type_synonym fw_st = "LoadedImage fw_state"

record 's platform =
  pl_sfs :: "'s sfs"
  pl_fw :: "LoadedImage boot_firmware"
  pl_pe :: "fw_st \<Rightarrow> pe_firmware"
  pl_arch :: target_arch
  pl_sha :: "bytes \<Rightarrow> bytes"
  pl_cstr16 :: "string \<Rightarrow> u16 list option"
  pl_tcg_handle :: "fw_st \<Rightarrow> bool"
  pl_tcg_open :: "fw_st \<Rightarrow> bool"
  pl_pcr_event :: "nat \<Rightarrow> string \<Rightarrow> bool"
  pl_extend :: "nat \<Rightarrow> bytes \<Rightarrow> fw_st \<Rightarrow> bool"
  pl_open_loaded_image :: "nat \<Rightarrow> fw_st \<Rightarrow> (unit, string) outcome"
  pl_start :: "nat \<Rightarrow> fw_st \<Rightarrow> (unit, string) outcome option"
  pl_run :: "u64 \<Rightarrow> nat \<Rightarrow> u64 option"
  pl_install_protocol :: "fw_st \<Rightarrow> (unit, string) outcome"
  pl_debug :: "PeLoadError \<Rightarrow> string"
  pl_status :: "u64 \<Rightarrow> string"

record 's machine =
  mc_volumes :: "'s volume list"
  mc_log :: TrustLog
  mc_diag :: Diag
  mc_fw :: fw_st

text \<open>How an action ends without a value: with an error status, or by handing the machine over.\<close>

datatype boot_exit = Failed string | HandedOver

type_synonym ('s, 'a) boot = "('s machine, 'a, boot_exit) act"

definition esp_of :: "'s machine \<Rightarrow> 's volume" where
  "esp_of m = hd (mc_volumes m)"

definition on_volume :: "nat \<Rightarrow> ('s volume, 'a, FsError) act \<Rightarrow> ('s, 'a) boot" where
  "on_volume i op m =
     (case op (mc_volumes m ! i) of
        (v, r) \<Rightarrow> (m\<lparr>mc_volumes := (mc_volumes m)[i := v]\<rparr>, omap_err (Failed \<circ> to_uefi_status) r))"

definition on_fw :: "(fw_st, 'a, string) act \<Rightarrow> ('s, 'a) boot" where
  "on_fw op m = (case op (mc_fw m) of (f, r) \<Rightarrow> (m\<lparr>mc_fw := f\<rparr>, omap_err Failed r))"

definition call :: "LoadedImage boot_call \<Rightarrow> 's machine \<Rightarrow> 's machine" where
  "call c m = m\<lparr>mc_fw := emit c (mc_fw m)\<rparr>"

text \<open>The calls of \<open>trust_log\<close> and \<open>diag\<close> the boot path makes, on the ESP.\<close>

definition rec :: "TrustEvent \<Rightarrow> 's machine \<Rightarrow> 's machine" where
  "rec ev m = m\<lparr>mc_log := tl_record ev (mc_log m)\<rparr>"

definition log_flush :: "'s platform \<Rightarrow> 's machine \<Rightarrow> 's machine" where
  "log_flush pl m =
     (case tl_flush (pl_sfs pl) (mc_log m) (esp_of m) of
        (l, v) \<Rightarrow> m\<lparr>mc_log := l, mc_volumes := (mc_volumes m)[0 := v]\<rparr>)"

definition quiet_flush :: "'s platform \<Rightarrow> FirmwareQuirks \<Rightarrow> 's machine \<Rightarrow> 's machine" where
  "quiet_flush pl quirks m = (if \<not> conout_fat_coupling quirks then log_flush pl m else m)"

definition crumb :: "'s platform \<Rightarrow> string \<Rightarrow> 's machine \<Rightarrow> 's machine" where
  "crumb pl msg m =
     (case diag_append (pl_sfs pl) (msg @ NL) (mc_diag m, esp_of m) of
        (d, v) \<Rightarrow> m\<lparr>mc_diag := d, mc_volumes := (mc_volumes m)[0 := v]\<rparr>)"

definition crumb_flush :: "'s platform \<Rightarrow> 's machine \<Rightarrow> 's machine" where
  "crumb_flush pl m =
     (case diag_flush (pl_sfs pl) (mc_diag m, esp_of m) of
        (d, v) \<Rightarrow> m\<lparr>mc_diag := d, mc_volumes := (mc_volumes m)[0 := v]\<rparr>)"

subsection \<open>Measurements\<close>

definition PCR_BOOT_CODE :: nat where "PCR_BOOT_CODE = 4"
definition PCR_BOOT_CONFIG :: nat where "PCR_BOOT_CONFIG = 5"
definition PCR_KERNEL_CMDLINE :: nat where "PCR_KERNEL_CMDLINE = 12"

definition measure_pcr :: "'s platform \<Rightarrow> nat \<Rightarrow> bytes \<Rightarrow> string \<Rightarrow> 's machine \<Rightarrow> 's machine \<times> bool" where
  "measure_pcr pl pcr data description m =
     (if \<not> pl_tcg_handle pl (mc_fw m) then (m, False)
      else if \<not> pl_tcg_open pl (mc_fw m) then (m, False)
      else if \<not> pl_pcr_event pl pcr description then (m, False)
      else let ok = pl_extend pl pcr data (mc_fw m) in (call (Extend pcr data ok) m, ok))"

definition measure_kernel :: "'s platform \<Rightarrow> bytes \<Rightarrow> 's machine \<Rightarrow> 's machine \<times> bool" where
  "measure_kernel pl data = measure_pcr pl PCR_BOOT_CODE data ''LamBoot: Kernel Image''"

definition measure_config :: "'s platform \<Rightarrow> bytes \<Rightarrow> 's machine \<Rightarrow> 's machine \<times> bool" where
  "measure_config pl data = measure_pcr pl PCR_BOOT_CONFIG data ''LamBoot: Boot Configuration''"

definition measure_cmdline :: "'s platform \<Rightarrow> string \<Rightarrow> 's machine \<Rightarrow> 's machine \<times> bool" where
  "measure_cmdline pl cmdline =
     measure_pcr pl PCR_KERNEL_CMDLINE (concat (map to_le (encode_utf16 cmdline)))
       ''LamBoot: Kernel Command Line''"

definition measure_driver :: "'s platform \<Rightarrow> bytes \<Rightarrow> string \<Rightarrow> 's machine \<Rightarrow> 's machine \<times> bool" where
  "measure_driver pl data path = measure_pcr pl PCR_BOOT_CODE data (''LamBoot: Driver '' @ path)"

definition measure_bls_entry :: "'s platform \<Rightarrow> bytes \<Rightarrow> string \<Rightarrow> 's machine \<Rightarrow> 's machine \<times> bool" where
  "measure_bls_entry pl data entry_id = measure_pcr pl PCR_BOOT_CONFIG data (''LamBoot: BLS Entry '' @ entry_id)"

subsection \<open>The initrd\<close>

text \<open>Registration installs two protocols; the data it leaks stays as it is until the kernel reads it.
  The data on offer is on the trace.\<close>

definition initrd_register :: "'s platform \<Rightarrow> bytes \<Rightarrow> ('s, bytes) boot" where
  "initrd_register pl data =
     abind (steps [crumb pl ''IR1 enter_register'', crumb pl ''IR2 after_into_boxed_slice'',
       crumb pl ''IR3 after_box_into_raw'', crumb pl ''IR4 after_devpath_alloc'',
       crumb pl ''IR5 after_provider_alloc'', crumb pl ''IR6 before_install_devpath_protocol'']) (\<lambda>_.
     abind (on_fw (alift (pl_install_protocol pl))) (\<lambda>_.
     abind (steps [crumb pl ''IR7 after_install_devpath_protocol'',
       crumb pl ''IR8 before_install_loadfile2_protocol'']) (\<lambda>_.
     abind (on_fw (alift (pl_install_protocol pl))) (\<lambda>_.
     abind (steps [call (InstallInitrd data), crumb pl ''IR9 after_install_loadfile2_protocol'']) (\<lambda>_.
     aret data)))))"

text \<open>The callback of the kernel's EFI stub: the size it asks for, the buffer if it passed one.  It
  returns the status, the size and the buffer.\<close>

definition initrd_load_file_callback ::
  "bytes \<Rightarrow> bool \<Rightarrow> bool \<Rightarrow> bool \<Rightarrow> nat \<Rightarrow> bytes option \<Rightarrow> string \<times> nat \<times> bytes option" where
  "initrd_load_file_callback data boot_policy this_null size_null buffer_size buffer =
     (if boot_policy then (''UNSUPPORTED'', buffer_size, buffer)
      else if this_null \<or> size_null then (''INVALID_PARAMETER'', buffer_size, buffer)
      else if data = [] then (''NOT_FOUND'', buffer_size, buffer)
      else case buffer of
        None \<Rightarrow> (''BUFFER_TOO_SMALL'', length data, buffer)
      | Some buf \<Rightarrow>
          if buffer_size < length data then (''BUFFER_TOO_SMALL'', length data, buffer)
          else (''SUCCESS'', length data, Some (overwrite buf 0 data)))"

subsection \<open>A machine in memory\<close>

text \<open>A platform over the file system in memory and the firmware of theory \<open>Secure\<close>: the TPM works, a started
  image never returns.\<close>

definition sample_platform :: "bool \<Rightarrow> bytes list \<Rightarrow> bytes list \<Rightarrow> mem_state platform" where
  "sample_platform shim mok db =
     \<lparr>pl_sfs = mem_sfs, pl_fw = sample_boot_fw shim mok db, pl_pe = (\<lambda>s. sample_firmware), pl_arch = Arch_x86_64,
      pl_sha = (\<lambda>b. replicate 32 (of_nat (length b))), pl_cstr16 = (\<lambda>s. Some (encode_utf16 s @ [0])),
      pl_tcg_handle = (\<lambda>s. True), pl_tcg_open = (\<lambda>s. True), pl_pcr_event = (\<lambda>pcr d. True),
      pl_extend = (\<lambda>pcr d s. True), pl_open_loaded_image = (\<lambda>h s. Ok ()), pl_start = (\<lambda>h s. None),
      pl_run = (\<lambda>e h. None), pl_install_protocol = (\<lambda>s. Ok ()), pl_debug = pe_as_log_token,
      pl_status = (\<lambda>st. ''SUCCESS'')\<rparr>"

definition sample_volume :: "(string \<times> bytes) list \<Rightarrow> mem_state volume" where
  "sample_volume files =
     (demo_volume 100)\<lparr>vol_store :=
        \<lparr>mem_files = map (\<lambda>(p, b). (p, FatFile b)) files, mem_writes_left = 100\<rparr>\<rparr>"

definition sample_machine :: "(string \<times> bytes) list \<Rightarrow> mem_state machine" where
  "sample_machine files =
     \<lparr>mc_volumes = [sample_volume files], mc_log = tl_new,
      mc_diag = \<lparr>dg_enabled = False, dg_coalesce = False, dg_buf = None\<rparr>, mc_fw = fresh_fw\<rparr>"

subsection \<open>What the calls leave alone\<close>

named_theorems machine_simps \<open>which parts of the machine a call changes\<close>

lemma rec_fw [machine_simps]: "mc_fw (rec ev m) = mc_fw m" "mc_volumes (rec ev m) = mc_volumes m"
  "mc_log (rec ev m) = tl_record ev (mc_log m)"
  by (simp_all add: rec_def)

lemma crumb_fw [machine_simps]: "mc_fw (crumb pl msg m) = mc_fw m" "mc_log (crumb pl msg m) = mc_log m"
  by (simp_all add: crumb_def split: prod.split)

lemma log_flush_fw [machine_simps]: "mc_fw (log_flush pl m) = mc_fw m" "mc_diag (log_flush pl m) = mc_diag m"
  by (simp_all add: log_flush_def split: prod.split)

lemma quiet_flush_fw [machine_simps]: "mc_fw (quiet_flush pl q m) = mc_fw m"
  by (simp add: quiet_flush_def machine_simps)

lemma crumb_flush_fw [machine_simps]: "mc_fw (crumb_flush pl m) = mc_fw m" "mc_log (crumb_flush pl m) = mc_log m"
  by (simp_all add: crumb_flush_def split: prod.split)

lemma call_fw [machine_simps]: "mc_fw (call c m) = emit c (mc_fw m)" "mc_log (call c m) = mc_log m"
  by (simp_all add: call_def)

lemma on_volume_fw [machine_simps]: "mc_fw (fst (on_volume i op m)) = mc_fw m"
  by (simp add: on_volume_def split: prod.split)

lemma measure_pcr_fw:
  "(mc_fw (fst (measure_pcr pl pcr data desc m)) = mc_fw m \<and> \<not> snd (measure_pcr pl pcr data desc m)) \<or>
   mc_fw (fst (measure_pcr pl pcr data desc m)) =
     emit (Extend pcr data (snd (measure_pcr pl pcr data desc m))) (mc_fw m)"
  by (simp add: measure_pcr_def Let_def machine_simps)

text \<open>The two-phase protocol of the initrd: a size query, then the data, and never more than the data.\<close>

lemma initrd_callback_two_phase:
  assumes "data \<noteq> []" "initrd_load_file_callback data False False False n None = (st, k, b)"
    and "length buf = k"
  shows "st = ''BUFFER_TOO_SMALL'' \<and>
    initrd_load_file_callback data False False False k (Some buf) = (''SUCCESS'', length data, Some data)"
  using assms by (auto simp: initrd_load_file_callback_def overwrite_def)

end
