(* ===== verification/Preflight.thy ===== *)
theory Preflight
  imports Machine
begin

section \<open>Preflight checks\<close>

text \<open>
  Model of \<open>lamboot-core/src/preflight.rs\<close>: the advisory checks of a boot entry before the menu shows it,
  and the resolution of a path with the implicit \<open>boot\<close> directory that the boot path shares.  A volume is
  its index, the ESP being 0.

  The lemmas characterize the path resolution and the search over the volumes; the theorem shows the
  PE check running off the end of a short header.
\<close>

definition check_ok :: CheckResult where "check_ok = \<lparr>cr_severity = SevOk, cr_message = []\<rparr>"
definition warning :: "string \<Rightarrow> CheckResult" where "warning msg = \<lparr>cr_severity = SevWarning, cr_message = msg\<rparr>"
definition check_error :: "string \<Rightarrow> CheckResult" where "check_error msg = \<lparr>cr_severity = SevError, cr_message = msg\<rparr>"

subsection \<open>Finding a file\<close>

definition BOOT_BS :: string where "BOOT_BS = bslash # ''boot'' @ [bslash]"

definition exists_with_boot_fallback :: "string \<Rightarrow> 's volume \<Rightarrow> string option" where
  "exists_with_boot_fallback path v =
     (if exists_str path v then Some path
      else let lower = to_lowercase path in
        if prefix BOOT_BS lower \<or> prefix ''/boot/'' lower then None
        else let prefixed =
               (if prefix [bslash] path \<or> prefix ''/'' path then bslash # ''boot'' @ path else BOOT_BS @ path) in
          if exists_str prefixed v then Some prefixed else None)"

text \<open>The index of the first volume that has the file, with the path it has it under.\<close>

fun find_file :: "string \<Rightarrow> nat \<Rightarrow> 's volume list \<Rightarrow> (nat \<times> string) option" where
  "find_file path i [] = None"
| "find_file path i (v # vs) =
     (case exists_with_boot_fallback path v of
        Some resolved \<Rightarrow> Some (i, resolved)
      | None \<Rightarrow> find_file path (Suc i) vs)"

definition file_exists_any :: "'s volume list \<Rightarrow> string \<Rightarrow> bool" where
  "file_exists_any vols path \<longleftrightarrow> find_file path 0 vols \<noteq> None"

definition check_file_exists_any :: "'s volume list \<Rightarrow> string \<Rightarrow> CheckResult" where
  "check_file_exists_any vols path =
     (if file_exists_any vols path then check_ok else check_error (''File not found: '' @ path))"

definition find_volume_with_file :: "'s volume list \<Rightarrow> string \<Rightarrow> nat" where
  "find_volume_with_file vols path = (case find_file path 0 vols of Some (i, _) \<Rightarrow> i | None \<Rightarrow> 0)"

subsection \<open>The checks\<close>

definition native_machine :: "target_arch \<Rightarrow> u16" where
  "native_machine arch = (if arch = Arch_aarch64 then 0xAA64 else 0x8664)"

definition pe_header_result :: "target_arch \<Rightarrow> bytes \<Rightarrow> (CheckResult, 'e) outcome" where
  "pe_header_result arch data =
     (if length data < 64 then Ok (warning ''File too small for PE binary'')
      else obind (slice_idx data 0 2) (\<lambda>magic.
        if magic \<noteq> [0x4D, 0x5A] then Ok (warning ''Invalid PE header (no MZ signature)'')
        else obind (slice_idx data 0x3C 0x40) (\<lambda>lfanew.
          let pe_offset = unat (from_le lfanew :: u32) in
          if pe_offset + 4 > length data then Ok (warning ''PE header offset out of bounds'')
          else obind (slice_idx data pe_offset (pe_offset + 4)) (\<lambda>sig.
            if sig \<noteq> [0x50, 0x45, 0x00, 0x00] then Ok (warning ''Invalid PE signature'')
            else obind (at_idx data (pe_offset + 4)) (\<lambda>b0.
              obind (at_idx data (pe_offset + 5)) (\<lambda>b1.
              let machine = (from_le [b0, b1] :: u16) in
              if machine \<noteq> native_machine arch then
                Ok (warning (''Architecture mismatch: found '' @
                  (if machine = 0x8664 then ''x86_64'' else if machine = 0xAA64 then ''aarch64'' else ''unknown'')))
              else Ok check_ok))))))"

definition check_pe_header :: "'s platform \<Rightarrow> nat \<Rightarrow> string \<Rightarrow> ('s, CheckResult) boot" where
  "check_pe_header pl i path m =
     (case on_volume i (read_at_str path 0 256) m of
        (m', Ok data) \<Rightarrow> (m', pe_header_result (pl_arch pl) data)
      | (m', Err e) \<Rightarrow> (m', Ok (warning ''Cannot read file for PE validation''))
      | (m', Panic) \<Rightarrow> (m', Panic))"

definition check_secure_boot :: "'s platform \<Rightarrow> nat \<Rightarrow> string \<Rightarrow> SecureBootState \<Rightarrow> ('s, CheckResult) boot" where
  "check_secure_boot pl i path sb m =
     (if sb = SbDisabled then (m, Ok check_ok)
      else case on_volume i (read_str path) m of
        (m1, Ok data) \<Rightarrow>
          (let (m2, valid) =
             (if sb = ActiveWithShim then
                (case shim_validate (pl_fw pl) data (mc_fw m1) of (f, ok) \<Rightarrow> (m1\<lparr>mc_fw := f\<rparr>, ok))
              else (m1, False)) in
           if valid then (m2, Ok check_ok)
           else case on_fw (verify_image (pl_fw pl) data sb) m2 of
             (m3, Ok _) \<Rightarrow> (m3, Ok check_ok)
           | (m3, Err e) \<Rightarrow> (m3, Ok (warning ''Not signed for Secure Boot''))
           | (m3, Panic) \<Rightarrow> (m3, Panic))
      | (m1, Err e) \<Rightarrow> (m1, Ok (warning ''Cannot read file for Secure Boot check''))
      | (m1, Panic) \<Rightarrow> (m1, Panic))"

definition check_root_param :: "string \<Rightarrow> CheckResult" where
  "check_root_param options =
     (case find (\<lambda>t. prefix ''root='' t) (split_whitespace options) of
        None \<Rightarrow> check_ok
      | Some t \<Rightarrow>
          (case strip_prefix ''UUID='' (drop 5 t) of
             Some uuid \<Rightarrow>
               if length (split_char (CHR ''-'') uuid) \<noteq> 5
               then warning (''Malformed UUID in root=: '' @ uuid) else check_ok
           | None \<Rightarrow> check_ok))"

text \<open>The checks of an executable: presence, then the header and the signature on the volume that has
  it, under the path it has it.\<close>

definition check_image :: "'s platform \<Rightarrow> string \<Rightarrow> SecureBootState \<Rightarrow> ('s, CheckResult list) boot" where
  "check_image pl path sb m =
     (let file_ok = check_file_exists_any (mc_volumes m) path in
      if cr_severity file_ok = SevOk then
        (let i = find_volume_with_file (mc_volumes m) path;
             resolved = (case exists_with_boot_fallback path (mc_volumes m ! i) of Some r \<Rightarrow> r | None \<Rightarrow> path) in
         abind (check_pe_header pl i resolved) (\<lambda>pe.
           if sb \<noteq> SbDisabled then
             abind (check_secure_boot pl i resolved sb) (\<lambda>s. aret [file_ok, pe, s])
           else aret [file_ok, pe]) m)
      else (m, Ok [file_ok]))"

fun run_preflight :: "'s platform \<Rightarrow> EntryKind \<Rightarrow> SecureBootState \<Rightarrow> ('s, PreflightResult) boot" where
  "run_preflight pl (Chainload path) sb =
     abind (check_image pl path sb) (\<lambda>checks. aret (from_checks checks))"
| "run_preflight pl (Uki path opts) sb =
     abind (check_image pl path sb) (\<lambda>checks. aret (from_checks checks))"
| "run_preflight pl (LinuxLegacy kpath initrds options) sb =
     abind (check_image pl kpath sb) (\<lambda>checks m.
       (m, Ok (from_checks (checks @
          map (\<lambda>p. warning (''Initrd not found: '' @ p))
            (filter (\<lambda>p. \<not> file_exists_any (mc_volumes m) p) initrds) @
          [check_root_param options]))))"
| "run_preflight pl (Iso (IsoFile path)) sb = (\<lambda>m. (m, Ok (from_checks [check_file_exists_any (mc_volumes m) path])))"
| "run_preflight pl (Iso (IsoOptical h label)) sb = aret (from_checks [])"

subsection \<open>Path resolution\<close>

lemma exists_with_boot_fallback_exists:
  "exists_with_boot_fallback path v = Some r \<Longrightarrow> exists_str r v"
  by (auto simp: exists_with_boot_fallback_def Let_def split: if_splits)

text \<open>The path as written wins, and a path that already starts with the directory is not prefixed
  again.\<close>

lemma exists_with_boot_fallback_as_written:
  "exists_str path v \<Longrightarrow> exists_with_boot_fallback path v = Some path"
  by (simp add: exists_with_boot_fallback_def)

lemma find_file_Some:
  "find_file path k vols = Some (i, r) \<Longrightarrow>
   k \<le> i \<and> i - k < length vols \<and> exists_with_boot_fallback path (vols ! (i - k)) = Some r \<and>
   (\<forall>j < i - k. exists_with_boot_fallback path (vols ! j) = None)"
proof (induction vols arbitrary: k)
  case (Cons v vs)
  show ?case
  proof (cases "exists_with_boot_fallback path v")
    case None
    then have "find_file path (Suc k) vs = Some (i, r)" using Cons.prems by simp
    note ih = Cons.IH [OF this]
    then have "i - k = Suc (i - Suc k)" by (simp add: Suc_diff_Suc)
    then show ?thesis using ih None by (auto simp: nth_Cons split: nat.split)
  next
    case (Some r')
    then show ?thesis using Cons.prems by simp
  qed
qed simp

lemma find_file_None: "find_file path k vols = None \<longleftrightarrow> (\<forall>v \<in> set vols. exists_with_boot_fallback path v = None)"
  by (induction vols arbitrary: k) (auto split: option.split)

text \<open>The volume and path the PE and signature checks use are the ones the presence check found.\<close>

lemma find_volume_with_file_has:
  assumes "file_exists_any vols path"
  shows "find_volume_with_file vols path < length vols \<and>
    exists_with_boot_fallback path (vols ! find_volume_with_file vols path) \<noteq> None"
proof -
  obtain i r where f: "find_file path 0 vols = Some (i, r)"
    using assms by (auto simp: file_exists_any_def)
  from find_file_Some [OF f] show ?thesis by (simp add: find_volume_with_file_def f)
qed

subsection \<open>The PE check can crash\<close>

lemma pe_header_result_panics:
  "pe_header_result arch data = Panic \<longleftrightarrow>
   64 \<le> length data \<and> take 2 data = [0x4D, 0x5A] \<and>
   (let off = unat (from_le (take 4 (drop 0x3C data)) :: u32) in
    off + 4 \<le> length data \<and> length data < off + 6 \<and> take 4 (drop off data) = [0x50, 0x45, 0, 0])"
proof (cases "64 \<le> length data \<and> take 2 data = [0x4D, 0x5A]")
  case True
  define off where "off = unat (from_le (take 4 (drop 0x3C data)) :: u32)"
  have l: "pe_header_result arch data =
     (if off + 4 > length data then Ok (warning ''PE header offset out of bounds'')
      else if take 4 (drop off data) \<noteq> [0x50, 0x45, 0x00, 0x00] then Ok (warning ''Invalid PE signature'')
      else obind (at_idx data (off + 4)) (\<lambda>b0. obind (at_idx data (off + 5)) (\<lambda>b1.
             let machine = (from_le [b0, b1] :: u16) in
             if machine \<noteq> native_machine arch then
               Ok (warning (''Architecture mismatch: found '' @
                 (if machine = 0x8664 then ''x86_64'' else if machine = 0xAA64 then ''aarch64'' else ''unknown'')))
             else Ok check_ok)))"
    using True by (simp add: pe_header_result_def Let_def off_def)
  have "pe_header_result arch data = Panic \<longleftrightarrow>
      off + 4 \<le> length data \<and> take 4 (drop off data) = [0x50, 0x45, 0, 0] \<and> length data < off + 6"
    unfolding l by (simp add: outcome_simps at_idx_Panic_conv Let_def) (auto simp: at_idx_def split: if_splits)
  then show ?thesis using True by (auto simp: off_def Let_def)
next
  case False
  then show ?thesis by (auto simp: pe_header_result_def Let_def)
qed

text \<open>A file of 68 bytes that ends right after its PE signature.\<close>

definition short_pe :: bytes where
  "short_pe = [0x4D, 0x5A] @ replicate 58 0 @ [64, 0, 0, 0] @ [0x50, 0x45, 0, 0]"

lemma short_pe_shape: "length short_pe = 68" "take 2 short_pe = [0x4D, 0x5A]"
  "take 4 (drop 0x3C short_pe) = [64, 0, 0, 0]" "take 4 (drop 64 short_pe) = [0x50, 0x45, 0, 0]"
  by (simp_all add: short_pe_def)

lemmas short_pe_defs = read_at_str_def exists_str_def path_of_def normalize_path_string_def path_from_str_def
  path_render_def volume_read_at_def fat_read_at_def fat_exists_def range_key_def sample_volume_def bslash_def
  demo_defs

lemma short_pe_read: "\<exists>v. read_at_str ''/a'' 0 256 (sample_volume [([bslash, CHR ''a''], short_pe)]) = (v, Ok short_pe)"
  using short_pe_shape(1) by (simp add: short_pe_defs)

lemma short_pe_exists: "exists_str ''/a'' (sample_volume [([bslash, CHR ''a''], short_pe)])"
  by (simp add: short_pe_defs)

text \<open>C36: Preflight is documented never to block a boot, but its PE check indexes two bytes past the
  signature it has checked for: on a readable entry whose file ends there, the check panics, and with it
  the whole preflight of a chainload or UKI entry.\<close>

theorem preflight_panics_on_truncated_pe:
  assumes "on_volume (find_volume_with_file (mc_volumes m) path) (read_at_str resolved 0 256) m = (m', Ok data)"
    and "file_exists_any (mc_volumes m) path"
    and "exists_with_boot_fallback path (mc_volumes m ! find_volume_with_file (mc_volumes m) path) = Some resolved"
    and "64 \<le> length data" "take 2 data = [0x4D, 0x5A]"
    and "off = unat (from_le (take 4 (drop 0x3C data)) :: u32)"
    and "off + 4 \<le> length data" "length data < off + 6" "take 4 (drop off data) = [0x50, 0x45, 0, 0]"
  shows "snd (run_preflight pl (Chainload path) sb m) = Panic \<and>
         snd (run_preflight pl (Uki path opts) sb m) = Panic"
proof -
  have p: "pe_header_result (pl_arch pl) data = (Panic :: (CheckResult, boot_exit) outcome)"
    using assms(4-9) by (simp add: pe_header_result_panics Let_def)
  have c: "check_pe_header pl (find_volume_with_file (mc_volumes m) path) resolved m = (m', Panic)"
    using assms(1) p by (simp add: check_pe_header_def)
  have "snd (check_image pl path sb m) = Panic"
    using assms(2,3) c by (simp add: check_image_def check_file_exists_any_def check_ok_def abind_def Let_def)
  then show ?thesis by (cases "check_image pl path sb m") (simp add: abind_def)
qed

theorem preflight_panics_on_truncated_pe_witness:
  "snd (run_preflight (sample_platform False [] []) (Chainload ''/a'') ActiveDirect (sample_machine [([bslash, CHR ''a''], short_pe)])) = Panic \<and>
   snd (run_preflight (sample_platform False [] []) (Uki ''/a'' []) ActiveDirect (sample_machine [([bslash, CHR ''a''], short_pe)])) = Panic"
proof -
  obtain v where v: "read_at_str ''/a'' 0 256 (sample_volume [([bslash, CHR ''a''], short_pe)]) = (v, Ok short_pe)" using short_pe_read by blast
  have f: "find_file ''/a'' 0 [(sample_volume [([bslash, CHR ''a''], short_pe)])] = Some (0, ''/a'')"
    by (simp add: exists_with_boot_fallback_as_written [OF short_pe_exists])
  have off: "unat (from_le [64, 0, 0, 0] :: u32) = 64" by (simp add: from_le_def)
  show ?thesis
    by (rule preflight_panics_on_truncated_pe [of _ _ "''/a''" _ short_pe 64])
      (simp_all add: sample_machine_def find_volume_with_file_def file_exists_any_def f on_volume_def v
        exists_with_boot_fallback_as_written [OF short_pe_exists] short_pe_shape off)
qed

end
