(* ===== verification/Boot.thy ===== *)
theory Boot
  imports Preflight
begin

section \<open>Booting an entry\<close>

text \<open>
  Model of \<open>lamboot-core/src/boot.rs\<close> up to the dispatch on the entry (theory \<open>Iso_Boot\<close>): measurement,
  verification of the kernel bytes, the choice of the load path, the native and the firmware path, and the
  boot of an EFI program, a unified kernel image and a Linux kernel with its initrds.  Every trust-log
  record, flush and breadcrumb of \<open>boot.rs\<close> is a step of the model, in the order of the code.  Left out are
  the breadcrumbs \<open>PE1\<close> to \<open>PE15\<close> that \<open>pe_loader.rs\<close> adds while it loads an image (they only append to the
  audit log) and the reconnection of the console drivers, which touches no state of the model.

  The theorems are about the trace of the firmware calls: what has been checked and measured before an
  image is started.
\<close>

subsection \<open>Measurement and verification\<close>

record VerifiedBytes =
  vb_bytes :: bytes
  vb_sha256 :: bytes
  vb_verified_via :: string
  vb_sb_state :: SecureBootState

definition measure_kernel_logged :: "'s platform \<Rightarrow> bytes \<Rightarrow> string \<Rightarrow> 's machine \<Rightarrow> 's machine" where
  "measure_kernel_logged pl data path m =
     (case measure_kernel pl data m of
        (m', True) \<Rightarrow> rec (with_note ''pcr=4'' (with_path path (te_new ''kernel_measured''))) m'
      | (m', False) \<Rightarrow>
          rec (with_note ''pcr=4 reason=no_tpm_or_tcg2_error''
            (with_path path (te_new ''kernel_measurement_skipped''))) m')"

definition measure_cmdline_logged :: "'s platform \<Rightarrow> string \<Rightarrow> string \<Rightarrow> 's machine \<Rightarrow> 's machine" where
  "measure_cmdline_logged pl options path m =
     (case measure_cmdline pl options m of
        (m', True) \<Rightarrow> rec (with_note ''pcr=12'' (with_path path (te_new ''cmdline_measured''))) m'
      | (m', False) \<Rightarrow>
          rec (with_note ''pcr=12 reason=no_tpm_or_tcg2_error''
            (with_path path (te_new ''cmdline_measurement_skipped''))) m')"

text \<open>The text \<open>Debug\<close> gives a string literal, and the three postures.\<close>

definition debug_str :: "string \<Rightarrow> string" where
  "debug_str s = [quote] @ concat (map (\<lambda>c. if c = quote \<or> c = bslash then [bslash, c] else [c]) s) @ [quote]"

fun sb_debug :: "SecureBootState \<Rightarrow> string" where
  "sb_debug SbDisabled = ''Disabled''"
| "sb_debug ActiveWithShim = ''ActiveWithShim''"
| "sb_debug ActiveDirect = ''ActiveDirect''"

definition bool_text :: "bool \<Rightarrow> string" where
  "bool_text b = (if b then ''true'' else ''false'')"

text \<open>The trust check of a posture: the token, the status and whether the bytes are accepted.\<close>

fun kernel_verdict :: "'s platform \<Rightarrow> bytes \<Rightarrow> SecureBootState \<Rightarrow> ('s, string \<times> string \<times> bool) boot" where
  "kernel_verdict pl data SbDisabled = aret (V_DEGRADED_TRUST_SB_OFF, ''SKIPPED'', True)"
| "kernel_verdict pl data ActiveDirect = aret (V_DEGRADED_TRUST_SB_DIRECT, ''DEFERRED'', True)"
| "kernel_verdict pl data ActiveWithShim = (\<lambda>m.
     case on_fw (verify_image (pl_fw pl) data ActiveWithShim) (crumb pl ''VK5 before_shim_verify'' m) of
       (m', Ok _) \<Rightarrow> (crumb pl ''VK6 after_shim_verify'' m', Ok (V_SHIM_MOK, ''SUCCESS'', True))
     | (m', Err _) \<Rightarrow> (crumb pl ''VK6 after_shim_verify'' m', Ok (V_SHIM_REJECTED, ''REJECTED'', False))
     | (m', Panic) \<Rightarrow> (m', Panic))"

text \<open>The posture at verification time: shim may have gone since the detection.\<close>

definition reprobe :: "'s platform \<Rightarrow> SecureBootState \<Rightarrow> 's machine \<Rightarrow> SecureBootState" where
  "reprobe pl sb m =
     (if sb = ActiveWithShim \<and> \<not> shim_lock_present (pl_fw pl) (mc_fw m) then ActiveDirect else sb)"

text \<open>The record of the verdict and the token for the accepted bytes.\<close>

definition record_verdict ::
  "'s platform \<Rightarrow> bytes \<Rightarrow> string \<Rightarrow> SecureBootState \<Rightarrow> string \<times> string \<times> bool \<Rightarrow> ('s, VerifiedBytes option) boot" where
  "record_verdict pl data path sb = (\<lambda>(via, status, accepted).
     abind (steps
       [crumb pl (''VK7 verified_via='' @ via @ '' status='' @ status @ '' accepted='' @ bool_text accepted),
        rec (with_status (debug_str status) (with_verified_via via
          (with_sha256 (hex_encode_32 (pl_sha pl data)) (with_path path (te_new ''image_verified''))))),
        crumb pl ''VK8 after_record_image_verified'']) (\<lambda>_.
     aret (if accepted
           then Some \<lparr>vb_bytes = data, vb_sha256 = pl_sha pl data, vb_verified_via = via, vb_sb_state = sb\<rparr>
           else None)))"

definition verify_kernel_bytes ::
  "'s platform \<Rightarrow> bytes \<Rightarrow> string \<Rightarrow> SecureBootState \<Rightarrow> ('s, VerifiedBytes option) boot" where
  "verify_kernel_bytes pl data path sb0 =
     abind (steps [crumb pl ''VK1 enter'', crumb pl ''VK2 after_sha256'', crumb pl ''VK3 after_hex_encode'']) (\<lambda>_.
     abind (alift (\<lambda>m. Ok (reprobe pl sb0 m))) (\<lambda>sb.
     abind (steps [crumb pl (''VK4 secure_boot='' @ sb_debug sb)]) (\<lambda>_.
     abind (kernel_verdict pl data sb) (record_verdict pl data path sb))))"

subsection \<open>The load path\<close>

datatype LoadPath = PathNative | PathFirmware

fun native_mode :: "LoaderNativePeMode \<Rightarrow> NativePeMode" where
  "native_mode PeAuto = ModeAuto"
| "native_mode PeAlways = ModeAlways"
| "native_mode PeNever = ModeNever"

fun posture :: "SecureBootState \<Rightarrow> SbPosture" where
  "posture SbDisabled = PostureDisabled"
| "posture ActiveWithShim = PostureShim"
| "posture ActiveDirect = PostureDirect"

definition choose_load_path :: "LoaderNativePeMode \<Rightarrow> SecureBootState \<Rightarrow> LoadPath" where
  "choose_load_path mode sb =
     (case decide_load_route (native_mode mode) (posture sb) of
        RouteNative \<Rightarrow> PathNative | RouteFirmware \<Rightarrow> PathFirmware)"

fun path_debug :: "LoadPath \<Rightarrow> string" where
  "path_debug PathNative = ''Native''"
| "path_debug PathFirmware = ''Firmware''"

definition native_load :: "'s platform \<Rightarrow> bytes \<Rightarrow> u16 list option \<Rightarrow> string \<Rightarrow> string \<Rightarrow> ('s, LoadedImage) boot" where
  "native_load pl data lo backend_tag path m =
     (case load_pe (pl_arch pl) (pl_sha pl) (pl_pe pl (mc_fw m)) data lo backend_tag of
        (calls, Ok li) \<Rightarrow> (crumb pl ''N4 after_pe_loader_load_pe_ok'' (call (NativeLoad data li) m), Ok li)
      | (calls, Err e) \<Rightarrow>
          (rec (with_note (''backend='' @ backend_tag @ '' size='' @ dec (length data) @ '' token='' @
               pe_as_log_token e @ '' debug='' @ pl_debug pl e)
             (with_verified_via ''native_pe_loader'' (with_path path (te_new ''image_load_failed''))))
             (crumb pl (''N4_err pe_loader_failed: '' @ pe_as_log_token e) m),
           Err (Failed ''LOAD_ERROR''))
      | (calls, Panic) \<Rightarrow> (m, Panic))"

definition enter_native :: "'s platform \<Rightarrow> LoadedImage \<Rightarrow> ('s, u64) boot" where
  "enter_native pl li m =
     (let m' = call (NativeStart li) m in
      case snd (start_image (pl_run pl) li) of
        None \<Rightarrow> (m', Err HandedOver)
      | Some st \<Rightarrow> (crumb pl (''N9 start_image_returned status='' @ pl_status pl st) m', Ok st))"

text \<open>The digest of the loaded image is compared with the verified one before the hand-off.\<close>

definition native_handoff ::
  "'s platform \<Rightarrow> VerifiedBytes \<Rightarrow> LoadedImage \<Rightarrow> string \<Rightarrow> string \<Rightarrow> FirmwareQuirks \<Rightarrow> ('s, u64) boot" where
  "native_handoff pl verified loaded backend_tag path quirks =
     (if li_sha256 loaded \<noteq> vb_sha256 verified then
        abind (steps
          [crumb pl ''N5_err sha256_invariant_violation'',
           rec (with_note ''reason=sds4_6.4_verify_load_sha256_mismatch''
             (with_verified_via ''native_pe_loader'' (with_path path (te_new ''image_load_failed'')))),
           quiet_flush pl quirks]) (\<lambda>_.
        afail (Failed ''SECURITY_VIOLATION''))
      else
        abind (steps
          [crumb pl ''N5 after_sha256_invariant'',
           rec (with_note (''backend='' @ backend_tag @ '' loader='' @ V_NATIVE_PE_LOADER)
             (with_status ''SUCCESS'' (with_verified_via (vb_verified_via verified)
               (with_sha256 (sha256_hex loaded) (with_path path (te_new ''image_loaded_native'')))))),
           crumb pl ''N6 after_record_image_loaded_native'',
           quiet_flush pl quirks,
           crumb pl ''N7 after_or_skipped_trust_log_flush'',
           crumb pl ''N8 after_reconnect_console_drivers'',
           crumb_flush pl]) (\<lambda>_.
        enter_native pl loaded))"

definition native_load_and_start ::
  "'s platform \<Rightarrow> VerifiedBytes \<Rightarrow> string \<Rightarrow> string \<Rightarrow> string \<Rightarrow> FirmwareQuirks \<Rightarrow> ('s, u64) boot" where
  "native_load_and_start pl verified options backend_tag path quirks =
     abind (steps [crumb pl ''N1 enter'']) (\<lambda>_.
     abind (alift (\<lambda>_. if options = [] then Ok None
       else case pl_cstr16 pl options of
         Some wide \<Rightarrow> Ok (Some wide) | None \<Rightarrow> Err (Failed ''INVALID_PARAMETER''))) (\<lambda>lo.
     abind (steps [crumb pl ''N2 after_options_encode'', crumb pl ''N3 before_pe_loader_load_pe'']) (\<lambda>_.
     abind (native_load pl (vb_bytes verified) lo backend_tag path) (\<lambda>loaded.
     native_handoff pl verified loaded backend_tag path quirks))))"

definition set_load_options :: "'s platform \<Rightarrow> nat \<Rightarrow> string \<Rightarrow> ('s, unit) boot" where
  "set_load_options pl h options =
     abind (alift (\<lambda>_. of_option (Failed ''INVALID_PARAMETER'') (pl_cstr16 pl options))) (\<lambda>_.
     on_fw (alift (pl_open_loaded_image pl h)))"

definition enter_firmware :: "'s platform \<Rightarrow> nat \<Rightarrow> ('s, u64) boot" where
  "enter_firmware pl h m =
     (let m' = call (FirmwareStart h) m in
      case pl_start pl h (mc_fw m') of
        None \<Rightarrow> (m', Err HandedOver)
      | Some (Ok _) \<Rightarrow> (m', Ok 0)
      | Some (Err e) \<Rightarrow> (m', Err (Failed e))
      | Some Panic \<Rightarrow> (m', Panic))"

definition firmware_load_and_start ::
  "'s platform \<Rightarrow> bytes \<Rightarrow> string \<Rightarrow> LoaderNativePeMode \<Rightarrow> string \<Rightarrow> ('s, u64) boot" where
  "firmware_load_and_start pl data options mode path =
     abind (steps
       [rec (with_note (''size='' @ dec (length data) @ '' policy='' @ native_pe_token mode)
          (with_verified_via V_FIRMWARE_LOADIMAGE (with_path path (te_new ''legacy_loadimage_used''))))]) (\<lambda>_.
     abind (on_fw (load_efi_image_from_buffer (pl_fw pl) data)) (\<lambda>h.
     abind (if options \<noteq> [] then set_load_options pl h options else aret ()) (\<lambda>_.
     abind (steps
       [rec (with_status ''SUCCESS'' (with_verified_via V_FIRMWARE_LOADIMAGE
          (with_path path (te_new ''image_loaded_firmware'')))),
        log_flush pl,
        crumb_flush pl]) (\<lambda>_.
     enter_firmware pl h))))"

text \<open>The native path with the fallback of a Linux kernel: any error but a hand-over leads to the
  firmware path, after the given record.\<close>

definition native_with_fallback ::
  "('s, u64) boot \<Rightarrow> ('s machine \<Rightarrow> 's machine) \<Rightarrow> ('s, u64) boot \<Rightarrow> ('s, u64) boot" where
  "native_with_fallback native note fallback m =
     (case native m of
        (m', Err (Failed e)) \<Rightarrow> fallback (note m')
      | r \<Rightarrow> r)"

subsection \<open>EFI programs and unified kernel images\<close>

definition chainload_measure :: "'s platform \<Rightarrow> bytes \<Rightarrow> string \<Rightarrow> 's machine \<Rightarrow> 's machine" where
  "chainload_measure pl data path m =
     (case measure_kernel pl data m of
        (m', True) \<Rightarrow> rec (with_note ''pcr=4'' (with_path path (te_new ''chainload_measured''))) m'
      | (m', False) \<Rightarrow>
          rec (with_note ''pcr=4 reason=no_tpm_or_tcg2_error''
            (with_path path (te_new ''chainload_measurement_skipped''))) m')"

definition chainload_efi :: "'s platform \<Rightarrow> string \<Rightarrow> FirmwareQuirks \<Rightarrow> ('s, u64) boot" where
  "chainload_efi pl path quirks =
     abind (on_volume 0 (read_str path)) (\<lambda>data.
     abind (steps [chainload_measure pl data path]) (\<lambda>_.
     abind (on_fw (load_efi_image_from_buffer (pl_fw pl) data)) (\<lambda>h.
     abind (steps
       [rec (with_status ''SUCCESS'' (with_verified_via V_FIRMWARE_LOADIMAGE
          (with_sha256 (hex_encode_32 (pl_sha pl data)) (with_path path (te_new ''image_chainloaded''))))),
        quiet_flush pl quirks,
        crumb_flush pl]) (\<lambda>_.
     enter_firmware pl h))))"

definition boot_uki ::
  "'s platform \<Rightarrow> string \<Rightarrow> string \<Rightarrow> Policy \<Rightarrow> FirmwareQuirks \<Rightarrow> SecureBootState \<Rightarrow> ('s, u64) boot" where
  "boot_uki pl path options policy quirks sb =
     abind (alift (\<lambda>m. Ok (vol_backend_tag (esp_of m)))) (\<lambda>backend_tag.
     abind (on_volume 0 (read_str path)) (\<lambda>data.
     abind (steps ([measure_kernel_logged pl data path] @
       (if options \<noteq> [] then [measure_cmdline_logged pl options path] else []))) (\<lambda>_.
     abind (verify_kernel_bytes pl data path sb) (\<lambda>verified.
     case verified of
       None \<Rightarrow> afail (Failed ''SECURITY_VIOLATION'')
     | Some v \<Rightarrow>
         (case choose_load_path (po_loader_native_pe policy) (vb_sb_state v) of
            PathNative \<Rightarrow> native_load_and_start pl v options backend_tag path quirks
          | PathFirmware \<Rightarrow>
              firmware_load_and_start pl data options (po_loader_native_pe policy) path)))))"

subsection \<open>Linux kernels\<close>

definition phase :: "string \<Rightarrow> string \<Rightarrow> TrustEvent" where
  "phase path note_text = with_note note_text (with_path path (te_new ''kernel_load_phase''))"

text \<open>The kernel on a volume that has it; the breadcrumbs name the ESP or the extra volume.\<close>

definition read_kernel_at :: "'s platform \<Rightarrow> nat \<Rightarrow> string \<Rightarrow> ('s, bytes \<times> string) boot" where
  "read_kernel_at pl i resolved =
     abind (alift (\<lambda>m. Ok (vol_backend_tag (mc_volumes m ! i)))) (\<lambda>tag.
     abind (steps
       [rec (phase resolved (''phase=read_bytes_start volume_index='' @ dec i @ '' backend='' @ tag)),
        crumb pl (if i = 0 then ''BL6_esp before_esp_read'' else ''BL6 before_extras_read'')]) (\<lambda>_.
     abind (on_volume i (read_str resolved)) (\<lambda>bytes.
     abind (steps
       [crumb pl ((if i = 0 then ''BL7_esp after_esp_read size='' else ''BL7 after_extras_read size='') @
          dec (length bytes)),
        rec (phase resolved (''phase=read_bytes_done size='' @ dec (length bytes)))]) (\<lambda>_.
     aret (bytes, tag)))))"

definition read_kernel :: "'s platform \<Rightarrow> string \<Rightarrow> FirmwareQuirks \<Rightarrow> ('s, bytes \<times> string) boot" where
  "read_kernel pl path quirks =
     abind (alift (\<lambda>m. Ok (exists_with_boot_fallback path (esp_of m)))) (\<lambda>on_esp.
     case on_esp of
       Some resolved \<Rightarrow>
         abind (steps [crumb pl (''BL5_esp kernel_found_on_esp: '' @ resolved)]) (\<lambda>_.
         read_kernel_at pl 0 resolved)
     | None \<Rightarrow>
         abind (steps [crumb pl ''BL5_extras not_on_esp_scanning_extras'']) (\<lambda>_.
         abind (alift (\<lambda>m. Ok (find_file path 1 (tl (mc_volumes m))))) (\<lambda>found.
         abind (steps [crumb pl ''BL5b after_extras_scan'']) (\<lambda>_.
         case found of
           None \<Rightarrow>
             abind (steps [crumb pl ''BL5_err kernel_not_found'', rec (phase path ''phase=resolve_failed''),
               quiet_flush pl quirks]) (\<lambda>_.
             afail (Failed ''NOT_FOUND''))
         | Some (i, resolved) \<Rightarrow>
             abind (steps [crumb pl (''BL5c resolved extras['' @ dec (i - 1) @ '']: '' @ resolved)]) (\<lambda>_.
             read_kernel_at pl i resolved)))))"

text \<open>The initrds, concatenated in order; one that no volume has is skipped, one that cannot be read
  ends the boot.\<close>

definition read_initrd :: "'s platform \<Rightarrow> string \<Rightarrow> ('s, bytes option) boot" where
  "read_initrd pl path =
     abind (alift (\<lambda>m. Ok (exists_with_boot_fallback path (esp_of m)))) (\<lambda>on_esp.
     case on_esp of
       Some resolved \<Rightarrow>
         abind (steps [crumb pl ''BL14_initrd_on_esp'']) (\<lambda>_.
         abind (on_volume 0 (read_str resolved)) (\<lambda>d. aret (Some d)))
     | None \<Rightarrow>
         abind (steps [crumb pl ''BL14_initrd_scan_extras'']) (\<lambda>_.
         abind (alift (\<lambda>m. Ok (find_file path 1 (tl (mc_volumes m))))) (\<lambda>found.
         case found of
           Some (i, resolved) \<Rightarrow>
             abind (steps [crumb pl (''BL14_initrd_extras['' @ dec (i - 1) @ '']: '' @ resolved @ '' before_read'')]) (\<lambda>_.
             abind (on_volume i (read_str resolved)) (\<lambda>d.
             abind (steps [crumb pl (''BL14_initrd_after_read size='' @ dec (length d))]) (\<lambda>_.
             aret (Some d))))
         | None \<Rightarrow>
             abind (steps [crumb pl (''BL14_initrd_NOT_FOUND: '' @ path)]) (\<lambda>_. aret None))))"

fun read_initrds :: "'s platform \<Rightarrow> nat \<Rightarrow> bytes \<Rightarrow> string list \<Rightarrow> ('s, bytes) boot" where
  "read_initrds pl idx combined [] = aret combined"
| "read_initrds pl idx combined (path # paths) =
     abind (steps [crumb pl (''BL14_initrd['' @ dec idx @ ''] start: '' @ path)]) (\<lambda>_.
     abind (read_initrd pl path) (\<lambda>data.
     case data of
       None \<Rightarrow> read_initrds pl (idx + 1) combined paths
     | Some d \<Rightarrow>
         abind (steps [crumb pl (''BL14_initrd['' @ dec idx @ ''] '' @ dec (length d) @ '' bytes'')]) (\<lambda>_.
         read_initrds pl (idx + 1) (combined @ d) paths)))"

text \<open>\<open>InitrdHandle::register(\<dots>).ok()\<close>: whether there is a handle.\<close>

definition try_register :: "'s platform \<Rightarrow> bytes \<Rightarrow> ('s, bool) boot" where
  "try_register pl data m =
     (case initrd_register pl data m of
        (m', Ok _) \<Rightarrow> (m', Ok True)
      | (m', Err _) \<Rightarrow> (m', Ok False)
      | (m', Panic) \<Rightarrow> (m', Panic))"

text \<open>The handle is dropped when the function returns, which takes the protocols back.\<close>

definition with_initrd :: "bool \<Rightarrow> ('s, u64) boot \<Rightarrow> ('s, u64) boot" where
  "with_initrd handle rest m =
     (case rest m of
        (m', Err HandedOver) \<Rightarrow> (m', Err HandedOver)
      | (m', r) \<Rightarrow> (if handle then call UninstallInitrd m' else m', r))"

definition linux_initrd :: "'s platform \<Rightarrow> string list \<Rightarrow> ('s, bool) boot" where
  "linux_initrd pl initrds =
     (if initrds = [] then abind (steps [crumb pl ''BL14 no_initrds'']) (\<lambda>_. aret False)
      else
        abind (steps [crumb pl (''BL14 initrds_count='' @ dec (length initrds))]) (\<lambda>_.
        abind (read_initrds pl 0 [] initrds) (\<lambda>combined.
        abind (steps [crumb pl (''BL15 total_initrd='' @ dec (length combined) @ '' bytes before_register'')]) (\<lambda>_.
        abind (try_register pl combined) (\<lambda>ok.
        abind (steps [crumb pl (''BL16 after_initrd_register ok='' @ bool_text ok)]) (\<lambda>_.
        aret ok))))))"

definition linux_load ::
  "'s platform \<Rightarrow> VerifiedBytes \<Rightarrow> bytes \<Rightarrow> string \<Rightarrow> string \<Rightarrow> string \<Rightarrow> Policy \<Rightarrow> FirmwareQuirks \<Rightarrow> ('s, u64) boot" where
  "linux_load pl v bytes options backend_tag path policy quirks =
     (let mode = po_loader_native_pe policy; load_path = choose_load_path mode (vb_sb_state v) in
      abind (steps [crumb pl ''BL17 before_choose_load_path'',
        crumb pl (''BL18 load_path='' @ path_debug load_path)]) (\<lambda>_.
      case load_path of
        PathNative \<Rightarrow>
          abind (steps [crumb pl ''BL19 calling_native_load_and_start'']) (\<lambda>_.
          native_with_fallback (native_load_and_start pl v options backend_tag path quirks)
            (\<lambda>m. rec (with_note ''reason=native_pe_load_error route=firmware''
                   (with_path path (te_new ''kernel_native_load_fallback'')))
                 (crumb pl ''BL19b native_failed_fallback_firmware'' m))
            (firmware_load_and_start pl bytes options mode path))
      | PathFirmware \<Rightarrow>
          abind (steps [crumb pl ''BL19 calling_firmware_load_and_start'']) (\<lambda>_.
          firmware_load_and_start pl bytes options mode path)))"

definition boot_linux ::
  "'s platform \<Rightarrow> string \<Rightarrow> string list \<Rightarrow> string \<Rightarrow> Policy \<Rightarrow> FirmwareQuirks \<Rightarrow> SecureBootState \<Rightarrow> ('s, u64) boot" where
  "boot_linux pl path initrds options policy quirks sb =
     abind (steps
       [crumb pl (''boot_linux: kernel='' @ path @ '' initrds='' @ dec (length initrds) @ '' options='' @ options),
        rec (phase path ''phase=resolve_volume''),
        crumb pl ''BOOTLINUX3 after_first_record'',
        quiet_flush pl quirks,
        crumb pl ''BOOTLINUX4 after_first_flush'',
        crumb pl ''BL5 check_esp_for_kernel'']) (\<lambda>_.
     abind (read_kernel pl path quirks) (\<lambda>(bytes, backend_tag).
     abind (steps
       ([crumb pl ''BL8 bytes_acquired'',
         rec (phase path (''phase=bytes_acquired total_size='' @ dec (length bytes) @ '' backend='' @ backend_tag)),
         quiet_flush pl quirks,
         crumb pl ''BL9 before_tpm_measure_kernel'',
         measure_kernel_logged pl bytes path,
         crumb pl ''BL10 after_tpm_measure_kernel''] @
        (if options \<noteq> [] then [measure_cmdline_logged pl options path,
           crumb pl ''BL11 after_tpm_measure_cmdline''] else []) @
        [crumb pl ''BL12 before_verify_kernel_bytes''])) (\<lambda>_.
     abind (verify_kernel_bytes pl bytes path sb) (\<lambda>verified.
     case verified of
       None \<Rightarrow> abind (steps [crumb pl ''BL13_err verify_failed'']) (\<lambda>_. afail (Failed ''SECURITY_VIOLATION''))
     | Some v \<Rightarrow>
         abind (steps [crumb pl ''BL13 after_verify_kernel_bytes'']) (\<lambda>_.
         abind (linux_initrd pl initrds) (\<lambda>handle.
         with_initrd handle (linux_load pl v bytes options backend_tag path policy quirks)))))))"

subsection \<open>What a trace says about the images it starts\<close>

fun is_start :: "'li boot_call \<Rightarrow> bool" where
  "is_start (FirmwareStart h) = True"
| "is_start (NativeStart li) = True"
| "is_start _ = False"

text \<open>The bytes a start runs: those of the latest load of its handle or image, searched backwards.\<close>

fun image_back :: "'li boot_call \<Rightarrow> 'li boot_call list \<Rightarrow> bytes option" where
  "image_back c [] = None"
| "image_back c (FirmwareLoad b h # tr) = (if c = FirmwareStart h then Some b else image_back c tr)"
| "image_back c (NativeLoad b li # tr) = (if c = NativeStart li then Some b else image_back c tr)"
| "image_back c (d # tr) = image_back c tr"

definition image_of :: "'li boot_call list \<Rightarrow> 'li boot_call \<Rightarrow> bytes option" where
  "image_of tr c = image_back c (rev tr)"

definition measured :: "'li boot_call list \<Rightarrow> bytes \<Rightarrow> bool" where
  "measured tr b \<longleftrightarrow> Extend PCR_BOOT_CODE b True \<in> set tr"

definition good :: "bool \<Rightarrow> bool \<Rightarrow> 'li boot_call list \<Rightarrow> bytes \<Rightarrow> bool" where
  "good c m tr b \<longleftrightarrow> (c \<longrightarrow> checked tr b) \<and> (m \<longrightarrow> measured tr b)"

text \<open>Every start after \<open>tr0\<close> is of bytes that have been checked and measured since \<open>tr0\<close>.\<close>

definition starts_ok :: "bool \<Rightarrow> bool \<Rightarrow> 'li boot_call list \<Rightarrow> 'li boot_call list \<Rightarrow> bool" where
  "starts_ok c m tr0 ext \<longleftrightarrow>
     (\<forall>i < length ext. is_start (ext ! i) \<longrightarrow>
        (\<exists>b. image_of (tr0 @ take i ext) (ext ! i) = Some b \<and> good c m (take i ext) b))"

text \<open>The state between two calls: no hook is left behind, the starts so far were good, and \<open>b\<close> has been
  checked (if \<open>c\<close>) and measured (if \<open>m\<close>).\<close>

definition st :: "bool \<Rightarrow> bool \<Rightarrow> LoadedImage boot_call list \<Rightarrow> bool \<Rightarrow> bool \<Rightarrow> bytes \<Rightarrow> fw_st \<Rightarrow> bool" where
  "st sec tpm tr0 c m b f \<longleftrightarrow>
     idle (fs_override f) \<and> (\<exists>ext. fs_trace f = tr0 @ ext \<and> starts_ok sec tpm tr0 ext \<and> good c m ext b)"

lemma good_mono: "good c m tr b \<Longrightarrow> good c m (tr @ ext) b"
  by (auto simp: good_def checked_def measured_def)

lemma good_weaken: "good c m tr b \<Longrightarrow> (c' \<longrightarrow> c) \<Longrightarrow> (m' \<longrightarrow> m) \<Longrightarrow> good c' m' tr b"
  by (auto simp: good_def)

lemma starts_ok_append:
  "starts_ok c m tr0 ext \<Longrightarrow> list_all (\<lambda>d. \<not> is_start d) ys \<Longrightarrow> starts_ok c m tr0 (ext @ ys)"
  by (auto simp: starts_ok_def nth_append list_all_length)

lemma starts_ok_start:
  "starts_ok c m tr0 ext \<Longrightarrow> image_of (tr0 @ ext) ev = Some b \<Longrightarrow> good c m ext b \<Longrightarrow>
   starts_ok c m tr0 (ext @ [ev])"
  by (auto simp: starts_ok_def nth_append less_Suc_eq)

lemma checks_not_starts: "list_all is_check ys \<Longrightarrow> list_all (\<lambda>d. \<not> is_start d) ys"
  by (induction ys) (auto elim: is_check.elims)

subsection \<open>The state between calls\<close>

lemma stI:
  "idle (fs_override f) \<Longrightarrow> fs_trace f = tr0 @ ext \<Longrightarrow> starts_ok sec tpm tr0 ext \<Longrightarrow> good c m ext b \<Longrightarrow>
   st sec tpm tr0 c m b f"
  by (auto simp: st_def)

lemma stE:
  assumes "st sec tpm tr0 c m b f"
  obtains ext where "idle (fs_override f)" "fs_trace f = tr0 @ ext" "starts_ok sec tpm tr0 ext" "good c m ext b"
  using assms by (auto simp: st_def)

lemma st_extend:
  assumes "st sec tpm tr0 c m b f" "fs_trace f' = fs_trace f @ ys" "idle (fs_override f')"
    "list_all (\<lambda>d. \<not> is_start d) ys"
  shows "st sec tpm tr0 c m b f'"
  using assms(1)
proof (rule stE)
  fix ext assume e: "fs_trace f = tr0 @ ext" "starts_ok sec tpm tr0 ext" "good c m ext b"
  show ?thesis
    by (rule stI [OF assms(3) _ starts_ok_append [OF e(2) assms(4)] good_mono [OF e(3)]])
      (simp add: assms(2) e(1))
qed

lemma st_idle: "st sec tpm tr0 c m b f \<Longrightarrow> idle (fs_override f)"
  by (simp add: st_def)

lemma st_emit: "\<not> is_start ev \<Longrightarrow> st sec tpm tr0 c m b f \<Longrightarrow> st sec tpm tr0 c m b (emit ev f)"
  by (rule st_extend [of _ _ _ _ _ _ f _ "[ev]"]) (simp_all add: emit_def st_idle)

lemma st_weaken: "st sec tpm tr0 c m b f \<Longrightarrow> (c' \<longrightarrow> c) \<Longrightarrow> (m' \<longrightarrow> m) \<Longrightarrow> st sec tpm tr0 c' m' b f"
  by (erule stE) (rule stI, assumption+, rule good_weaken)

lemma st_forget: "st sec tpm tr0 c m b f \<Longrightarrow> st sec tpm tr0 False False b' f"
  by (erule stE) (rule stI, assumption+, simp add: good_def)

lemma st_start:
  assumes "st sec tpm tr0 sec tpm b f" "image_of (fs_trace f) ev = Some b"
  shows "st sec tpm tr0 sec tpm b (emit ev f)"
  using assms(1)
proof (rule stE)
  fix ext assume e: "idle (fs_override f)" "fs_trace f = tr0 @ ext" "starts_ok sec tpm tr0 ext" "good sec tpm ext b"
  have "starts_ok sec tpm tr0 (ext @ [ev])" using assms(2) e by (intro starts_ok_start) simp_all
  then show ?thesis using e good_mono [OF e(4)] by (intro stI [where ext = "ext @ [ev]"]) (simp_all add: emit_def)
qed

lemma st_checks: "st sec tpm tr0 c m b f \<Longrightarrow> checks_only f f' \<Longrightarrow> st sec tpm tr0 c m b f'"
proof -
  assume s: "st sec tpm tr0 c m b f" and "checks_only f f'"
  then obtain ys where y: "fs_trace f' = fs_trace f @ ys" "list_all is_check ys"
    "hooks_of (fs_override f') = hooks_of (fs_override f)" by (auto simp: checks_only_def)
  then have "idle (fs_override f')" using st_idle [OF s] by (simp add: idle_def)
  then show ?thesis using st_extend [OF s y(1) _ checks_not_starts [OF y(2)]] by blast
qed

lemma st_checked:
  assumes "st sec tpm tr0 c m b f" "checks_only f f'" "checked_since f f' b"
  shows "st sec tpm tr0 True m b f'"
proof -
  obtain ext where e: "fs_trace f = tr0 @ ext" "starts_ok sec tpm tr0 ext" "good c m ext b"
    and i: "idle (fs_override f)" using assms(1) by (auto simp: st_def)
  obtain ys where y: "fs_trace f' = fs_trace f @ ys" "list_all is_check ys"
    using assms(2) by (auto simp: checks_only_def)
  have "checked ys b" using assms(3) y(1) by (auto simp: checked_since_def)
  then have "good True m (ext @ ys) b"
    using good_mono [OF e(3), of ys] by (auto simp: good_def checked_def)
  then show ?thesis
    using e y i assms(2) starts_ok_append [OF e(2) checks_not_starts [OF y(2)]]
    by (auto simp: st_def idle_def checks_only_def)
qed

subsection \<open>Triples over the firmware state\<close>

text \<open>\<open>fwt R m Q E\<close>: a triple whose assertions look at the firmware state only.\<close>

definition fwt :: "(fw_st \<Rightarrow> bool) \<Rightarrow> ('s, 'a) boot \<Rightarrow> ('a \<Rightarrow> fw_st \<Rightarrow> bool) \<Rightarrow> (fw_st \<Rightarrow> bool) \<Rightarrow> bool" where
  "fwt R a Q E \<longleftrightarrow> ahoare (\<lambda>m. R (mc_fw m)) a (\<lambda>x m. Q x (mc_fw m)) (\<lambda>m. E (mc_fw m))"

lemma fwt_abind:
  "fwt R a T E \<Longrightarrow> (\<And>x. fwt (T x) (k x) Q E) \<Longrightarrow> fwt R (abind a k) Q E"
  unfolding fwt_def by (rule ahoare_abind)

lemma fwt_steps:
  "(\<And>m. R (mc_fw m) \<Longrightarrow> Q () (mc_fw (fold (\<lambda>f t. f t) fs m))) \<Longrightarrow> fwt R (steps fs) Q E"
  unfolding fwt_def by (rule ahoare_steps)

lemma fwt_steps_keep: "(\<And>m. mc_fw (fold (\<lambda>f t. f t) fs m) = mc_fw m) \<Longrightarrow> fwt R (steps fs) (\<lambda>_. R) E"
  by (rule fwt_steps) simp

lemma fwt_pure:
  "(\<And>f. R f \<Longrightarrow> Q x f) \<Longrightarrow> fwt R (aret x) Q E" "(\<And>f. R f \<Longrightarrow> E f) \<Longrightarrow> fwt R (afail e) Q E"
  unfolding fwt_def by (simp_all add: ahoare_pure)

lemma fwt_alift: "(\<And>f x. R f \<Longrightarrow> Q x f) \<Longrightarrow> (\<And>f. R f \<Longrightarrow> E f) \<Longrightarrow> fwt R (alift g) Q E"
  unfolding fwt_def by (rule ahoare_alift) simp_all

lemma fwt_alift_keep: "(\<And>f. R f \<Longrightarrow> E f) \<Longrightarrow> fwt R (alift g) (\<lambda>_. R) E"
  by (rule fwt_alift)

text \<open>An action that leaves the firmware alone keeps every assertion.\<close>

lemma fwt_frame:
  assumes "\<And>m. mc_fw (fst (a m)) = mc_fw m" "\<And>f. R f \<Longrightarrow> E f"
  shows "fwt R a (\<lambda>_. R) E"
  unfolding fwt_def using assms
  by (intro ahoareI) (metis fst_conv)+

lemma fwt_on_volume: "(\<And>f. R f \<Longrightarrow> E f) \<Longrightarrow> fwt R (on_volume i op) (\<lambda>_. R) E"
  by (rule fwt_frame) (simp_all add: machine_simps)

lemma fwt_pre: "fwt R' a Q E \<Longrightarrow> (\<And>f. R f \<Longrightarrow> R' f) \<Longrightarrow> fwt R a Q E"
  unfolding fwt_def by (erule ahoare_pre)

lemma fwt_post:
  "fwt R a Q' E' \<Longrightarrow> (\<And>x f. Q' x f \<Longrightarrow> Q x f) \<Longrightarrow> (\<And>f. E' f \<Longrightarrow> E f) \<Longrightarrow> fwt R a Q E"
  unfolding fwt_def by (erule ahoare_post)

lemma fwt_on_fw: "ahoare R a Q E \<Longrightarrow> fwt R (on_fw a) Q E"
  unfolding fwt_def
  by (intro ahoareI)
    (auto simp: on_fw_def outcome_simps split: prod.splits dest: ahoare_Ok intro: ahoare_exit)

lemma fwt_cases_option:
  "(x = None \<Longrightarrow> fwt R a Q E) \<Longrightarrow> (\<And>y. x = Some y \<Longrightarrow> fwt R (k y) Q E) \<Longrightarrow>
   fwt R (case x of None \<Rightarrow> a | Some y \<Rightarrow> k y) Q E"
  by (cases x) auto

subsection \<open>Measurement and verification\<close>

text \<open>The TPM is there and extends what it is given.\<close>

definition tpm_works :: "'s platform \<Rightarrow> bool" where
  "tpm_works pl \<longleftrightarrow>
     (\<forall>f pcr d data. pl_tcg_handle pl f \<and> pl_tcg_open pl f \<and> pl_pcr_event pl pcr d \<and> pl_extend pl pcr data f)"

lemma measure_kernel_measures:
  assumes "tpm \<longrightarrow> tpm_works pl" "st sec tpm' tr0 c m0 b (mc_fw m)"
  shows "st sec tpm' tr0 False tpm data (mc_fw (fst (measure_kernel pl data m)))"
proof (cases tpm)
  case True
  then have fw: "mc_fw (fst (measure_kernel pl data m)) =
      emit (Extend PCR_BOOT_CODE data True) (mc_fw m)"
    using assms(1) by (simp add: measure_kernel_def measure_pcr_def tpm_works_def Let_def machine_simps)
  show ?thesis using assms(2) unfolding fw
  proof (rule stE)
    fix ext
    let ?e = "Extend PCR_BOOT_CODE data True"
    assume e: "idle (fs_override (mc_fw m))" "fs_trace (mc_fw m) = tr0 @ ext" "starts_ok sec tpm' tr0 ext"
    have "good False tpm (ext @ [?e]) data" by (simp add: good_def measured_def)
    moreover have "starts_ok sec tpm' tr0 (ext @ [?e])" using e(3) by (intro starts_ok_append) simp_all
    ultimately show "st sec tpm' tr0 False tpm data (emit ?e (mc_fw m))"
      using e(1,2) by (intro stI) (simp_all add: emit_def)
  qed
next
  case False
  have "st sec tpm' tr0 c m0 b (mc_fw (fst (measure_kernel pl data m)))"
    using measure_pcr_fw [of pl PCR_BOOT_CODE data "''LamBoot: Kernel Image''" m] st_emit assms(2)
    unfolding measure_kernel_def by (auto simp: st_emit)
  then show ?thesis using st_forget False by simp
qed

lemma measure_kernel_logged_st:
  assumes "tpm \<longrightarrow> tpm_works pl" "st sec tpm tr0 c k b (mc_fw m)"
  shows "st sec tpm tr0 False tpm data (mc_fw (measure_kernel_logged pl data path m))"
  using measure_kernel_measures [OF assms, of data]
  by (cases "measure_kernel pl data m"; cases "snd (measure_kernel pl data m)")
    (simp_all add: measure_kernel_logged_def machine_simps)

lemma measure_cmdline_logged_st:
  assumes "st sec tpm tr0 c k b (mc_fw m)"
  shows "st sec tpm tr0 c k b (mc_fw (measure_cmdline_logged pl options path m))"
proof -
  have "st sec tpm tr0 c k b (mc_fw (fst (measure_cmdline pl options m)))"
    using measure_pcr_fw [of pl PCR_KERNEL_CMDLINE "concat (map to_le (encode_utf16 options))"
        "''LamBoot: Kernel Command Line''" m] assms
    unfolding measure_cmdline_def by (auto simp: st_emit)
  then show ?thesis
    by (cases "measure_cmdline pl options m"; cases "snd (measure_cmdline pl options m)")
      (simp_all add: measure_cmdline_logged_def machine_simps)
qed

text \<open>What verification establishes: a token for these bytes, and their check by shim when the posture it
  carries says so.  A posture that is not disabled never becomes disabled.\<close>

definition token_ok :: "bool \<Rightarrow> bool \<Rightarrow> LoadedImage boot_call list \<Rightarrow> bytes \<Rightarrow> SecureBootState \<Rightarrow> VerifiedBytes option \<Rightarrow> fw_st \<Rightarrow> bool" where
  "token_ok sec tpm tr0 data sb v f \<longleftrightarrow>
     st sec tpm tr0 (case v of Some w \<Rightarrow> vb_sb_state w = ActiveWithShim | None \<Rightarrow> False) tpm data f \<and>
     (\<forall>w. v = Some w \<longrightarrow> vb_bytes w = data \<and> (sb \<noteq> SbDisabled \<longrightarrow> vb_sb_state w \<noteq> SbDisabled))"

lemma verify_image_checks: "verify_image fw data sb f = (f', r) \<Longrightarrow> checks_only f f'"
  by (cases sb)
    (auto simp: aret_def abind_def alift_def split: outcome.splits dest: shim_verify_checks)

lemma verify_image_shim_success:
  "verify_image fw data ActiveWithShim f = (f', Ok ()) \<Longrightarrow> checked_since f f' data"
  by (auto simp: act_simps intro: shim_verify_success)

lemma kernel_verdict_st:
  assumes "st sec tpm tr0 False tpm data (mc_fw m)" "kernel_verdict pl data sb m = (m', Ok (via, status, ok))"
  shows "st sec tpm tr0 (ok \<and> sb = ActiveWithShim) tpm data (mc_fw m')"
proof (cases "sb = ActiveWithShim")
  case True
  let ?m = "crumb pl ''VK5 before_shim_verify'' m"
  obtain f r where v: "verify_image (pl_fw pl) data ActiveWithShim (mc_fw ?m) = (f, r)" by fastforce
  then have c: "checks_only (mc_fw m) f" using verify_image_checks by (metis crumb_fw(1))
  show ?thesis
  proof (cases r)
    case (Ok x)
    then have "checked_since (mc_fw m) f data"
      using v verify_image_shim_success [of "pl_fw pl" data "mc_fw m" f] by (simp add: machine_simps)
    then have "st sec tpm tr0 True tpm data f" by (rule st_checked [OF assms(1) c])
    then show ?thesis
      using assms(2) v Ok True by (auto simp: on_fw_def machine_simps)
  next
    case (Err e)
    then show ?thesis
      using assms v True st_checks [OF assms(1) c] by (auto simp: on_fw_def machine_simps)
  next
    case Panic
    then show ?thesis using assms(2) v True by (auto simp: on_fw_def machine_simps)
  qed
next
  case False
  then show ?thesis using assms by (cases sb) (auto simp: aret_def)
qed

lemma kernel_verdict_exit:
  assumes "st sec tpm tr0 False tpm data (mc_fw m)" "kernel_verdict pl data sb m = (m', r)"
  shows "st sec tpm tr0 False False b (mc_fw m')"
proof (cases "sb = ActiveWithShim")
  case True
  let ?m = "crumb pl ''VK5 before_shim_verify'' m"
  obtain f q where v: "verify_image (pl_fw pl) data ActiveWithShim (mc_fw ?m) = (f, q)" by fastforce
  then have "checks_only (mc_fw m) f" using verify_image_checks by (metis crumb_fw(1))
  then have "st sec tpm tr0 False False b f" using st_checks [OF assms(1)] st_forget by blast
  then show ?thesis using assms(2) v True by (cases q) (auto simp: on_fw_def machine_simps)
next
  case False
  then show ?thesis using assms by (cases sb) (auto simp: aret_def intro: st_forget)
qed

lemma verify_kernel_bytes_triple:
  "fwt (st sec tpm tr0 False tpm data) (verify_kernel_bytes pl data path sb)
     (token_ok sec tpm tr0 data sb) (st sec tpm tr0 False False [])"
  unfolding verify_kernel_bytes_def
proof (intro fwt_abind)
  fix sb'
  let ?sb = "\<lambda>f. st sec tpm tr0 False tpm data f \<and> (sb \<noteq> SbDisabled \<longrightarrow> sb' \<noteq> SbDisabled)"
  show "fwt (st sec tpm tr0 False tpm data)
     (alift (\<lambda>m. Ok (reprobe pl sb m)))
     (\<lambda>sb' f. st sec tpm tr0 False tpm data f \<and> (sb \<noteq> SbDisabled \<longrightarrow> sb' \<noteq> SbDisabled))
     (st sec tpm tr0 False False [])"
    unfolding fwt_def by (rule ahoare_alift) (auto simp: reprobe_def split: if_splits intro: st_forget)
  show "fwt ?sb (steps [crumb pl (''VK4 secure_boot='' @ sb_debug sb')]) (\<lambda>_. ?sb) (st sec tpm tr0 False False [])"
    by (rule fwt_steps) (simp add: machine_simps)
  show "fwt ?sb (kernel_verdict pl data sb')
     (\<lambda>(via, status, ok) f. st sec tpm tr0 (ok \<and> sb' = ActiveWithShim) tpm data f \<and> (sb \<noteq> SbDisabled \<longrightarrow> sb' \<noteq> SbDisabled))
     (st sec tpm tr0 False False [])"
    unfolding fwt_def
    by (rule ahoareI) (auto split: prod.split intro: kernel_verdict_st kernel_verdict_exit)
  fix x :: "string \<times> string \<times> bool"
  obtain via status ok where x: "x = (via, status, ok)" by (cases x) auto
  show "fwt ((\<lambda>(via, status, ok) f. st sec tpm tr0 (ok \<and> sb' = ActiveWithShim) tpm data f \<and>
         (sb \<noteq> SbDisabled \<longrightarrow> sb' \<noteq> SbDisabled)) x)
     (record_verdict pl data path sb' x) (token_ok sec tpm tr0 data sb) (st sec tpm tr0 False False [])"
    unfolding x record_verdict_def prod.case
    by (rule fwt_abind [OF fwt_steps_keep], simp add: machine_simps, rule fwt_pure)
      (auto simp: token_ok_def intro: st_weaken)
qed (rule fwt_steps_keep, simp add: machine_simps)

subsection \<open>The two load paths\<close>

lemma image_of_last [simp]:
  "image_of (tr @ [NativeLoad b li]) (NativeStart li) = Some b"
  "image_of (tr @ [FirmwareLoad b h]) (FirmwareStart h) = Some b"
  by (simp_all add: image_of_def)

text \<open>The bytes are loaded as the image or handle \<open>ev\<close> starts.\<close>

definition loaded :: "bool \<Rightarrow> bool \<Rightarrow> LoadedImage boot_call list \<Rightarrow> bytes \<Rightarrow> LoadedImage boot_call \<Rightarrow> fw_st \<Rightarrow> bool" where
  "loaded sec tpm tr0 b ev f \<longleftrightarrow> st sec tpm tr0 sec tpm b f \<and> image_of (fs_trace f) ev = Some b"

lemma loaded_st: "loaded sec tpm tr0 b ev f \<Longrightarrow> st sec tpm tr0 sec tpm b f"
  by (simp add: loaded_def)

lemma loaded_forget: "loaded sec tpm tr0 b ev f \<Longrightarrow> st sec tpm tr0 False False b' f"
  by (auto simp: loaded_def intro: st_forget)

lemma native_load_triple:
  "fwt (st sec tpm tr0 sec tpm b) (native_load pl b lo tag path)
     (\<lambda>li. loaded sec tpm tr0 b (NativeStart li)) (st sec tpm tr0 sec tpm b)"
  unfolding fwt_def
proof (rule ahoareI)
  fix m m' :: "'a machine" and li
  assume s: "st sec tpm tr0 sec tpm b (mc_fw m)" and "native_load pl b lo tag path m = (m', Ok li)"
  then have "mc_fw m' = emit (NativeLoad b li) (mc_fw m)"
    by (auto simp: native_load_def machine_simps split: prod.splits outcome.splits)
  then show "loaded sec tpm tr0 b (NativeStart li) (mc_fw m')"
    using st_emit [OF _ s, of "NativeLoad b li"] by (simp add: loaded_def emit_def)
next
  fix m m' :: "'a machine" and r
  assume "st sec tpm tr0 sec tpm b (mc_fw m)" "native_load pl b lo tag path m = (m', r)" "\<forall>x. r \<noteq> Ok x"
  then show "st sec tpm tr0 sec tpm b (mc_fw m')"
    by (auto simp: native_load_def machine_simps split: prod.splits outcome.splits)
qed

lemma enter_native_triple:
  "fwt (loaded sec tpm tr0 b (NativeStart li)) (enter_native pl li) (\<lambda>_. st sec tpm tr0 sec tpm b)
     (st sec tpm tr0 sec tpm b)"
  unfolding fwt_def
  by (rule ahoareI)
    (auto simp: enter_native_def Let_def machine_simps loaded_def split: option.splits intro: st_start)

lemma enter_firmware_triple:
  "fwt (loaded sec tpm tr0 b (FirmwareStart h)) (enter_firmware pl h) (\<lambda>_. st sec tpm tr0 False False b')
     (st sec tpm tr0 False False b')"
  unfolding fwt_def
  by (rule ahoareI)
    (auto simp: enter_firmware_def Let_def machine_simps loaded_def split: option.splits outcome.splits
      intro: st_forget [OF st_start])

lemma native_handoff_triple:
  "fwt (loaded sec tpm tr0 b (NativeStart li)) (native_handoff pl v li tag path quirks)
     (\<lambda>_. st sec tpm tr0 sec tpm b) (st sec tpm tr0 sec tpm b)"
  unfolding native_handoff_def
  by (cases "li_sha256 li = vb_sha256 v")
    (auto intro!: fwt_abind [OF fwt_steps_keep] enter_native_triple fwt_pure intro: loaded_st simp: machine_simps)

lemma native_load_and_start_triple:
  assumes "vb_bytes v = b"
  shows "fwt (st sec tpm tr0 sec tpm b) (native_load_and_start pl v options tag path quirks)
     (\<lambda>_. st sec tpm tr0 sec tpm b) (st sec tpm tr0 sec tpm b)"
  unfolding native_load_and_start_def assms
  by (rule fwt_abind [OF fwt_steps_keep], simp add: machine_simps,
      rule fwt_abind [OF fwt_alift_keep], assumption,
      rule fwt_abind [OF fwt_steps_keep], simp add: machine_simps,
      rule fwt_abind [OF native_load_triple native_handoff_triple])

lemma load_image_triple:
  assumes "loads_by_auth (pl_fw pl)" "sec \<longrightarrow> image_authentication (pl_fw pl)"
  shows "fwt (st sec tpm tr0 False tpm b) (on_fw (load_efi_image_from_buffer (pl_fw pl) b))
     (\<lambda>h. loaded sec tpm tr0 b (FirmwareStart h)) (st sec tpm tr0 False False b')"
proof (rule fwt_on_fw, rule ahoareI)
  fix f f' h
  assume s: "st sec tpm tr0 False tpm b f" and l: "load_efi_image_from_buffer (pl_fw pl) b f = (f', Ok h)"
  obtain ys where y: "list_all is_check ys" "fs_trace f' = fs_trace f @ ys @ [FirmwareLoad b h]"
    using loads_by_auth.load_trace [OF assms(1) st_idle [OF s] l] by auto
  have i: "idle (fs_override f')" by (rule loads_by_auth.load_idle [OF assms(1) st_idle [OF s] l])
  have n: "list_all (\<lambda>d. \<not> is_start d) (ys @ [FirmwareLoad b h])" using checks_not_starts [OF y(1)] by simp
  have "st sec tpm tr0 sec tpm b f'"
  proof (rule stE [OF st_extend [OF s y(2) i n]])
    fix ext assume e: "fs_trace f' = tr0 @ ext" "starts_ok sec tpm tr0 ext" "good False tpm ext b"
    obtain e0 where e0: "fs_trace f = tr0 @ e0" using s by (auto elim: stE)
    have "checked ext b" if sec
    proof -
      have "checked_since f f' b"
        using image_authentication.load_checked assms(2) that st_idle [OF s] l by blast
      then obtain zs where z: "fs_trace f' = fs_trace f @ zs" "checked zs b" by (auto simp: checked_since_def)
      then have "ext = e0 @ zs" using e(1) e0 by simp
      then show ?thesis using checked_mono [OF z(2), of e0 "[]"] by simp
    qed
    then show ?thesis using e i by (intro stI [OF i e(1,2)]) (simp add: good_def)
  qed
  then show "loaded sec tpm tr0 b (FirmwareStart h) f'"
    using y(2) by (simp add: loaded_def flip: append_assoc)
next
  fix f f' and r :: "(nat, string) outcome"
  assume s: "st sec tpm tr0 False tpm b f" and l: "load_efi_image_from_buffer (pl_fw pl) b f = (f', r)"
    and r: "\<forall>x. r \<noteq> Ok x"
  obtain ys where y0: "list_all is_check ys"
    "fs_trace f' = fs_trace f @ ys @ (case r of Ok h \<Rightarrow> [FirmwareLoad b h] | _ \<Rightarrow> [])"
    by (rule loads_by_auth.load_trace [OF assms(1) st_idle [OF s] l])
  have y: "list_all is_check ys" "fs_trace f' = fs_trace f @ ys"
    using y0 r by (auto split: outcome.splits)
  show "st sec tpm tr0 False False b' f'"
    using st_extend [OF s y(2) loads_by_auth.load_idle [OF assms(1) st_idle [OF s] l] checks_not_starts [OF y(1)]]
    by (rule st_forget)
qed

lemma set_load_options_triple:
  "(\<And>f. R f \<Longrightarrow> E f) \<Longrightarrow> fwt R (set_load_options pl h options) (\<lambda>_. R) E"
  by (rule fwt_frame)
    (auto simp: set_load_options_def abind_def alift_def on_fw_def split: prod.splits outcome.splits)

lemma firmware_load_and_start_triple:
  assumes "loads_by_auth (pl_fw pl)" "sec \<longrightarrow> image_authentication (pl_fw pl)"
  shows "fwt (st sec tpm tr0 False tpm b) (firmware_load_and_start pl b options mode path)
     (\<lambda>_. st sec tpm tr0 False False b') (st sec tpm tr0 False False b')"
  unfolding firmware_load_and_start_def
proof (rule fwt_abind [OF fwt_steps_keep], simp add: machine_simps,
    rule fwt_abind [OF load_image_triple [OF assms]])
  fix h
  have "fwt (loaded sec tpm tr0 b (FirmwareStart h))
     (if options \<noteq> [] then set_load_options pl h options else aret ())
     (\<lambda>_. loaded sec tpm tr0 b (FirmwareStart h)) (st sec tpm tr0 False False b')"
    by (simp add: set_load_options_triple loaded_forget fwt_pure)
  then show "fwt (loaded sec tpm tr0 b (FirmwareStart h))
     (abind (if options \<noteq> [] then set_load_options pl h options else aret ()) (\<lambda>_.
      abind (steps
        [rec (with_status ''SUCCESS'' (with_verified_via V_FIRMWARE_LOADIMAGE
           (with_path path (te_new ''image_loaded_firmware'')))),
         log_flush pl, crumb_flush pl]) (\<lambda>_. enter_firmware pl h)))
     (\<lambda>_. st sec tpm tr0 False False b') (st sec tpm tr0 False False b')"
    by (rule fwt_abind) (rule fwt_abind [OF fwt_steps_keep], simp add: machine_simps, rule enter_firmware_triple)
qed

subsection \<open>The three kinds of entry\<close>

text \<open>What the boot relies on: the firmware loads through the installed authentication, and under Secure
  Boot only what that accepts; with a TPM, it works; the policy does not force the native loader and the
  posture is not disabled, when checks are claimed.\<close>

definition boot_assms :: "bool \<Rightarrow> bool \<Rightarrow> 's platform \<Rightarrow> LoaderNativePeMode \<Rightarrow> SecureBootState \<Rightarrow> bool" where
  "boot_assms sec tpm pl mode sb \<longleftrightarrow>
     loads_by_auth (pl_fw pl) \<and> (tpm \<longrightarrow> tpm_works pl) \<and>
     (sec \<longrightarrow> image_authentication (pl_fw pl) \<and> mode \<noteq> PeAlways \<and> sb \<noteq> SbDisabled)"

lemma measure_steps_triple:
  assumes "boot_assms sec tpm pl mode sb"
  shows "fwt (st sec tpm tr0 False False b')
     (steps ([measure_kernel_logged pl data path] @
        (if options \<noteq> [] then [measure_cmdline_logged pl options path] else [])))
     (\<lambda>_. st sec tpm tr0 False tpm data) (st sec tpm tr0 False False b')"
  using assms
  by (intro fwt_steps) (auto simp: boot_assms_def intro: measure_kernel_logged_st measure_cmdline_logged_st)

lemma chainload_efi_triple:
  assumes "boot_assms sec tpm pl mode sb"
  shows "fwt (st sec tpm tr0 False False b) (chainload_efi pl path quirks)
     (\<lambda>_. st sec tpm tr0 False False b') (st sec tpm tr0 False False b')"
  unfolding chainload_efi_def
proof (rule fwt_abind [OF fwt_on_volume], erule st_forget)
  fix data
  have "mc_fw (chainload_measure pl data path m) = mc_fw (fst (measure_kernel pl data m))" for m
    by (auto simp: chainload_measure_def machine_simps split: prod.split bool.split)
  then have m: "fwt (st sec tpm tr0 False False b) (steps [chainload_measure pl data path])
     (\<lambda>_. st sec tpm tr0 False tpm data) (st sec tpm tr0 False False b')"
    using assms by (intro fwt_steps) (auto simp: boot_assms_def intro: measure_kernel_measures)
  have l: "fwt (st sec tpm tr0 False tpm data) (on_fw (load_efi_image_from_buffer (pl_fw pl) data))
     (\<lambda>h. loaded sec tpm tr0 data (FirmwareStart h)) (st sec tpm tr0 False False b')"
    using assms by (intro load_image_triple) (auto simp: boot_assms_def)
  have e: "fwt (loaded sec tpm tr0 data (FirmwareStart h))
     (abind (steps [rec ev, quiet_flush pl quirks, crumb_flush pl]) (\<lambda>_. enter_firmware pl h))
     (\<lambda>_. st sec tpm tr0 False False b') (st sec tpm tr0 False False b')" for ev h
    by (rule fwt_abind [OF fwt_steps_keep], simp add: machine_simps, rule enter_firmware_triple)
  show "fwt (st sec tpm tr0 False False b)
     (abind (steps [chainload_measure pl data path]) (\<lambda>_.
      abind (on_fw (load_efi_image_from_buffer (pl_fw pl) data)) (\<lambda>h.
      abind (steps
        [rec (with_status ''SUCCESS'' (with_verified_via V_FIRMWARE_LOADIMAGE
           (with_sha256 (hex_encode_32 (pl_sha pl data)) (with_path path (te_new ''image_chainloaded''))))),
         quiet_flush pl quirks, crumb_flush pl]) (\<lambda>_.
      enter_firmware pl h))))
     (\<lambda>_. st sec tpm tr0 False False b') (st sec tpm tr0 False False b')"
    by (rule fwt_abind [OF m fwt_abind [OF l e]])
qed

text \<open>The native path is taken only for bytes shim has checked, unless the policy forces it or Secure Boot
  is off.\<close>

lemma native_path_checked:
  assumes "boot_assms sec tpm pl mode sb" "token_ok sec tpm tr0 data sb (Some v) f"
    and "choose_load_path mode (vb_sb_state v) = PathNative"
  shows "st sec tpm tr0 sec tpm data f"
proof (cases sec)
  case True
  then have "vb_sb_state v = ActiveWithShim"
    using assms by (cases mode; cases "vb_sb_state v") (auto simp: boot_assms_def token_ok_def choose_load_path_def)
  then show ?thesis using assms(2) True by (simp add: token_ok_def)
next
  case False
  then show ?thesis using assms(2) by (auto simp: token_ok_def intro: st_weaken)
qed

lemma token_ok_forget: "token_ok sec tpm tr0 data sb v f \<Longrightarrow> st sec tpm tr0 False False b' f"
  by (auto simp: token_ok_def intro: st_forget)

lemma token_ok_measured: "token_ok sec tpm tr0 data sb v f \<Longrightarrow> st sec tpm tr0 False tpm data f"
  by (auto simp: token_ok_def intro: st_weaken)

lemma native_path_triple:
  assumes "boot_assms sec tpm pl mode sb" "choose_load_path mode (vb_sb_state v) = PathNative"
  shows "fwt (token_ok sec tpm tr0 data sb (Some v)) (native_load_and_start pl v options tag path quirks)
     (\<lambda>_. st sec tpm tr0 False tpm data) (st sec tpm tr0 False tpm data)"
proof (cases "vb_bytes v = data")
  case True
  have "fwt (st sec tpm tr0 sec tpm data) (native_load_and_start pl v options tag path quirks)
     (\<lambda>_. st sec tpm tr0 False tpm data) (st sec tpm tr0 False tpm data)"
    by (rule fwt_post [OF native_load_and_start_triple [OF True]]) (auto intro: st_weaken)
  then show ?thesis by (rule fwt_pre) (rule native_path_checked [OF assms(1) _ assms(2)])
next
  case False
  then have "\<not> token_ok sec tpm tr0 data sb (Some v) f" for f by (simp add: token_ok_def)
  then show ?thesis by (simp add: fwt_def ahoare_def)
qed

lemma firmware_path_triple:
  assumes "boot_assms sec tpm pl mode sb"
  shows "fwt (st sec tpm tr0 False tpm data) (firmware_load_and_start pl data options mode' path)
     (\<lambda>_. st sec tpm tr0 False False b') (st sec tpm tr0 False False b')"
  using assms by (intro firmware_load_and_start_triple) (auto simp: boot_assms_def)

lemma boot_uki_triple:
  assumes "boot_assms sec tpm pl (po_loader_native_pe policy) sb"
  shows "fwt (st sec tpm tr0 False False []) (boot_uki pl path options policy quirks sb)
     (\<lambda>_. st sec tpm tr0 False False []) (st sec tpm tr0 False False [])"
  unfolding boot_uki_def
proof (rule fwt_abind [OF fwt_alift_keep], assumption, rule fwt_abind [OF fwt_on_volume], assumption,
    rule fwt_abind [OF measure_steps_triple [OF assms]], rule fwt_abind [OF verify_kernel_bytes_triple])
  fix tag data v
  show "fwt (token_ok sec tpm tr0 data sb v)
     (case v of
        None \<Rightarrow> afail (Failed ''SECURITY_VIOLATION'')
      | Some v \<Rightarrow>
          (case choose_load_path (po_loader_native_pe policy) (vb_sb_state v) of
             PathNative \<Rightarrow> native_load_and_start pl v options tag path quirks
           | PathFirmware \<Rightarrow> firmware_load_and_start pl data options (po_loader_native_pe policy) path))
     (\<lambda>_. st sec tpm tr0 False False []) (st sec tpm tr0 False False [])"
  proof (cases v)
    case None
    then show ?thesis by (auto intro!: fwt_pure intro: token_ok_forget)
  next
    case (Some w)
    have n: "fwt (token_ok sec tpm tr0 data sb (Some w)) (native_load_and_start pl w options tag path quirks)
        (\<lambda>_. st sec tpm tr0 False False []) (st sec tpm tr0 False False [])"
      if "choose_load_path (po_loader_native_pe policy) (vb_sb_state w) = PathNative"
      by (rule fwt_post [OF native_path_triple [OF assms that]]) (erule st_forget)+
    show ?thesis
      unfolding Some option.case
      by (cases "choose_load_path (po_loader_native_pe policy) (vb_sb_state w)")
        (auto intro: n fwt_pre [OF firmware_path_triple [OF assms]] token_ok_measured)
  qed
qed

subsection \<open>Linux kernels\<close>

text \<open>Actions that start nothing and leave the override alone.\<close>

definition quiet :: "'s machine \<Rightarrow> 's machine \<Rightarrow> bool" where
  "quiet m m' \<longleftrightarrow>
     fs_override (mc_fw m') = fs_override (mc_fw m) \<and>
     (\<exists>ys. fs_trace (mc_fw m') = fs_trace (mc_fw m) @ ys \<and> list_all (\<lambda>d. \<not> is_start d) ys)"

lemma quiet_trans: "transp quiet"
proof (rule transpI)
  fix a b c :: "'a machine"
  assume "quiet a b" "quiet b c"
  then obtain ys zs where "fs_trace (mc_fw b) = fs_trace (mc_fw a) @ ys" "list_all (\<lambda>d. \<not> is_start d) ys"
    "fs_trace (mc_fw c) = fs_trace (mc_fw b) @ zs" "list_all (\<lambda>d. \<not> is_start d) zs"
    "fs_override (mc_fw c) = fs_override (mc_fw a)" by (auto simp: quiet_def)
  then show "quiet a c" by (auto simp: quiet_def)
qed

lemma quiet_refl: "reflp quiet"
  by (simp add: quiet_def reflp_def)

lemma quiet_same: "mc_fw m' = mc_fw m \<Longrightarrow> quiet m m'"
  by (simp add: quiet_def)

lemma st_quiet: "st sec tpm tr0 c k b (mc_fw m) \<Longrightarrow> quiet m m' \<Longrightarrow> st sec tpm tr0 c k b (mc_fw m')"
  unfolding quiet_def by (metis st_extend st_idle)

lemma token_ok_quiet:
  "token_ok sec tpm tr0 data sb v (mc_fw m) \<Longrightarrow> quiet m m' \<Longrightarrow> token_ok sec tpm tr0 data sb v (mc_fw m')"
  by (auto simp: token_ok_def intro: st_quiet)

lemma fwt_quiet:
  fixes a :: "('s, 'a) boot"
  assumes "akeeps quiet a" "\<And>(m :: 's machine) m'. R (mc_fw m) \<Longrightarrow> quiet m m' \<Longrightarrow> R (mc_fw m')" "\<And>f. R f \<Longrightarrow> E f"
  shows "fwt R a (\<lambda>_. R) E"
  unfolding fwt_def using assms by (intro ahoareI) (blast dest: akeepsD)+

lemma akeeps_quiet_steps:
  "(\<And>m. mc_fw (fold (\<lambda>f t. f t) fs m) = mc_fw m) \<Longrightarrow> akeeps quiet (steps fs)"
  by (simp add: akeeps_def steps_def quiet_same)

lemma akeeps_quiet_volume: "akeeps quiet (on_volume i op)"
  by (simp add: akeeps_def machine_simps quiet_same)

lemma akeeps_quiet_on_fw: "akeeps quiet (on_fw (alift g))"
  by (simp add: akeeps_def on_fw_def alift_def quiet_same)

lemmas akeeps_quiet_bind = akeeps_abind [OF quiet_trans]
lemmas akeeps_quiet = akeeps_quiet_steps akeeps_quiet_volume akeeps_quiet_on_fw akeeps_pure [OF quiet_refl]

lemma read_kernel_at_quiet: "akeeps quiet (read_kernel_at pl i resolved)"
  unfolding read_kernel_at_def by (intro akeeps_quiet_bind akeeps_quiet) (simp_all add: machine_simps)

lemma read_kernel_quiet: "akeeps quiet (read_kernel pl path quirks)"
proof -
  have "akeeps quiet
     (case found of
        None \<Rightarrow>
          abind (steps [crumb pl ''BL5_err kernel_not_found'', rec (phase path ''phase=resolve_failed''),
            quiet_flush pl quirks]) (\<lambda>_. afail (Failed ''NOT_FOUND''))
      | Some (i, resolved) \<Rightarrow>
          abind (steps [crumb pl (''BL5c resolved extras['' @ dec (i - 1) @ '']: '' @ resolved)]) (\<lambda>_.
          read_kernel_at pl i resolved))" for found :: "(nat \<times> string) option"
    by (cases found)
      (auto intro!: akeeps_quiet_bind akeeps_quiet read_kernel_at_quiet simp: machine_simps)
  moreover have "akeeps quiet
     (abind (steps [crumb pl (''BL5_esp kernel_found_on_esp: '' @ r)]) (\<lambda>_. read_kernel_at pl 0 r))" for r
    by (intro akeeps_quiet_bind akeeps_quiet read_kernel_at_quiet) (simp add: machine_simps)
  ultimately show ?thesis
    unfolding read_kernel_def
    by (auto intro!: akeeps_quiet_bind akeeps_quiet simp: machine_simps split: option.split)
qed

lemma read_initrd_quiet: "akeeps quiet (read_initrd pl path)"
  unfolding read_initrd_def
  by (auto intro!: akeeps_quiet_bind akeeps_quiet simp: machine_simps split: option.split)

lemma read_initrds_quiet: "akeeps quiet (read_initrds pl idx combined paths)"
proof (induction paths arbitrary: idx combined)
  case (Cons p ps)
  show ?case
    by (simp only: read_initrds.simps)
      (auto intro!: akeeps_quiet_bind akeeps_quiet read_initrd_quiet Cons.IH simp: machine_simps split: option.split)
qed (simp add: akeeps_quiet)

lemma initrd_register_quiet: "akeeps quiet (initrd_register pl data)"
proof -
  have "akeeps quiet (steps [call (InstallInitrd data), crumb pl ''IR9 after_install_loadfile2_protocol''])"
    by (simp add: akeeps_def steps_def quiet_def machine_simps emit_def)
  then have i: "akeeps quiet (abind (steps [call (InstallInitrd data), crumb pl ''IR9 after_install_loadfile2_protocol''])
      (\<lambda>_. aret data))" by (rule akeeps_quiet_bind) (rule akeeps_quiet)
  show ?thesis
    unfolding initrd_register_def
    by (rule akeeps_quiet_bind [OF akeeps_quiet_steps akeeps_quiet_bind [OF akeeps_quiet_on_fw
          akeeps_quiet_bind [OF akeeps_quiet_steps akeeps_quiet_bind [OF akeeps_quiet_on_fw i]]]])
      (simp_all add: machine_simps)
qed

lemma try_register_quiet: "akeeps quiet (try_register pl data)"
  using initrd_register_quiet [of pl data]
  by (auto simp: akeeps_def try_register_def split: prod.split outcome.split) (metis fst_conv)+

lemma linux_initrd_quiet: "akeeps quiet (linux_initrd pl initrds)"
  unfolding linux_initrd_def
  by (auto intro!: akeeps_quiet_bind akeeps_quiet read_initrds_quiet try_register_quiet simp: machine_simps)

lemma with_initrd_triple:
  assumes "fwt R rest (\<lambda>_. st sec tpm tr0 False False b) (st sec tpm tr0 False False b)"
  shows "fwt R (with_initrd handle rest) (\<lambda>_. st sec tpm tr0 False False b) (st sec tpm tr0 False False b)"
proof -
  have "st sec tpm tr0 False False b (mc_fw (fst (with_initrd handle rest m)))" if "R (mc_fw m)" for m
  proof -
    obtain m' r where r: "rest m = (m', r)" by fastforce
    have "st sec tpm tr0 False False b (mc_fw m')"
      using ahoare_any [OF assms [unfolded fwt_def], where s = m] that r by simp
    then have "st sec tpm tr0 False False b (mc_fw (if handle then call UninstallInitrd m' else m'))"
      by (simp add: machine_simps st_emit)
    then show ?thesis
      using r \<open>st sec tpm tr0 False False b (mc_fw m')\<close>
      by (auto simp: with_initrd_def split: outcome.split boot_exit.split)
  qed
  then show ?thesis unfolding fwt_def ahoare_def by (auto split: outcome.split)
qed

lemma native_with_fallback_triple:
  assumes "boot_assms sec tpm pl mode sb" "choose_load_path mode (vb_sb_state v) = PathNative"
    and "\<And>m. mc_fw (note_it m) = mc_fw m"
  shows "fwt (token_ok sec tpm tr0 data sb (Some v))
     (native_with_fallback (native_load_and_start pl v options tag path quirks) note_it
        (firmware_load_and_start pl data options mode path))
     (\<lambda>_. st sec tpm tr0 False False b') (st sec tpm tr0 False False b')"
proof -
  let ?native = "native_load_and_start pl v options tag path quirks"
  let ?fw = "firmware_load_and_start pl data options mode path"
  have "st sec tpm tr0 False False b' (mc_fw (fst (native_with_fallback ?native note_it ?fw m)))"
    if t: "token_ok sec tpm tr0 data sb (Some v) (mc_fw m)" for m
  proof -
    obtain m' r where r: "?native m = (m', r)" by fastforce
    have s: "st sec tpm tr0 False tpm data (mc_fw m')"
      using ahoare_any [OF native_path_triple [OF assms(1,2), unfolded fwt_def] t] r by (metis fst_conv)
    have "st sec tpm tr0 False False b' (mc_fw (fst (?fw (note_it m'))))"
      by (rule ahoare_any [OF firmware_path_triple [OF assms(1), unfolded fwt_def]]) (simp add: s assms(3))
    then show ?thesis
      using r st_forget [OF s] by (auto simp: native_with_fallback_def split: outcome.split boot_exit.split)
  qed
  then show ?thesis unfolding fwt_def ahoare_def by (auto split: outcome.split)
qed

lemma linux_load_triple:
  assumes "boot_assms sec tpm pl (po_loader_native_pe policy) sb"
  shows "fwt (token_ok sec tpm tr0 data sb (Some v)) (linux_load pl v data options tag path policy quirks)
     (\<lambda>_. st sec tpm tr0 False False []) (st sec tpm tr0 False False [])"
  unfolding linux_load_def Let_def
proof (rule fwt_abind [OF fwt_steps_keep], simp add: machine_simps)
  show "fwt (token_ok sec tpm tr0 data sb (Some v))
     (case choose_load_path (po_loader_native_pe policy) (vb_sb_state v) of
        PathNative \<Rightarrow>
          abind (steps [crumb pl ''BL19 calling_native_load_and_start'']) (\<lambda>_.
          native_with_fallback (native_load_and_start pl v options tag path quirks)
            (\<lambda>m. rec (with_note ''reason=native_pe_load_error route=firmware''
                   (with_path path (te_new ''kernel_native_load_fallback'')))
                 (crumb pl ''BL19b native_failed_fallback_firmware'' m))
            (firmware_load_and_start pl data options (po_loader_native_pe policy) path))
      | PathFirmware \<Rightarrow>
          abind (steps [crumb pl ''BL19 calling_firmware_load_and_start'']) (\<lambda>_.
          firmware_load_and_start pl data options (po_loader_native_pe policy) path))
     (\<lambda>_. st sec tpm tr0 False False []) (st sec tpm tr0 False False [])"
    by (cases "choose_load_path (po_loader_native_pe policy) (vb_sb_state v)")
      (auto intro!: fwt_abind [OF fwt_steps_keep] native_with_fallback_triple [OF assms]
         fwt_pre [OF firmware_path_triple [OF assms]] token_ok_measured simp: machine_simps)
qed

lemma boot_linux_triple:
  assumes "boot_assms sec tpm pl (po_loader_native_pe policy) sb"
  shows "fwt (st sec tpm tr0 False False []) (boot_linux pl path initrds options policy quirks sb)
     (\<lambda>_. st sec tpm tr0 False False []) (st sec tpm tr0 False False [])"
  unfolding boot_linux_def
proof (rule fwt_abind [OF fwt_steps_keep], simp add: machine_simps,
    rule fwt_abind [OF fwt_quiet [OF read_kernel_quiet]], erule (1) st_quiet, assumption)
  fix x :: "bytes \<times> string"
  obtain data tag where x: "x = (data, tag)" by fastforce
  let ?measure = "[crumb pl ''BL8 bytes_acquired'',
         rec (phase path (''phase=bytes_acquired total_size='' @ dec (length data) @ '' backend='' @ tag)),
         quiet_flush pl quirks,
         crumb pl ''BL9 before_tpm_measure_kernel'',
         measure_kernel_logged pl data path,
         crumb pl ''BL10 after_tpm_measure_kernel''] @
        (if options \<noteq> [] then [measure_cmdline_logged pl options path,
           crumb pl ''BL11 after_tpm_measure_cmdline''] else []) @
        [crumb pl ''BL12 before_verify_kernel_bytes'']"
  let ?rest = "\<lambda>verified. case verified of
       None \<Rightarrow> abind (steps [crumb pl ''BL13_err verify_failed'']) (\<lambda>_. afail (Failed ''SECURITY_VIOLATION''))
     | Some v \<Rightarrow>
         abind (steps [crumb pl ''BL13 after_verify_kernel_bytes'']) (\<lambda>_.
         abind (linux_initrd pl initrds) (\<lambda>handle.
         with_initrd handle (linux_load pl v data options tag path policy quirks)))"
  have m: "fwt (st sec tpm tr0 False False []) (steps ?measure) (\<lambda>_. st sec tpm tr0 False tpm data)
      (st sec tpm tr0 False False [])"
    using assms
    by (intro fwt_steps)
      (simp add: boot_assms_def machine_simps measure_cmdline_logged_st
        measure_kernel_logged_st [where c = False and k = False and b = "[]"])
  have r: "fwt (token_ok sec tpm tr0 data sb v) (?rest v)
      (\<lambda>_. st sec tpm tr0 False False []) (st sec tpm tr0 False False [])" for v
  proof (cases v)
    case None
    then show ?thesis
      by (auto intro!: fwt_abind [OF fwt_steps_keep] fwt_pure token_ok_forget simp: machine_simps)
  next
    case (Some w)
    have "fwt (token_ok sec tpm tr0 data sb (Some w)) (linux_initrd pl initrds)
        (\<lambda>_. token_ok sec tpm tr0 data sb (Some w)) (st sec tpm tr0 False False [])"
      by (rule fwt_quiet [OF linux_initrd_quiet]) (auto intro: token_ok_quiet token_ok_forget)
    then show ?thesis
      unfolding Some option.case
      by (intro fwt_abind [OF fwt_steps_keep] fwt_abind [OF _ with_initrd_triple [OF linux_load_triple [OF assms]]])
        (simp_all add: machine_simps)
  qed
  show "fwt (st sec tpm tr0 False False [])
     (case x of (bytes, backend_tag) \<Rightarrow>
        abind (steps
          ([crumb pl ''BL8 bytes_acquired'',
            rec (phase path (''phase=bytes_acquired total_size='' @ dec (length bytes) @ '' backend='' @ backend_tag)),
            quiet_flush pl quirks,
            crumb pl ''BL9 before_tpm_measure_kernel'',
            measure_kernel_logged pl bytes path,
            crumb pl ''BL10 after_tpm_measure_kernel''] @
           (if options \<noteq> [] then [measure_cmdline_logged pl options path,
              crumb pl ''BL11 after_tpm_measure_cmdline''] else []) @
           [crumb pl ''BL12 before_verify_kernel_bytes''])) (\<lambda>_.
        abind (verify_kernel_bytes pl bytes path sb) (\<lambda>verified.
        case verified of
          None \<Rightarrow> abind (steps [crumb pl ''BL13_err verify_failed'']) (\<lambda>_. afail (Failed ''SECURITY_VIOLATION''))
        | Some v \<Rightarrow>
            abind (steps [crumb pl ''BL13 after_verify_kernel_bytes'']) (\<lambda>_.
            abind (linux_initrd pl initrds) (\<lambda>handle.
            with_initrd handle (linux_load pl v bytes options backend_tag path policy quirks))))))
     (\<lambda>_. st sec tpm tr0 False False []) (st sec tpm tr0 False False [])"
    unfolding x prod.case by (rule fwt_abind [OF m fwt_abind [OF verify_kernel_bytes_triple r]])
qed

subsection \<open>The logged verdict\<close>

lemma kernel_verdict_status:
  assumes "kernel_verdict pl data sb m = (m', Ok (via, status, ok))"
  shows "mc_log m' = mc_log m \<and> status \<in> {''SUCCESS'', ''REJECTED'', ''SKIPPED'', ''DEFERRED''}"
  using assms
  by (cases sb) (auto simp: aret_def on_fw_def machine_simps split: prod.splits outcome.splits)

text \<open>The verdict is logged with quotes inside its text.  The status of an \<open>image_verified\<close> event is the
  debug rendering of a string, so a verified kernel is recorded with a status of nine characters, two of
  them quotation marks, and no event of a verification ever has the documented status.\<close>

theorem logged_verdict_is_quoted:
  assumes "verify_kernel_bytes pl data path sb m = (m', Ok verified)"
  shows "\<exists>ev status. tl_events (mc_log m') = tl_events (mc_log m) @ [ev] \<and> te_event ev = ''image_verified'' \<and>
    status \<in> {''SUCCESS'', ''REJECTED'', ''SKIPPED'', ''DEFERRED''} \<and> te_status ev = [quote] @ status @ [quote]"
proof -
  let ?m = "crumb pl ''VK3 after_hex_encode'' (crumb pl ''VK2 after_sha256'' (crumb pl ''VK1 enter'' m))"
  let ?sb = "reprobe pl sb ?m"
  have "\<exists>x m2. kernel_verdict pl data ?sb (crumb pl (''VK4 secure_boot='' @ sb_debug ?sb) ?m) = (m2, Ok x) \<and>
      record_verdict pl data path ?sb x m2 = (m', Ok verified)"
    using assms by (auto simp: verify_kernel_bytes_def abind_Ok_conv steps_def alift_def)
  then obtain via status ok m2 where
    k: "kernel_verdict pl data ?sb (crumb pl (''VK4 secure_boot='' @ sb_debug ?sb) ?m) = (m2, Ok (via, status, ok))"
    and r: "record_verdict pl data path ?sb (via, status, ok) m2 = (m', Ok verified)"
    by (metis prod_cases3)
  note s = kernel_verdict_status [OF k]
  have q: "debug_str status = [quote] @ status @ [quote]"
    using s by (auto simp: debug_str_def quote_def bslash_def)
  let ?ev = "with_status (debug_str status) (with_verified_via via
          (with_sha256 (hex_encode_32 (pl_sha pl data)) (with_path path (te_new ''image_verified''))))"
  have "mc_log m' = tl_record ?ev (mc_log m)"
    using r s by (auto simp: record_verdict_def abind_Ok_conv steps_def aret_def machine_simps)
  moreover have "te_event ?ev = ''image_verified''" "te_status ?ev = debug_str status"
    by (simp_all add: with_status_def with_verified_via_def with_sha256_def with_path_def te_new_def)
  ultimately show ?thesis using s q by (intro exI [of _ ?ev] exI [of _ status]) (simp add: tl_record_def)
qed

theorem logged_verdict_is_quoted_witness:
  "\<exists>m ev. verify_kernel_bytes (sample_platform False [] []) [77, 90] ''/a'' SbDisabled (sample_machine []) =
       (m, Ok (Some \<lparr>vb_bytes = [77, 90], vb_sha256 = replicate 32 2, vb_verified_via = V_DEGRADED_TRUST_SB_OFF,
         vb_sb_state = SbDisabled\<rparr>)) \<and>
     tl_events (mc_log m) = [ev] \<and> te_event ev = ''image_verified'' \<and> hd (te_status ev) = quote"
proof -
  have "\<exists>m. verify_kernel_bytes (sample_platform False [] []) [77, 90] ''/a'' SbDisabled (sample_machine []) =
       (m, Ok (Some \<lparr>vb_bytes = [77, 90], vb_sha256 = replicate 32 2, vb_verified_via = V_DEGRADED_TRUST_SB_OFF,
         vb_sb_state = SbDisabled\<rparr>))"
    by (simp add: verify_kernel_bytes_def record_verdict_def abind_def steps_def aret_def alift_def reprobe_def
        sample_platform_def)
  then obtain m where v: "verify_kernel_bytes (sample_platform False [] []) [77, 90] ''/a'' SbDisabled (sample_machine []) =
       (m, Ok (Some \<lparr>vb_bytes = [77, 90], vb_sha256 = replicate 32 2, vb_verified_via = V_DEGRADED_TRUST_SB_OFF,
         vb_sb_state = SbDisabled\<rparr>))" by blast
  from logged_verdict_is_quoted [OF v] v show ?thesis by (auto simp: sample_machine_def tl_new_def)
qed

end
