(* ===== verification/Media.thy ===== *)
theory Media
  imports Block_Source
begin

section \<open>Recognising and mounting a file system\<close>

text \<open>
  Model of \<open>lamboot-core/src/fs_backend_lvm_dispatch.rs\<close> (the superblock probe and the dispatch on its
  result) and of \<open>fs_backend_lamfold.rs\<close> (the backend over a media file system).

  The file-system crates are parameters: \<open>fold_frontend\<close> is the interface of the lamfold crates and
  \<open>fs_openers\<close> gathers the functions that open a file system over a source.  The probe is shown to depend
  on the contents of the source alone, not on how its reads are split, and to leave the source at its
  start; a lamfold backend meets the contract of a backend of theory \<open>Volume\<close>.
\<close>

subsection \<open>The probe\<close>

datatype ProbedFs = Ext4 | Btrfs | Xfs | Fat | Erofs | Iso9660 | Cramfs | Romfs | Squashfs | Udf | UnknownFs

definition PROBE_BYTES :: nat where "PROBE_BYTES = 65536 + 4096"

text \<open>The error text is the stringified literal, with its quotes.\<close>

definition io_err :: "string \<Rightarrow> FsError" where
  "io_err e = Unsupported ([CHR 0x22] @ ''LV probe I/O error'' @ [CHR 0x22])"

definition seek_or_err :: "'a source \<Rightarrow> nat \<Rightarrow> ('a, unit, FsError) act" where
  "seek_or_err src p = abind (amap_err io_err (src_seek src (SeekStart p))) (\<lambda>_. aret ())"

text \<open>The loop of both probes: up to the end of the source or of the buffer.\<close>

function probe_fill :: "'a source \<Rightarrow> nat \<Rightarrow> bytes \<Rightarrow> ('a, bytes, FsError) act" where
  "probe_fill src missing filled s =
     (if missing = 0 then (s, Ok filled)
      else case src_read src missing s of
        (s', Ok got) \<Rightarrow>
          if got = [] then (s', Ok filled)
          else probe_fill src (missing - length got) (filled @ take missing got) s'
      | (s', Err e) \<Rightarrow> (s', Err (io_err e))
      | (s', Panic) \<Rightarrow> (s', Panic))"
  by pat_completeness auto
termination
  by (relation "measure (\<lambda>(src, missing, filled, s). missing)") auto

declare probe_fill.simps [simp del]

definition magic_at :: "bytes \<Rightarrow> nat \<Rightarrow> bytes \<Rightarrow> bool" where
  "magic_at buf off magic \<longleftrightarrow> length buf \<ge> off + length magic \<and> take (length magic) (drop off buf) = magic"

definition fat_boot_sector :: "bytes \<Rightarrow> bool" where
  "fat_boot_sector buf \<longleftrightarrow>
     magic_at buf 510 [0x55, 0xAA] \<and>
     (magic_at buf 0x36 [0x46, 0x41, 0x54] \<or> magic_at buf 0x52 [0x46, 0x41, 0x54])"

definition classify_superblock :: "bytes \<Rightarrow> ProbedFs option" where
  "classify_superblock buf =
     (if magic_at buf (1024 + 56) [0x53, 0xEF] then Some Ext4
      else if magic_at buf (0x10000 + 0x40) [0x5F, 0x42, 0x48, 0x52, 0x66, 0x53, 0x5F, 0x4D] then Some Btrfs
      else if magic_at buf 0 [0x58, 0x46, 0x53, 0x42] then Some Xfs
      else if magic_at buf 1024 [0xE2, 0xE1, 0xF5, 0xE0] then Some Erofs
      else if magic_at buf 0x8001 [0x43, 0x44, 0x30, 0x30, 0x31] then Some Iso9660
      else if magic_at buf 0 [0x45, 0x3D, 0xCD, 0x28] then Some Cramfs
      else if magic_at buf 0 [0x2D, 0x72, 0x6F, 0x6D, 0x31, 0x66, 0x73, 0x2D] then Some Romfs
      else if magic_at buf 0 [0x68, 0x73, 0x71, 0x73] then Some Squashfs
      else if fat_boot_sector buf then Some Fat
      else None)"

definition UDF_ANCHOR :: nat where "UDF_ANCHOR = 256 * 2048"

text \<open>A source that ends before the tag is complete is rewound and is not UDF.\<close>

definition probe_udf_anchor :: "'a source \<Rightarrow> ('a, bool, FsError) act" where
  "probe_udf_anchor src =
     abind (seek_or_err src UDF_ANCHOR) (\<lambda>_.
     abind (probe_fill src 2 []) (\<lambda>tag.
     abind (seek_or_err src 0) (\<lambda>_.
     aret (length tag = 2 \<and> (from_le tag :: u16) = 2))))"

definition probe_source_superblock :: "'a source \<Rightarrow> ('a, ProbedFs, FsError) act" where
  "probe_source_superblock src =
     abind (seek_or_err src 0) (\<lambda>_.
     abind (probe_fill src PROBE_BYTES []) (\<lambda>buf.
     abind (seek_or_err src 0) (\<lambda>_.
     case classify_superblock buf of
       Some k \<Rightarrow> aret k
     | None \<Rightarrow> abind (probe_udf_anchor src) (\<lambda>udf. aret (if udf then Udf else UnknownFs)))))"

subsection \<open>The lamfold backend\<close>

datatype FoldError =
    FoldNotFound
  | FoldNotDirectory
  | FoldIsDirectory
  | FoldInvalidPath string
  | FoldCorrupt string
  | FoldDecompress string
  | FoldUnsupported string
  | FoldFileTooLarge nat nat
  | FoldVerifyFailed string
  | FoldIo string

datatype FoldKind = FoldRegular | FoldDirectory | FoldSymlink | FoldOther

record FoldMetadata =
  fm_kind :: FoldKind
  fm_size :: nat
  fm_mode :: nat

record FoldDirEntry =
  fd_name :: string
  fd_kind :: FoldKind
  fd_node :: nat

record 's fold_frontend =
  ff_read_path :: "'s \<Rightarrow> string \<Rightarrow> (bytes, FoldError) outcome"
  ff_resolve :: "'s \<Rightarrow> string \<Rightarrow> (nat, FoldError) outcome"
  ff_read_at :: "'s \<Rightarrow> nat \<Rightarrow> nat \<Rightarrow> nat \<Rightarrow> (bytes, FoldError) outcome"
  ff_metadata :: "'s \<Rightarrow> nat \<Rightarrow> (FoldMetadata, FoldError) outcome"
  ff_metadata_path :: "'s \<Rightarrow> string \<Rightarrow> (FoldMetadata, FoldError) outcome"
  ff_read_dir_path :: "'s \<Rightarrow> string \<Rightarrow> (FoldDirEntry list, FoldError) outcome"

fun map_kind :: "FoldKind \<Rightarrow> FileKind" where
  "map_kind FoldRegular = Regular"
| "map_kind FoldDirectory = Directory"
| "map_kind FoldSymlink = Symlink"
| "map_kind FoldOther = OtherKind"

fun map_fold_err :: "FoldError \<Rightarrow> FsError" where
  "map_fold_err FoldNotFound = NotFound"
| "map_fold_err FoldNotDirectory = NotDirectory"
| "map_fold_err FoldIsDirectory = IsDirectory"
| "map_fold_err (FoldInvalidPath s) = InvalidPath s"
| "map_fold_err (FoldCorrupt s) = Corrupt s"
| "map_fold_err (FoldDecompress s) = Corrupt s"
| "map_fold_err (FoldUnsupported s) = Unsupported s"
| "map_fold_err (FoldFileTooLarge sz mx) = FileTooLarge sz mx"
| "map_fold_err (FoldVerifyFailed s) = IntegrityFailed s"
| "map_fold_err (FoldIo s) = FsIo ''DEVICE_ERROR''"

definition fold_read :: "'s fold_frontend \<Rightarrow> 's \<Rightarrow> string \<Rightarrow> (bytes, FsError) outcome" where
  "fold_read fe s p = omap_err map_fold_err (ff_read_path fe s p)"

function fold_fill :: "'s fold_frontend \<Rightarrow> 's \<Rightarrow> nat \<Rightarrow> nat \<Rightarrow> nat \<Rightarrow> bytes \<Rightarrow> (bytes, FsError) outcome" where
  "fold_fill fe s node off missing filled =
     (if missing = 0 then Ok filled
      else case ff_read_at fe s node (off + length filled) missing of
        Ok got \<Rightarrow>
          if got = [] then Ok filled
          else fold_fill fe s node off (missing - length got) (filled @ take missing got)
      | Err e \<Rightarrow> Err (map_fold_err e)
      | Panic \<Rightarrow> Panic)"
  by pat_completeness auto
termination
  by (relation "measure (\<lambda>(fe, s, node, off, missing, filled). missing)") auto

declare fold_fill.simps [simp del]

definition fold_read_at :: "'s fold_frontend \<Rightarrow> 's \<Rightarrow> string \<Rightarrow> nat \<Rightarrow> nat \<Rightarrow> (bytes, FsError) outcome" where
  "fold_read_at fe s p off n =
     obind (omap_err map_fold_err (ff_resolve fe s p)) (\<lambda>node. fold_fill fe s node off n [])"

definition fold_metadata :: "'s fold_frontend \<Rightarrow> string \<Rightarrow> 's \<Rightarrow> string \<Rightarrow> (Metadata, FsError) outcome" where
  "fold_metadata fe tag s p =
     obind (omap_err map_fold_err (ff_metadata_path fe s p)) (\<lambda>md.
     Ok \<lparr>md_kind = map_kind (fm_kind md), md_size = fm_size md, md_mode = fm_mode md, md_read_only = True,
         md_source_backend = tag\<rparr>)"

definition fold_exists :: "'s fold_frontend \<Rightarrow> string \<Rightarrow> 's \<Rightarrow> string \<Rightarrow> (bool, FsError) outcome" where
  "fold_exists fe tag s p =
     (case fold_metadata fe tag s p of
        Ok _ \<Rightarrow> Ok True
      | Err e \<Rightarrow> if e = NotFound then Ok False else Err e
      | Panic \<Rightarrow> Panic)"

definition fold_read_dir :: "'s fold_frontend \<Rightarrow> 's \<Rightarrow> string \<Rightarrow> (DirEntry list, FsError) outcome" where
  "fold_read_dir fe s p =
     obind (omap_err map_fold_err (ff_read_dir_path fe s p)) (\<lambda>es.
     Ok (map (\<lambda>e. \<lparr>de_name = fd_name e, de_kind = map_kind (fd_kind e),
       de_size = (case ff_metadata fe s (fd_node e) of Ok md \<Rightarrow> fm_size md | _ \<Rightarrow> 0)\<rparr>) es))"

definition lamfold_backend :: "'s fold_frontend \<Rightarrow> string \<Rightarrow> 's backend" where
  "lamfold_backend fe tag =
     \<lparr>bk_read = fold_read fe, bk_read_at = fold_read_at fe, bk_exists = fold_exists fe tag,
      bk_read_dir = fold_read_dir fe, bk_metadata = fold_metadata fe tag\<rparr>"

subsection \<open>The dispatch\<close>

text \<open>A mounted file system: its tag, its backend and the store the backend works on.\<close>

type_synonym 's mounted = "string \<times> 's backend \<times> 's"

record ('a, 's) fs_openers =
  op_ext4 :: "'a \<Rightarrow> ('s mounted, FsError) outcome"
  op_btrfs :: "'a \<Rightarrow> string option \<Rightarrow> ('s mounted, FsError) outcome"
  op_xfs :: "'a \<Rightarrow> ('s mounted, FsError) outcome"
  op_fold :: "ProbedFs \<Rightarrow> 'a \<Rightarrow> ('s, FoldError) outcome"
  op_frontend :: "ProbedFs \<Rightarrow> 's fold_frontend"

definition mount_lamfold :: "('a, 's) fs_openers \<Rightarrow> ProbedFs \<Rightarrow> string \<Rightarrow> 'a \<Rightarrow> ('s mounted, FsError) outcome" where
  "mount_lamfold ops k tag source =
     obind (omap_err map_fold_err (op_fold ops k source)) (\<lambda>fs.
     Ok (tag, lamfold_backend (op_frontend ops k) tag, fs))"

text \<open>The media file systems, which both dispatchers mount.\<close>

fun media_tag :: "ProbedFs \<Rightarrow> string option" where
  "media_tag Erofs = Some ''lamfold-erofs@0.0.1''"
| "media_tag Iso9660 = Some ''lamfold-iso@0.0.1''"
| "media_tag Cramfs = Some ''lamfold-cramfs@0.0.1''"
| "media_tag Romfs = Some ''lamfold-romfs@0.0.1''"
| "media_tag Squashfs = Some ''lamfold-squash@0.0.1''"
| "media_tag Udf = Some ''lamfold-udf@0.0.1''"
| "media_tag _ = None"

definition dispatch_fs_over_source ::
  "'a source \<Rightarrow> ('a, 's) fs_openers \<Rightarrow> 'a \<Rightarrow> string option \<Rightarrow> ('s mounted, FsError) outcome" where
  "dispatch_fs_over_source src ops source btrfs_fs_uuid =
     (case probe_source_superblock src source of
        (source', Ok k) \<Rightarrow>
          (case media_tag k of
             Some tag \<Rightarrow> mount_lamfold ops k tag source'
           | None \<Rightarrow>
               if k = Ext4 then op_ext4 ops source'
               else if k = Btrfs then op_btrfs ops source' btrfs_fs_uuid
               else if k = Xfs then op_xfs ops source'
               else if k = Fat then
                 Err (Unsupported ''FAT over a generic BlockSource is not yet wired (arrives with lamfat)'')
               else Err (Unsupported ''source superblock did not match any supported filesystem''))
      | (source', Err e) \<Rightarrow> Err e
      | (source', Panic) \<Rightarrow> Panic)"

definition dispatch_media_fs_over_source ::
  "'a source \<Rightarrow> ('a, 's) fs_openers \<Rightarrow> 'a \<Rightarrow> ('s mounted, FsError) outcome" where
  "dispatch_media_fs_over_source src ops source =
     (case probe_source_superblock src source of
        (source', Ok k) \<Rightarrow>
          (case media_tag k of
             Some tag \<Rightarrow> mount_lamfold ops k tag source'
           | None \<Rightarrow>
               if k = UnknownFs then Err (Unsupported ''no recognized media filesystem'')
               else Err (Unsupported
                 ''block filesystem (ext4/btrfs/xfs/FAT) has a dedicated boot-sequence mount, not media''))
      | (source', Err e) \<Rightarrow> Err e
      | (source', Panic) \<Rightarrow> Panic)"

subsection \<open>The probe depends on the contents alone\<close>

definition superblock_kind :: "bytes \<Rightarrow> ProbedFs" where
  "superblock_kind b =
     (case classify_superblock (take PROBE_BYTES b) of
        Some k \<Rightarrow> k
      | None \<Rightarrow> if magic_at b UDF_ANCHOR [2, 0] then Udf else UnknownFs)"

lemma magic_at_iff: "m \<noteq> [] \<Longrightarrow> magic_at b off m \<longleftrightarrow> take (length m) (drop off b) = m"
proof
  assume "m \<noteq> []" and t: "take (length m) (drop off b) = m"
  have "min (length b - off) (length m) = length m" using arg_cong [OF t, of length] by (simp add: min.commute)
  then have "off + length m \<le> length b" using \<open>m \<noteq> []\<close> by (cases "length b \<le> off") (auto simp: min_def split: if_splits)
  then show "magic_at b off m" using t by (simp add: magic_at_def)
qed (simp add: magic_at_def)

lemma udf_tag:
  "length (take 2 b) = 2 \<and> (from_le (take 2 b) :: u16) = 2 \<longleftrightarrow> take 2 b = [2, 0]" for b :: bytes
proof
  assume a: "length (take 2 b) = 2 \<and> (from_le (take 2 b) :: u16) = 2"
  then have "take 2 b = to_le (2 :: u16)" using to_le_from_le [of "take 2 b", where ?'w = 16] by simp
  then show "take 2 b = [2, 0]" by (simp add: to_le_def nat_le_numeral)
next
  assume "take 2 b = [2, 0]"
  then show "length (take 2 b) = 2 \<and> (from_le (take 2 b) :: u16) = 2" by (simp add: from_le_def)
qed

context byte_source
begin

lemma probe_fill_correct:
  assumes "valid s" "filled = take (length filled) (drop off (content s))" "pos s = off + length filled"
    and "probe_fill src missing filled s = (s', Ok d)"
  shows "valid s' \<and> content s' = content s \<and> d = take (length filled + missing) (drop off (content s))"
  using assms
proof (induction missing arbitrary: filled s rule: less_induct)
  case (less missing)
  consider (full) "missing = 0" | (eof) "missing \<noteq> 0" "src_read src missing s = (s', Ok [])" "d = filled"
    | (more) s1 got where "missing \<noteq> 0" "src_read src missing s = (s1, Ok got)" "got \<noteq> []"
        "probe_fill src (missing - length got) (filled @ take missing got) s1 = (s', Ok d)"
    using less.prems(4)
    by (auto simp: probe_fill.simps [of src missing] split: prod.splits outcome.splits if_splits)
  then show ?case
  proof cases
    case full
    then show ?thesis using less.prems by (auto simp: probe_fill.simps [of src 0])
  next
    case eof
    have "length (content s) \<le> off + length filled"
      using read_end [OF less.prems(1) eof(2)] eof(1) less.prems(3) by simp
    then have "take (length filled + missing) (drop off (content s)) = take (length filled) (drop off (content s))"
      by simp
    then show ?thesis using read_ok [OF less.prems(1) eof(2)] eof(3) less.prems(2) by simp
  next
    case more
    note k = read_extends [OF less.prems(1-3) more(2)]
    have lt: "missing - length got < missing" using more(1,3) by (cases got) auto
    have "valid s' \<and> content s' = content s1 \<and>
        d = take (length (filled @ got) + (missing - length got)) (drop off (content s1))"
      by (rule less.IH [OF lt k(1) _ k(3) more(4) [unfolded k(5)]]) (simp only: k(2,4))
    then show ?thesis unfolding k(2,6) .
  qed
qed

lemma seek_or_err_ok:
  assumes "valid s"
  shows "\<exists>s'. seek_or_err src p s = (s', Ok ()) \<and> valid s' \<and> content s' = content s \<and> pos s' = p"
  using seek_start [OF assms, of p] by (auto simp: seek_or_err_def abind_def amap_err_def aret_def)

text \<open>A range read between two seeks: the bytes of the range that exist, the source back at its start.\<close>

lemma probe_range:
  assumes "valid s"
    and "abind (seek_or_err src off) (\<lambda>_. abind (probe_fill src n []) (\<lambda>b. abind (seek_or_err src 0) (\<lambda>_. k b))) s =
      (s', Ok r)"
  obtains s1 where "valid s1" "content s1 = content s" "pos s1 = 0" "k (take n (drop off (content s))) s1 = (s', Ok r)"
proof -
  obtain t where t: "seek_or_err src off s = (t, Ok ())" "valid t" "content t = content s" "pos t = off"
    using seek_or_err_ok [OF assms(1)] by blast
  obtain u b where u: "probe_fill src n [] t = (u, Ok b)"
    and r: "abind (seek_or_err src 0) (\<lambda>_. k b) u = (s', Ok r)"
    using assms(2) t(1) by (auto simp: act_simps)
  have c: "valid u" "content u = content s" "b = take n (drop off (content s))"
    using probe_fill_correct [OF t(2) _ _ u, of off] t(3,4) by auto
  obtain s1 where "seek_or_err src 0 u = (s1, Ok ())" "valid s1" "content s1 = content u" "pos s1 = 0"
    using seek_or_err_ok [OF c(1)] by blast
  then show thesis using that [of s1] r c by (simp add: act_simps)
qed

lemma probe_kind:
  assumes "valid s" "probe_source_superblock src s = (s', Ok k)"
  shows "k = superblock_kind (content s) \<and> valid s' \<and> content s' = content s \<and> pos s' = 0"
proof -
  obtain s1 where s1: "valid s1" "content s1 = content s" "pos s1 = 0"
    and r: "(case classify_superblock (take PROBE_BYTES (drop 0 (content s))) of Some k \<Rightarrow> aret k
      | None \<Rightarrow> abind (probe_udf_anchor src) (\<lambda>udf. aret (if udf then Udf else UnknownFs))) s1 = (s', Ok k)"
    by (rule probe_range [OF assms(1) assms(2) [unfolded probe_source_superblock_def]])
  note r = r [unfolded drop_0]
  show ?thesis
  proof (cases "classify_superblock (take PROBE_BYTES (content s))")
    case None
    then obtain udf where u: "probe_udf_anchor src s1 = (s', Ok udf)" "k = (if udf then Udf else UnknownFs)"
      using r by (auto simp: act_simps)
    obtain s2 where s2: "valid s2" "content s2 = content s1" "pos s2 = 0"
      and t: "aret (length (take 2 (drop UDF_ANCHOR (content s1))) = 2 \<and>
        (from_le (take 2 (drop UDF_ANCHOR (content s1))) :: u16) = 2) s2 = (s', Ok udf :: (bool, FsError) outcome)"
      by (rule probe_range [OF s1(1) u(1) [unfolded probe_udf_anchor_def]])
    note t = t [unfolded s1(2) udf_tag]
    have "udf \<longleftrightarrow> magic_at (content s) UDF_ANCHOR [2, 0]"
      using t by (auto simp: act_simps magic_at_iff numeral_2_eq_2)
    moreover have "s' = s2" using t by (simp add: act_simps)
    ultimately show ?thesis using None u(2) s1(2) s2 by (simp add: superblock_kind_def)
  next
    case (Some k')
    then have "s' = s1" "k = k'" using r by (simp_all add: act_simps)
    then show ?thesis using Some s1 by (simp add: superblock_kind_def)
  qed
qed

text \<open>A source whose reads succeed is always classified.\<close>

lemma probe_fill_serves:
  assumes serves: "\<And>s n. valid s \<Longrightarrow> \<exists>s' d. src_read src n s = (s', Ok d)"
    and "valid s"
  shows "\<exists>s' d. probe_fill src missing filled s = (s', Ok d) \<and> valid s'"
  using assms(2)
proof (induction missing arbitrary: filled s rule: less_induct)
  case (less missing)
  obtain s1 got where r: "src_read src missing s = (s1, Ok got)" using serves [OF less.prems] by blast
  have v: "valid s1" using read_ok [OF less.prems r] by blast
  show ?case
  proof (cases "missing = 0 \<or> got = []")
    case True
    then show ?thesis using r v less.prems by (auto simp: probe_fill.simps [of src missing])
  next
    case False
    then show ?thesis
      using less.IH [OF _ v, of "missing - length got" "filled @ take missing got"] r
      by (simp add: probe_fill.simps [of src missing])
  qed
qed

lemma probe_range_serves:
  assumes "\<And>s n. valid s \<Longrightarrow> \<exists>s' d. src_read src n s = (s', Ok d)"
    and "\<And>s b. valid s \<Longrightarrow> \<exists>s' r. k b s = (s', Ok r)" "valid s"
  shows "\<exists>s' r. abind (seek_or_err src off) (\<lambda>_. abind (probe_fill src n []) (\<lambda>b. abind (seek_or_err src 0) (\<lambda>_. k b))) s =
    (s', Ok r)"
proof -
  obtain t where t: "seek_or_err src off s = (t, Ok ())" "valid t" using seek_or_err_ok [OF assms(3)] by blast
  obtain u b where u: "probe_fill src n [] t = (u, Ok b)" "valid u" using probe_fill_serves [OF assms(1) t(2)] by blast
  obtain w where w: "seek_or_err src 0 u = (w, Ok ())" "valid w" using seek_or_err_ok [OF u(2)] by blast
  show ?thesis using assms(2) [OF w(2), of b] t u w by (simp add: abind_def)
qed

lemma probe_serves:
  assumes "\<And>s n. valid s \<Longrightarrow> \<exists>s' d. src_read src n s = (s', Ok d)" "valid s"
  shows "\<exists>s'. probe_source_superblock src s = (s', Ok (superblock_kind (content s)))"
proof -
  have udf: "\<exists>s' r. probe_udf_anchor src t = (s', Ok r)" if "valid t" for t
    unfolding probe_udf_anchor_def by (rule probe_range_serves [OF assms(1) _ that]) (simp_all add: aret_def)
  have "\<exists>s' k. probe_source_superblock src s = (s', Ok k)"
    unfolding probe_source_superblock_def
  proof (rule probe_range_serves [OF assms(1) _ assms(2)])
    fix t b assume "valid t"
    then show "\<exists>s' r. (case classify_superblock b of Some k \<Rightarrow> aret k
        | None \<Rightarrow> abind (probe_udf_anchor src) (\<lambda>udf. aret (if udf then Udf else UnknownFs))) t = (s', Ok r)"
      using udf [of t] by (cases "classify_superblock b") (auto simp: abind_def aret_def)
  qed
  then show ?thesis using probe_kind [OF assms(2)] by blast
qed

end

subsection \<open>The lamfold backend meets the contract of a backend\<close>

text \<open>The contract of a lamfold file system: reads by path return the file, reads of a resolved node return
  bytes of it, possibly fewer than asked for and none only at its end.\<close>

locale fold_file_system =
  fixes fe :: "'s fold_frontend" and content :: "'s \<Rightarrow> string \<Rightarrow> bytes option"
  assumes read_path: "ff_read_path fe s p = Ok d \<Longrightarrow> content s p = Some d"
    and resolve: "ff_resolve fe s p = Ok node \<Longrightarrow> ff_read_at fe s node off n = Ok d \<Longrightarrow>
      \<exists>b. content s p = Some b \<and> length d \<le> n \<and> d = take (length d) (drop off b) \<and> (d = [] \<longrightarrow> n = 0 \<or> length b \<le> off)"
    and resolve_file: "ff_resolve fe s p = Ok node \<Longrightarrow> content s p \<noteq> None"
    and file_bound: "content s p = Some b \<Longrightarrow> length b \<le> USIZE_MAX"
begin

lemma fold_fill_correct:
  assumes "ff_resolve fe s p = Ok node" "content s p = Some b" "filled = take (length filled) (drop off b)"
    and "fold_fill fe s node off missing filled = Ok d"
  shows "d = take (length filled + missing) (drop off b)"
  using assms(3,4)
proof (induction missing arbitrary: filled rule: less_induct)
  case (less missing)
  consider (full) "missing = 0" | (eof) "missing \<noteq> 0" "ff_read_at fe s node (off + length filled) missing = Ok []" "d = filled"
    | (more) got where "missing \<noteq> 0" "ff_read_at fe s node (off + length filled) missing = Ok got" "got \<noteq> []"
        "fold_fill fe s node off (missing - length got) (filled @ take missing got) = Ok d"
    using less.prems(2)
    by (auto simp: fold_fill.simps [of fe s node off missing] split: outcome.splits if_splits)
  then show ?case
  proof cases
    case full
    then show ?thesis using less.prems by (auto simp: fold_fill.simps [of fe s node off 0])
  next
    case eof
    then have "length b \<le> off + length filled" using resolve [OF assms(1) eof(2)] assms(2) by auto
    then have "take (length filled + missing) (drop off b) = take (length filled) (drop off b)" by simp
    then show ?thesis using eof(3) less.prems(1) by simp
  next
    case more
    have k: "length got \<le> missing" "got = take (length got) (drop (off + length filled) b)"
      using resolve [OF assms(1) more(2)] assms(2) by auto
    have t: "take (length filled) (drop off b) = filled" "take (length got) (drop (length filled + off) b) = got"
      using less.prems(1) k(2) by (simp_all add: add.commute)
    have f: "take (length (filled @ got)) (drop off b) = filled @ got" by (simp add: take_add t)
    have lt: "missing - length got < missing" using more(1,3) by (cases got) auto
    have "d = take (length (filled @ got) + (missing - length got)) (drop off b)"
      using more(4) k(1) by (intro less.IH [OF lt f [symmetric]]) simp
    then show ?thesis using k(1) by simp
  qed
qed

end

sublocale fold_file_system \<subseteq> lamfold: medium "lamfold_backend fe tag" content for tag
proof unfold_locales
  fix s p d assume "bk_read (lamfold_backend fe tag) s p = Ok d"
  then show "content s p = Some d"
    by (auto simp: lamfold_backend_def fold_read_def omap_err_Ok_conv intro: read_path)
next
  fix s p off n d assume "bk_read_at (lamfold_backend fe tag) s p off n = Ok d"
  then obtain node where r: "ff_resolve fe s p = Ok node" and f: "fold_fill fe s node off n [] = Ok d"
    by (auto simp: lamfold_backend_def fold_read_at_def obind_Ok_conv omap_err_Ok_conv)
  then obtain b where "content s p = Some b" using resolve_file by blast
  then show "\<exists>b. content s p = Some b \<and> d = take n (drop off b)"
    using fold_fill_correct [OF r _ _ f] by simp
qed (rule file_bound)

text \<open>The probe over the two sources.\<close>

context medium
begin

lemmas region_probe = region.probe_kind
lemmas region_probe_serves = region.probe_serves

end

context block_device
begin

lemmas dev_probe = dev.probe_kind

lemma dev_probe_serves:
  assumes "\<forall>mid lba len. bs dvd len \<longrightarrow> lba * bs + len \<le> length disk \<longrightarrow> (\<exists>b. bi_read_blocks fw h mid lba len = Ok b)"
    and "on_device h bs disk s"
  shows "\<exists>s'. probe_source_superblock (block_io_source fw) s = (s', Ok (superblock_kind disk))"
  by (rule dev.probe_serves [OF block_io_read_serves [OF assms(1)] assms(2)])

end

subsection \<open>A media file system in memory\<close>

text \<open>Files by name; a read of a node returns at most three bytes.\<close>

definition mem_fold_content :: "(string \<times> bytes) list \<Rightarrow> string \<Rightarrow> bytes option" where
  "mem_fold_content s p =
     (case map_of s p of Some b \<Rightarrow> if length b \<le> USIZE_MAX then Some b else None | None \<Rightarrow> None)"

definition mem_fold_node :: "(string \<times> bytes) list \<Rightarrow> string \<Rightarrow> nat" where
  "mem_fold_node s p = length (takeWhile (\<lambda>(q, b). q \<noteq> p) s)"

definition mem_fold :: "(string \<times> bytes) list fold_frontend" where
  "mem_fold =
     \<lparr>ff_read_path = (\<lambda>s p. of_option FoldNotFound (mem_fold_content s p)),
      ff_resolve = (\<lambda>s p. if mem_fold_content s p = None then Err FoldNotFound else Ok (mem_fold_node s p)),
      ff_read_at = (\<lambda>s node off n. Ok (take (min n 3) (drop off (snd (s ! node))))),
      ff_metadata = (\<lambda>s node. Ok \<lparr>fm_kind = FoldRegular, fm_size = length (snd (s ! node)), fm_mode = 0\<rparr>),
      ff_metadata_path = (\<lambda>s p. case mem_fold_content s p of
         None \<Rightarrow> Err FoldNotFound
       | Some b \<Rightarrow> Ok \<lparr>fm_kind = FoldRegular, fm_size = length b, fm_mode = 0\<rparr>),
      ff_read_dir_path = (\<lambda>s p. Ok [])\<rparr>"

lemma take_length_take: "take (length (take k xs)) xs = take k xs"
  by (simp add: min_def)

lemma mem_fold_node_content:
  assumes "map_of s p = Some b"
  shows "snd (s ! mem_fold_node s p) = b"
  using assms by (induction s) (auto simp: mem_fold_node_def split: if_splits)

interpretation memfold: fold_file_system mem_fold mem_fold_content
proof unfold_locales
  fix s p node off n d
  assume r: "ff_resolve mem_fold s p = Ok node" "ff_read_at mem_fold s node off n = Ok d"
  then obtain b where b: "map_of s p = Some b" "length b \<le> USIZE_MAX" "node = mem_fold_node s p"
    by (auto simp: mem_fold_def mem_fold_content_def split: option.splits if_splits)
  then have "d = take (min n 3) (drop off b)" using r(2) mem_fold_node_content [OF b(1)] by (simp add: mem_fold_def)
  then show "\<exists>b. mem_fold_content s p = Some b \<and> length d \<le> n \<and> d = take (length d) (drop off b) \<and>
      (d = [] \<longrightarrow> n = 0 \<or> length b \<le> off)"
    using b by (auto simp only: mem_fold_content_def take_length_take) (auto simp: min_def)
qed (auto simp: mem_fold_def mem_fold_content_def outcome_simps split: option.splits if_splits)

text \<open>Its reads never fail, so a file of it serves every read.\<close>

lemma mem_fold_fill_serves: "\<exists>d. fold_fill mem_fold s node off missing filled = Ok d"
proof (induction missing arbitrary: filled rule: less_induct)
  case (less missing)
  show ?case
    using less [of "missing - length (take (min missing 3) (drop (off + length filled) (snd (s ! node))))"]
    by (auto simp: fold_fill.simps [of _ _ _ _ missing] mem_fold_def)
qed

lemma mem_fold_region_serves:
  assumes "on_file (lamfold_backend mem_fold tag) mem_fold_content f"
  shows "\<exists>f' d. src_read file_source n f = (f', Ok d)"
proof -
  obtain b where b: "mem_fold_content (fb_store f) (fb_path f) = Some b" "fb_backend f = lamfold_backend mem_fold tag"
    using assms by (auto simp: on_file_def)
  have "\<exists>d. bk_read_at (fb_backend f) (fb_store f) (fb_path f) off k = Ok d" for off k
    using b mem_fold_fill_serves by (simp add: lamfold_backend_def fold_read_at_def) (simp add: mem_fold_def)
  then obtain d where "bk_read_at (fb_backend f) (fb_store f) (fb_path f) (fb_position f)
      (min n (fb_len f - fb_position f)) = Ok d" by blast
  then show ?thesis by (simp add: file_source_def file_source_read_def Let_def)
qed

subsection \<open>Images and discs\<close>

text \<open>C16: An image is recognised the same way wherever its bytes are: as a file of a mounted volume, of
  whatever backend, and as a block device of whatever block size.  The result is a function of the bytes
  alone, although the two sources split their reads differently, and both sources are left at their
  start for the file system that is opened over them.\<close>

theorem superblock_probe_is_content_based:
  assumes "medium bk content" "on_file bk content f" "block_device fw h bs disk" "on_device h bs disk d"
    and "file_bytes content f = disk"
    and "probe_source_superblock file_source f = (f', Ok k)"
    and "probe_source_superblock (block_io_source fw) d = (d', Ok k')"
  shows "k = superblock_kind disk \<and> k' = k \<and> fb_position f' = 0 \<and> bs_position d' = 0 \<and>
    on_file bk content f' \<and> file_bytes content f' = disk \<and> on_device h bs disk d'"
  using medium.region_probe [OF assms(1,2,6)] block_device.dev_probe [OF assms(3,4,7)] assms(5) by simp

theorem superblock_probe_is_content_based_witness:
  "\<exists>f d f' d'. file_source_new (lamfold_backend mem_fold ''x'') [(''/a'', [0x68, 0x73, 0x71, 0x73])] ''/a'' = Ok f \<and>
     block_io_open (mem_block_io 4 [0x68, 0x73, 0x71, 0x73]) 0 = Ok d \<and>
     probe_source_superblock file_source f = (f', Ok Squashfs) \<and>
     probe_source_superblock (block_io_source (mem_block_io 4 [0x68, 0x73, 0x71, 0x73])) d = (d', Ok Squashfs)"
proof -
  let ?b = "[0x68, 0x73, 0x71, 0x73] :: bytes" and ?bk = "lamfold_backend mem_fold ''x''"
  let ?fw = "mem_block_io 4 ?b"
  have bd: "block_device ?fw 0 4 ?b" by (rule mem_block_device) (simp_all add: U64_MAX_def dvd_def exI [of _ "1::nat"])
  have "\<exists>f. file_source_new ?bk [(''/a'', ?b)] ''/a'' = Ok f \<and> on_file ?bk mem_fold_content f \<and>
      file_bytes mem_fold_content f = ?b"
    by (simp add: file_source_new_def lamfold_backend_def fold_metadata_def mem_fold_def mem_fold_content_def
        USIZE_MAX_def on_file_def file_bytes_def)
  then obtain f where f: "file_source_new ?bk [(''/a'', ?b)] ''/a'' = Ok f" "on_file ?bk mem_fold_content f"
    "file_bytes mem_fold_content f = ?b" by blast
  have "\<exists>d. block_io_open ?fw 0 = Ok d \<and> on_device 0 4 ?b d"
    by (simp add: block_io_open_def mem_block_io_def from_block_io_def on_device_def sat_add_def sat_mul_def U64_MAX_def)
  then obtain d where d: "block_io_open ?fw 0 = Ok d" "on_device 0 4 ?b d" by blast
  obtain f' k where pf: "probe_source_superblock file_source f = (f', Ok k)"
    using memfold.lamfold.region_probe_serves [OF mem_fold_region_serves [where tag = "''x''"] f(2)] by blast
  have "\<forall>mid lba len. 4 dvd len \<longrightarrow> lba * 4 + len \<le> length ?b \<longrightarrow> (\<exists>b. bi_read_blocks ?fw 0 mid lba len = Ok b)"
    by (simp add: mem_block_io_def)
  from block_device.dev_probe_serves [OF bd this d(2)]
  obtain d' k' where pd: "probe_source_superblock (block_io_source ?fw) d = (d', Ok k')" by blast
  have "superblock_kind ?b = Squashfs" by (simp add: superblock_kind_def classify_superblock_def magic_at_def PROBE_BYTES_def)
  with superblock_probe_is_content_based [OF memfold.lamfold.medium_axioms f(2) bd d(2) f(3) pf pd] pf pd f(1) d(1)
  show ?thesis by metis
qed

end
