(* ===== verification/Iso.thy ===== *)
theory Iso
  imports Bls_Parse
begin

section \<open>Finding the kernel of an ISO image\<close>

text \<open>
  Models of \<open>lamboot-core/src/loopback_cfg.rs\<close> (the extractor for the image's own \<open>loopback.cfg\<close>) and
  \<open>distro_iso.rs\<close> (the table of distribution layouts).  Strings are byte strings; \<open>str::replace\<close>,
  \<open>splitn\<close> and \<open>from_utf8_lossy\<close> are written out.

  The lemmas show that the extractor takes the first menu entry whatever follows it, with its
  command line after substitution, and that the recipe of an image is the first one of the table whose
  markers are all present.
\<close>

subsection \<open>Strings\<close>

function str_replace :: "string \<Rightarrow> string \<Rightarrow> string \<Rightarrow> string" where
  "str_replace pat by_str [] = []"
| "str_replace pat by_str (c # s) =
     (if pat \<noteq> [] \<and> prefix pat (c # s) then by_str @ str_replace pat by_str (drop (length pat) (c # s))
      else c # str_replace pat by_str s)"
  by pat_completeness auto
termination
  by (relation "measure (\<lambda>(pat, by_str, s). length s)") (auto simp: length_greater_0_conv)

text \<open>\<open>from_utf8_lossy\<close>: every maximal ill-formed part becomes one replacement character.  A step
  says whether a character starts here and how many bytes it, or the ill-formed part, has.\<close>

definition in_range :: "nat \<Rightarrow> nat \<Rightarrow> nat list \<Rightarrow> nat \<Rightarrow> bool" where
  "in_range lo hi s i \<longleftrightarrow> i < length s \<and> lo \<le> s ! i \<and> s ! i \<le> hi"

definition utf8_step :: "nat \<Rightarrow> nat list \<Rightarrow> bool \<times> nat" where
  "utf8_step a s =
     (if a < 0x80 then (True, 1)
      else if 0xC2 \<le> a \<and> a \<le> 0xDF then (if in_range 0x80 0xBF s 0 then (True, 2) else (False, 1))
      else if 0xE0 \<le> a \<and> a \<le> 0xEF then
        (if \<not> in_range (if a = 0xE0 then 0xA0 else 0x80) (if a = 0xED then 0x9F else 0xBF) s 0 then (False, 1)
         else if \<not> in_range 0x80 0xBF s 1 then (False, 2) else (True, 3))
      else if 0xF0 \<le> a \<and> a \<le> 0xF4 then
        (if \<not> in_range (if a = 0xF0 then 0x90 else 0x80) (if a = 0xF4 then 0x8F else 0xBF) s 0 then (False, 1)
         else if \<not> in_range 0x80 0xBF s 1 then (False, 2)
         else if \<not> in_range 0x80 0xBF s 2 then (False, 3) else (True, 4))
      else (False, 1))"

function utf8_lossy :: "nat list \<Rightarrow> nat list" where
  "utf8_lossy [] = []"
| "utf8_lossy (a # s) =
     (let (ok, n) = utf8_step a s in
      (if ok then take n (a # s) else [0xEF, 0xBF, 0xBD]) @ utf8_lossy (drop (n - 1) s))"
  by pat_completeness auto
termination
  by (relation "measure length") auto

definition from_utf8_lossy :: "bytes \<Rightarrow> string" where
  "from_utf8_lossy bs = map char_of (utf8_lossy (map unat bs))"

subsection \<open>The image's own configuration\<close>

record LoopbackEntry =
  le_kernel :: string
  le_initrd :: string
  le_options :: string

definition first_word :: "string \<Rightarrow> string" where
  "first_word line = (case split_whitespace line of [] \<Rightarrow> [] | w # _ \<Rightarrow> w)"

fun strip_kw :: "string \<Rightarrow> string list \<Rightarrow> string option" where
  "strip_kw line [] = None"
| "strip_kw line (kw # kws) =
     (case strip_prefix kw line of
        Some (c # r) \<Rightarrow> if is_whitespace c then Some (trim_start (c # r)) else strip_kw line kws
      | _ \<Rightarrow> strip_kw line kws)"

definition count_braces :: "string \<Rightarrow> int" where
  "count_braces line = sum_list (map (\<lambda>c. if c = CHR ''{'' then 1 else if c = CHR ''}'' then -1 else 0) line)"

definition substitute_iso_path :: "string \<Rightarrow> string \<Rightarrow> string" where
  "substitute_iso_path args iso_path =
     str_replace ''$iso_path'' iso_path (str_replace ''${iso_path}'' iso_path args)"

text \<open>The state of the loop.\<close>

record scan_state =
  sc_started :: bool
  sc_depth :: int
  sc_saw_open :: bool
  sc_kernel :: "(string \<times> string) option"
  sc_initrd :: "string option"

definition scan_start :: scan_state where
  "scan_start = \<lparr>sc_started = False, sc_depth = 0, sc_saw_open = False, sc_kernel = None, sc_initrd = None\<rparr>"

definition take_kernel :: "string \<Rightarrow> (string \<times> string) option" where
  "take_kernel line =
     (case strip_kw line [''linux'', ''linux16'', ''linuxefi''] of
        None \<Rightarrow> None
      | Some rest \<Rightarrow>
          let path = takeWhile (\<lambda>c. \<not> is_whitespace c) rest;
              args = trim (drop (length path + 1) rest) in
          if path \<noteq> [] then Some (path, args) else None)"

definition take_initrd :: "string \<Rightarrow> string option" where
  "take_initrd line =
     (case strip_kw line [''initrd'', ''initrd16'', ''initrdefi''] of
        None \<Rightarrow> None
      | Some rest \<Rightarrow> (case split_whitespace rest of [] \<Rightarrow> None | p # _ \<Rightarrow> Some p))"

text \<open>One line: the next state and whether the loop ends here.\<close>

definition scan_line :: "string \<Rightarrow> scan_state \<Rightarrow> scan_state \<times> bool" where
  "scan_line raw s =
     (let line = trim raw in
      if line = [] \<or> prefix ''#'' line then (s, False)
      else if \<not> sc_started s then
        (if first_word line = ''menuentry'' \<or> first_word line = ''submenu'' then
           (let d = sc_depth s + count_braces line in
            (s\<lparr>sc_started := True, sc_depth := d, sc_saw_open := d > 0\<rparr>, False))
         else (s, False))
      else
        let s1 = (if sc_kernel s = None then s\<lparr>sc_kernel := take_kernel line\<rparr> else s);
            s2 = (if sc_initrd s1 = None then s1\<lparr>sc_initrd := take_initrd line\<rparr> else s1);
            d = sc_depth s2 + count_braces line;
            s3 = s2\<lparr>sc_depth := d, sc_saw_open := sc_saw_open s2 \<or> d > 0\<rparr> in
        (s3, sc_saw_open s3 \<and> d \<le> 0 \<or> sc_kernel s3 \<noteq> None \<and> sc_initrd s3 \<noteq> None))"

fun scan_lines :: "string list \<Rightarrow> scan_state \<Rightarrow> scan_state" where
  "scan_lines [] s = s"
| "scan_lines (l # ls) s = (case scan_line l s of (s', stop) \<Rightarrow> if stop then s' else scan_lines ls s')"

definition parse_first_menuentry :: "string \<Rightarrow> string \<Rightarrow> LoopbackEntry option" where
  "parse_first_menuentry cfg iso_path =
     (let s = scan_lines (str_lines cfg) scan_start in
      case sc_kernel s of
        None \<Rightarrow> None
      | Some (k, args) \<Rightarrow>
          (case sc_initrd s of
             None \<Rightarrow> None
           | Some i \<Rightarrow> Some \<lparr>le_kernel = k, le_initrd = i, le_options = substitute_iso_path args iso_path\<rparr>))"

subsection \<open>The table of layouts\<close>

record DistroRecipe =
  dr_family :: string
  dr_markers :: "string list"
  dr_kernel :: "string list"
  dr_initrd :: "string list"
  dr_media_cmdline :: string
  dr_file_cmdline :: string

definition TABLE :: "DistroRecipe list" where
  "TABLE =
     [\<lparr>dr_family = ''arch'', dr_markers = [''/arch/boot''],
       dr_kernel = [''/arch/boot/x86_64/vmlinuz-linux'', ''/arch/boot/vmlinuz-linux''],
       dr_initrd = [''/arch/boot/intel-ucode.img'', ''/arch/boot/amd-ucode.img'',
         ''/arch/boot/x86_64/initramfs-linux.img''],
       dr_media_cmdline = ''archisobasedir=arch archisolabel={label}'',
       dr_file_cmdline = ''archisobasedir=arch img_loop={iso} earlymodules=loop''\<rparr>,
      \<lparr>dr_family = ''ubuntu-casper'', dr_markers = [''/casper''],
       dr_kernel = [''/casper/vmlinuz'', ''/casper/vmlinuz.efi''],
       dr_initrd = [''/casper/initrd'', ''/casper/initrd.lz'', ''/casper/initrd.gz''],
       dr_media_cmdline = ''boot=casper'', dr_file_cmdline = ''boot=casper iso-scan/filename={iso}''\<rparr>,
      \<lparr>dr_family = ''debian-live'', dr_markers = [''/live''],
       dr_kernel = [''/live/vmlinuz*'', ''/live/vmlinuz''],
       dr_initrd = [''/live/initrd.img*'', ''/live/initrd.img''],
       dr_media_cmdline = ''boot=live components'', dr_file_cmdline = ''boot=live components findiso={iso}''\<rparr>,
      \<lparr>dr_family = ''fedora'', dr_markers = [''/LiveOS/squashfs.img''],
       dr_kernel = [''/images/pxeboot/vmlinuz'', ''/boot/x86_64/loader/linux'', ''/isolinux/vmlinuz''],
       dr_initrd = [''/images/pxeboot/initrd.img'', ''/boot/x86_64/loader/initrd'', ''/isolinux/initrd.img''],
       dr_media_cmdline = ''root=live:CDLABEL={label} rd.live.image'',
       dr_file_cmdline = ''root=live:CDLABEL={label} rd.live.image iso-scan/filename={iso}''\<rparr>,
      \<lparr>dr_family = ''opensuse'', dr_markers = [''/boot/x86_64/loader''],
       dr_kernel = [''/boot/x86_64/loader/linux''], dr_initrd = [''/boot/x86_64/loader/initrd''],
       dr_media_cmdline = ''root=live:CDLABEL={label}'',
       dr_file_cmdline = ''root=live:CDLABEL={label} iso-scan/filename={iso}''\<rparr>,
      \<lparr>dr_family = ''alpine'', dr_markers = [''/apks''],
       dr_kernel = [''/boot/vmlinuz-lts'', ''/boot/vmlinuz-virt''],
       dr_initrd = [''/boot/initramfs-lts'', ''/boot/initramfs-virt''],
       dr_media_cmdline = ''alpine_dev=cdrom:iso9660 modules=loop,squashfs,sd-mod,usb-storage quiet'',
       dr_file_cmdline = ''modules=loop,squashfs,sd-mod,usb-storage quiet''\<rparr>]"

definition fingerprint :: "(string \<Rightarrow> bool) \<Rightarrow> DistroRecipe option" where
  "fingerprint ex = find (\<lambda>r. list_all ex (dr_markers r)) TABLE"

definition split_glob :: "string \<Rightarrow> (string \<times> string) option" where
  "split_glob candidate =
     Option.bind (strip_suffix ''*'' candidate) (\<lambda>stripped. rsplit_once (CHR ''/'') stripped)"

text \<open>\<open>max\<close> of an iterator is the last of its greatest elements.\<close>

definition iter_max :: "string list \<Rightarrow> string option" where
  "iter_max xs =
     (case xs of [] \<Rightarrow> None | x # r \<Rightarrow> Some (fold (\<lambda>y best. if rcmp y best = Less then best else y) r x))"

definition glob_pick :: "string list \<Rightarrow> string \<Rightarrow> string option" where
  "glob_pick names pre = iter_max (filter (prefix pre) names)"

definition escape_label :: "string \<Rightarrow> string" where
  "escape_label label = concat (map (\<lambda>c. if c = CHR '' '' then CHR 0x5C # ''x20'' else [c]) label)"

definition render_cmdline :: "string \<Rightarrow> string \<Rightarrow> string \<Rightarrow> string" where
  "render_cmdline template iso_path label =
     str_replace ''{label}'' (escape_label label) (str_replace ''{iso}'' iso_path template)"

subsection \<open>What the two resolvers return\<close>

lemma fold_max:
  "fold (\<lambda>y best. if rcmp y best = Less then best else y) r x \<in> set (x # r) \<and>
   (\<forall>y\<in>set (x # r). y \<le> fold (\<lambda>y best. if rcmp y best = Less then best else y) r (x :: string))"
proof (induction r arbitrary: x)
  case (Cons y r)
  show ?case
  proof (cases "rcmp y x = Less")
    case True
    then have "y < x" by simp
    then show ?thesis using Cons [of x] True by auto
  next
    case False
    then have "x \<le> y" by auto
    then show ?thesis using Cons [of y] False by auto
  qed
qed simp

lemma glob_pick_greatest:
  assumes "glob_pick names pre = Some n"
  shows "n \<in> set names \<and> prefix pre n \<and> (\<forall>m\<in>set names. prefix pre m \<longrightarrow> m \<le> n)"
proof -
  obtain x r where f: "filter (prefix pre) names = x # r"
    and n: "n = fold (\<lambda>y best. if rcmp y best = Less then best else y) r x"
    using assms by (auto simp: glob_pick_def iter_max_def split: list.splits)
  have "set (x # r) = {m \<in> set names. prefix pre m}" unfolding f [symmetric] by auto
  then show ?thesis using fold_max [of r x] unfolding n by blast
qed

lemma glob_pick_none: "glob_pick names pre = None \<longleftrightarrow> (\<forall>m\<in>set names. \<not> prefix pre m)"
proof -
  have "glob_pick names pre = None \<longleftrightarrow> filter (prefix pre) names = []"
    by (simp add: glob_pick_def iter_max_def split: list.split)
  then show ?thesis unfolding filter_empty_conv .
qed

text \<open>The doc comment asks for the newest kernel; versions are not ordered like strings.\<close>

lemma glob_pick_not_newest:
  "glob_pick [''vmlinuz-6.1.0-9-amd64'', ''vmlinuz-6.1.0-10-amd64''] ''vmlinuz'' = Some ''vmlinuz-6.1.0-9-amd64''"
  by code_simp

text \<open>Lines in front of the first entry are skipped; the entry's kernel and initrd lines end the scan.\<close>

definition opens_entry :: "string \<Rightarrow> bool" where
  "opens_entry raw \<longleftrightarrow>
     (let line = trim raw in
      line \<noteq> [] \<and> \<not> prefix ''#'' line \<and> (first_word line = ''menuentry'' \<or> first_word line = ''submenu''))"

definition plain_line :: "string \<Rightarrow> bool" where
  "plain_line raw \<longleftrightarrow> trim raw \<noteq> [] \<and> \<not> prefix ''#'' (trim raw) \<and> count_braces (trim raw) \<ge> 0"

lemma scan_skips: "list_all (\<lambda>l. \<not> opens_entry l) pre \<Longrightarrow> \<not> sc_started s \<Longrightarrow> scan_lines (pre @ ls) s = scan_lines ls s"
  by (induction pre) (auto simp: scan_line_def opens_entry_def Let_def)

lemma scan_entry:
  assumes "opens_entry h" "count_braces (trim h) > 0" "plain_line l" "plain_line i"
    and "take_kernel (trim l) = Some k" "take_initrd (trim l) = None" "take_initrd (trim i) = Some p"
  shows "sc_kernel (scan_lines (h # l # i # rest) scan_start) = Some k \<and>
    sc_initrd (scan_lines (h # l # i # rest) scan_start) = Some p"
proof -
  have h: "scan_line h scan_start =
      (scan_start\<lparr>sc_started := True, sc_depth := count_braces (trim h), sc_saw_open := True\<rparr>, False)"
    using assms(1,2) by (simp add: scan_line_def opens_entry_def Let_def scan_start_def)
  show ?thesis
    using assms by (simp add: h) (simp add: scan_line_def plain_line_def Let_def scan_start_def)
qed

lemma first_entry_wins:
  assumes "str_lines cfg = pre @ h # l # i # rest" "list_all (\<lambda>l. \<not> opens_entry l) pre"
    and "opens_entry h" "count_braces (trim h) > 0" "plain_line l" "plain_line i"
    and "take_kernel (trim l) = Some (k, args)" "take_initrd (trim l) = None" "take_initrd (trim i) = Some p"
  shows "parse_first_menuentry cfg iso_path =
    Some \<lparr>le_kernel = k, le_initrd = p, le_options = substitute_iso_path args iso_path\<rparr>"
proof -
  have s: "scan_lines (str_lines cfg) scan_start = scan_lines (h # l # i # rest) scan_start"
    unfolding assms(1) by (rule scan_skips [OF assms(2)]) (simp add: scan_start_def)
  show ?thesis
    using scan_entry [OF assms(3-9), of rest] unfolding parse_first_menuentry_def Let_def s by simp
qed

text \<open>The recipe of an image: its markers are all there, and no earlier recipe has that.\<close>

lemma fingerprint_first:
  assumes "fingerprint ex = Some r"
  shows "list_all ex (dr_markers r) \<and>
    (\<exists>pre post. TABLE = pre @ r # post \<and> (\<forall>q\<in>set pre. \<not> list_all ex (dr_markers q)))"
proof -
  obtain i where i: "i < length TABLE" "list_all ex (dr_markers (TABLE ! i))" "r = TABLE ! i"
    "\<forall>j<i. \<not> list_all ex (dr_markers (TABLE ! j))"
    using assms unfolding fingerprint_def find_Some_iff by blast
  have "TABLE = take i TABLE @ r # drop (Suc i) TABLE" using i id_take_nth_drop by blast
  moreover have "\<forall>q\<in>set (take i TABLE). \<not> list_all ex (dr_markers q)"
    using i(1,4) by (auto simp: in_set_conv_nth)
  ultimately show ?thesis using i(2,3) by blast
qed

end
