(* ===== verification/Iso_Boot.thy ===== *)
theory Iso_Boot
  imports Boot Media Iso
begin

section \<open>Booting from an image, and the dispatch on the entry\<close>

text \<open>
  The rest of \<open>lamboot-core/src/boot.rs\<close>: mounting an image that is a file of a volume or an optical
  disc, finding its kernel and initrds, the shared boot of what was found, and \<open>boot_entry\<close>, which sends an
  entry to the function for its kind.

  The mounted image is a volume of its own that lives as long as the function; \<open>iso_firmware\<close> gathers the
  block device and the functions that open a file system over a source.  The theorems are about every kind
  of entry: what has been checked and measured before an image is started, and where that fails.
\<close>

subsection \<open>Mounting and resolving\<close>

record 's iso_firmware =
  io_block :: block_io
  io_file_openers :: "('s FileBlockSource, 's) fs_openers"
  io_disc_openers :: "(BlockIoSource, 's) fs_openers"

definition volume_from_backend :: "'s mounted \<Rightarrow> 's volume" where
  "volume_from_backend = (\<lambda>(tag, bk, store).
     \<lparr>vol_backend_tag = tag, vol_backend = bk, vol_store = store, vol_cache = cache_new, vol_has_handle = False,
      vol_shared = False\<rparr>)"

definition share_volume :: "nat \<Rightarrow> 's machine \<Rightarrow> 's machine" where
  "share_volume i m = m\<lparr>mc_volumes := (mc_volumes m)[i := share_backend (mc_volumes m ! i)]\<rparr>"

definition fs_step :: "('s machine \<Rightarrow> ('a, FsError) outcome) \<Rightarrow> ('s, 'a) boot" where
  "fs_step g = alift (\<lambda>m. omap_err (Failed \<circ> to_uefi_status) (g m))"

definition resolve_candidate :: "'s volume \<Rightarrow> string \<Rightarrow> string option" where
  "resolve_candidate v candidate =
     (case split_glob candidate of
        Some (dir, pre) \<Rightarrow>
          (case read_dir_str dir v of
             Ok names \<Rightarrow> map_option (\<lambda>pick. dir @ ''/'' @ pick) (glob_pick names pre)
           | _ \<Rightarrow> None)
      | None \<Rightarrow> if exists_str candidate v then Some candidate else None)"

definition find_map :: "('a \<Rightarrow> 'b option) \<Rightarrow> 'a list \<Rightarrow> 'b option" where
  "find_map f xs = (case List.map_filter f xs of [] \<Rightarrow> None | y # _ \<Rightarrow> Some y)"

definition resolve_recipe :: "'s volume \<Rightarrow> DistroRecipe \<Rightarrow> (string \<times> string list) option" where
  "resolve_recipe v recipe =
     (case find_map (resolve_candidate v) (dr_kernel recipe) of
        None \<Rightarrow> None
      | Some kpath \<Rightarrow> Some (kpath, List.map_filter (resolve_candidate v) (dr_initrd recipe)))"

subsection \<open>The shared tail\<close>

text \<open>The initrd components that can be read, concatenated in order; the others are skipped.\<close>

fun iso_initrds :: "string list \<Rightarrow> 's volume \<Rightarrow> bytes \<Rightarrow> bytes" where
  "iso_initrds [] v acc = acc"
| "iso_initrds (p # ps) v acc =
     (case read_str p v of
        (v', Ok d) \<Rightarrow> iso_initrds ps v' (acc @ d)
      | (v', _) \<Rightarrow> iso_initrds ps v' acc)"

definition iso_load ::
  "'s platform \<Rightarrow> VerifiedBytes \<Rightarrow> bytes \<Rightarrow> string \<Rightarrow> string \<Rightarrow> string \<Rightarrow> Policy \<Rightarrow> FirmwareQuirks \<Rightarrow> ('s, u64) boot" where
  "iso_load pl v bytes options iso_tag path policy quirks =
     (let mode = po_loader_native_pe policy; firmware_load = firmware_load_and_start pl bytes options mode path in
      case choose_load_path mode (vb_sb_state v) of
        PathNative \<Rightarrow>
          native_with_fallback (native_load_and_start pl v options iso_tag path quirks)
            (rec (with_note ''reason=native_pe_load_error route=firmware''
              (with_path path (te_new ''iso_native_load_fallback''))))
            firmware_load
      | PathFirmware \<Rightarrow> firmware_load)"

definition iso_boot_resolved ::
  "'s platform \<Rightarrow> 's volume \<Rightarrow> string \<Rightarrow> string \<Rightarrow> string \<Rightarrow> string list \<Rightarrow> string \<Rightarrow> Policy \<Rightarrow> FirmwareQuirks \<Rightarrow>
     SecureBootState \<Rightarrow> ('s, u64) boot" where
  "iso_boot_resolved pl iso_vol iso_tag label_for_log kpath ipaths options policy quirks sb =
     abind (fs_step (\<lambda>_. snd (read_str kpath iso_vol))) (\<lambda>kern.
     let initrd = iso_initrds ipaths (fst (read_str kpath iso_vol)) [] in
     abind (steps
       [rec (with_note (''kernel='' @ kpath @ '' kbytes='' @ dec (length kern) @ '' ibytes='' @
          dec (length initrd) @ '' label='' @ label_for_log) (te_new ''iso_path_a_resolved''))]) (\<lambda>_.
     abind (steps ([measure_kernel_logged pl kern kpath] @
       (if options \<noteq> [] then [measure_cmdline_logged pl options kpath] else []))) (\<lambda>_.
     abind (verify_kernel_bytes pl kern kpath sb) (\<lambda>verified.
     case verified of
       None \<Rightarrow> afail (Failed ''SECURITY_VIOLATION'')
     | Some v \<Rightarrow>
         abind (if initrd = [] then aret False else try_register pl initrd) (\<lambda>handle.
         with_initrd handle (iso_load pl v kern options iso_tag kpath policy quirks))))))"

subsection \<open>The two kinds of image\<close>

definition LOOPBACK_CFG :: string where "LOOPBACK_CFG = ''/boot/grub/loopback.cfg''"

text \<open>The fallback of both: the recipe of the layout.  The mounted volume has no label.\<close>

definition boot_recipe ::
  "'s platform \<Rightarrow> 's volume \<Rightarrow> string \<Rightarrow> string \<Rightarrow> (DistroRecipe \<Rightarrow> string) \<Rightarrow> string \<Rightarrow> Policy \<Rightarrow> FirmwareQuirks \<Rightarrow>
     SecureBootState \<Rightarrow> ('s, u64) boot" where
  "boot_recipe pl iso_vol tag log_label cmdline origin policy quirks sb =
     (case fingerprint (\<lambda>p. exists_str p iso_vol) of
        None \<Rightarrow> afail (Failed ''UNSUPPORTED'')
      | Some recipe \<Rightarrow>
          (case resolve_recipe iso_vol recipe of
             None \<Rightarrow> afail (Failed ''UNSUPPORTED'')
           | Some (kpath, ipaths) \<Rightarrow>
               abind (steps [rec (with_note (''family='' @ dr_family recipe @ '' source='' @ origin)
                 (te_new ''iso_path_a2_distro''))]) (\<lambda>_.
               iso_boot_resolved pl iso_vol tag log_label kpath ipaths (cmdline recipe) policy quirks sb)))"

definition boot_mounted_iso ::
  "'s platform \<Rightarrow> 's volume \<Rightarrow> string \<Rightarrow> string \<Rightarrow> Policy \<Rightarrow> FirmwareQuirks \<Rightarrow> SecureBootState \<Rightarrow> ('s, u64) boot" where
  "boot_mounted_iso pl iso_vol tag ipath policy quirks sb =
     (let recipe = boot_recipe pl (fst (read_str LOOPBACK_CFG iso_vol)) tag ipath
            (\<lambda>r. render_cmdline (dr_file_cmdline r) ipath [])
            (''file iso='' @ ipath) policy quirks sb in
      case read_str LOOPBACK_CFG iso_vol of
        (v, Ok cfg) \<Rightarrow>
          (case parse_first_menuentry (from_utf8_lossy cfg) ipath of
             Some e \<Rightarrow>
               iso_boot_resolved pl v tag ipath (le_kernel e) [le_initrd e] (le_options e) policy quirks sb
           | None \<Rightarrow> recipe)
      | (v, _) \<Rightarrow> recipe)"

definition boot_iso ::
  "'s platform \<Rightarrow> 's iso_firmware \<Rightarrow> nat \<Rightarrow> string \<Rightarrow> Policy \<Rightarrow> FirmwareQuirks \<Rightarrow> SecureBootState \<Rightarrow> ('s, u64) boot" where
  "boot_iso pl ifw holding_index ipath policy quirks sb =
     abind (alift (\<lambda>m. if holding_index < length (mc_volumes m) then Ok () else Err (Failed ''ABORTED''))) (\<lambda>_.
     abind (steps [share_volume holding_index]) (\<lambda>_.
     abind (alift (\<lambda>_. omap_err (\<lambda>_. Failed ''INVALID_PARAMETER'') (path_from_str ipath))) (\<lambda>path.
     abind (fs_step (\<lambda>m. let v = mc_volumes m ! holding_index in
       file_source_new (vol_backend v) (vol_store v) path)) (\<lambda>src.
     abind (fs_step (\<lambda>_. dispatch_fs_over_source file_source (io_file_openers ifw) src None)) (\<lambda>mounted.
     abind (steps [rec (with_note (''iso_path='' @ ipath @ '' backend='' @ fst mounted @ '' holding_index='' @
       dec holding_index) (te_new ''iso_mounted''))]) (\<lambda>_.
     boot_mounted_iso pl (volume_from_backend mounted) (fst mounted) ipath policy quirks sb))))))"

definition boot_iso_optical ::
  "'s platform \<Rightarrow> 's iso_firmware \<Rightarrow> nat \<Rightarrow> string \<Rightarrow> Policy \<Rightarrow> FirmwareQuirks \<Rightarrow> SecureBootState \<Rightarrow> ('s, u64) boot" where
  "boot_iso_optical pl ifw h label policy quirks sb =
     abind (fs_step (\<lambda>_. block_io_open_shared (io_block ifw) h)) (\<lambda>src.
     abind (fs_step (\<lambda>_. dispatch_fs_over_source (block_io_source (io_block ifw)) (io_disc_openers ifw) src None)) (\<lambda>mounted.
     abind (steps [rec (with_note (''label='' @ label @ '' backend='' @ fst mounted)
       (te_new ''iso_optical_mounted''))]) (\<lambda>_.
     boot_recipe pl (volume_from_backend mounted) (fst mounted) label
       (\<lambda>r. render_cmdline (dr_media_cmdline r) [] label)
       (''optical label='' @ label) policy quirks sb)))"

subsection \<open>The dispatch\<close>

definition boot_kind ::
  "'s platform \<Rightarrow> 's iso_firmware \<Rightarrow> BootEntry \<Rightarrow> Policy \<Rightarrow> FirmwareQuirks \<Rightarrow> SecureBootState \<Rightarrow> ('s, u64) boot" where
  "boot_kind pl ifw entry policy quirks sb =
     (case en_kind entry of
        Chainload path \<Rightarrow> chainload_efi pl path quirks
      | Uki path options \<Rightarrow> boot_uki pl path options policy quirks sb
      | LinuxLegacy kpath initrds options \<Rightarrow> boot_linux pl kpath initrds options policy quirks sb
      | Iso (IsoFile ipath) \<Rightarrow> boot_iso pl ifw (en_source_volume_index entry) ipath policy quirks sb
      | Iso (IsoOptical h label) \<Rightarrow> boot_iso_optical pl ifw h label policy quirks sb)"

definition boot_entry ::
  "'s platform \<Rightarrow> 's iso_firmware \<Rightarrow> BootEntry \<Rightarrow> Policy \<Rightarrow> FirmwareQuirks \<Rightarrow> SecureBootState \<Rightarrow> ('s, u64) boot" where
  "boot_entry pl ifw entry policy quirks sb m =
     (if mc_volumes m = [] then (m, Err (Failed ''ABORTED''))
      else abind (steps
        [crumb pl (''boot_entry: name='' @ en_name entry @ '' id='' @ en_id entry),
         crumb pl ''BOOTENTRY3 after_split'']) (\<lambda>_.
        boot_kind pl ifw entry policy quirks sb) m)"

subsection \<open>Every kind of entry\<close>

lemma iso_load_triple:
  assumes "boot_assms sec tpm pl (po_loader_native_pe policy) sb"
  shows "fwt (token_ok sec tpm tr0 data sb (Some v)) (iso_load pl v data options tag path policy quirks)
     (\<lambda>_. st sec tpm tr0 False False []) (st sec tpm tr0 False False [])"
  unfolding iso_load_def Let_def
  by (cases "choose_load_path (po_loader_native_pe policy) (vb_sb_state v)")
    (auto intro!: native_with_fallback_triple [OF assms]
       fwt_pre [OF firmware_path_triple [OF assms]] token_ok_measured simp: machine_simps)

lemma fs_step_triple: "(\<And>f. R f \<Longrightarrow> E f) \<Longrightarrow> fwt R (fs_step g) (\<lambda>_. R) E"
  unfolding fs_step_def by (rule fwt_alift_keep)

lemma iso_boot_resolved_triple:
  assumes "boot_assms sec tpm pl (po_loader_native_pe policy) sb"
  shows "fwt (st sec tpm tr0 False False [])
     (iso_boot_resolved pl v tag lbl kpath ipaths options policy quirks sb)
     (\<lambda>_. st sec tpm tr0 False False []) (st sec tpm tr0 False False [])"
  unfolding iso_boot_resolved_def Let_def
proof (rule fwt_abind [OF fs_step_triple], assumption,
    rule fwt_abind [OF fwt_steps_keep], simp add: machine_simps,
    rule fwt_abind [OF measure_steps_triple [OF assms]], rule fwt_abind [OF verify_kernel_bytes_triple])
  fix data verified
  let ?ird = "iso_initrds ipaths (fst (read_str kpath v)) []"
  show "fwt (token_ok sec tpm tr0 data sb verified)
     (case verified of
        None \<Rightarrow> afail (Failed ''SECURITY_VIOLATION'')
      | Some w \<Rightarrow>
          abind (if ?ird = [] then aret False else try_register pl ?ird) (\<lambda>handle.
          with_initrd handle (iso_load pl w data options tag kpath policy quirks)))
     (\<lambda>_. st sec tpm tr0 False False []) (st sec tpm tr0 False False [])"
  proof (cases verified)
    case None
    then show ?thesis by (auto intro!: fwt_pure intro: token_ok_forget)
  next
    case (Some w)
    have "akeeps quiet (if ?ird = [] then aret False else try_register pl ?ird)"
      by (simp add: try_register_quiet akeeps_quiet)
    then have "fwt (token_ok sec tpm tr0 data sb (Some w)) (if ?ird = [] then aret False else try_register pl ?ird)
        (\<lambda>_. token_ok sec tpm tr0 data sb (Some w)) (st sec tpm tr0 False False [])"
      by (rule fwt_quiet) (auto intro: token_ok_quiet token_ok_forget)
    then show ?thesis
      unfolding Some option.case by (rule fwt_abind) (rule with_initrd_triple [OF iso_load_triple [OF assms]])
  qed
qed

lemma boot_recipe_triple:
  assumes "boot_assms sec tpm pl (po_loader_native_pe policy) sb"
  shows "fwt (st sec tpm tr0 False False []) (boot_recipe pl v tag lbl cmd origin policy quirks sb)
     (\<lambda>_. st sec tpm tr0 False False []) (st sec tpm tr0 False False [])"
  unfolding boot_recipe_def
  by (auto intro!: fwt_pure fwt_abind [OF fwt_steps_keep] iso_boot_resolved_triple [OF assms]
      simp: machine_simps split: option.split)

lemma boot_mounted_iso_triple:
  assumes "boot_assms sec tpm pl (po_loader_native_pe policy) sb"
  shows "fwt (st sec tpm tr0 False False []) (boot_mounted_iso pl v tag ipath policy quirks sb)
     (\<lambda>_. st sec tpm tr0 False False []) (st sec tpm tr0 False False [])"
  unfolding boot_mounted_iso_def Let_def
  by (auto intro!: boot_recipe_triple [OF assms] iso_boot_resolved_triple [OF assms]
      split: prod.split outcome.split option.split)

lemma share_volume_fw [machine_simps]: "mc_fw (share_volume i m) = mc_fw m"
  by (simp add: share_volume_def)

lemma boot_iso_triple:
  assumes "boot_assms sec tpm pl (po_loader_native_pe policy) sb"
  shows "fwt (st sec tpm tr0 False False []) (boot_iso pl ifw i ipath policy quirks sb)
     (\<lambda>_. st sec tpm tr0 False False []) (st sec tpm tr0 False False [])"
  unfolding boot_iso_def
  by (rule fwt_abind [OF fwt_alift_keep], assumption,
      rule fwt_abind [OF fwt_steps_keep], simp add: machine_simps,
      rule fwt_abind [OF fwt_alift_keep], assumption,
      rule fwt_abind [OF fs_step_triple], assumption,
      rule fwt_abind [OF fs_step_triple], assumption,
      rule fwt_abind [OF fwt_steps_keep], simp add: machine_simps,
      rule boot_mounted_iso_triple [OF assms])

lemma boot_iso_optical_triple:
  assumes "boot_assms sec tpm pl (po_loader_native_pe policy) sb"
  shows "fwt (st sec tpm tr0 False False []) (boot_iso_optical pl ifw h lbl policy quirks sb)
     (\<lambda>_. st sec tpm tr0 False False []) (st sec tpm tr0 False False [])"
  unfolding boot_iso_optical_def
  by (rule fwt_abind [OF fs_step_triple], assumption,
      rule fwt_abind [OF fs_step_triple], assumption,
      rule fwt_abind [OF fwt_steps_keep], simp add: machine_simps,
      rule boot_recipe_triple [OF assms])

lemma boot_kind_triple:
  assumes "boot_assms sec tpm pl (po_loader_native_pe policy) sb"
  shows "fwt (st sec tpm tr0 False False []) (boot_kind pl ifw entry policy quirks sb)
     (\<lambda>_. st sec tpm tr0 False False []) (st sec tpm tr0 False False [])"
  unfolding boot_kind_def
  using chainload_efi_triple [OF assms] boot_uki_triple [OF assms] boot_linux_triple [OF assms]
    boot_iso_triple [OF assms] boot_iso_optical_triple [OF assms]
  by (auto split: EntryKind.split IsoSource.split)

lemma boot_entry_st:
  assumes "boot_assms sec tpm pl (po_loader_native_pe policy) sb" "st sec tpm tr0 False False [] (mc_fw m)"
  shows "st sec tpm tr0 False False [] (mc_fw (fst (boot_entry pl ifw entry policy quirks sb m)))"
proof (cases "mc_volumes m = []")
  case False
  let ?cs = "[crumb pl (''boot_entry: name='' @ en_name entry @ '' id='' @ en_id entry),
         crumb pl ''BOOTENTRY3 after_split'']"
  have "fwt (st sec tpm tr0 False False []) (abind (steps ?cs) (\<lambda>_. boot_kind pl ifw entry policy quirks sb))
      (\<lambda>_. st sec tpm tr0 False False []) (st sec tpm tr0 False False [])"
    by (rule fwt_abind [OF fwt_steps_keep], simp add: machine_simps, rule boot_kind_triple [OF assms(1)])
  then show ?thesis
    using ahoare_any [where s = m] assms(2) False unfolding fwt_def boot_entry_def by fastforce
qed (use assms in \<open>simp add: boot_entry_def\<close>)

subsection \<open>What is started has been checked and measured\<close>

text \<open>A firmware without block devices that mounts nothing, an entry, and the quiet quirks.\<close>

definition no_openers :: "('a, 's) fs_openers" where
  "no_openers =
     \<lparr>op_ext4 = (\<lambda>_. Err NotFound), op_btrfs = (\<lambda>_ _. Err NotFound), op_xfs = (\<lambda>_. Err NotFound),
      op_fold = (\<lambda>_ _. Err FoldNotFound), op_frontend = (\<lambda>_.
        \<lparr>ff_read_path = (\<lambda>_ _. Err FoldNotFound), ff_resolve = (\<lambda>_ _. Err FoldNotFound),
         ff_read_at = (\<lambda>_ _ _ _. Err FoldNotFound), ff_metadata = (\<lambda>_ _. Err FoldNotFound),
         ff_metadata_path = (\<lambda>_ _. Err FoldNotFound), ff_read_dir_path = (\<lambda>_ _. Err FoldNotFound)\<rparr>)\<rparr>"

definition sample_iso_firmware :: "mem_state iso_firmware" where
  "sample_iso_firmware =
     \<lparr>io_block = mem_block_io 4 [], io_file_openers = no_openers, io_disc_openers = no_openers\<rparr>"

definition sample_entry :: "EntryKind \<Rightarrow> BootEntry" where
  "sample_entry k =
     \<lparr>en_id = ''e'', en_name = ''E'', en_kind = k, en_icon = IconLinux, en_bls_filename = None, en_preflight = None,
      en_source_volume_index = 0, en_source_backend_tag = ''fat''\<rparr>"

definition quiet_quirks :: FirmwareQuirks where "quiet_quirks = \<lparr>conout_fat_coupling = True\<rparr>"

lemma crumb_off:
  assumes "mc_volumes m \<noteq> []" "\<not> dg_enabled (mc_diag m)"
  shows "crumb pl msg m = m"
proof -
  have "(mc_volumes m)[0 := hd (mc_volumes m)] = mc_volumes m" using assms(1) by (cases "mc_volumes m") auto
  then show ?thesis using assms(2) by (simp add: crumb_def diag_append_def esp_of_def)
qed

lemma crumb_flush_off:
  assumes "mc_volumes m \<noteq> []" "dg_buf (mc_diag m) = None"
  shows "crumb_flush pl m = m"
proof -
  have "(mc_volumes m)[0 := hd (mc_volumes m)] = mc_volumes m" using assms(1) by (cases "mc_volumes m") auto
  then show ?thesis using assms(2) by (simp add: crumb_flush_def diag_flush_def esp_of_def)
qed

lemma sample_read:
  assumes "length b \<le> MAX_BOOT_FILE_BYTES"
  shows "\<exists>v. read_str ''/a'' (sample_volume [([bslash, CHR ''a''], b)]) = (v, Ok b)"
  using assms by (simp add: read_str_def short_pe_defs)

lemma sample_tag: "vol_backend_tag (sample_volume files) = FAT_TAG"
  by (simp add: sample_volume_def demo_volume_def)

lemmas sample_run = sample_machine_def steps_def abind_def crumb_off crumb_flush_off boot_kind_def sample_entry_def
  on_volume_def measure_kernel_def measure_pcr_def sample_platform_def call_def rec_def PCR_BOOT_CODE_def Let_def
  on_fw_def load_efi_image_from_buffer_def install_security_override_def uninstall_security_override_def
  sample_boot_fw_def installed_auth_def hook_security2_def shim_validate_def shim_verify_def fresh_fw_def
  idle_override_def on_override_def emit_def quiet_flush_def quiet_quirks_def aret_def alift_def

text \<open>A chainload on the sample machine: measured, checked by shim, loaded, started.\<close>

lemma sample_chainload:
  "\<exists>m. boot_entry (sample_platform True [[77, 90]] []) sample_iso_firmware
     (sample_entry (Chainload ''/a'')) default_policy quiet_quirks ActiveWithShim
     (sample_machine [([bslash, CHR ''a''], [77, 90])]) = (m, Err HandedOver) \<and>
   fs_trace (mc_fw m) = [Extend 4 [77, 90] True, ShimVerify [77, 90] True, FirmwareLoad [77, 90] 2, FirmwareStart 2]"
proof -
  obtain v where v: "read_str ''/a'' (sample_volume [([bslash, CHR ''a''], [77, 90])]) = (v, Ok [77, 90])"
    using sample_read [of "[77, 90]"] by (auto simp: MAX_BOOT_FILE_BYTES_def)
  show ?thesis
    by (simp add: boot_entry_def chainload_efi_def chainload_measure_def enter_firmware_def v sample_run)
qed

lemma boot_entry_starts:
  assumes "boot_assms sec tpm pl (po_loader_native_pe policy) sb" "idle (fs_override (mc_fw m))"
    and "boot_entry pl ifw entry policy quirks sb m = (m', r)"
  shows "idle (fs_override (mc_fw m')) \<and>
    (\<exists>ext. fs_trace (mc_fw m') = fs_trace (mc_fw m) @ ext \<and> starts_ok sec tpm (fs_trace (mc_fw m)) ext)"
proof -
  have "st sec tpm (fs_trace (mc_fw m)) False False [] (mc_fw m)"
    by (rule stI [where ext = "[]"]) (simp_all add: assms(2) starts_ok_def good_def)
  then have "st sec tpm (fs_trace (mc_fw m)) False False [] (mc_fw m')"
    using boot_entry_st [OF assms(1)] assms(3) by (metis fst_conv)
  then show ?thesis by (auto simp: st_def)
qed

text \<open>C1: Under Secure Boot nothing unauthenticated is started.  Whatever the entry is (an EFI program, a
  unified kernel image, a Linux kernel, an image file or an optical disc), whatever the files and
  volumes hold and whatever the firmware answers, if the posture is an active one and the policy does not
  force the native loader, then every image that is started during the boot, by the firmware or by the
  native loader, is one whose very bytes shim or the firmware's own check accepted earlier in this boot;
  and the firmware's authentication hooks are afterwards as they were.  The firmware is only
  assumed to refuse images its installed authentication function refuses.\<close>

theorem started_images_are_authenticated:
  assumes "image_authentication (pl_fw pl)" "idle (fs_override (mc_fw m))"
    and "po_loader_native_pe policy \<noteq> PeAlways" "sb \<noteq> SbDisabled"
    and "boot_entry pl ifw entry policy quirks sb m = (m', r)"
  shows "idle (fs_override (mc_fw m')) \<and>
    (\<exists>ext. fs_trace (mc_fw m') = fs_trace (mc_fw m) @ ext \<and>
      (\<forall>i < length ext. is_start (ext ! i) \<longrightarrow>
        (\<exists>b. image_of (fs_trace (mc_fw m) @ take i ext) (ext ! i) = Some b \<and> checked (take i ext) b)))"
proof -
  have "boot_assms True False pl (po_loader_native_pe policy) sb"
    using assms by (simp add: boot_assms_def image_authentication.axioms(1))
  from boot_entry_starts [OF this assms(2,5)] show ?thesis by (simp add: starts_ok_def good_def)
qed

theorem started_images_are_authenticated_witness:
  "\<exists>m. boot_entry (sample_platform True [[77, 90]] []) sample_iso_firmware (sample_entry (Chainload ''/a''))
       default_policy quiet_quirks ActiveWithShim (sample_machine [([bslash, CHR ''a''], [77, 90])]) =
       (m, Err HandedOver) \<and>
     fs_trace (mc_fw m) = [Extend 4 [77, 90] True, ShimVerify [77, 90] True, FirmwareLoad [77, 90] 2, FirmwareStart 2] \<and>
     (\<exists>b. image_of (take 3 (fs_trace (mc_fw m))) (fs_trace (mc_fw m) ! 3) = Some b \<and>
        checked (take 3 (fs_trace (mc_fw m))) b)"
proof -
  obtain m where m: "boot_entry (sample_platform True [[77, 90]] []) sample_iso_firmware
     (sample_entry (Chainload ''/a'')) default_policy quiet_quirks ActiveWithShim
     (sample_machine [([bslash, CHR ''a''], [77, 90])]) = (m, Err HandedOver)"
    and tr: "fs_trace (mc_fw m) = [Extend 4 [77, 90] True, ShimVerify [77, 90] True, FirmwareLoad [77, 90] 2, FirmwareStart 2]"
    using sample_chainload by blast
  have a: "image_authentication (pl_fw (sample_platform True [[77, 90]] []))"
    by (simp add: sample_platform_def samplefw.image_authentication_axioms)
  have i: "idle (fs_override (mc_fw (sample_machine [([bslash, CHR ''a''], [77, 90])])))"
    by (simp add: sample_machine_def fresh_fw_def idle_override_def idle_def hooks_of_def)
  have p: "po_loader_native_pe default_policy \<noteq> PeAlways" by (simp add: default_policy_def)
  from started_images_are_authenticated [OF a i p _ m]
  have "\<exists>ext. fs_trace (mc_fw m) = ext \<and>
      (\<forall>i < length ext. is_start (ext ! i) \<longrightarrow> (\<exists>b. image_of (take i ext) (ext ! i) = Some b \<and> checked (take i ext) b))"
    by (simp add: sample_machine_def fresh_fw_def)
  then have "\<exists>b. image_of (take 3 (fs_trace (mc_fw m))) (fs_trace (mc_fw m) ! 3) = Some b \<and>
      checked (take 3 (fs_trace (mc_fw m))) b"
    by (auto simp: tr)
  then show ?thesis using m tr by blast
qed

text \<open>C2: With a working TPM every started image has been measured first: whatever the entry, the policy, the
  posture and the firmware's answers, the bytes of each image that is started during the boot were
  extended into the boot-code register earlier in this boot.\<close>

theorem started_images_are_measured:
  assumes "loads_by_auth (pl_fw pl)" "idle (fs_override (mc_fw m))" "tpm_works pl"
    and "boot_entry pl ifw entry policy quirks sb m = (m', r)"
  shows "\<exists>ext. fs_trace (mc_fw m') = fs_trace (mc_fw m) @ ext \<and>
      (\<forall>i < length ext. is_start (ext ! i) \<longrightarrow>
        (\<exists>b. image_of (fs_trace (mc_fw m) @ take i ext) (ext ! i) = Some b \<and>
           Extend PCR_BOOT_CODE b True \<in> set (take i ext)))"
proof -
  have "boot_assms False True pl (po_loader_native_pe policy) sb"
    using assms by (simp add: boot_assms_def)
  from boot_entry_starts [OF this assms(2,4)] show ?thesis by (simp add: starts_ok_def good_def measured_def)
qed

theorem started_images_are_measured_witness:
  "\<exists>m. boot_entry (sample_platform True [[77, 90]] []) sample_iso_firmware (sample_entry (Chainload ''/a''))
       default_policy quiet_quirks ActiveWithShim (sample_machine [([bslash, CHR ''a''], [77, 90])]) =
       (m, Err HandedOver) \<and>
     (\<exists>b. image_of (take 3 (fs_trace (mc_fw m))) (fs_trace (mc_fw m) ! 3) = Some b \<and>
        Extend PCR_BOOT_CODE b True \<in> set (take 3 (fs_trace (mc_fw m))))"
proof -
  obtain m where m: "boot_entry (sample_platform True [[77, 90]] []) sample_iso_firmware
     (sample_entry (Chainload ''/a'')) default_policy quiet_quirks ActiveWithShim
     (sample_machine [([bslash, CHR ''a''], [77, 90])]) = (m, Err HandedOver)"
    and tr: "fs_trace (mc_fw m) = [Extend 4 [77, 90] True, ShimVerify [77, 90] True, FirmwareLoad [77, 90] 2, FirmwareStart 2]"
    using sample_chainload by blast
  have a: "loads_by_auth (pl_fw (sample_platform True [[77, 90]] []))"
    by (simp add: sample_platform_def samplefw.loads_by_auth_axioms)
  have i: "idle (fs_override (mc_fw (sample_machine [([bslash, CHR ''a''], [77, 90])])))"
    by (simp add: sample_machine_def fresh_fw_def idle_override_def idle_def hooks_of_def)
  have t: "tpm_works (sample_platform True [[77, 90]] [])" by (simp add: tpm_works_def sample_platform_def)
  from started_images_are_measured [OF a i t m]
  have "\<exists>ext. fs_trace (mc_fw m) = ext \<and>
      (\<forall>i < length ext. is_start (ext ! i) \<longrightarrow> (\<exists>b. image_of (take i ext) (ext ! i) = Some b \<and>
         Extend PCR_BOOT_CODE b True \<in> set (take i ext)))"
    by (simp add: sample_machine_def fresh_fw_def)
  then have "\<exists>b. image_of (take 3 (fs_trace (mc_fw m))) (fs_trace (mc_fw m) ! 3) = Some b \<and>
      Extend PCR_BOOT_CODE b True \<in> set (take 3 (fs_trace (mc_fw m)))"
    by (auto simp: tr)
  then show ?thesis using m by blast
qed

subsection \<open>Where the guarantee ends\<close>

text \<open>The native load path adds the load and the start of the image to the trace and nothing else; unless both
  are there it has failed.\<close>

abbreviation trace_of :: "'s machine \<Rightarrow> LoadedImage boot_call list" where "trace_of m \<equiv> fs_trace (mc_fw m)"

abbreviation gave_up :: "('a, boot_exit) outcome \<Rightarrow> bool" where "gave_up r \<equiv> r = Panic \<or> (\<exists>e. r = Err (Failed e))"

lemma enter_native_trace: "enter_native pl li m = (m', r) \<Longrightarrow> trace_of m' = trace_of m @ [NativeStart li]"
  by (auto simp: enter_native_def Let_def machine_simps emit_def split: option.splits)

lemma native_handoff_trace:
  assumes "native_handoff pl v li tag path quirks m = (m', r)"
  shows "trace_of m' = trace_of m @ [NativeStart li] \<or> trace_of m' = trace_of m \<and> gave_up r"
proof (cases "li_sha256 li = vb_sha256 v")
  case True
  then obtain m1 where "enter_native pl li m1 = (m', r)" "trace_of m1 = trace_of m"
    using assms by (simp add: native_handoff_def abind_def steps_def) (auto simp: machine_simps)
  then show ?thesis using enter_native_trace by metis
qed (use assms in \<open>auto simp: native_handoff_def abind_def steps_def afail_def machine_simps\<close>)

lemma native_load_trace:
  "native_load pl data lo tag path m = (m', r) \<Longrightarrow>
   (\<exists>li. r = Ok li \<and> trace_of m' = trace_of m @ [NativeLoad data li]) \<or> trace_of m' = trace_of m \<and> gave_up r"
  by (auto simp: native_load_def machine_simps emit_def split: prod.splits outcome.splits)

lemma native_load_and_start_trace:
  assumes "native_load_and_start pl v options tag path quirks m = (m', r)"
  shows "\<exists>li ext. trace_of m' = trace_of m @ ext \<and>
    (ext = [NativeLoad (vb_bytes v) li, NativeStart li] \<or> (ext = [] \<or> ext = [NativeLoad (vb_bytes v) li]) \<and> gave_up r)"
proof -
  let ?opt = "if options = [] then Ok None
       else case pl_cstr16 pl options of Some wide \<Rightarrow> Ok (Some wide) | None \<Rightarrow> Err (Failed ''INVALID_PARAMETER'')"
  let ?m1 = "crumb pl ''N1 enter'' m"
  let ?m2 = "crumb pl ''N3 before_pe_loader_load_pe'' (crumb pl ''N2 after_options_encode'' ?m1)"
  have t: "trace_of ?m1 = trace_of m" "trace_of ?m2 = trace_of m" by (simp_all add: machine_simps)
  show ?thesis
  proof (cases ?opt)
    case (Ok lo)
    obtain m3 q where l: "native_load pl (vb_bytes v) lo tag path ?m2 = (m3, q)" by fastforce
    have run: "native_load_and_start pl v options tag path quirks m =
        (case q of Ok li \<Rightarrow> native_handoff pl v li tag path quirks m3 | Err e \<Rightarrow> (m3, Err e) | Panic \<Rightarrow> (m3, Panic))"
      using Ok l by (simp add: native_load_and_start_def abind_def steps_def alift_def split: outcome.split)
    from native_load_trace [OF l] t(2) show ?thesis
    proof (elim disjE exE conjE)
      fix li assume *: "q = Ok li" "trace_of m3 = trace_of ?m2 @ [NativeLoad (vb_bytes v) li]"
      then show ?thesis using native_handoff_trace [of pl v li tag path quirks m3 m' r] run assms t(2) by auto
    next
      assume *: "trace_of m3 = trace_of ?m2" "q = Panic"
      then show ?thesis using run assms t(2) by auto
    next
      fix e assume *: "trace_of m3 = trace_of ?m2" "q = Err (Failed e)"
      then show ?thesis using run assms t(2) by auto
    qed
  qed (use assms t(1) in \<open>auto simp: native_load_and_start_def abind_def steps_def alift_def split: option.splits if_splits\<close>)
qed

lemma measure_logged_trace:
  "\<exists>ys. trace_of (measure_kernel_logged pl data path m) = trace_of m @ ys \<and> list_all (\<lambda>d. \<not> is_check d) ys"
  "\<exists>ys. trace_of (measure_cmdline_logged pl options path m) = trace_of m @ ys \<and> list_all (\<lambda>d. \<not> is_check d) ys"
proof -
  have k: "\<exists>ys. trace_of (fst (measure_pcr pl pcr d desc m)) = trace_of m @ ys \<and> list_all (\<lambda>d. \<not> is_check d) ys" for pcr d desc
    by (simp add: measure_pcr_def Let_def machine_simps emit_def)
  show "\<exists>ys. trace_of (measure_kernel_logged pl data path m) = trace_of m @ ys \<and> list_all (\<lambda>d. \<not> is_check d) ys"
    using k by (auto simp: measure_kernel_logged_def measure_kernel_def machine_simps split: prod.split bool.split)
      (metis fst_conv)+
  show "\<exists>ys. trace_of (measure_cmdline_logged pl options path m) = trace_of m @ ys \<and> list_all (\<lambda>d. \<not> is_check d) ys"
    using k by (auto simp: measure_cmdline_logged_def measure_cmdline_def machine_simps split: prod.split bool.split)
      (metis fst_conv)+
qed

lemma verify_direct:
  "\<exists>m' v. verify_kernel_bytes pl data path ActiveDirect m = (m', Ok (Some v)) \<and> trace_of m' = trace_of m \<and>
     vb_bytes v = data \<and> vb_sb_state v = ActiveDirect"
  by (simp add: verify_kernel_bytes_def reprobe_def record_verdict_def abind_def steps_def alift_def aret_def machine_simps)

lemma boot_uki_always_trace:
  assumes "po_loader_native_pe policy = PeAlways" "boot_uki pl path options policy quirks ActiveDirect m = (m', r)"
  shows "\<exists>ext. trace_of m' = trace_of m @ ext \<and> list_all (\<lambda>d. \<not> is_check d) ext \<and>
    (gave_up r \<or> (\<exists>ys data li. ext = ys @ [NativeLoad data li, NativeStart li]))"
proof -
  obtain m1 rd where rd: "on_volume 0 (read_str path) m = (m1, rd)" by fastforce
  have t1: "trace_of m1 = trace_of m" using on_volume_fw [of 0 "read_str path" m] rd by simp
  show ?thesis
  proof (cases rd)
    case (Ok data)
    let ?k = "measure_kernel_logged pl data path m1"
    let ?m2 = "if options \<noteq> [] then measure_cmdline_logged pl options path ?k else ?k"
    obtain ys where ys: "trace_of ?m2 = trace_of m1 @ ys" "list_all (\<lambda>d. \<not> is_check d) ys"
    proof -
      obtain a where a: "trace_of ?k = trace_of m1 @ a" "list_all (\<lambda>d. \<not> is_check d) a" using measure_logged_trace(1) by blast
      obtain b where "trace_of (measure_cmdline_logged pl options path ?k) = trace_of ?k @ b" "list_all (\<lambda>d. \<not> is_check d) b"
        using measure_logged_trace(2) by blast
      then show thesis using a that [of a] that [of "a @ b"] by (cases "options = []") auto
    qed
    obtain m3 v where v: "verify_kernel_bytes pl data path ActiveDirect ?m2 = (m3, Ok (Some v))" "trace_of m3 = trace_of ?m2"
      "vb_bytes v = data" "vb_sb_state v = ActiveDirect" using verify_direct by blast
    have "boot_uki pl path options policy quirks ActiveDirect m =
        native_load_and_start pl v options (vol_backend_tag (esp_of m)) path quirks m3"
      using rd Ok v(1,4) assms(1)
      by (cases "options = []") (simp_all add: boot_uki_def abind_def alift_def steps_def choose_load_path_def)
    from native_load_and_start_trace [OF this [symmetric, unfolded assms(2)]]
    obtain li ext where "trace_of m' = trace_of m3 @ ext"
      "ext = [NativeLoad data li, NativeStart li] \<or> (ext = [] \<or> ext = [NativeLoad data li]) \<and> gave_up r"
      unfolding v(3) by blast
    then show ?thesis using v(2) ys t1 by (intro exI [of _ "ys @ ext"]) auto
  next
    case (Err e)
    then obtain f where "e = Failed f" using rd by (auto simp: on_volume_def outcome_simps split: prod.splits)
    then show ?thesis using assms(2) rd Err t1 by (auto simp: boot_uki_def abind_def alift_def)
  next
    case Panic
    then show ?thesis using assms(2) rd t1 by (auto simp: boot_uki_def abind_def alift_def)
  qed
qed

text \<open>C8: The policy value that forces the native loader switches authentication off for unified kernel images.
  Under Secure Boot without shim, whatever the image, the volumes and the firmware are, booting such an entry asks
  neither shim nor the firmware about anything; and unless the boot fails before, the image is loaded and
  entered natively.\<close>

theorem always_policy_starts_unchecked:
  assumes "en_kind entry = Uki path options" "po_loader_native_pe policy = PeAlways"
    and "boot_entry pl ifw entry policy quirks ActiveDirect m = (m', r)"
  shows "\<exists>ext. fs_trace (mc_fw m') = fs_trace (mc_fw m) @ ext \<and> list_all (\<lambda>d. \<not> is_check d) ext \<and>
    (r = Panic \<or> (\<exists>e. r = Err (Failed e)) \<or> (\<exists>ys data li. ext = ys @ [NativeLoad data li, NativeStart li]))"
proof (cases "mc_volumes m = []")
  case False
  let ?m = "crumb pl ''BOOTENTRY3 after_split'' (crumb pl (''boot_entry: name='' @ en_name entry @ '' id='' @ en_id entry) m)"
  have "boot_uki pl path options policy quirks ActiveDirect ?m = (m', r)"
    using assms(1,3) False by (simp add: boot_entry_def boot_kind_def abind_def steps_def)
  moreover have "trace_of ?m = trace_of m" by (simp add: machine_simps)
  ultimately show ?thesis using boot_uki_always_trace [OF assms(2)] by fastforce
qed (use assms(3) in \<open>auto simp: boot_entry_def\<close>)

text \<open>An image that neither shim nor the firmware's own check would accept.\<close>

theorem always_policy_starts_unchecked_witness:
  "\<exists>m li. boot_entry (sample_platform False [] []) sample_iso_firmware (sample_entry (Uki ''/a'' []))
       (default_policy\<lparr>po_loader_native_pe := PeAlways\<rparr>) quiet_quirks ActiveDirect
       (sample_machine [([bslash, CHR ''a''], sample_pe)]) = (m, Err HandedOver) \<and>
     NativeStart li \<in> set (fs_trace (mc_fw m)) \<and> list_all (\<lambda>d. \<not> is_check d) (fs_trace (mc_fw m))"
proof -
  let ?sha = "pl_sha (sample_platform False [] [])" and ?m0 = "sample_machine [([bslash, CHR ''a''], sample_pe)]"
  obtain v where v: "read_str ''/a'' (sample_volume [([bslash, CHR ''a''], sample_pe)]) = (v, Ok sample_pe)"
    using sample_read [of sample_pe] by (auto simp: MAX_BOOT_FILE_BYTES_def length_sample_pe)
  obtain calls li where li: "load_pe Arch_x86_64 ?sha sample_firmware sample_pe None FAT_TAG = (calls, Ok li)"
    "li_sha256 li = ?sha sample_pe" using sample_load by blast
  obtain m where m: "boot_entry (sample_platform False [] []) sample_iso_firmware (sample_entry (Uki ''/a'' []))
       (default_policy\<lparr>po_loader_native_pe := PeAlways\<rparr>) quiet_quirks ActiveDirect ?m0 = (m, Err HandedOver)"
    using li
    by (simp add: boot_entry_def boot_uki_def measure_kernel_logged_def verify_kernel_bytes_def reprobe_def
        record_verdict_def choose_load_path_def native_load_and_start_def native_load_def native_handoff_def
        enter_native_def start_image_def v esp_of_def sample_tag sample_run)
  have "fs_trace (mc_fw ?m0) = []" by (simp add: sample_machine_def fresh_fw_def)
  then show ?thesis
    using always_policy_starts_unchecked [OF _ _ m, of "''/a''" "[]"] m by (auto simp: sample_entry_def)
qed

subsection \<open>An image on the ESP\<close>

text \<open>A volume that has been shared takes no writes: the ESP keeps its contents and stays shared.\<close>

definition esp_frozen :: "'s machine \<Rightarrow> 's machine \<Rightarrow> bool" where
  "esp_frozen m m' \<longleftrightarrow>
     (mc_volumes m \<noteq> [] \<and> vol_shared (esp_of m) \<longrightarrow>
        mc_volumes m' \<noteq> [] \<and> vol_shared (esp_of m') \<and> vol_store (esp_of m') = vol_store (esp_of m))"

lemma frozen_trans: "transp esp_frozen"
  by (auto simp: esp_frozen_def transp_def)

lemma frozen_refl: "reflp esp_frozen"
  by (simp add: esp_frozen_def reflp_def)

lemma frozen_same: "mc_volumes m' = mc_volumes m \<Longrightarrow> esp_frozen m m'"
  by (simp add: esp_frozen_def esp_of_def)

lemma frozen_esp:
  assumes "mc_volumes m' = (mc_volumes m)[0 := v]" "vol_shared (esp_of m) \<Longrightarrow> v = esp_of m"
  shows "esp_frozen m m'"
  using assms by (cases "mc_volumes m") (auto simp: esp_frozen_def esp_of_def)

lemma shared_append: "vol_shared v \<Longrightarrow> esp_true_append fw p d v = (v, Err (Unsupported ''write requires a FAT volume''))"
  by (simp add: esp_true_append_def with_sfs_def fat_sfs_mut_def)

lemma shared_audit: "vol_shared v \<Longrightarrow> fst (append_audit_log fw msg v) = v"
  by (auto simp: append_audit_log_def abind_def alift_def writer_for_def amap_err_def shared_append split: outcome.split)

named_theorems frozen \<open>steps and actions under which a shared ESP keeps its contents\<close>

lemma frozen_steps_of [frozen]:
  "esp_frozen m (rec ev m)" "esp_frozen m (call c m)" "esp_frozen m (crumb pl msg m)" "esp_frozen m (crumb_flush pl m)"
  "esp_frozen m (log_flush pl m)"
proof -
  show "esp_frozen m (rec ev m)" "esp_frozen m (call c m)"
    by (simp_all add: rec_def call_def frozen_same)
  show "esp_frozen m (crumb pl msg m)"
    by (rule frozen_esp [where v = "snd (diag_append (pl_sfs pl) (msg @ NL) (mc_diag m, esp_of m))"])
      (auto simp: crumb_def diag_append_def shared_audit split: prod.split)
  show "esp_frozen m (crumb_flush pl m)"
    by (rule frozen_esp [where v = "snd (diag_flush (pl_sfs pl) (mc_diag m, esp_of m))"])
      (auto simp: crumb_flush_def diag_flush_def shared_audit split: prod.split option.split)
  show "esp_frozen m (log_flush pl m)"
    by (rule frozen_esp [where v = "snd (tl_flush (pl_sfs pl) (mc_log m) (esp_of m))"])
      (auto simp: log_flush_def tl_flush_def shared_append Let_def split: prod.split outcome.split)
qed

lemma frozen_quiet_flush [frozen]: "esp_frozen m (quiet_flush pl q m)"
  by (simp add: quiet_flush_def frozen reflpD [OF frozen_refl])

lemma frozen_measure: "mc_volumes (fst (measure_pcr pl pcr d desc m)) = mc_volumes m"
  by (simp add: measure_pcr_def call_def Let_def)

lemma frozen_measure_logged [frozen]:
  "esp_frozen m (measure_kernel_logged pl data path m)" "esp_frozen m (measure_cmdline_logged pl options path m)"
proof -
  have "mc_volumes (fst (measure_kernel pl data m)) = mc_volumes m" by (simp add: measure_kernel_def frozen_measure)
  then have "mc_volumes (measure_kernel_logged pl data path m) = mc_volumes m"
    by (auto simp: measure_kernel_logged_def rec_def split: prod.split bool.split)
  moreover have "mc_volumes (fst (measure_cmdline pl options m)) = mc_volumes m"
    by (simp add: measure_cmdline_def frozen_measure)
  then have "mc_volumes (measure_cmdline_logged pl options path m) = mc_volumes m"
    by (auto simp: measure_cmdline_logged_def rec_def split: prod.split bool.split)
  ultimately show "esp_frozen m (measure_kernel_logged pl data path m)"
    "esp_frozen m (measure_cmdline_logged pl options path m)" by (simp_all add: frozen_same)
qed

lemma akeeps_frozen_steps: "(\<And>f m. f \<in> set fs \<Longrightarrow> esp_frozen m (f m)) \<Longrightarrow> akeeps esp_frozen (steps fs)"
proof (induction fs)
  case (Cons f fs)
  have "esp_frozen m (fold (\<lambda>f t. f t) fs (f m))" for m
  proof -
    have "esp_frozen m (f m)" "esp_frozen (f m) (fold (\<lambda>f t. f t) fs (f m))"
      using Cons by (auto simp: akeeps_def steps_def)
    then show ?thesis using frozen_trans by (blast dest: transpD)
  qed
  then show ?case by (simp add: akeeps_def steps_def)
qed (simp add: akeeps_def steps_def reflpD [OF frozen_refl])

lemma akeeps_frozen_on_fw: "akeeps esp_frozen (on_fw op)"
  by (auto simp: akeeps_def on_fw_def frozen_same split: prod.split)

lemmas akeeps_frozen_bind = akeeps_abind [OF frozen_trans]
lemmas akeeps_frozen = akeeps_frozen_bind akeeps_frozen_steps akeeps_frozen_on_fw akeeps_pure [OF frozen_refl]

lemma frozen_kernel_verdict: "akeeps esp_frozen (kernel_verdict pl data sb)"
proof (cases sb)
  case ActiveWithShim
  have "esp_frozen m (fst (kernel_verdict pl data ActiveWithShim m))" for m
  proof -
    let ?m = "crumb pl ''VK5 before_shim_verify'' m"
    obtain m' r where v: "on_fw (verify_image (pl_fw pl) data ActiveWithShim) ?m = (m', r)" by fastforce
    have "esp_frozen ?m m'" using akeepsD [OF akeeps_frozen_on_fw v] .
    then have "esp_frozen m m'" using frozen_steps_of(3) frozen_trans by (blast dest: transpD)
    moreover from this have "esp_frozen m (crumb pl ''VK6 after_shim_verify'' m')"
      using frozen_steps_of(3) frozen_trans by (blast dest: transpD)
    ultimately show ?thesis using v by (cases r) (simp_all del: verify_image.simps)
  qed
  then show ?thesis using ActiveWithShim by (simp add: akeeps_def)
qed (simp_all add: akeeps_frozen)

lemma frozen_verify: "akeeps esp_frozen (verify_kernel_bytes pl data path sb)"
  unfolding verify_kernel_bytes_def record_verdict_def
  by (intro akeeps_frozen_bind)
    (auto intro!: akeeps_frozen frozen_kernel_verdict simp: frozen split: prod.split)

lemma frozen_native: "akeeps esp_frozen (native_load_and_start pl v options tag path quirks)"
proof -
  have l: "akeeps esp_frozen (native_load pl data lo tag path)" for data lo
  proof -
    have "esp_frozen m (crumb pl x (call c m))" "esp_frozen m (rec ev (crumb pl x m))" for m x c ev
      using frozen_steps_of frozen_trans by (blast dest: transpD)+
    then show ?thesis
      by (auto simp: akeeps_def native_load_def reflpD [OF frozen_refl] split: prod.split outcome.split)
  qed
  have e: "akeeps esp_frozen (enter_native pl li)" for li
  proof -
    have "esp_frozen m (crumb pl x (call c m))" for m x c
      using frozen_steps_of frozen_trans by (blast dest: transpD)
    then show ?thesis by (auto simp: akeeps_def enter_native_def Let_def frozen split: option.split)
  qed
  show ?thesis
    unfolding native_load_and_start_def native_handoff_def
    by (auto intro!: akeeps_frozen l e simp: frozen)
qed

lemma frozen_firmware: "akeeps esp_frozen (firmware_load_and_start pl data options mode path)"
proof -
  have "akeeps esp_frozen (enter_firmware pl h)" for h
    by (auto simp: akeeps_def enter_firmware_def Let_def frozen split: option.split outcome.split)
  then show ?thesis
    unfolding firmware_load_and_start_def set_load_options_def by (auto intro!: akeeps_frozen simp: frozen)
qed

lemma frozen_register: "akeeps esp_frozen (try_register pl data)"
proof -
  have "akeeps esp_frozen (initrd_register pl data)"
    unfolding initrd_register_def by (auto intro!: akeeps_frozen simp: frozen)
  then show ?thesis
    by (auto simp: akeeps_def try_register_def split: prod.split outcome.split) (metis fst_conv)+
qed

lemma frozen_with_initrd:
  assumes "akeeps esp_frozen rest"
  shows "akeeps esp_frozen (with_initrd handle rest)"
proof -
  have "esp_frozen m (fst (with_initrd handle rest m))" for m
  proof -
    obtain m' r where r: "rest m = (m', r)" by fastforce
    have a: "esp_frozen m m'" using akeepsD [OF assms r] .
    moreover have "esp_frozen m (call UninstallInitrd m')"
      using a frozen_steps_of(2) frozen_trans by (blast dest: transpD)
    ultimately show ?thesis using r by (auto simp: with_initrd_def split: outcome.split boot_exit.split)
  qed
  then show ?thesis by (simp add: akeeps_def)
qed

lemma frozen_fallback:
  assumes "akeeps esp_frozen a" "akeeps esp_frozen b" "\<And>m. esp_frozen m (note_it m)"
  shows "akeeps esp_frozen (native_with_fallback a note_it b)"
proof -
  have "esp_frozen m (fst (native_with_fallback a note_it b m))" for m
  proof -
    obtain m' r where r: "a m = (m', r)" by fastforce
    have "esp_frozen m m'" using akeepsD [OF assms(1) r] .
    moreover have "esp_frozen m' (fst (b (note_it m')))"
      using assms(2,3) frozen_trans unfolding akeeps_def by (blast dest: transpD)
    ultimately have "esp_frozen m m'" "esp_frozen m (fst (b (note_it m')))"
      using frozen_trans by (blast dest: transpD)+
    then show ?thesis using r by (auto simp: native_with_fallback_def split: outcome.split boot_exit.split)
  qed
  then show ?thesis by (simp add: akeeps_def)
qed

lemma frozen_iso_boot_resolved: "akeeps esp_frozen (iso_boot_resolved pl v tag lbl kpath ipaths options policy quirks sb)"
  unfolding iso_boot_resolved_def Let_def fs_step_def iso_load_def
  by (auto intro!: akeeps_frozen frozen_verify frozen_register frozen_with_initrd frozen_fallback frozen_native
      frozen_firmware simp: frozen split: option.split LoadPath.split)

lemma frozen_boot_recipe: "akeeps esp_frozen (boot_recipe pl v tag lbl cmd origin policy quirks sb)"
  unfolding boot_recipe_def
  by (auto intro!: akeeps_frozen frozen_iso_boot_resolved simp: frozen split: option.split)

lemma frozen_boot_mounted: "akeeps esp_frozen (boot_mounted_iso pl v tag ipath policy quirks sb)"
  unfolding boot_mounted_iso_def Let_def
  by (auto intro!: frozen_iso_boot_resolved frozen_boot_recipe split: prod.split outcome.split option.split)

text \<open>C35: An image on the ESP silences the trust log.  To read the image the boot shares the ESP's backend,
  and a shared backend takes no writes: whatever happens during the boot, the ESP holds afterwards
  what it held before, so not one of the events of this boot (the mounted image, the measurement, the
  verdict, the load) is in the log file, and neither is any event that is recorded and flushed later.\<close>

theorem iso_on_esp_silences_trust_log:
  assumes "mc_volumes m \<noteq> []" "boot_iso pl ifw 0 ipath policy quirks sb m = (m', r)"
  shows "vol_store (esp_of m') = vol_store (esp_of m) \<and>
    vol_store (esp_of (log_flush pl (rec ev m'))) = vol_store (esp_of m)"
proof -
  let ?rest = "abind (alift (\<lambda>_. omap_err (\<lambda>_. Failed ''INVALID_PARAMETER'') (path_from_str ipath))) (\<lambda>path.
     abind (fs_step (\<lambda>m. let v = mc_volumes m ! 0 in file_source_new (vol_backend v) (vol_store v) path)) (\<lambda>src.
     abind (fs_step (\<lambda>_. dispatch_fs_over_source file_source (io_file_openers ifw) src None)) (\<lambda>mounted.
     abind (steps [rec (with_note (''iso_path='' @ ipath @ '' backend='' @ fst mounted @ '' holding_index='' @
       dec 0) (te_new ''iso_mounted''))]) (\<lambda>_.
     boot_mounted_iso pl (volume_from_backend mounted) (fst mounted) ipath policy quirks sb))))"
  have "akeeps esp_frozen ?rest"
    unfolding fs_step_def by (auto intro!: akeeps_frozen frozen_boot_mounted simp: frozen)
  moreover have "?rest (share_volume 0 m) = (m', r)"
    using assms by (simp add: boot_iso_def abind_def [of "steps _"] abind_def [of "alift (\<lambda>m. if _ m then _ else _)"]
        alift_def [of "\<lambda>m. if _ m then _ else _"] steps_def)
  ultimately have f: "esp_frozen (share_volume 0 m) m'" by (rule akeepsD)
  have "esp_of (share_volume 0 m) = share_backend (esp_of m)" "mc_volumes (share_volume 0 m) \<noteq> []"
    using assms(1) by (cases "mc_volumes m"; simp add: share_volume_def esp_of_def)+
  then have k: "mc_volumes m' \<noteq> []" "vol_shared (esp_of m')" "vol_store (esp_of m') = vol_store (esp_of m)"
    using f by (simp_all add: esp_frozen_def share_backend_def)
  have "esp_frozen m' (log_flush pl (rec ev m'))"
    using frozen_steps_of frozen_trans by (blast dest: transpD)
  then show ?thesis using k by (simp add: esp_frozen_def)
qed

theorem iso_on_esp_silences_trust_log_witness:
  "\<exists>m' r. boot_iso (sample_platform True [] []) sample_iso_firmware 0 ''/x.iso'' default_policy quiet_quirks SbDisabled
       (sample_machine []) = (m', r) \<and>
     vol_store (esp_of (log_flush (sample_platform True [] []) (rec (te_new ''e'') m'))) = vol_store (esp_of (sample_machine []))"
proof -
  obtain m' r where b: "boot_iso (sample_platform True [] []) sample_iso_firmware 0 ''/x.iso'' default_policy
      quiet_quirks SbDisabled (sample_machine []) = (m', r)" by fastforce
  have "mc_volumes (sample_machine []) \<noteq> []" by (simp add: sample_machine_def)
  from iso_on_esp_silences_trust_log [OF this b, of "te_new ''e''"] b show ?thesis by blast
qed

end
