(* ===== verification/Input.thy ===== *)
theory Input
  imports Prelude
begin

section \<open>Keyboard and pointer input\<close>

text \<open>
  Model of \<open>lamboot-core/src/input.rs\<close>: the search for a tablet among the USB devices, the three pointer
  devices, the keyboards and \<open>poll\<close>, which asks them in that order.  The devices are a parameter
  (\<open>input_fw\<close>) over a state of their own.  Coordinates are 32-bit signed integers, written as integers with
  the wrap-around of the release build (\<open>wrap_i32\<close>).

  The theorem is a type invariant: whatever the devices report, the pointer stays on the screen, and so do the
  coordinates of every event.
\<close>

subsection \<open>Signed 32-bit arithmetic\<close>

definition wrap_i32 :: "int \<Rightarrow> int" where "wrap_i32 x = (x + 2 ^ 31) mod 2 ^ 32 - 2 ^ 31"

text \<open>Division that truncates towards zero.\<close>

definition tdiv :: "int \<Rightarrow> int \<Rightarrow> int" where "tdiv a b = sgn a * sgn b * (\<bar>a\<bar> div \<bar>b\<bar>)"

subsection \<open>Events\<close>

datatype Key =
  KUp | KDown | KLeft | KRight | KEnter | KEscape | KF1 | KF2 | KF12 | KChar nat | KBackspace | KTab

datatype MouseButton = MbLeft | MbRight | MbMiddle

datatype InputEvent =
  KeyPress Key
| MouseMove int int
| MouseClick int int MouseButton
| NoInput

datatype scan_code =
  SC_UP | SC_DOWN | SC_LEFT | SC_RIGHT | SC_ESCAPE | SC_FUNCTION_1 | SC_FUNCTION_2 | SC_FUNCTION_12 | SC_OTHER nat

datatype uefi_key = Printable nat | Special scan_code

definition uefi_key_to_event :: "uefi_key \<Rightarrow> InputEvent option" where
  "uefi_key_to_event k =
     (case k of
        Printable c \<Rightarrow> Some (KeyPress (KChar c))
      | Special sc \<Rightarrow>
          (case sc of
             SC_UP \<Rightarrow> Some (KeyPress KUp)
           | SC_DOWN \<Rightarrow> Some (KeyPress KDown)
           | SC_LEFT \<Rightarrow> Some (KeyPress KLeft)
           | SC_RIGHT \<Rightarrow> Some (KeyPress KRight)
           | SC_ESCAPE \<Rightarrow> Some (KeyPress KEscape)
           | SC_FUNCTION_1 \<Rightarrow> Some (KeyPress KF1)
           | SC_FUNCTION_2 \<Rightarrow> Some (KeyPress KF2)
           | SC_FUNCTION_12 \<Rightarrow> Some (KeyPress KF12)
           | SC_OTHER n \<Rightarrow> None))"

subsection \<open>Devices\<close>

record AbsolutePointerState =
  ap_current_x :: nat
  ap_current_y :: nat
  ap_active_buttons :: u32

record AbsolutePointerMode =
  ap_min_x :: nat
  ap_min_y :: nat
  ap_max_x :: nat
  ap_max_y :: nat

record usb_endpoint =
  ue_attributes :: u8
  ue_address :: u8

text \<open>The interface descriptor of a USB device; an endpoint descriptor may be unreadable.\<close>

record usb_interface =
  ui_class :: u8
  ui_subclass :: u8
  ui_endpoints :: "usb_endpoint option list"

text \<open>The firmware: each read advances the state of the devices.  A device that cannot be opened, fails or has
  no new state gives None.\<close>

record 'i input_fw =
  in_usb :: "(nat \<times> usb_interface option) list"
  in_keyboards :: "nat list"
  in_pointers :: "nat list"
  in_absolutes :: "nat list"
  in_tablet :: "nat \<Rightarrow> u8 \<Rightarrow> 'i \<Rightarrow> 'i \<times> u8 list option"
  in_pointer :: "nat \<Rightarrow> 'i \<Rightarrow> 'i \<times> (int \<times> int \<times> bool) option"
  in_absolute :: "nat \<Rightarrow> 'i \<Rightarrow> 'i \<times> (AbsolutePointerState \<times> AbsolutePointerMode) option"
  in_stdin :: "'i \<Rightarrow> 'i \<times> uefi_key option"
  in_keyboard :: "nat \<Rightarrow> 'i \<Rightarrow> 'i \<times> uefi_key option"

definition TABLET_REPORT_SIZE :: nat where "TABLET_REPORT_SIZE = 6"
definition TABLET_MAX_COORD :: int where "TABLET_MAX_COORD = 0x7FFF"
definition USB_CLASS_HID :: u8 where "USB_CLASS_HID = 3"
definition USB_SUBCLASS_BOOT :: u8 where "USB_SUBCLASS_BOOT = 1"

fun interrupt_in :: "usb_endpoint option list \<Rightarrow> u8 option" where
  "interrupt_in [] = None"
| "interrupt_in (None # es) = interrupt_in es"
| "interrupt_in (Some e # es) =
     (if and (ue_attributes e) 3 = 3 \<and> and (ue_address e) 0x80 \<noteq> 0 then Some (and (ue_address e) 0x0F)
      else interrupt_in es)"

fun find_usb_tablet :: "(nat \<times> usb_interface option) list \<Rightarrow> nat option \<times> u8" where
  "find_usb_tablet [] = (None, 0)"
| "find_usb_tablet ((h, None) # ds) = find_usb_tablet ds"
| "find_usb_tablet ((h, Some i) # ds) =
     (if ui_class i \<noteq> USB_CLASS_HID \<or> ui_subclass i = USB_SUBCLASS_BOOT then find_usb_tablet ds
      else case interrupt_in (ui_endpoints i) of Some ep \<Rightarrow> (Some h, ep) | None \<Rightarrow> find_usb_tablet ds)"

subsection \<open>The input manager\<close>

record InputManager =
  im_mouse_x :: int
  im_mouse_y :: int
  im_mouse_button_down :: bool
  im_screen_width :: int
  im_screen_height :: int
  im_tablet_handle :: "nat option"
  im_tablet_endpoint :: u8
  im_keyboard_handles :: "nat list"
  im_pointer_handles :: "nat list"
  im_absolute_pointer_handles :: "nat list"

definition input_new :: "'i input_fw \<Rightarrow> nat \<Rightarrow> nat \<Rightarrow> InputManager" where
  "input_new fw width height =
     (let (tablet, ep) = find_usb_tablet (in_usb fw) in
      \<lparr>im_mouse_x = wrap_i32 (int (width div 2)), im_mouse_y = wrap_i32 (int (height div 2)),
       im_mouse_button_down = False, im_screen_width = wrap_i32 (int width), im_screen_height = wrap_i32 (int height),
       im_tablet_handle = tablet, im_tablet_endpoint = ep, im_keyboard_handles = in_keyboards fw,
       im_pointer_handles = in_pointers fw, im_absolute_pointer_handles = in_absolutes fw\<rparr>)"

definition move_to :: "int \<Rightarrow> int \<Rightarrow> InputManager \<Rightarrow> InputManager" where
  "move_to x y im =
     im\<lparr>im_mouse_x := min (max x 0) (im_screen_width im - 1), im_mouse_y := min (max y 0) (im_screen_height im - 1)\<rparr>"

text \<open>A press is an event, a release is only remembered.\<close>

definition track_button :: "bool \<Rightarrow> InputManager \<Rightarrow> InputManager \<times> InputEvent option" where
  "track_button pressed im =
     (if pressed \<and> \<not> im_mouse_button_down im
      then (im\<lparr>im_mouse_button_down := True\<rparr>, Some (MouseClick (im_mouse_x im) (im_mouse_y im) MbLeft))
      else if \<not> pressed \<and> im_mouse_button_down im then (im\<lparr>im_mouse_button_down := False\<rparr>, None)
      else (im, None))"

definition moved :: "InputManager \<Rightarrow> InputEvent" where "moved im = MouseMove (im_mouse_x im) (im_mouse_y im)"

definition or_moved :: "InputManager \<times> InputEvent option \<Rightarrow> InputManager \<times> InputEvent option" where
  "or_moved r = (case r of (im, Some e) \<Rightarrow> (im, Some e) | (im, None) \<Rightarrow> (im, Some (moved im)))"

definition tablet_event :: "u8 list \<Rightarrow> InputManager \<Rightarrow> InputManager \<times> InputEvent option" where
  "tablet_event report im =
     (let raw_x = uint (report ! 1) + 256 * uint (report ! 2);
          raw_y = uint (report ! 3) + 256 * uint (report ! 4);
          new_x = tdiv (wrap_i32 (raw_x * im_screen_width im)) TABLET_MAX_COORD;
          new_y = tdiv (wrap_i32 (raw_y * im_screen_height im)) TABLET_MAX_COORD in
      or_moved (track_button (and (report ! 0) 1 \<noteq> 0) (move_to new_x new_y im)))"

definition poll_usb_tablet ::
  "'i input_fw \<Rightarrow> 'i \<times> InputManager \<Rightarrow> ('i \<times> InputManager) \<times> InputEvent option" where
  "poll_usb_tablet fw = (\<lambda>(s, im).
     case im_tablet_handle im of
       None \<Rightarrow> ((s, im), None)
     | Some h \<Rightarrow>
         (case in_tablet fw h (im_tablet_endpoint im) s of
            (s', None) \<Rightarrow> ((s', im), None)
          | (s', Some report) \<Rightarrow>
              if length report \<ge> TABLET_REPORT_SIZE
              then let (im', e) = tablet_event report im in ((s', im'), e)
              else ((s', im), None)))"

definition process_pointer_state :: "int \<Rightarrow> int \<Rightarrow> bool \<Rightarrow> InputManager \<Rightarrow> InputManager \<times> InputEvent option" where
  "process_pointer_state dx dy button im =
     (let im1 = move_to (wrap_i32 (im_mouse_x im + dx)) (wrap_i32 (im_mouse_y im + dy)) im in
      case track_button button im1 of
        (im2, Some e) \<Rightarrow> (im2, Some e)
      | (im2, None) \<Rightarrow> (im2, if dx \<noteq> 0 \<or> dy \<noteq> 0 then Some (moved im2) else None))"

fun poll_standard_pointer ::
  "'i input_fw \<Rightarrow> nat list \<Rightarrow> 'i \<times> InputManager \<Rightarrow> ('i \<times> InputManager) \<times> InputEvent option" where
  "poll_standard_pointer fw [] st = (st, None)"
| "poll_standard_pointer fw (h # hs) (s, im) =
     (case in_pointer fw h s of
        (s', None) \<Rightarrow> poll_standard_pointer fw hs (s', im)
      | (s', Some (dx, dy, button)) \<Rightarrow>
          (case process_pointer_state dx dy button im of
             (im', Some e) \<Rightarrow> ((s', im'), Some e)
           | (im', None) \<Rightarrow> poll_standard_pointer fw hs (s', im')))"

definition scale_absolute :: "nat \<Rightarrow> nat \<Rightarrow> nat \<Rightarrow> int \<Rightarrow> int" where
  "scale_absolute cur lo hi screen = wrap_i32 (int (cur - lo) * (screen mod 2 ^ 128) mod 2 ^ 128 div int (max (hi - lo) 1))"

fun poll_absolute_pointer ::
  "'i input_fw \<Rightarrow> nat list \<Rightarrow> 'i \<times> InputManager \<Rightarrow> ('i \<times> InputManager) \<times> InputEvent option" where
  "poll_absolute_pointer fw [] st = (st, None)"
| "poll_absolute_pointer fw (h # hs) (s, im) =
     (case in_absolute fw h s of
        (s', None) \<Rightarrow> poll_absolute_pointer fw hs (s', im)
      | (s', Some (p, mode)) \<Rightarrow>
          let new_x = scale_absolute (ap_current_x p) (ap_min_x mode) (ap_max_x mode) (im_screen_width im);
              new_y = scale_absolute (ap_current_y p) (ap_min_y mode) (ap_max_y mode) (im_screen_height im);
              (im', e) = or_moved (track_button (and (ap_active_buttons p) 1 \<noteq> 0) (move_to new_x new_y im)) in
          ((s', im'), e))"

fun poll_keyboard_handles :: "'i input_fw \<Rightarrow> nat list \<Rightarrow> 'i \<Rightarrow> 'i \<times> InputEvent" where
  "poll_keyboard_handles fw [] s = (s, NoInput)"
| "poll_keyboard_handles fw (h # hs) s =
     (case in_keyboard fw h s of
        (s', k) \<Rightarrow>
          (case Option.bind k uefi_key_to_event of
             Some e \<Rightarrow> (s', e)
           | None \<Rightarrow> poll_keyboard_handles fw hs s'))"

definition poll_keyboard :: "'i input_fw \<Rightarrow> InputManager \<Rightarrow> 'i \<Rightarrow> 'i \<times> InputEvent" where
  "poll_keyboard fw im s =
     (case in_stdin fw s of
        (s', k) \<Rightarrow>
          (case Option.bind k uefi_key_to_event of
             Some e \<Rightarrow> (s', e)
           | None \<Rightarrow> poll_keyboard_handles fw (im_keyboard_handles im) s'))"

definition poll :: "'i input_fw \<Rightarrow> 'i \<times> InputManager \<Rightarrow> ('i \<times> InputManager) \<times> InputEvent" where
  "poll fw st =
     (case poll_usb_tablet fw st of
        (st1, Some e) \<Rightarrow> (st1, e)
      | (st1, None) \<Rightarrow>
          (case poll_standard_pointer fw (im_pointer_handles (snd st1)) st1 of
             (st2, Some e) \<Rightarrow> (st2, e)
           | (st2, None) \<Rightarrow>
               (case poll_absolute_pointer fw (im_absolute_pointer_handles (snd st2)) st2 of
                  (st3, Some e) \<Rightarrow> (st3, e)
                | (st3, None) \<Rightarrow>
                    let (s', e) = poll_keyboard fw (snd st3) (fst st3) in ((s', snd st3), e))))"

text \<open>The wait for a key may last forever.\<close>

partial_function (option) wait_for_key :: "('p \<Rightarrow> 'p \<times> InputEvent) \<Rightarrow> 'p \<Rightarrow> ('p \<times> Key) option" where
  "wait_for_key next p =
     (case next p of
        (p', e) \<Rightarrow> (case e of KeyPress k \<Rightarrow> Some (p', k) | _ \<Rightarrow> wait_for_key next p'))"

subsection \<open>The pointer stays on the screen\<close>

definition on_screen :: "InputManager \<Rightarrow> int \<Rightarrow> int \<Rightarrow> bool" where
  "on_screen im x y \<longleftrightarrow> 0 \<le> x \<and> x < im_screen_width im \<and> 0 \<le> y \<and> y < im_screen_height im"

definition im_ok :: "InputManager \<Rightarrow> bool" where
  "im_ok im \<longleftrightarrow> on_screen im (im_mouse_x im) (im_mouse_y im)"

fun event_ok :: "InputManager \<Rightarrow> InputEvent \<Rightarrow> bool" where
  "event_ok im (MouseMove x y) = on_screen im x y"
| "event_ok im (MouseClick x y b) = on_screen im x y"
| "event_ok im e = True"

text \<open>What every step keeps: the screen, and the pointer inside it.\<close>

definition keeps_pointer :: "InputManager \<Rightarrow> InputManager \<times> InputEvent option \<Rightarrow> bool" where
  "keeps_pointer im r \<longleftrightarrow>
     im_screen_width (fst r) = im_screen_width im \<and> im_screen_height (fst r) = im_screen_height im \<and>
     (im_ok im \<longrightarrow> im_ok (fst r) \<and> (case snd r of Some e \<Rightarrow> event_ok im e | None \<Rightarrow> True))"

lemma move_to_ok: "im_ok im \<Longrightarrow> im_ok (move_to x y im)"
  by (auto simp: im_ok_def on_screen_def move_to_def)

lemma move_to_screen [simp]:
  "im_screen_width (move_to x y im) = im_screen_width im" "im_screen_height (move_to x y im) = im_screen_height im"
  by (simp_all add: move_to_def)

lemma track_button_ok: "keeps_pointer im (track_button b im)"
  by (simp add: keeps_pointer_def track_button_def im_ok_def on_screen_def)

lemma event_ok_screen:
  "im_screen_width im = im_screen_width im' \<Longrightarrow> im_screen_height im = im_screen_height im' \<Longrightarrow>
   event_ok im e = event_ok im' e"
  by (cases e) (simp_all add: on_screen_def)

lemma keeps_moved:
  assumes "keeps_pointer (move_to x y im) r"
  shows "keeps_pointer im r"
  using assms move_to_ok [of im x y] event_ok_screen [of "move_to x y im" im]
  by (simp add: keeps_pointer_def split: option.splits)

lemma or_moved_ok: "keeps_pointer im r \<Longrightarrow> keeps_pointer im (or_moved r)"
  by (auto simp: or_moved_def keeps_pointer_def moved_def im_ok_def on_screen_def split: prod.splits option.splits)

lemma tablet_event_ok: "keeps_pointer im (tablet_event report im)"
  unfolding tablet_event_def Let_def by (rule or_moved_ok [OF keeps_moved [OF track_button_ok]])

lemma process_pointer_state_ok: "keeps_pointer im (process_pointer_state dx dy b im)"
proof -
  let ?m = "move_to (wrap_i32 (im_mouse_x im + dx)) (wrap_i32 (im_mouse_y im + dy)) im"
  have "keeps_pointer im (track_button b ?m)" by (rule keeps_moved [OF track_button_ok])
  then show ?thesis
    by (auto simp: process_pointer_state_def keeps_pointer_def moved_def im_ok_def on_screen_def
        split: prod.splits option.splits)
qed

lemma keeps_pointer_trans:
  "keeps_pointer im (im', e') \<Longrightarrow> keeps_pointer im' (im'', e) \<Longrightarrow> keeps_pointer im (im'', e)"
  using event_ok_screen [of im' im] by (auto simp: keeps_pointer_def split: option.splits)

lemma keeps_pointer_refl [simp]: "keeps_pointer im (im, None)"
  by (simp add: keeps_pointer_def)

lemma poll_usb_tablet_ok:
  "poll_usb_tablet fw (s, im) = ((s', im'), e) \<Longrightarrow> keeps_pointer im (im', e)"
  using tablet_event_ok [of im]
  by (auto simp: poll_usb_tablet_def Let_def split: option.splits prod.splits if_splits) metis

lemma poll_standard_pointer_ok:
  "poll_standard_pointer fw hs (s, im) = ((s', im'), e) \<Longrightarrow> keeps_pointer im (im', e)"
proof (induction hs arbitrary: s im)
  case (Cons h hs)
  obtain s1 r where r: "in_pointer fw h s = (s1, r)" by fastforce
  show ?case
  proof (cases r)
    case (Some m)
    obtain dx dy b where m: "m = (dx, dy, b)" by (cases m)
    obtain im1 o1 where p: "process_pointer_state dx dy b im = (im1, o1)" by fastforce
    have k: "keeps_pointer im (im1, o1)" using process_pointer_state_ok [of im dx dy b] p by simp
    show ?thesis
    proof (cases o1)
      case None
      then show ?thesis using Cons.IH [of s1 im1] Cons.prems r Some m p keeps_pointer_trans [OF k] by simp
    qed (use Cons.prems r Some m p k in simp)
  qed (use Cons r in simp)
qed simp

lemma poll_absolute_pointer_ok:
  "poll_absolute_pointer fw hs (s, im) = ((s', im'), e) \<Longrightarrow> keeps_pointer im (im', e)"
proof (induction hs arbitrary: s im)
  case (Cons h hs)
  obtain s1 r where r: "in_absolute fw h s = (s1, r)" by fastforce
  show ?case
  proof (cases r)
    case (Some m)
    obtain p mode where m: "m = (p, mode)" by (cases m)
    have "keeps_pointer im (or_moved (track_button b (move_to x y im)))" for b x y
      by (rule or_moved_ok [OF keeps_moved [OF track_button_ok]])
    then show ?thesis using Cons.prems r Some m by (auto simp: Let_def split: prod.splits) metis
  qed (use Cons r in simp)
qed simp

lemma key_event_ok: "uefi_key_to_event k = Some e \<Longrightarrow> event_ok im e"
  by (auto simp: uefi_key_to_event_def split: uefi_key.splits scan_code.splits)

lemma poll_keyboard_handles_ok: "poll_keyboard_handles fw hs s = (s', e) \<Longrightarrow> event_ok im e"
  by (induction hs arbitrary: s) (auto simp: key_event_ok bind_eq_Some_conv split: prod.splits option.splits)

lemma poll_keyboard_ok: "poll_keyboard fw im s = (s', e) \<Longrightarrow> event_ok im' e"
  by (auto simp: poll_keyboard_def key_event_ok poll_keyboard_handles_ok bind_eq_Some_conv
      split: prod.splits option.splits)

text \<open>C39: whatever the devices report, polling keeps the pointer on the screen, and the coordinates of the event
  it returns are on the screen as well; a new input manager starts there.\<close>

theorem poll_stays_on_screen:
  assumes "im_ok im" "poll fw (s, im) = ((s', im'), e)"
  shows "im_ok im' \<and> event_ok im e \<and>
    im_screen_width im' = im_screen_width im \<and> im_screen_height im' = im_screen_height im"
proof -
  obtain s1 im1 o1 where p1: "poll_usb_tablet fw (s, im) = ((s1, im1), o1)" by (metis surj_pair)
  obtain s2 im2 o2 where p2: "poll_standard_pointer fw (im_pointer_handles im1) (s1, im1) = ((s2, im2), o2)"
    by (metis surj_pair)
  obtain s3 im3 o3 where p3: "poll_absolute_pointer fw (im_absolute_pointer_handles im2) (s2, im2) = ((s3, im3), o3)"
    by (metis surj_pair)
  note k1 = poll_usb_tablet_ok [OF p1]
  note k2 = keeps_pointer_trans [OF k1 poll_standard_pointer_ok [OF p2]]
  note k3 = keeps_pointer_trans [OF k2 poll_absolute_pointer_ok [OF p3]]
  have key: "event_ok im e" if "poll_keyboard fw im3 s3 = (t, e)" for t
    using that by (rule poll_keyboard_ok)
  show ?thesis
    using assms p1 p2 p3 k1 k2 k3 key
    by (auto simp: poll_def keeps_pointer_def split: option.splits prod.splits)
qed

definition demo_input :: "unit input_fw" where
  "demo_input =
     \<lparr>in_usb = [(7, Some \<lparr>ui_class = 3, ui_subclass = 0, ui_endpoints = [Some \<lparr>ue_attributes = 3, ue_address = 0x81\<rparr>]\<rparr>)],
      in_keyboards = [], in_pointers = [], in_absolutes = [],
      in_tablet = (\<lambda>h ep s. (s, Some [1, 0xFF, 0xFF, 0, 0, 0])), in_pointer = (\<lambda>h s. (s, None)),
      in_absolute = (\<lambda>h s. (s, None)), in_stdin = (\<lambda>s. (s, None)), in_keyboard = (\<lambda>h s. (s, None))\<rparr>"

lemma demo_input_new:
  "input_new demo_input 800 600 =
     \<lparr>im_mouse_x = 400, im_mouse_y = 300, im_mouse_button_down = False, im_screen_width = 800, im_screen_height = 600,
      im_tablet_handle = Some 7, im_tablet_endpoint = 1, im_keyboard_handles = [], im_pointer_handles = [],
      im_absolute_pointer_handles = []\<rparr>"
  by (simp add: input_new_def demo_input_def wrap_i32_def USB_CLASS_HID_def USB_SUBCLASS_BOOT_def)

lemma demo_tablet_event:
  "tablet_event [1, 0xFF, 0xFF, 0, 0, 0] (input_new demo_input 800 600) =
     ((input_new demo_input 800 600)\<lparr>im_mouse_x := 799, im_mouse_y := 0, im_mouse_button_down := True\<rparr>,
      Some (MouseClick 799 0 MbLeft))"
proof -
  have "tdiv (wrap_i32 52428000) TABLET_MAX_COORD = 1600" "tdiv (wrap_i32 0) TABLET_MAX_COORD = 0"
    by (simp_all add: TABLET_MAX_COORD_def wrap_i32_def tdiv_def)
  then show ?thesis
    by (simp add: demo_input_new tablet_event_def move_to_def track_button_def or_moved_def)
qed

theorem poll_stays_on_screen_witness:
  "\<exists>im'. poll demo_input ((), input_new demo_input 800 600) = (((), im'), MouseClick 799 0 MbLeft) \<and> im_ok im'"
proof -
  let ?im = "input_new demo_input 800 600"
  have ok: "im_ok ?im" by (simp add: demo_input_new im_ok_def on_screen_def)
  have "in_tablet demo_input h ep s = (s, Some [1, 0xFF, 0xFF, 0, 0, 0])" for h ep s by (simp add: demo_input_def)
  moreover have "im_tablet_handle ?im = Some 7" by (simp add: demo_input_new)
  ultimately obtain im' where p: "poll demo_input ((), ?im) = (((), im'), MouseClick 799 0 MbLeft)"
    using demo_tablet_event by (simp add: poll_def poll_usb_tablet_def TABLET_REPORT_SIZE_def)
  show ?thesis using poll_stays_on_screen [OF ok p] p by blast
qed

end
