(* ===== verification/Framebuffer.thy ===== *)
theory Framebuffer
  imports Input Utf16
begin

section \<open>The frame buffer\<close>

text \<open>
  Model of the drawing primitives of \<open>lamboot-core/src/gui.rs\<close>: rectangles, glyphs, text and the compressed
  logo, on a list of pixels whose every access is checked.  The two fonts and the logo are files compiled into
  the boot loader and are parameters here.  Sizes are 64-bit (\<open>uadd\<close>, \<open>usub\<close> wrap), coordinates of text are
  32-bit signed.

  The theorem: with complete fonts and a logo whose palette indices are inside its data, no drawing operation,
  whatever its coordinates, text and colours, touches a pixel outside the buffer.
\<close>

definition uadd :: "nat \<Rightarrow> nat \<Rightarrow> nat" where "uadd a b = (a + b) mod 2 ^ 64"
definition usub :: "nat \<Rightarrow> nat \<Rightarrow> nat" where "usub a b = (a + 2 ^ 64 - b) mod 2 ^ 64"

definition as_i32 :: "nat \<Rightarrow> int" where "as_i32 n = wrap_i32 (int n)"

fun ofold :: "('x \<Rightarrow> 's \<Rightarrow> ('s, unit) outcome) \<Rightarrow> 'x list \<Rightarrow> 's \<Rightarrow> ('s, unit) outcome" where
  "ofold f [] s = Ok s"
| "ofold f (x # xs) s = obind (f x s) (ofold f xs)"

subsection \<open>Pixels, fonts and the logo\<close>

record BltPixel =
  px_red :: u8
  px_green :: u8
  px_blue :: u8

definition rgb :: "u8 \<Rightarrow> u8 \<Rightarrow> u8 \<Rightarrow> BltPixel" where
  "rgb r g b = \<lparr>px_red = r, px_green = g, px_blue = b\<rparr>"

definition BACKGROUND_COLOR :: BltPixel where "BACKGROUND_COLOR = rgb 0x1e 0x1e 0x2e"
definition TEXT_COLOR :: BltPixel where "TEXT_COLOR = rgb 0xff 0xff 0xff"
definition ACCENT_COLOR :: BltPixel where "ACCENT_COLOR = rgb 0x89 0xb4 0xfa"
definition SELECTED_COLOR :: BltPixel where "SELECTED_COLOR = rgb 0x45 0x47 0x5a"
definition TILE_COLOR :: BltPixel where "TILE_COLOR = rgb 0x31 0x32 0x44"
definition SUBTITLE_COLOR :: BltPixel where "SUBTITLE_COLOR = rgb 0x80 0x80 0x90"
definition WARNING_COLOR :: BltPixel where "WARNING_COLOR = rgb 0xfa 0xb3 0x87"
definition DIVIDER_COLOR :: BltPixel where "DIVIDER_COLOR = rgb 0x40 0x40 0x55"

datatype Font = FSmall | FLarge

definition FONT_SMALL_W :: nat where "FONT_SMALL_W = 8"
definition FONT_SMALL_H :: nat where "FONT_SMALL_H = 16"
definition FONT_LARGE_W :: nat where "FONT_LARGE_W = 16"
definition FONT_LARGE_H :: nat where "FONT_LARGE_H = 32"
definition LOGO_WIDTH :: nat where "LOGO_WIDTH = 128"

fun font_width :: "Font \<Rightarrow> nat" where
  "font_width FSmall = FONT_SMALL_W"
| "font_width FLarge = FONT_LARGE_W"

record assets =
  as_font_small :: bytes
  as_font_large :: bytes
  as_logo :: bytes

record Framebuffer =
  fb_pixels :: "BltPixel list"
  fb_width :: nat
  fb_height :: nat

definition fb_new :: "nat \<Rightarrow> nat \<Rightarrow> Framebuffer" where
  "fb_new width height =
     \<lparr>fb_pixels = replicate (width * height) BACKGROUND_COLOR, fb_width = width, fb_height = height\<rparr>"

definition fb_clear :: "Framebuffer \<Rightarrow> Framebuffer" where
  "fb_clear fb = fb\<lparr>fb_pixels := map (\<lambda>_. BACKGROUND_COLOR) (fb_pixels fb)\<rparr>"

definition set_pixel :: "nat \<Rightarrow> BltPixel \<Rightarrow> Framebuffer \<Rightarrow> (Framebuffer, unit) outcome" where
  "set_pixel i c fb =
     (if i < length (fb_pixels fb) then Ok (fb\<lparr>fb_pixels := (fb_pixels fb)[i := c]\<rparr>) else Panic)"

subsection \<open>Primitives\<close>

definition fill_rect :: "nat \<Rightarrow> nat \<Rightarrow> nat \<Rightarrow> nat \<Rightarrow> BltPixel \<Rightarrow> Framebuffer \<Rightarrow> (Framebuffer, unit) outcome" where
  "fill_rect x y w h color fb =
     (let x_end = min (uadd x w) (fb_width fb); y_end = min (uadd y h) (fb_height fb); x_start = min x (fb_width fb) in
      ofold (\<lambda>row. ofold (\<lambda>col. set_pixel (row * fb_width fb + col) color) [x_start..<x_end])
        [min y (fb_height fb)..<y_end] fb)"

definition draw_char :: "assets \<Rightarrow> nat \<Rightarrow> int \<Rightarrow> int \<Rightarrow> BltPixel \<Rightarrow> Font \<Rightarrow> Framebuffer \<Rightarrow> (Framebuffer, unit) outcome" where
  "draw_char a ch x y color font fb =
     (let (data, glyph_w, glyph_h, bytes_per_row) =
            (case font of FSmall \<Rightarrow> (as_font_small a, FONT_SMALL_W, FONT_SMALL_H, 1)
                        | FLarge \<Rightarrow> (as_font_large a, FONT_LARGE_W, FONT_LARGE_H, 2));
          idx = (if ch < 256 then ch else 0xFE);
          glyph_offset = idx * bytes_per_row * glyph_h in
      ofold (\<lambda>row fb.
        let py = wrap_i32 (y + int row); row_offset = glyph_offset + row * bytes_per_row in
        if py < 0 \<or> nat py \<ge> fb_height fb then Ok fb
        else ofold (\<lambda>col fb.
          obind (at_idx data (row_offset + col div 8)) (\<lambda>b.
          let px = wrap_i32 (x + int col) in
          if and (drop_bit (7 - col mod 8) b) 1 = 1 \<and> 0 \<le> px \<and> nat px < fb_width fb
          then set_pixel (nat py * fb_width fb + nat px) color fb else Ok fb)) [0..<glyph_w] fb)
      [0..<glyph_h] fb)"

fun draw_chars ::
  "assets \<Rightarrow> nat list \<Rightarrow> nat \<Rightarrow> int \<Rightarrow> int \<Rightarrow> BltPixel \<Rightarrow> Font \<Rightarrow> Framebuffer \<Rightarrow> (Framebuffer, unit) outcome" where
  "draw_chars a [] i x y color font fb = Ok fb"
| "draw_chars a (ch # chs) i x y color font fb =
     (let char_width = as_i32 (font_width font);
          char_x = wrap_i32 (x + wrap_i32 (as_i32 i * char_width)) in
      if char_x \<ge> as_i32 (fb_width fb) then Ok fb
      else if wrap_i32 (char_x + char_width) < 0 then draw_chars a chs (Suc i) x y color font fb
      else obind (draw_char a ch char_x y color font fb) (draw_chars a chs (Suc i) x y color font))"

definition str_chars :: "string \<Rightarrow> nat list" where "str_chars s = utf8_chars (map byte_val s)"

definition draw_text ::
  "assets \<Rightarrow> string \<Rightarrow> int \<Rightarrow> int \<Rightarrow> BltPixel \<Rightarrow> Font \<Rightarrow> Framebuffer \<Rightarrow> (Framebuffer, unit) outcome" where
  "draw_text a text x y color font = draw_chars a (str_chars text) 0 x y color font"

subsection \<open>The logo\<close>

definition blend :: "u8 \<Rightarrow> u8 \<Rightarrow> u8 \<Rightarrow> u8" where
  "blend alpha fg bg = of_nat ((unat fg * unat alpha + unat bg * unat (255 - alpha)) div 255)"

definition logo_pixel ::
  "nat \<Rightarrow> nat \<Rightarrow> u8 \<times> u8 \<times> u8 \<Rightarrow> u8 \<Rightarrow> nat \<Rightarrow> Framebuffer \<Rightarrow> (Framebuffer, unit) outcome" where
  "logo_pixel dest_x dest_y = (\<lambda>(r, g, b) alpha px_offset fb.
     let px = uadd dest_x (px_offset mod LOGO_WIDTH); py = uadd dest_y (px_offset div LOGO_WIDTH) in
     if px \<ge> fb_width fb \<or> py \<ge> fb_height fb then Ok fb
     else
       let idx = py * fb_width fb + px in
       if alpha = 255 then set_pixel idx (rgb b g r) fb
       else obind (at_idx (fb_pixels fb) idx) (\<lambda>bg.
         set_pixel idx (rgb (blend alpha b (px_red bg)) (blend alpha g (px_green bg)) (blend alpha r (px_blue bg))) fb))"

definition logo_palette_count :: "bytes \<Rightarrow> nat" where "logo_palette_count d = unat (from_le (take 2 (drop 8 d)) :: u16)"
definition logo_run_count :: "bytes \<Rightarrow> nat" where "logo_run_count d = unat (from_le (take 4 (drop 10 d)) :: u32)"
definition logo_runs_start :: "bytes \<Rightarrow> nat" where "logo_runs_start d = 14 + logo_palette_count d * 3"

definition logo_run ::
  "bytes \<Rightarrow> nat \<Rightarrow> nat \<Rightarrow> nat \<Rightarrow> nat \<times> Framebuffer \<Rightarrow> (nat \<times> Framebuffer, unit) outcome" where
  "logo_run d dest_x dest_y i = (\<lambda>(px_offset, fb).
     let run_off = logo_runs_start d + i * 4 in
     obind (slice_idx d run_off (run_off + 2)) (\<lambda>c.
     obind (at_idx d (run_off + 2)) (\<lambda>pal_idx.
     obind (at_idx d (run_off + 3)) (\<lambda>alpha.
     let count = unat (from_le c :: u16); pal_off = 14 + unat pal_idx * 3 in
     if alpha = 0 then Ok (px_offset + count, fb)
     else
       obind (at_idx d pal_off) (\<lambda>r.
       obind (at_idx d (pal_off + 1)) (\<lambda>g.
       obind (at_idx d (pal_off + 2)) (\<lambda>b.
       obind (ofold (logo_pixel dest_x dest_y (r, g, b) alpha) [px_offset..<px_offset + count] fb) (\<lambda>fb'.
       Ok (px_offset + count, fb')))))))))"

definition LOGO_MAGIC :: bytes where "LOGO_MAGIC = [0x4C, 0x42, 0x43, 0x4C]"

definition draw_logo :: "assets \<Rightarrow> nat \<Rightarrow> nat \<Rightarrow> Framebuffer \<Rightarrow> (Framebuffer, unit) outcome" where
  "draw_logo a dest_x dest_y fb =
     (let d = as_logo a in
      if length d < 14 \<or> take 4 d \<noteq> LOGO_MAGIC then Ok fb
      else if logo_runs_start d + logo_run_count d * 4 > length d then Ok fb
      else obind (ofold (logo_run d dest_x dest_y) [0..<logo_run_count d] (0, fb)) (\<lambda>r. Ok (snd r)))"

subsection \<open>Drawing operations\<close>

text \<open>A frame is a list of operations; \<open>apply_op\<close> carries one out.\<close>

datatype draw_op =
  OpFill nat nat nat nat BltPixel
| OpText string int int BltPixel Font
| OpLogo nat nat

fun apply_op :: "assets \<Rightarrow> draw_op \<Rightarrow> Framebuffer \<Rightarrow> (Framebuffer, unit) outcome" where
  "apply_op a (OpFill x y w h c) fb = fill_rect x y w h c fb"
| "apply_op a (OpText t x y c f) fb = draw_text a t x y c f fb"
| "apply_op a (OpLogo x y) fb = draw_logo a x y fb"

definition paint :: "assets \<Rightarrow> draw_op list \<Rightarrow> Framebuffer \<Rightarrow> (Framebuffer, unit) outcome" where
  "paint a ops fb = ofold (apply_op a) ops (fb_clear fb)"

definition draw_rect_border :: "nat \<Rightarrow> nat \<Rightarrow> nat \<Rightarrow> nat \<Rightarrow> nat \<Rightarrow> BltPixel \<Rightarrow> draw_op list" where
  "draw_rect_border x y w h t c =
     [OpFill x y w t c] @
     (if h > t then [OpFill x (usub (uadd y h) t) w t c] else []) @
     [OpFill x y t h c] @
     (if w > t then [OpFill (usub (uadd x w) t) y t h c] else [])"

subsection \<open>No access outside the buffer\<close>

definition fb_dims :: "nat \<times> nat \<Rightarrow> Framebuffer \<Rightarrow> bool" where
  "fb_dims d fb \<longleftrightarrow> fb_width fb = fst d \<and> fb_height fb = snd d \<and> length (fb_pixels fb) = fst d * snd d"

definition logo_ok :: "bytes \<Rightarrow> bool" where
  "logo_ok d \<longleftrightarrow> list_all (\<lambda>i. 14 + unat (d ! (logo_runs_start d + i * 4 + 2)) * 3 + 2 < length d) [0..<logo_run_count d]"

definition assets_ok :: "assets \<Rightarrow> bool" where
  "assets_ok a \<longleftrightarrow>
     length (as_font_small a) = 256 * FONT_SMALL_H \<and> length (as_font_large a) = 256 * 2 * FONT_LARGE_H \<and>
     logo_ok (as_logo a)"

lemma ofold_total:
  assumes "\<And>x s. x \<in> set xs \<Longrightarrow> P s \<Longrightarrow> \<exists>s'. f x s = Ok s' \<and> P s'" "P s"
  shows "\<exists>s'. ofold f xs s = Ok s' \<and> P s'"
  using assms
proof (induction xs arbitrary: s)
  case (Cons x xs)
  obtain s1 where "f x s = Ok s1" "P s1" using Cons.prems(1) [of x s] Cons.prems(2) by auto
  then show ?case using Cons.IH [of s1] Cons.prems(1) by auto
qed simp

lemma pixel_index: "row < (h::nat) \<Longrightarrow> col < w \<Longrightarrow> row * w + col < w * h"
proof -
  assume *: "row < h" "col < w"
  then have "row * w + col < Suc row * w" by simp
  also have "\<dots> \<le> h * w" using * by (intro mult_right_mono) auto
  finally show ?thesis by (simp add: mult.commute)
qed

lemma set_pixel_total:
  "fb_dims d fb \<Longrightarrow> row < snd d \<Longrightarrow> col < fst d \<Longrightarrow>
   \<exists>fb'. set_pixel (row * fst d + col) c fb = Ok fb' \<and> fb_dims d fb'"
  by (simp add: set_pixel_def fb_dims_def pixel_index)

lemma fill_rect_total:
  assumes "fb_dims d fb"
  shows "\<exists>fb'. fill_rect x y w h c fb = Ok fb' \<and> fb_dims d fb'"
proof -
  have dims: "fb_width fb = fst d" "fb_height fb = snd d" using assms by (simp_all add: fb_dims_def)
  show ?thesis
    unfolding fill_rect_def Let_def dims
    by (intro ofold_total set_pixel_total) (use assms in auto)
qed

lemma draw_char_total:
  assumes "assets_ok a" "fb_dims d fb"
  shows "\<exists>fb'. draw_char a ch x y c font fb = Ok fb' \<and> fb_dims d fb'"
proof -
  define idx where "idx = (if ch < 256 then ch else 0xFE)"
  have idx: "idx < 256" by (simp add: idx_def)
  obtain data gw gh bpr where f: "(case font of FSmall \<Rightarrow> (as_font_small a, FONT_SMALL_W, FONT_SMALL_H, 1)
      | FLarge \<Rightarrow> (as_font_large a, FONT_LARGE_W, FONT_LARGE_H, 2)) = (data, gw, gh, bpr :: nat)"
    by (metis surj_pair)
  then have size: "length data = 256 * bpr * gh" "gw = 8 * bpr"
    using assms(1) by (auto simp: assets_ok_def FONT_SMALL_W_def FONT_LARGE_W_def split: Font.splits)
  have byte: "idx * bpr * gh + row * bpr + col div 8 < length data" if "row < gh" "col < gw" for row col
  proof -
    have "row * bpr + col div 8 < bpr * gh"
      using pixel_index [of row gh "col div 8" bpr] that size(2) by (simp add: less_mult_imp_div_less mult.commute)
    then have "idx * (bpr * gh) + (row * bpr + col div 8) < Suc idx * (bpr * gh)" by simp
    also have "\<dots> \<le> 256 * (bpr * gh)" using idx by (intro mult_right_mono) auto
    finally show ?thesis using size(1) by (simp add: mult.assoc)
  qed
  show ?thesis
    unfolding draw_char_def Let_def f idx_def [symmetric] prod.case
  proof (intro ofold_total assms(2))
    fix row fb assume row: "row \<in> set [0..<gh]" and fb: "fb_dims d fb"
    let ?py = "wrap_i32 (y + int row)"
    have "\<exists>fb'. (obind (at_idx data (idx * bpr * gh + row * bpr + col div 8)) (\<lambda>b.
         if and (drop_bit (7 - col mod 8) b) 1 = 1 \<and> 0 \<le> wrap_i32 (x + int col) \<and>
            nat (wrap_i32 (x + int col)) < fb_width fb1
         then set_pixel (nat ?py * fb_width fb1 + nat (wrap_i32 (x + int col))) c fb1 else Ok fb1)) = Ok fb' \<and>
         fb_dims d fb'"
      if "col \<in> set [0..<gw]" "fb_dims d fb1" "nat ?py < snd d" for col fb1
      using that row byte [of row col] set_pixel_total [of d fb1 "nat ?py" "nat (wrap_i32 (x + int col))" c]
      by (auto simp: fb_dims_def)
    then show "\<exists>fb'. (if ?py < 0 \<or> nat ?py \<ge> fb_height fb then Ok fb
        else ofold (\<lambda>col fb.
          obind (at_idx data (idx * bpr * gh + row * bpr + col div 8)) (\<lambda>b.
          if and (drop_bit (7 - col mod 8) b) 1 = 1 \<and> 0 \<le> wrap_i32 (x + int col) \<and> nat (wrap_i32 (x + int col)) < fb_width fb
          then set_pixel (nat ?py * fb_width fb + nat (wrap_i32 (x + int col))) c fb else Ok fb)) [0..<gw] fb) = Ok fb' \<and>
        fb_dims d fb'"
      using fb by (auto intro!: ofold_total simp: fb_dims_def)
  qed
qed

lemma draw_chars_total:
  assumes "assets_ok a" "fb_dims d fb"
  shows "\<exists>fb'. draw_chars a chs i x y c font fb = Ok fb' \<and> fb_dims d fb'"
  using assms(2)
proof (induction chs arbitrary: i fb)
  case (Cons ch chs)
  let ?x = "wrap_i32 (x + wrap_i32 (as_i32 i * as_i32 (font_width font)))"
  obtain fb1 where "draw_char a ch ?x y c font fb = Ok fb1" "fb_dims d fb1"
    using draw_char_total [OF assms(1) Cons.prems] by blast
  then show ?case using Cons.IH [of fb1 "Suc i"] Cons.IH [of fb "Suc i"] Cons.prems by (auto simp: Let_def)
qed simp

lemma logo_pixel_total:
  assumes "fb_dims d fb"
  shows "\<exists>fb'. logo_pixel dx dy rgb3 alpha off fb = Ok fb' \<and> fb_dims d fb'"
proof -
  obtain r g b where rgb3: "rgb3 = (r, g, b)" by (cases rgb3)
  show ?thesis
    using assms set_pixel_total [OF assms, of "uadd dy (off div LOGO_WIDTH)" "uadd dx (off mod LOGO_WIDTH)"]
      pixel_index [of "uadd dy (off div LOGO_WIDTH)" "snd d" "uadd dx (off mod LOGO_WIDTH)" "fst d"]
    by (auto simp: logo_pixel_def rgb3 Let_def fb_dims_def)
qed

lemma logo_run_total:
  assumes "logo_runs_start data + logo_run_count data * 4 \<le> length data" "logo_ok data"
    "i < logo_run_count data" "fb_dims d (snd s)"
  shows "\<exists>s'. logo_run data dx dy i s = Ok s' \<and> fb_dims d (snd s')"
proof -
  obtain off fb where s: "s = (off, fb)" by (cases s)
  have runs: "logo_runs_start data + i * 4 + 3 < length data" using assms(1,3) by simp
  have pal: "14 + unat (data ! (logo_runs_start data + i * 4 + 2)) * 3 + 2 < length data"
    using assms(2,3) by (simp add: logo_ok_def list_all_iff)
  have "\<exists>fb'. ofold (logo_pixel dx dy (r, g, b) alpha) xs fb = Ok fb' \<and> fb_dims d fb'" for r g b alpha xs
    using assms(4) by (intro ofold_total logo_pixel_total) (auto simp: s)
  then obtain k where k: "\<And>r g b alpha xs. ofold (logo_pixel dx dy (r, g, b) alpha) xs fb = Ok (k r g b alpha xs)"
    "\<And>r g b alpha xs. fb_dims d (k r g b alpha xs)"
    by metis
  define run_off where "run_off = logo_runs_start data + i * 4"
  define pal_off where "pal_off = 14 + unat (data ! (run_off + 2)) * 3"
  obtain c where c: "slice_idx data run_off (run_off + 2) = (Ok c :: (bytes, unit) outcome)"
    using runs by (auto simp: run_off_def)
  have idx: "run_off + 2 < length data" "run_off + 3 < length data" "pal_off < length data"
    "pal_off + 1 < length data" "pal_off + 2 < length data"
    using runs pal by (simp_all add: run_off_def pal_off_def)
  show ?thesis
    unfolding logo_run_def s prod.case Let_def run_off_def [symmetric] c obind.simps at_idx_Ok [OF idx(1)]
      at_idx_Ok [OF idx(2)] pal_off_def [symmetric] at_idx_Ok [OF idx(3)] at_idx_Ok [OF idx(4)] at_idx_Ok [OF idx(5)] k(1)
    using k(2) assms(4) by (simp add: s)
qed

lemma draw_logo_total:
  assumes "assets_ok a" "fb_dims d fb"
  shows "\<exists>fb'. draw_logo a x y fb = Ok fb' \<and> fb_dims d fb'"
proof (cases "logo_runs_start (as_logo a) + logo_run_count (as_logo a) * 4 > length (as_logo a)")
  case False
  have "\<exists>s'. ofold (logo_run (as_logo a) x y) [0..<logo_run_count (as_logo a)] (0, fb) = Ok s' \<and> fb_dims d (snd s')"
    using False assms by (intro ofold_total logo_run_total) (auto simp: assets_ok_def)
  then show ?thesis using assms(2) by (auto simp: draw_logo_def Let_def)
qed (use assms in \<open>simp add: draw_logo_def Let_def\<close>)

lemma apply_op_total:
  "assets_ok a \<Longrightarrow> fb_dims d fb \<Longrightarrow> \<exists>fb'. apply_op a op fb = Ok fb' \<and> fb_dims d fb'"
  by (cases op) (auto simp: fill_rect_total draw_text_def draw_chars_total draw_logo_total)

text \<open>C40: with complete fonts and a sound logo, painting any list of drawing operations, at whatever
  coordinates, accesses only pixels of the buffer and ends with a buffer of the same size.\<close>

theorem painting_stays_in_buffer:
  assumes "assets_ok a" "length (fb_pixels fb) = fb_width fb * fb_height fb"
  shows "\<exists>fb'. paint a ops fb = Ok fb' \<and> fb_width fb' = fb_width fb \<and> fb_height fb' = fb_height fb \<and>
    length (fb_pixels fb') = length (fb_pixels fb)"
proof -
  let ?d = "(fb_width fb, fb_height fb)"
  have "fb_dims ?d (fb_clear fb)" using assms(2) by (simp add: fb_dims_def fb_clear_def)
  then have "\<exists>fb'. paint a ops fb = Ok fb' \<and> fb_dims ?d fb'"
    unfolding paint_def using assms(1) by (intro ofold_total apply_op_total)
  then show ?thesis using assms(2) by (auto simp: fb_dims_def)
qed

definition blank_assets :: assets where
  "blank_assets = \<lparr>as_font_small = replicate 4096 0xFF, as_font_large = replicate 16384 0, as_logo = []\<rparr>"

theorem painting_stays_in_buffer_witness:
  "\<exists>fb'. paint blank_assets [OpFill 1 1 9 9 TEXT_COLOR, OpText ''AB'' (-4) (-2) ACCENT_COLOR FSmall, OpLogo 0 0] (fb_new 3 2) = Ok fb' \<and>
     length (fb_pixels fb') = 6"
proof -
  have ok: "assets_ok blank_assets"
    by (simp add: assets_ok_def blank_assets_def FONT_SMALL_H_def FONT_LARGE_H_def logo_ok_def logo_run_count_def from_le_def)
  show ?thesis
    using painting_stays_in_buffer [OF ok, of "fb_new 3 2"
      "[OpFill 1 1 9 9 TEXT_COLOR, OpText ''AB'' (-4) (-2) ACCENT_COLOR FSmall, OpLogo 0 0]"]
    by (auto simp: fb_new_def)
qed

end
