(* ===== verification/Menu.thy ===== *)
theory Menu
  imports Input Policy
begin

section \<open>The text menu\<close>

text \<open>
  Model of \<open>lamboot-core/src/console.rs\<close>: the menu for machines without graphics.  The input is a function
  that advances some state and returns an event; the input manager of theory \<open>Input\<close> is one.  What is printed
  is the list of lines on the screen.  The loop may run forever and is a partial function.  The frame counter
  is a 32-bit word whose multiplication wraps, as in the release build.

  The theorems: without input the menu starts the default entry after exactly as many idle frames as the
  timeout needs; the screen shows the selection whenever the menu waits for input; whatever is typed, the menu
  returns an entry of the list and never panics.
\<close>

datatype menu_exit = Picked BootEntry | FirmwareSetup | Rebooting

datatype ('st, 'x) turn = Again 'st | Leave 'x

text \<open>What the menu prints besides the entries: version, build target, the notice on sort keys.\<close>

record menu_text =
  mt_version :: string
  mt_target :: string
  mt_notice :: "string option"

record TextMenu =
  tm_selected_index :: nat
  tm_user_interacted :: bool
  tm_elapsed_frames :: u32
  tm_screen :: "string list"

subsection \<open>The screen\<close>

definition status_mark :: "BootEntry \<Rightarrow> string" where
  "status_mark e =
     (case map_option pf_status (en_preflight e) of
        Some PfWarning \<Rightarrow> '' [!]'' | Some PfError \<Rightarrow> '' [X]'' | _ \<Rightarrow> [])"

definition entry_line :: "nat \<Rightarrow> nat \<times> BootEntry \<Rightarrow> string" where
  "entry_line selected = (\<lambda>(i, e).
     '' '' @ (if i = selected then ''>'' else '' '') @ '' '' @ dec i @ '') '' @ en_name e @ status_mark e)"

definition draw_menu :: "menu_text \<Rightarrow> nat \<Rightarrow> BootEntry list \<Rightarrow> nat option \<Rightarrow> string list" where
  "draw_menu mt selected entries timeout_remaining =
     [''=== LamBoot v'' @ mt_version mt @ '' ('' @ mt_target mt @ '') ==='', []] @
     (case mt_notice mt of Some n \<Rightarrow> [''[!] '' @ n, []] | None \<Rightarrow> []) @
     (if entries = []
      then [''  No bootable entries found.'', ''  LamBoot searched: BLS entries, UKIs, Windows, GRUB, rEFInd'', []]
      else map (entry_line selected) (enumerate 0 entries)) @
     [[], ''--- System Actions ---'',
      '' '' @ (if selected = length entries then ''>'' else '' '') @ '' F2) Reboot to Firmware Setup'',
      '' '' @ (if selected = length entries + 1 then ''>'' else '' '') @ '' F12) Reboot'', []] @
     [case timeout_remaining of
        Some secs \<Rightarrow> ''Auto-boot in '' @ dec secs @ ''s... Press any key to stop.''
      | None \<Rightarrow> ''Up/Down: Navigate  Enter: Select  F2: Firmware  F12: Reboot'']"

subsection \<open>One iteration\<close>

definition has_bootable :: "BootEntry list \<Rightarrow> bool" where
  "has_bootable entries = list_ex (\<lambda>e. en_icon e \<noteq> IconTools) entries"

definition menu_timeout :: "BootEntry list \<Rightarrow> Policy \<Rightarrow> u32" where
  "menu_timeout entries p = (if has_bootable entries then of_nat (po_default_timeout_ms p) else 0)"

text \<open>The part before the poll: the countdown, and the automatic choice at its end.\<close>

definition text_tick ::
  "menu_text \<Rightarrow> BootEntry list \<Rightarrow> Policy \<Rightarrow> TextMenu \<Rightarrow> ((TextMenu, menu_exit) turn, unit) outcome" where
  "text_tick mt entries p m =
     (let timeout_ms = menu_timeout entries p; elapsed_ms = tm_elapsed_frames m * 100 in
      if tm_user_interacted m \<or> \<not> timeout_ms > 0 then Ok (Again m)
      else
        obind (if elapsed_ms \<ge> timeout_ms \<and> has_bootable entries
               then obind (select_default_entry entries [0..<length entries] p) (\<lambda>r.
                 let m' = (case r of Some i \<Rightarrow> m\<lparr>tm_selected_index := i\<rparr> | None \<Rightarrow> m) in
                 if tm_selected_index m' < length entries
                 then obind (at_idx entries (tm_selected_index m')) (\<lambda>e. Ok (Leave (Picked e)))
                 else Ok (Again m'))
               else Ok (Again m)) (\<lambda>t.
        case t of
          Leave x \<Rightarrow> Ok (Leave x)
        | Again m' \<Rightarrow>
            let remaining = (timeout_ms - min elapsed_ms timeout_ms) div 1000 in
            Ok (Again (if tm_elapsed_frames m' mod 10 = 0
              then m'\<lparr>tm_screen := draw_menu mt (tm_selected_index m') entries (Some (unat remaining))\<rparr> else m'))))"

definition text_enter :: "BootEntry list \<Rightarrow> TextMenu \<Rightarrow> ((TextMenu, menu_exit) turn, unit) outcome" where
  "text_enter entries m =
     (if tm_selected_index m < length entries
      then obind (at_idx entries (tm_selected_index m)) (\<lambda>e. Ok (Leave (Picked e)))
      else if tm_selected_index m - length entries = 0 then Ok (Leave FirmwareSetup) else Ok (Leave Rebooting))"

definition text_key ::
  "menu_text \<Rightarrow> BootEntry list \<Rightarrow> Key \<Rightarrow> TextMenu \<Rightarrow> ((TextMenu, menu_exit) turn, unit) outcome" where
  "text_key mt entries k m =
     (let redraw = (\<lambda>m. m\<lparr>tm_screen := draw_menu mt (tm_selected_index m) entries None\<rparr>); sel = tm_selected_index m in
      case k of
        KUp \<Rightarrow> Ok (Again (redraw (if sel > 0 then m\<lparr>tm_selected_index := sel - 1\<rparr> else m)))
      | KDown \<Rightarrow> Ok (Again (redraw (if sel < length entries + 2 - 1 then m\<lparr>tm_selected_index := sel + 1\<rparr> else m)))
      | KEnter \<Rightarrow> text_enter entries m
      | KF2 \<Rightarrow> Ok (Leave FirmwareSetup)
      | KF12 \<Rightarrow> Ok (Leave Rebooting)
      | KChar c \<Rightarrow>
          if c = 13 then text_enter entries m
          else if 48 \<le> c \<and> c \<le> 57 \<and> c - 48 < length entries
          then obind (at_idx entries (c - 48)) (\<lambda>e. Ok (Leave (Picked e)))
          else Ok (Again m)
      | _ \<Rightarrow> Ok (Again m))"

definition text_event ::
  "menu_text \<Rightarrow> BootEntry list \<Rightarrow> InputEvent \<Rightarrow> TextMenu \<Rightarrow> ((TextMenu, menu_exit) turn, unit) outcome" where
  "text_event mt entries e m =
     (case e of
        KeyPress k \<Rightarrow> text_key mt entries k (m\<lparr>tm_user_interacted := True\<rparr>)
      | NoInput \<Rightarrow> Ok (Again (m\<lparr>tm_elapsed_frames := tm_elapsed_frames m + 1\<rparr>))
      | _ \<Rightarrow> Ok (Again m))"

subsection \<open>The loop\<close>

partial_function (option) text_loop ::
  "menu_text \<Rightarrow> BootEntry list \<Rightarrow> Policy \<Rightarrow> ('p \<Rightarrow> 'p \<times> InputEvent) \<Rightarrow> TextMenu \<Rightarrow> 'p \<Rightarrow>
   ('p \<times> (menu_exit, unit) outcome) option" where
  "text_loop mt entries pol inp m p =
     (case text_tick mt entries pol m of
        Panic \<Rightarrow> Some (p, Panic)
      | Err u \<Rightarrow> Some (p, Err u)
      | Ok (Leave x) \<Rightarrow> Some (p, Ok x)
      | Ok (Again m1) \<Rightarrow>
          (case inp p of
             (p', e) \<Rightarrow>
               (case text_event mt entries e m1 of
                  Panic \<Rightarrow> Some (p', Panic)
                | Err u \<Rightarrow> Some (p', Err u)
                | Ok (Leave x) \<Rightarrow> Some (p', Ok x)
                | Ok (Again m2) \<Rightarrow> text_loop mt entries pol inp m2 p')))"

definition text_start :: "menu_text \<Rightarrow> BootEntry list \<Rightarrow> TextMenu" where
  "text_start mt entries =
     \<lparr>tm_selected_index = 0, tm_user_interacted = False, tm_elapsed_frames = 0, tm_screen = draw_menu mt 0 entries None\<rparr>"

definition text_run_menu ::
  "menu_text \<Rightarrow> BootEntry list \<Rightarrow> Policy \<Rightarrow> ('p \<Rightarrow> 'p \<times> InputEvent) \<Rightarrow> 'p \<Rightarrow> ('p \<times> (menu_exit, unit) outcome) option" where
  "text_run_menu mt entries pol inp p = text_loop mt entries pol inp (text_start mt entries) p"

subsection \<open>The default entry\<close>

lemma select_default_entry_total:
  assumes "set eligible \<subseteq> {..<length entries}"
  obtains r where "select_default_entry entries eligible p = Ok r" "\<And>i. r = Some i \<Longrightarrow> i \<in> set eligible"
proof -
  obtain b where b: "(case po_default_pattern p of Some pat \<Rightarrow> best_match entries pat None eligible | None \<Rightarrow> Ok None) = Ok b"
    "\<And>i c. b = Some (i, c) \<Longrightarrow> i \<in> set eligible"
  proof (cases "po_default_pattern p")
    case None
    then show ?thesis using that by simp
  next
    case (Some pat)
    then show ?thesis
      using that best_match_spec [OF assms, of pat None] by (fastforce simp: matching_def split: option.splits)
  qed
  have f: "find_by_id entries d eligible = Ok (find (\<lambda>i. en_id (entries ! i) = d) eligible)" for d
    by (rule find_by_id_spec [OF assms])
  have m: "find P eligible = Some i \<Longrightarrow> i \<in> set eligible" for P i by (auto simp: find_Some_iff)
  define r where "r = (case b of Some (i, _) \<Rightarrow> Some i
    | None \<Rightarrow> Option.bind (po_default_entry p) (\<lambda>d. find (\<lambda>i. en_id (entries ! i) = d) eligible))"
  have "select_default_entry entries eligible p = Ok r"
    unfolding select_default_entry_def b(1) by (simp add: r_def f split: option.splits)
  moreover have "i \<in> set eligible" if "r = Some i" for i
    using that b(2) m by (auto simp: r_def bind_eq_Some_conv split: option.splits)
  ultimately show ?thesis by (rule that)
qed

text \<open>The index the text menu starts on its own.\<close>

definition text_default :: "BootEntry list \<Rightarrow> Policy \<Rightarrow> nat" where
  "text_default entries p =
     (case select_default_entry entries [0..<length entries] p of Ok (Some i) \<Rightarrow> i | _ \<Rightarrow> 0)"

lemma text_default_bound: "entries \<noteq> [] \<Longrightarrow> text_default entries p < length entries"
  using select_default_entry_total [of "[0..<length entries]" entries p]
  by (fastforce simp: text_default_def atLeast0LessThan split: outcome.splits option.splits)

lemma has_bootable_nonempty: "has_bootable entries \<Longrightarrow> entries \<noteq> []"
  by (auto simp: has_bootable_def)

subsection \<open>Auto-boot\<close>

lemma frames_ms:
  assumes "n * c < 2 ^ 32"
  shows "unat (of_nat n * of_nat c :: u32) = n * c"
  using assms by (simp add: unat_of_nat take_bit_nat_eq_self flip: of_nat_mult)

definition iter :: "('p \<Rightarrow> 'p \<times> InputEvent) \<Rightarrow> nat \<Rightarrow> 'p \<Rightarrow> 'p" where
  "iter inp n = (fst \<circ> inp) ^^ n"

definition countdown_frames :: "nat \<Rightarrow> nat \<Rightarrow> nat" where
  "countdown_frames ms frame = (ms + frame - 1) div frame"

lemma countdown_frames_less:
  assumes "0 < c" "n < countdown_frames ms c"
  shows "n * c < ms"
proof -
  have "Suc n \<le> (ms + c - 1) div c" using assms(2) by (simp add: countdown_frames_def)
  then have "Suc n * c \<le> ms + c - 1" using assms(1) by (simp add: less_eq_div_iff_mult_less_eq)
  then show ?thesis using assms(1) by simp
qed

lemma countdown_frames_reached:
  assumes "0 < c" "0 < ms"
  shows "ms \<le> countdown_frames ms c * c" "countdown_frames ms c * c < ms + c"
proof -
  have "(ms + c - 1) mod c < c" using assms by simp
  moreover have "(ms + c - 1) div c * c + (ms + c - 1) mod c = ms + c - 1" by (rule div_mult_mod_eq)
  ultimately have "(ms + c - 1) div c * c \<le> ms + c - 1" "ms + c - 1 < (ms + c - 1) div c * c + c" by linarith+
  then show "ms \<le> countdown_frames ms c * c" "countdown_frames ms c * c < ms + c"
    using assms unfolding countdown_frames_def by linarith+
qed

text \<open>Idle frames before the end of the countdown only redraw.\<close>

lemma text_tick_waiting:
  assumes "\<not> tm_user_interacted m" "tm_elapsed_frames m * 100 < menu_timeout entries pol"
  shows "\<exists>scr. text_tick mt entries pol m = Ok (Again (m\<lparr>tm_screen := scr\<rparr>))"
proof -
  have "\<not> tm_elapsed_frames m * 100 \<ge> menu_timeout entries pol" using assms(2) by simp
  moreover have "\<exists>scr. m = m\<lparr>tm_screen := scr\<rparr>" by (rule exI [of _ "tm_screen m"]) simp
  ultimately show ?thesis using assms(1) by (auto simp: text_tick_def Let_def)
qed

lemma text_tick_timeout:
  assumes "\<not> tm_user_interacted m" "tm_selected_index m = 0" "has_bootable entries" "0 < menu_timeout entries pol"
    "menu_timeout entries pol \<le> tm_elapsed_frames m * 100"
  shows "text_tick mt entries pol m = Ok (Leave (Picked (entries ! text_default entries pol)))"
proof -
  obtain r where r: "select_default_entry entries [0..<length entries] pol = Ok r"
    using select_default_entry_total [of "[0..<length entries]" entries pol] by (auto simp: atLeast0LessThan)
  have "text_default entries pol < length entries"
    using assms(3) has_bootable_nonempty text_default_bound by blast
  then show ?thesis
    using assms r by (auto simp: text_tick_def Let_def text_default_def split: option.splits)
qed

lemma text_idle:
  assumes silent: "\<And>q. snd (inp q) = NoInput" and bound: "unat (menu_timeout entries pol) \<le> 4294967200"
    and n: "n \<le> countdown_frames (unat (menu_timeout entries pol)) 100"
  shows "\<exists>scr. text_loop mt entries pol inp (text_start mt entries) p =
    text_loop mt entries pol inp ((text_start mt entries)\<lparr>tm_elapsed_frames := of_nat n, tm_screen := scr\<rparr>) (iter inp n p)"
  using n
proof (induction n)
  case 0
  have "(text_start mt entries) =
      (text_start mt entries)\<lparr>tm_elapsed_frames := of_nat 0, tm_screen := tm_screen (text_start mt entries)\<rparr>"
    by (simp add: text_start_def)
  then show ?case by (metis iter_def funpow_0)
next
  case (Suc n)
  let ?m = "\<lambda>k scr. (text_start mt entries)\<lparr>tm_elapsed_frames := of_nat k, tm_screen := scr\<rparr>"
  obtain scr where ih: "text_loop mt entries pol inp (text_start mt entries) p =
      text_loop mt entries pol inp (?m n scr) (iter inp n p)"
    using Suc by auto
  have less: "n * 100 < unat (menu_timeout entries pol)"
    using countdown_frames_less [of 100 n] Suc.prems by simp
  then have "of_nat n * 100 < menu_timeout entries pol"
    using frames_ms [of n 100] bound by (simp add: word_less_nat_alt)
  then obtain scr' where tick: "text_tick mt entries pol (?m n scr) = Ok (Again (?m n scr'))"
    using text_tick_waiting [of "?m n scr" entries pol mt] by (auto simp: text_start_def)
  obtain q where q: "inp (iter inp n p) = (q, NoInput)" using silent by (metis prod.collapse)
  have "iter inp (Suc n) p = q" using q by (simp add: iter_def)
  moreover have "text_event mt entries NoInput (?m n scr') = Ok (Again (?m (Suc n) scr'))"
    by (simp add: text_event_def add.commute)
  ultimately have "text_loop mt entries pol inp (?m n scr) (iter inp n p) =
      text_loop mt entries pol inp (?m (Suc n) scr') (iter inp (Suc n) p)"
    using tick q by (subst text_loop.simps) simp
  then show ?case using ih by auto
qed

text \<open>Without input the text menu ends: it starts the default entry after exactly as many idle frames as
  the timeout needs.\<close>

lemma text_menu_auto_boots:
  assumes "\<And>q. snd (inp q) = NoInput" "has_bootable entries"
    "0 < po_default_timeout_ms pol" "po_default_timeout_ms pol \<le> 4294967200"
  shows "text_run_menu mt entries pol inp p =
    Some (iter inp (countdown_frames (po_default_timeout_ms pol) 100) p, Ok (Picked (entries ! text_default entries pol)))"
proof -
  let ?T = "menu_timeout entries pol"
  have T: "unat ?T = po_default_timeout_ms pol"
    using assms(2,4) by (simp add: menu_timeout_def unat_of_nat take_bit_nat_eq_self)
  define K where "K = countdown_frames (po_default_timeout_ms pol) 100"
  obtain scr where "text_run_menu mt entries pol inp p = text_loop mt entries pol inp
      ((text_start mt entries)\<lparr>tm_elapsed_frames := of_nat K, tm_screen := scr\<rparr>) (iter inp K p)" (is "_ = text_loop _ _ _ _ ?m _")
    using text_idle [where inp = inp and entries = entries and pol = pol and n = K and mt = mt and p = p] assms(1) T assms(4) by (auto simp: text_run_menu_def K_def)
  moreover have "K \<le> 42949672"
    using div_le_mono [of "po_default_timeout_ms pol + 100 - 1" 4294967299 100] assms(4)
    by (simp add: K_def countdown_frames_def)
  then have "?T \<le> of_nat K * 100"
    using frames_ms [of K 100] T countdown_frames_reached(1) [of 100 "po_default_timeout_ms pol"] assms(3)
    by (simp add: word_le_nat_alt K_def)
  moreover have "0 < ?T" using T assms(3) by (simp add: word_less_nat_alt)
  ultimately show ?thesis
    using text_tick_timeout [of ?m entries pol mt] assms(2)
    by (simp add: K_def text_start_def text_loop.simps [of mt entries pol inp])
qed

definition tool_entry_demo :: BootEntry where
  "tool_entry_demo = (demo_entry ''tool-mem'')\<lparr>en_icon := IconTools\<rparr>"

lemma text_menu_auto_boots_witness:
  "text_run_menu \<lparr>mt_version = [], mt_target = [], mt_notice = None\<rparr> [demo_entry ''bls-a'', tool_entry_demo]
     (default_policy\<lparr>po_default_timeout_ms := 250\<rparr>) (\<lambda>n. (Suc n, NoInput)) 0 = Some (3, Ok (Picked (demo_entry ''bls-a'')))"
proof -
  have "iter (\<lambda>n. (Suc n, NoInput)) 3 0 = (3::nat)" by (simp add: iter_def numeral_3_eq_3)
  then show ?thesis
    using text_menu_auto_boots [of "\<lambda>n. (Suc n, NoInput)" "[demo_entry ''bls-a'', tool_entry_demo]"
      "default_policy\<lparr>po_default_timeout_ms := 250\<rparr>" "\<lparr>mt_version = [], mt_target = [], mt_notice = None\<rparr>" 0]
    by (simp add: has_bootable_def demo_entry_def countdown_frames_def text_default_def select_default_entry_def
        default_policy_def)
qed

subsection \<open>Every run\<close>

text \<open>The selection is in range, and the screen shows it.\<close>

definition text_ok :: "menu_text \<Rightarrow> BootEntry list \<Rightarrow> TextMenu \<Rightarrow> bool" where
  "text_ok mt entries m \<longleftrightarrow>
     tm_selected_index m < length entries + 2 \<and>
     (\<exists>rem. tm_screen m = draw_menu mt (tm_selected_index m) entries rem)"

fun good_exit :: "BootEntry list \<Rightarrow> menu_exit \<Rightarrow> bool" where
  "good_exit entries (Picked e) = (e \<in> set entries)"
| "good_exit entries x = True"

fun good_turn :: "menu_text \<Rightarrow> BootEntry list \<Rightarrow> ((TextMenu, menu_exit) turn, unit) outcome \<Rightarrow> bool" where
  "good_turn mt entries (Ok (Again m)) = text_ok mt entries m"
| "good_turn mt entries (Ok (Leave x)) = good_exit entries x"
| "good_turn mt entries r = False"

lemma text_tick_good:
  assumes ok: "text_ok mt entries m"
  shows "good_turn mt entries (text_tick mt entries pol m)"
proof -
  obtain r where r: "select_default_entry entries [0..<length entries] pol = Ok r"
    "\<And>i. r = Some i \<Longrightarrow> i < length entries"
    using select_default_entry_total [of "[0..<length entries]" entries pol] by (auto simp: atLeast0LessThan)
  show ?thesis
    using ok r by (auto simp: text_tick_def text_ok_def Let_def split: option.splits)
qed

lemma text_event_good:
  assumes ok: "text_ok mt entries m"
  shows "good_turn mt entries (text_event mt entries e m)"
proof (cases e)
  case (KeyPress k)
  then show ?thesis
    using ok by (cases k) (auto simp: text_event_def text_key_def text_enter_def text_ok_def Let_def)
qed (use ok in \<open>simp_all add: text_event_def text_ok_def\<close>)

lemma text_loop_good:
  assumes "text_loop mt entries pol inp m p = Some pr" "text_ok mt entries m"
  shows "\<exists>x. snd pr = Ok x \<and> good_exit entries x"
  using assms(2)
proof (induct rule: text_loop.raw_induct [OF _ assms(1)])
  case (1 loop mt entries pol inp m p pr)
  note tick = text_tick_good [OF 1(3), of pol]
  obtain t where t: "text_tick mt entries pol m = Ok t" using tick by (cases "text_tick mt entries pol m") auto
  show ?case
  proof (cases t)
    case (Leave x)
    then show ?thesis using 1(2) tick t by auto
  next
    case (Again m1)
    obtain q e where q: "inp p = (q, e)" by fastforce
    have ev: "good_turn mt entries (text_event mt entries e m1)"
      using tick t Again text_event_good by simp
    obtain u where u: "text_event mt entries e m1 = Ok u" using ev by (cases "text_event mt entries e m1") auto
    show ?thesis
    proof (cases u)
      case (Again m2)
      then have "loop mt entries pol inp m2 q = Some pr" using 1(2) t \<open>t = turn.Again m1\<close> q u by simp
      then show ?thesis using 1(1) ev u Again by simp
    qed (use 1(2) t Again q u ev in auto)
  qed
qed

text \<open>Whatever the user types, a text menu that ends has chosen an entry of the list or a system action;
  it never panics.\<close>

lemma text_menu_is_safe:
  assumes "text_run_menu mt entries pol inp p = Some (p', r)"
  shows "\<exists>x. r = Ok x \<and> (\<forall>e. x = Picked e \<longrightarrow> e \<in> set entries)"
proof -
  have "text_ok mt entries (text_start mt entries)" by (auto simp: text_ok_def text_start_def)
  then obtain x where "r = Ok x" "good_exit entries x"
    using text_loop_good assms unfolding text_run_menu_def by fastforce
  then show ?thesis by (cases x) auto
qed

end
