(* ===== verification/Gui.thy ===== *)
theory Gui
  imports Framebuffer Menu
begin

section \<open>The graphical menu\<close>

text \<open>
  Model of \<open>GuiContext\<close> in \<open>lamboot-core/src/gui.rs\<close>: the layout, the frame as a list of drawing operations
  (header, the two columns, footer, cursor), the mapping of a mouse position to a tile, and the loop with its
  countdown, its keyboard and mouse handling and its repaint gating.  The state of the loop and the context
  are one record; \<open>gc_painted\<close> is the frame on the screen.

  The theorems: without input the menu starts the default entry after exactly as many idle frames as the
  timeout needs; whenever the menu waits for input, the screen shows the frame of the present state, although
  most iterations do not repaint; a mouse position inside a tile that is drawn selects the entry of that tile,
  and a position outside all tiles selects none; the menu returns an entry of the list.
\<close>

subsection \<open>Context\<close>

datatype Column = CLeft | CRight

record SystemInfoDisplay =
  sd_vmid :: "string option"
  sd_hypervisor :: "string option"
  sd_system_product :: "string option"
  sd_secure_boot :: bool
  sd_driver_count :: nat

record GuiContext =
  gc_width :: nat
  gc_height :: nat
  gc_sel_idx :: nat
  gc_sel_col :: Column
  gc_scroll_left :: nat
  gc_scroll_right :: nat
  gc_mouse_x :: int
  gc_mouse_y :: int
  gc_sys_info :: SystemInfoDisplay
  gc_user_interacted :: bool
  gc_timed_out :: bool
  gc_elapsed_frames :: u32
  gc_dirty :: bool
  gc_last_drawn_second :: "u32 option"
  gc_painted :: "draw_op list option"

definition BOOT_TILE_H :: nat where "BOOT_TILE_H = 60"
definition TOOL_TILE_H :: nat where "TOOL_TILE_H = 40"
definition TILE_GAP :: nat where "TILE_GAP = 6"
definition HEADER_H :: nat where "HEADER_H = 140"
definition FOOTER_H :: nat where "FOOTER_H = 50"
definition MARGIN :: nat where "MARGIN = 20"
definition COL_GAP :: nat where "COL_GAP = 20"

lemmas layout_defs = BOOT_TILE_H_def TOOL_TILE_H_def TILE_GAP_def HEADER_H_def FOOTER_H_def MARGIN_def COL_GAP_def

definition gui_new :: "SystemInfoDisplay \<Rightarrow> nat \<Rightarrow> nat \<Rightarrow> GuiContext" where
  "gui_new info width height =
     \<lparr>gc_width = width, gc_height = height, gc_sel_idx = 0, gc_sel_col = CLeft, gc_scroll_left = 0, gc_scroll_right = 0,
      gc_mouse_x = as_i32 (width div 2), gc_mouse_y = as_i32 (height div 2), gc_sys_info = info,
      gc_user_interacted = False, gc_timed_out = False, gc_elapsed_frames = 0, gc_dirty = True,
      gc_last_drawn_second = None, gc_painted = None\<rparr>"

subsection \<open>Layout\<close>

definition content_bottom :: "GuiContext \<Rightarrow> nat" where "content_bottom g = gc_height g - FOOTER_H"
definition content_height :: "GuiContext \<Rightarrow> nat" where "content_height g = content_bottom g - HEADER_H"

definition left_col_w :: "GuiContext \<Rightarrow> nat" where
  "left_col_w g = (usub (usub (gc_width g) (2 * MARGIN)) COL_GAP * 55) mod 2 ^ 64 div 100"

definition right_col_x :: "GuiContext \<Rightarrow> nat" where
  "right_col_x g = uadd (uadd MARGIN (left_col_w g)) COL_GAP"

definition right_col_w :: "GuiContext \<Rightarrow> nat" where
  "right_col_w g = usub (usub (gc_width g) (right_col_x g)) MARGIN"

definition max_visible_boot :: "GuiContext \<Rightarrow> nat" where
  "max_visible_boot g = max (content_height g div (BOOT_TILE_H + TILE_GAP)) 1"

definition boot_indices :: "BootEntry list \<Rightarrow> nat list" where
  "boot_indices entries = filter (\<lambda>i. en_icon (entries ! i) \<noteq> IconTools) [0..<length entries]"

definition tool_indices :: "BootEntry list \<Rightarrow> nat list" where
  "tool_indices entries = filter (\<lambda>i. en_icon (entries ! i) = IconTools) [0..<length entries]"

subsection \<open>The frame\<close>

fun icon_label :: "Icon \<Rightarrow> string" where
  "icon_label IconWindows = ''Win''"
| "icon_label IconLinux = ''Linux''"
| "icon_label IconEfi = ''EFI''"
| "icon_label IconRecovery = ''Rcvr''"
| "icon_label IconNetwork = ''Net''"
| "icon_label IconTools = ''Tool''"

fun entry_type_label :: "EntryKind \<Rightarrow> Icon \<Rightarrow> string" where
  "entry_type_label (LinuxLegacy k i opts) icon = ''Linux kernel + initrd''"
| "entry_type_label (Uki p opts) icon = ''Unified Kernel Image''"
| "entry_type_label (Chainload p) icon =
     (if icon = IconWindows then ''Windows Boot Manager''
      else if icon = IconTools then ''Diagnostic module'' else ''EFI bootloader'')"
| "entry_type_label (Iso src) icon = ''Bootable ISO image''"

definition truncate_to_fit :: "string \<Rightarrow> nat \<Rightarrow> Font \<Rightarrow> string" where
  "truncate_to_fit text max_pixels font =
     (let max_chars = max_pixels div font_width font in
      if length text \<le> max_chars then text
      else utf8_text (take (max_chars - 3) (str_chars text)) @ ''...'')"

definition text_right :: "int \<Rightarrow> string \<Rightarrow> nat \<Rightarrow> int" where
  "text_right edge s char_w = wrap_i32 (edge - wrap_i32 (as_i32 (length s) * as_i32 char_w))"

fun join_strs :: "string \<Rightarrow> string list \<Rightarrow> string" where
  "join_strs sep [] = []"
| "join_strs sep [s] = s"
| "join_strs sep (s # t # ss) = s @ sep @ join_strs sep (t # ss)"

definition draw_header :: "menu_text \<Rightarrow> GuiContext \<Rightarrow> draw_op list" where
  "draw_header mt g =
     (let info = gc_sys_info g; text_x = as_i32 (MARGIN + LOGO_WIDTH + 16); edge = as_i32 (usub (gc_width g) MARGIN);
          y0 = 18;
          vm = (case sd_vmid info of
                  Some v \<Rightarrow> [OpText (''VM '' @ v) (text_right edge (''VM '' @ v) FONT_LARGE_W) y0 ACCENT_COLOR FLarge] | None \<Rightarrow> []);
          y1 = (if sd_vmid info = None then y0 else y0 + 40);
          parts = (case sd_hypervisor info of Some h \<Rightarrow> [h] | None \<Rightarrow> []) @
                  (case sd_system_product info of Some p \<Rightarrow> [p] | None \<Rightarrow> []);
          line = join_strs '' | '' parts;
          y2 = (if parts = [] then y1 else y1 + 18);
          build_line = (if sd_secure_boot info then ''SB: on'' else ''SB: off'') @ '' | '' @ dec (sd_driver_count info) @ '' driver(s)'' in
      [OpLogo MARGIN 8,
       OpText ''LamBoot'' text_x 28 ACCENT_COLOR FLarge,
       OpText (''v'' @ mt_version mt @ '' ('' @ mt_target mt @ '')'') text_x 64 SUBTITLE_COLOR FSmall] @
      vm @
      (if parts = [] then [] else [OpText line (text_right edge line FONT_SMALL_W) y1 SUBTITLE_COLOR FSmall]) @
      [OpText build_line (text_right edge build_line FONT_SMALL_W) y2 SUBTITLE_COLOR FSmall,
       OpFill MARGIN (HEADER_H - 2) (usub (gc_width g) (2 * MARGIN)) 1 DIVIDER_COLOR])"

definition draw_boot_tile :: "nat \<Rightarrow> nat \<Rightarrow> nat \<Rightarrow> BootEntry \<Rightarrow> bool \<Rightarrow> draw_op list" where
  "draw_boot_tile x y w e selected =
     (let ix = as_i32 x; iy = as_i32 y; name_x = wrap_i32 (ix + 60) in
      [OpFill x y w BOOT_TILE_H (if selected then SELECTED_COLOR else TILE_COLOR)] @
      (if selected then draw_rect_border x y w BOOT_TILE_H 2 ACCENT_COLOR else []) @
      [OpText (icon_label (en_icon e)) (wrap_i32 (ix + 10)) (wrap_i32 (iy + 8)) ACCENT_COLOR FSmall,
       OpText (truncate_to_fit (en_name e) (w - 90) FSmall) name_x (wrap_i32 (iy + 10)) TEXT_COLOR FSmall,
       OpText (entry_type_label (en_kind e) (en_icon e)) name_x (wrap_i32 (iy + 30)) SUBTITLE_COLOR FSmall] @
      (case map_option pf_status (en_preflight e) of
         Some PfWarning \<Rightarrow> [OpText ''!'' (wrap_i32 (as_i32 (uadd x w) - 20)) (wrap_i32 (iy + 10)) WARNING_COLOR FSmall]
       | Some PfError \<Rightarrow> [OpText ''X'' (wrap_i32 (as_i32 (uadd x w) - 20)) (wrap_i32 (iy + 10)) (rgb 0xf3 0x8b 0xa8) FSmall]
       | _ \<Rightarrow> []))"

definition vis_end :: "GuiContext \<Rightarrow> nat \<Rightarrow> nat" where
  "vis_end g n = min (gc_scroll_left g + max_visible_boot g) n"

definition draw_left_column :: "BootEntry list \<Rightarrow> nat list \<Rightarrow> GuiContext \<Rightarrow> draw_op list" where
  "draw_left_column entries boots g =
     (let x = MARGIN; w = left_col_w g; top = as_i32 HEADER_H; mid = as_i32 (usub (uadd x (w div 2)) 24) in
      [OpText ''Boot Entries'' (as_i32 x) (top - 18) SUBTITLE_COLOR FSmall] @
      (if boots = [] then [OpText ''No bootable entries found.'' (as_i32 x + 8) (top + 10) WARNING_COLOR FSmall]
       else
         concat (map (\<lambda>(vi, bi). draw_boot_tile x (HEADER_H + vi * (BOOT_TILE_H + TILE_GAP)) w (entries ! (boots ! bi))
                   (gc_sel_col g = CLeft \<and> bi = gc_sel_idx g))
           (enumerate 0 [gc_scroll_left g..<vis_end g (length boots)])) @
         (if gc_scroll_left g > 0 then [OpText ''^ more'' mid (top - 18) ACCENT_COLOR FSmall] else []) @
         (if vis_end g (length boots) < length boots
          then [OpText ''v more'' mid (as_i32 (HEADER_H + max_visible_boot g * (BOOT_TILE_H + TILE_GAP))) ACCENT_COLOR FSmall] else [])))"

definition draw_tool_tile :: "nat \<Rightarrow> nat \<Rightarrow> nat \<Rightarrow> string \<Rightarrow> string \<Rightarrow> bool \<Rightarrow> draw_op list" where
  "draw_tool_tile x y w name subtitle selected =
     (let shown = (case strip_prefix ''Tool: '' name of Some s \<Rightarrow> s | None \<Rightarrow> name) in
      [OpFill x y w TOOL_TILE_H (if selected then SELECTED_COLOR else TILE_COLOR)] @
      (if selected then draw_rect_border x y w TOOL_TILE_H 2 ACCENT_COLOR else []) @
      [OpText (truncate_to_fit shown (w - 20) FSmall) (wrap_i32 (as_i32 x + 10)) (wrap_i32 (as_i32 y + 4)) TEXT_COLOR FSmall,
       OpText subtitle (wrap_i32 (as_i32 x + 10)) (wrap_i32 (as_i32 y + 22)) SUBTITLE_COLOR FSmall])"

text \<open>The loop over the tools: the drawing and the place after the last tile.\<close>

fun draw_tools ::
  "BootEntry list \<Rightarrow> (nat \<Rightarrow> bool) \<Rightarrow> nat \<Rightarrow> nat \<Rightarrow> nat \<Rightarrow> nat \<Rightarrow> nat list \<Rightarrow> draw_op list \<times> nat" where
  "draw_tools entries selected x w i y [] = ([], y)"
| "draw_tools entries selected x w i y (ti # tools) =
     (let (ops, end) = draw_tools entries selected x w (Suc i) (y + (TOOL_TILE_H + TILE_GAP)) tools in
      (draw_tool_tile x y w (en_name (entries ! ti)) ''Diagnostic module'' (selected i) @ ops, end))"

definition ACTIONS :: "(string \<times> string) list" where
  "ACTIONS = [(''Firmware Setup'', ''[F2]''), (''Reboot'', ''[F12]'')]"

definition draw_action :: "nat \<Rightarrow> nat \<Rightarrow> nat \<Rightarrow> string \<times> string \<Rightarrow> bool \<Rightarrow> draw_op list" where
  "draw_action x y w = (\<lambda>(label, key) selected.
     [OpFill x y w TOOL_TILE_H (if selected then SELECTED_COLOR else TILE_COLOR)] @
     (if selected then draw_rect_border x y w TOOL_TILE_H 2 ACCENT_COLOR else []) @
     [OpText label (wrap_i32 (as_i32 x + 10)) (wrap_i32 (as_i32 y + 12)) TEXT_COLOR FSmall,
      OpText key (wrap_i32 (text_right (as_i32 (uadd x w)) key FONT_SMALL_W - 10)) (wrap_i32 (as_i32 y + 12)) ACCENT_COLOR FSmall])"

fun draw_actions :: "(nat \<Rightarrow> bool) \<Rightarrow> nat \<Rightarrow> nat \<Rightarrow> nat \<Rightarrow> nat \<Rightarrow> (string \<times> string) list \<Rightarrow> draw_op list" where
  "draw_actions selected x w i y [] = []"
| "draw_actions selected x w i y (a # actions) =
     draw_action x y w a (selected i) @ draw_actions selected x w (Suc i) (y + (TOOL_TILE_H + TILE_GAP)) actions"

definition draw_right_column :: "BootEntry list \<Rightarrow> nat list \<Rightarrow> GuiContext \<Rightarrow> draw_op list" where
  "draw_right_column entries tools g =
     (let x = right_col_x g; w = right_col_w g; selected = (\<lambda>i. gc_sel_col g = CRight \<and> i = gc_sel_idx g);
          (ops, y) = draw_tools entries selected x w 0 HEADER_H tools in
      [OpText ''Tools & Actions'' (as_i32 x) (as_i32 HEADER_H - 18) SUBTITLE_COLOR FSmall] @ ops @
      [OpFill x (y + 4) w 1 DIVIDER_COLOR] @
      draw_actions selected x w (length tools) (y + 4 + 8) ACTIONS)"

definition get_selected_status :: "BootEntry list \<Rightarrow> nat list \<Rightarrow> nat list \<Rightarrow> GuiContext \<Rightarrow> string" where
  "get_selected_status entries boots tools g =
     (let column = (case gc_sel_col g of CLeft \<Rightarrow> boots | CRight \<Rightarrow> tools);
          issue = (if gc_sel_idx g < length column
                   then Option.bind (en_preflight (entries ! (column ! gc_sel_idx g))) first_issue else None) in
      case issue of Some c \<Rightarrow> cr_message c | None \<Rightarrow> ''Use arrow keys to navigate. Press Enter to boot.'')"

definition footer_status :: "BootEntry list \<Rightarrow> u32 \<Rightarrow> GuiContext \<Rightarrow> string" where
  "footer_status entries timeout_ms g =
     (if \<not> gc_user_interacted g \<and> timeout_ms > 0
      then
        let elapsed_ms = gc_elapsed_frames g * 16 in
        if elapsed_ms < timeout_ms then ''Auto-boot in '' @ dec (unat ((timeout_ms - elapsed_ms) div 1000)) @ ''s...''
        else ''Booting...''
      else get_selected_status entries (boot_indices entries) (tool_indices entries) g)"

definition draw_footer :: "menu_text \<Rightarrow> string \<Rightarrow> GuiContext \<Rightarrow> draw_op list" where
  "draw_footer mt status g =
     (let y = content_bottom g + 4; iy = as_i32 y; hints = ''Enter: Boot  F1: Help  F2: Setup  F12: Reboot'' in
      [OpFill MARGIN y (usub (gc_width g) (2 * MARGIN)) 1 DIVIDER_COLOR,
       OpText status (as_i32 MARGIN + 8) (wrap_i32 (iy + 10)) ACCENT_COLOR FSmall,
       OpText hints (text_right (as_i32 (usub (gc_width g) MARGIN)) hints FONT_SMALL_W) (wrap_i32 (iy + 10)) SUBTITLE_COLOR FSmall] @
      (case mt_notice mt of
         Some n \<Rightarrow> [OpText n (as_i32 MARGIN + 8) (wrap_i32 (iy + 10 + as_i32 FONT_SMALL_H + 2)) WARNING_COLOR FSmall]
       | None \<Rightarrow> []))"

definition draw_cursor :: "int \<Rightarrow> int \<Rightarrow> draw_op list" where
  "draw_cursor x y =
     (let ux = nat (x mod 2 ^ 64); uy = nat (y mod 2 ^ 64) in
      (if ux \<ge> 10 then [OpFill (ux - 10) (uy - 1) 20 2 TEXT_COLOR] else []) @
      (if uy \<ge> 10 then [OpFill (ux - 1) (uy - 10) 2 20 TEXT_COLOR] else []))"

definition frame_with :: "menu_text \<Rightarrow> BootEntry list \<Rightarrow> string \<Rightarrow> GuiContext \<Rightarrow> draw_op list" where
  "frame_with mt entries status g =
     draw_header mt g @ draw_left_column entries (boot_indices entries) g @
     draw_right_column entries (tool_indices entries) g @ draw_footer mt status g @
     draw_cursor (gc_mouse_x g) (gc_mouse_y g)"

definition frame :: "menu_text \<Rightarrow> BootEntry list \<Rightarrow> u32 \<Rightarrow> GuiContext \<Rightarrow> draw_op list" where
  "frame mt entries timeout_ms g = frame_with mt entries (footer_status entries timeout_ms g) g"

subsection \<open>The mouse\<close>

text \<open>The search for a row of the right column: its number, and the place after the last row without one.\<close>

fun hit_rows :: "int \<Rightarrow> nat \<Rightarrow> nat \<Rightarrow> nat \<Rightarrow> nat option \<times> nat" where
  "hit_rows my ry i 0 = (None, ry)"
| "hit_rows my ry i (Suc n) =
     (if my \<ge> as_i32 ry \<and> my < as_i32 (ry + TOOL_TILE_H) then (Some i, ry)
      else hit_rows my (ry + (TOOL_TILE_H + TILE_GAP)) (Suc i) n)"

definition hit_left :: "int \<Rightarrow> nat \<Rightarrow> GuiContext \<Rightarrow> nat option" where
  "hit_left my boots g =
     find (\<lambda>vi. let ey = wrap_i32 (as_i32 HEADER_H + wrap_i32 (as_i32 vi * as_i32 (BOOT_TILE_H + TILE_GAP))) in
                 my \<ge> ey \<and> my < wrap_i32 (ey + as_i32 BOOT_TILE_H))
       [0..<min (max_visible_boot g) boots]"

definition hit_right :: "int \<Rightarrow> nat \<Rightarrow> nat option" where
  "hit_right my tools =
     (case hit_rows my HEADER_H 0 tools of
        (Some i, _) \<Rightarrow> Some i
      | (None, ry) \<Rightarrow> fst (hit_rows my (ry + 12) tools 2))"

definition hit_test :: "int \<Rightarrow> int \<Rightarrow> nat \<Rightarrow> nat \<Rightarrow> GuiContext \<Rightarrow> (Column \<times> nat) option" where
  "hit_test mx my boots tools g =
     (let lx = as_i32 MARGIN; lw = as_i32 (left_col_w g); rx = as_i32 (right_col_x g); rw = as_i32 (right_col_w g) in
      case (if mx \<ge> lx \<and> mx < wrap_i32 (lx + lw) then hit_left my boots g else None) of
        Some vi \<Rightarrow> Some (CLeft, gc_scroll_left g + vi)
      | None \<Rightarrow>
          map_option (\<lambda>i. (CRight, i)) (if mx \<ge> rx \<and> mx < wrap_i32 (rx + rw) then hit_right my tools else None))"

subsection \<open>One iteration\<close>

definition adjust_scroll :: "GuiContext \<Rightarrow> GuiContext" where
  "adjust_scroll g =
     (let max_vis = max_visible_boot g; i = gc_sel_idx g;
          scroll = (\<lambda>s. if i < s then i else if i \<ge> s + max_vis then i + 1 - max_vis else s) in
      case gc_sel_col g of
        CLeft \<Rightarrow> g\<lparr>gc_scroll_left := scroll (gc_scroll_left g)\<rparr>
      | CRight \<Rightarrow> g\<lparr>gc_scroll_right := scroll (gc_scroll_right g)\<rparr>)"

definition countdown_second :: "u32 \<Rightarrow> GuiContext \<Rightarrow> u32 option" where
  "countdown_second timeout_ms g =
     (if \<not> gc_user_interacted g \<and> timeout_ms > 0
      then let elapsed = gc_elapsed_frames g * 16 in
        Some ((if elapsed < timeout_ms then timeout_ms - elapsed else 0) div 1000)
      else None)"

text \<open>The repaint of an iteration.\<close>

definition gui_repaint :: "menu_text \<Rightarrow> BootEntry list \<Rightarrow> u32 \<Rightarrow> GuiContext \<Rightarrow> GuiContext" where
  "gui_repaint mt entries timeout_ms g =
     (let second = countdown_second timeout_ms g in
      if gc_dirty g \<or> second \<noteq> gc_last_drawn_second g
      then g\<lparr>gc_painted := Some (frame mt entries timeout_ms g), gc_last_drawn_second := second, gc_dirty := False\<rparr>
      else g)"

definition gui_default :: "BootEntry list \<Rightarrow> Policy \<Rightarrow> (nat, unit) outcome" where
  "gui_default entries p =
     obind (select_default_entry entries (boot_indices entries) p) (\<lambda>r.
     case r of Some i \<Rightarrow> Ok i | None \<Rightarrow> at_idx (boot_indices entries) 0)"

text \<open>What an iteration does: it goes on, shows the help screen until a key is pressed, or leaves.\<close>

datatype gui_turn = GAgain GuiContext | GHelp GuiContext | GLeave menu_exit

definition gui_tick ::
  "menu_text \<Rightarrow> BootEntry list \<Rightarrow> Policy \<Rightarrow> GuiContext \<Rightarrow> (gui_turn, unit) outcome" where
  "gui_tick mt entries p g =
     (let timeout_ms = menu_timeout entries p; g1 = gui_repaint mt entries timeout_ms g;
          g2 = (if \<not> gc_user_interacted g1 \<and> timeout_ms > 0 \<and> gc_elapsed_frames g1 * 16 \<ge> timeout_ms
                then g1\<lparr>gc_timed_out := True\<rparr> else g1) in
      if gc_timed_out g2 \<and> \<not> gc_user_interacted g2 \<and> has_bootable entries
      then obind (gui_default entries p) (\<lambda>i. obind (at_idx entries i) (\<lambda>e. Ok (GLeave (Picked e))))
      else Ok (GAgain g2))"

definition pick :: "BootEntry list \<Rightarrow> nat list \<Rightarrow> nat \<Rightarrow> (gui_turn, unit) outcome" where
  "pick entries column i =
     obind (at_idx column i) (\<lambda>idx. obind (at_idx entries idx) (\<lambda>e. Ok (GLeave (Picked e))))"

definition execute_system_action :: "nat \<Rightarrow> GuiContext \<Rightarrow> (gui_turn, unit) outcome" where
  "execute_system_action action g =
     (if action = 0 then Ok (GLeave FirmwareSetup) else if action = 1 then Ok (GLeave Rebooting) else Ok (GAgain g))"

text \<open>Enter, or a click on a tile.\<close>

definition activate :: "BootEntry list \<Rightarrow> GuiContext \<Rightarrow> (gui_turn, unit) outcome" where
  "activate entries g =
     (let boots = boot_indices entries; tools = tool_indices entries; i = gc_sel_idx g in
      case gc_sel_col g of
        CLeft \<Rightarrow> if i < length boots then pick entries boots i else Ok (GAgain g)
      | CRight \<Rightarrow> if i < length tools then pick entries tools i else execute_system_action (i - length tools) g)"

definition gui_key :: "BootEntry list \<Rightarrow> Key \<Rightarrow> GuiContext \<Rightarrow> (gui_turn, unit) outcome" where
  "gui_key entries k g =
     (let boots = length (boot_indices entries); right_count = length (tool_indices entries) + 2; i = gc_sel_idx g in
      case k of
        KUp \<Rightarrow> Ok (GAgain (if i > 0 then adjust_scroll (g\<lparr>gc_sel_idx := i - 1\<rparr>) else g))
      | KDown \<Rightarrow>
          Ok (GAgain (if i + 1 < (case gc_sel_col g of CLeft \<Rightarrow> boots | CRight \<Rightarrow> right_count)
            then adjust_scroll (g\<lparr>gc_sel_idx := i + 1\<rparr>) else g))
      | KLeft \<Rightarrow>
          Ok (GAgain (if gc_sel_col g = CRight then g\<lparr>gc_sel_col := CLeft, gc_sel_idx := min i (boots - 1)\<rparr> else g))
      | KRight \<Rightarrow>
          Ok (GAgain (if gc_sel_col g = CLeft then g\<lparr>gc_sel_col := CRight, gc_sel_idx := min i (right_count - 1)\<rparr> else g))
      | KEnter \<Rightarrow> activate entries g
      | KChar c \<Rightarrow> if c = 13 then activate entries g else Ok (GAgain g)
      | KF2 \<Rightarrow> execute_system_action 0 g
      | KF12 \<Rightarrow> execute_system_action 1 g
      | KF1 \<Rightarrow> Ok (GHelp (g\<lparr>gc_painted := None\<rparr>))
      | _ \<Rightarrow> Ok (GAgain g))"

definition gui_event :: "BootEntry list \<Rightarrow> InputEvent \<Rightarrow> GuiContext \<Rightarrow> (gui_turn, unit) outcome" where
  "gui_event entries e g =
     (let hit = (\<lambda>x y. hit_test x y (length (boot_indices entries)) (length (tool_indices entries)) g) in
      case e of
        KeyPress k \<Rightarrow> gui_key entries k (g\<lparr>gc_user_interacted := True, gc_dirty := True\<rparr>)
      | MouseMove x y \<Rightarrow>
          let g1 = g\<lparr>gc_dirty := gc_dirty g \<or> x \<noteq> gc_mouse_x g \<or> y \<noteq> gc_mouse_y g, gc_mouse_x := x, gc_mouse_y := y\<rparr> in
          Ok (GAgain (case hit x y of
            Some (col, i) \<Rightarrow>
              g1\<lparr>gc_dirty := gc_dirty g1 \<or> col \<noteq> gc_sel_col g1 \<or> i \<noteq> gc_sel_idx g1, gc_sel_col := col, gc_sel_idx := i\<rparr>
          | None \<Rightarrow> g1))
      | MouseClick x y b \<Rightarrow>
          let g1 = g\<lparr>gc_user_interacted := True, gc_dirty := True\<rparr> in
          (case hit x y of
             Some (col, i) \<Rightarrow> activate entries (g1\<lparr>gc_sel_col := col, gc_sel_idx := i\<rparr>)
           | None \<Rightarrow> Ok (GAgain g1))
      | NoInput \<Rightarrow> Ok (GAgain (g\<lparr>gc_elapsed_frames := gc_elapsed_frames g + 1\<rparr>)))"

subsection \<open>The loop\<close>

partial_function (option) gui_loop ::
  "menu_text \<Rightarrow> BootEntry list \<Rightarrow> Policy \<Rightarrow> ('p \<Rightarrow> 'p \<times> InputEvent) \<Rightarrow> GuiContext \<Rightarrow> 'p \<Rightarrow>
   ('p \<times> (menu_exit, unit) outcome) option" where
  "gui_loop mt entries pol inp g p =
     (case gui_tick mt entries pol g of
        Panic \<Rightarrow> Some (p, Panic)
      | Err u \<Rightarrow> Some (p, Err u)
      | Ok (GLeave x) \<Rightarrow> Some (p, Ok x)
      | Ok (GHelp g1) \<Rightarrow> gui_loop mt entries pol inp g1 p
      | Ok (GAgain g1) \<Rightarrow>
          (case inp p of
             (p', e) \<Rightarrow>
               (case gui_event entries e g1 of
                  Panic \<Rightarrow> Some (p', Panic)
                | Err u \<Rightarrow> Some (p', Err u)
                | Ok (GLeave x) \<Rightarrow> Some (p', Ok x)
                | Ok (GHelp g2) \<Rightarrow>
                    (case wait_for_key inp p' of None \<Rightarrow> None | Some (p'', k) \<Rightarrow> gui_loop mt entries pol inp g2 p'')
                | Ok (GAgain g2) \<Rightarrow> gui_loop mt entries pol inp g2 p')))"

definition gui_run_menu ::
  "menu_text \<Rightarrow> SystemInfoDisplay \<Rightarrow> nat \<times> nat \<Rightarrow> BootEntry list \<Rightarrow> Policy \<Rightarrow> ('p \<Rightarrow> 'p \<times> InputEvent) \<Rightarrow> 'p \<Rightarrow>
   ('p \<times> (menu_exit, unit) outcome) option" where
  "gui_run_menu mt info res entries pol inp p = gui_loop mt entries pol inp (gui_new info (fst res) (snd res)) p"

subsection \<open>The screen shows the state\<close>

text \<open>The footer as a function of the second last drawn.\<close>

definition shown_status :: "BootEntry list \<Rightarrow> u32 option \<Rightarrow> GuiContext \<Rightarrow> string" where
  "shown_status entries second g =
     (case second of
        Some s \<Rightarrow> ''Auto-boot in '' @ dec (unat s) @ ''s...''
      | None \<Rightarrow> get_selected_status entries (boot_indices entries) (tool_indices entries) g)"

lemma footer_status_shown:
  assumes "gc_user_interacted g \<or> \<not> timeout_ms > 0 \<or> gc_elapsed_frames g * 16 < timeout_ms"
  shows "footer_status entries timeout_ms g = shown_status entries (countdown_second timeout_ms g) g"
  using assms by (auto simp: footer_status_def shown_status_def countdown_second_def Let_def)

lemmas frame_defs = frame_with_def draw_header_def draw_left_column_def draw_right_column_def
  draw_footer_def content_bottom_def left_col_w_def right_col_x_def right_col_w_def vis_end_def max_visible_boot_def
  content_height_def

text \<open>What a frame depends on.\<close>

lemma frame_with_cong:
  assumes "gc_width g = gc_width g'" "gc_height g = gc_height g'" "gc_sel_idx g = gc_sel_idx g'"
    "gc_sel_col g = gc_sel_col g'" "gc_scroll_left g = gc_scroll_left g'" "gc_mouse_x g = gc_mouse_x g'"
    "gc_mouse_y g = gc_mouse_y g'" "gc_sys_info g = gc_sys_info g'"
  shows "frame_with mt entries st g = frame_with mt entries st g'"
  unfolding frame_defs assms by (rule refl)

lemma frame_with_indep [simp]:
  "frame_with mt entries st (g\<lparr>gc_elapsed_frames := n\<rparr>) = frame_with mt entries st g"
  "frame_with mt entries st (g\<lparr>gc_painted := x\<rparr>) = frame_with mt entries st g"
  "frame_with mt entries st (g\<lparr>gc_last_drawn_second := y\<rparr>) = frame_with mt entries st g"
  "frame_with mt entries st (g\<lparr>gc_dirty := z\<rparr>) = frame_with mt entries st g"
  "frame_with mt entries st (g\<lparr>gc_timed_out := t\<rparr>) = frame_with mt entries st g"
  by (rule frame_with_cong; simp)+

lemma shown_status_cong:
  "gc_sel_idx g = gc_sel_idx g' \<Longrightarrow> gc_sel_col g = gc_sel_col g' \<Longrightarrow>
   shown_status entries second g = shown_status entries second g'"
  by (simp add: shown_status_def get_selected_status_def Let_def split: option.split)

lemma footer_status_cong:
  assumes "gc_sel_idx g = gc_sel_idx g'" "gc_sel_col g = gc_sel_col g'"
    "gc_user_interacted g = gc_user_interacted g'" "gc_elapsed_frames g = gc_elapsed_frames g'"
  shows "footer_status entries tm g = footer_status entries tm g'"
  unfolding footer_status_def get_selected_status_def assms by (rule refl)

lemma shown_status_indep [simp]:
  "shown_status entries second (g\<lparr>gc_elapsed_frames := n\<rparr>) = shown_status entries second g"
  "shown_status entries second (g\<lparr>gc_painted := x\<rparr>) = shown_status entries second g"
  "shown_status entries second (g\<lparr>gc_last_drawn_second := y\<rparr>) = shown_status entries second g"
  "shown_status entries second (g\<lparr>gc_dirty := z\<rparr>) = shown_status entries second g"
  by (rule shown_status_cong; simp)+

lemma footer_status_indep [simp]:
  "footer_status entries tm (g\<lparr>gc_painted := x\<rparr>) = footer_status entries tm g"
  "footer_status entries tm (g\<lparr>gc_last_drawn_second := y\<rparr>) = footer_status entries tm g"
  "footer_status entries tm (g\<lparr>gc_dirty := z\<rparr>) = footer_status entries tm g"
  by (rule footer_status_cong; simp)+

definition in_sync :: "menu_text \<Rightarrow> BootEntry list \<Rightarrow> GuiContext \<Rightarrow> bool" where
  "in_sync mt entries g \<longleftrightarrow>
     gc_dirty g \<or> gc_painted g = Some (frame_with mt entries (shown_status entries (gc_last_drawn_second g) g) g)"

lemma gui_tick_Again:
  assumes "gui_tick mt entries pol g = Ok (GAgain g1)"
  shows "g1 = gui_repaint mt entries (menu_timeout entries pol) g \<and>
    (gc_user_interacted g \<or> \<not> menu_timeout entries pol > 0 \<or> gc_elapsed_frames g * 16 < menu_timeout entries pol)"
proof -
  have hb: "has_bootable entries" if "menu_timeout entries pol > 0" using that by (auto simp: menu_timeout_def split: if_splits)
  have same: "gc_user_interacted (gui_repaint mt entries tm g) = gc_user_interacted g"
    "gc_elapsed_frames (gui_repaint mt entries tm g) = gc_elapsed_frames g" for tm
    by (simp_all add: gui_repaint_def Let_def)
  have no: "obind x (\<lambda>i. obind (at_idx entries i) (\<lambda>e. Ok (GLeave (Picked e)))) \<noteq> Ok (GAgain h)" for x :: "(nat, unit) outcome" and h
    by (auto simp: obind_Ok_conv)
  show ?thesis
    using assms hb no by (auto simp: gui_tick_def Let_def same not_le split: if_splits)
qed

lemma gui_repaint_sync:
  assumes "in_sync mt entries g"
    and "gc_user_interacted g \<or> \<not> tm > 0 \<or> gc_elapsed_frames g * 16 < tm"
  shows "gc_painted (gui_repaint mt entries tm g) = Some (frame mt entries tm (gui_repaint mt entries tm g)) \<and>
    in_sync mt entries (gui_repaint mt entries tm g)"
  using assms footer_status_shown [OF assms(2), of entries]
  by (auto simp: gui_repaint_def Let_def in_sync_def frame_def)

lemma adjust_scroll_dirty [simp]: "gc_dirty (adjust_scroll g) = gc_dirty g"
  by (simp add: adjust_scroll_def Let_def split: Column.split)

text \<open>Events other than idle frames and mouse movements leave the context dirty.\<close>

lemma activate_dirty: "gc_dirty g \<Longrightarrow> activate entries g = Ok (GAgain g') \<Longrightarrow> gc_dirty g'"
  by (auto simp: activate_def pick_def execute_system_action_def Let_def obind_Ok_conv split: Column.splits if_splits)

lemma activate_no_help: "activate entries g \<noteq> Ok (GHelp g')"
  by (auto simp: activate_def pick_def execute_system_action_def Let_def obind_Ok_conv split: Column.splits)

lemma gui_key_dirty:
  assumes "gc_dirty g" "gui_key entries k g = Ok (GAgain g') \<or> gui_key entries k g = Ok (GHelp g')"
  shows "gc_dirty g'"
  using assms activate_dirty [of g entries g'] activate_no_help [of entries g g']
  by (cases k) (auto simp: gui_key_def execute_system_action_def Let_def split: if_splits)

lemma in_sync_cong:
  assumes "in_sync mt entries g" "gc_dirty g \<Longrightarrow> gc_dirty g'" "gc_painted g' = gc_painted g"
    "gc_last_drawn_second g' = gc_last_drawn_second g"
    "\<not> gc_dirty g' \<Longrightarrow> gc_width g' = gc_width g \<and> gc_height g' = gc_height g \<and> gc_sel_idx g' = gc_sel_idx g \<and>
      gc_sel_col g' = gc_sel_col g \<and> gc_scroll_left g' = gc_scroll_left g \<and> gc_mouse_x g' = gc_mouse_x g \<and>
      gc_mouse_y g' = gc_mouse_y g \<and> gc_sys_info g' = gc_sys_info g"
  shows "in_sync mt entries g'"
proof (cases "gc_dirty g'")
  case False
  have "frame_with mt entries st g' = frame_with mt entries st g" for st
    using assms(5) [OF False] by (intro frame_with_cong) simp_all
  moreover have "shown_status entries second g' = shown_status entries second g" for second
    using assms(5) [OF False] by (intro shown_status_cong) simp_all
  ultimately show ?thesis using assms(1-4) False by (auto simp: in_sync_def)
qed (simp add: in_sync_def)

lemma mouse_move_sync:
  assumes "in_sync mt entries g" "gui_event entries (MouseMove x y) g = Ok (GAgain g')"
  shows "in_sync mt entries g'"
proof (cases "hit_test x y (length (boot_indices entries)) (length (tool_indices entries)) g")
  case None
  then show ?thesis using assms by (intro in_sync_cong [OF assms(1)]) (auto simp: gui_event_def Let_def)
next
  case (Some h)
  obtain col i where h: "h = (col, i)" by (cases h)
  show ?thesis using assms Some h by (intro in_sync_cong [OF assms(1)]) (auto simp: gui_event_def Let_def)
qed

lemma gui_event_sync:
  assumes "in_sync mt entries g" "gui_event entries e g = Ok (GAgain g') \<or> gui_event entries e g = Ok (GHelp g')"
  shows "in_sync mt entries g'"
proof (cases e)
  case (KeyPress k)
  then show ?thesis
    using assms(2) gui_key_dirty [of "g\<lparr>gc_user_interacted := True, gc_dirty := True\<rparr>" entries k g']
    by (simp add: gui_event_def in_sync_def)
next
  case (MouseMove x y)
  then have "gui_event entries (MouseMove x y) g = Ok (GAgain g')"
    using assms(2) by (simp add: gui_event_def Let_def)
  then show ?thesis by (rule mouse_move_sync [OF assms(1)])
next
  case (MouseClick x y b)
  then have "gc_dirty g'"
  proof (cases "hit_test x y (length (boot_indices entries)) (length (tool_indices entries)) g")
    case (Some h)
    obtain col i where h: "h = (col, i)" by (cases h)
    let ?g = "g\<lparr>gc_user_interacted := True, gc_dirty := True, gc_sel_col := col, gc_sel_idx := i\<rparr>"
    have "activate entries ?g = Ok (GAgain g')"
      using assms(2) MouseClick Some h activate_no_help [of entries ?g g'] by (simp add: gui_event_def Let_def)
    then show ?thesis using activate_dirty [of ?g entries g'] by simp
  qed (use assms(2) MouseClick in \<open>auto simp: gui_event_def Let_def\<close>)
  then show ?thesis by (simp add: in_sync_def)
next
  case NoInput
  then show ?thesis using assms by (auto simp: gui_event_def in_sync_def Let_def)
qed

text \<open>The states at the head of the loop, for any sequence of events.\<close>

inductive gui_head :: "menu_text \<Rightarrow> BootEntry list \<Rightarrow> Policy \<Rightarrow> GuiContext \<Rightarrow> bool" for mt entries pol where
  start: "gui_head mt entries pol (gui_new info width height)"
| event: "gui_head mt entries pol g \<Longrightarrow> gui_tick mt entries pol g = Ok (GAgain g1) \<Longrightarrow>
    gui_event entries e g1 = Ok (GAgain g2) \<or> gui_event entries e g1 = Ok (GHelp g2) \<Longrightarrow> gui_head mt entries pol g2"

lemma gui_head_sync: "gui_head mt entries pol g \<Longrightarrow> in_sync mt entries g"
proof (induction rule: gui_head.induct)
  case (start info width height)
  show ?case by (simp add: in_sync_def gui_new_def)
next
  case (event g g1 e g2)
  have "in_sync mt entries g1"
    using gui_tick_Again [OF event.hyps(2)] gui_repaint_sync [OF event.IH] by simp
  then show ?case using event.hyps(3) gui_event_sync by blast
qed

text \<open>C37: whenever the graphical menu waits for input, after any sequence of events, the screen shows the frame
  of its present state, although it repaints only when it thinks that something changed.\<close>

theorem gui_screen_in_sync:
  assumes "gui_head mt entries pol g" "gui_tick mt entries pol g = Ok (GAgain g1)"
  shows "gc_painted g1 = Some (frame mt entries (menu_timeout entries pol) g1)"
  using gui_tick_Again [OF assms(2)] gui_repaint_sync [OF gui_head_sync [OF assms(1)]] by simp

definition demo_text :: menu_text where
  "demo_text = \<lparr>mt_version = ''1'', mt_target = ''x86_64'', mt_notice = None\<rparr>"

definition demo_info :: SystemInfoDisplay where
  "demo_info = \<lparr>sd_vmid = None, sd_hypervisor = None, sd_system_product = None, sd_secure_boot = True, sd_driver_count = 0\<rparr>"

theorem gui_screen_in_sync_witness:
  "\<exists>g1. gui_tick demo_text [] default_policy (gui_new demo_info 800 600) = Ok (GAgain g1) \<and>
     gc_painted g1 = Some (frame demo_text [] 0 g1)"
proof -
  have t: "menu_timeout [] default_policy = 0" by (simp add: menu_timeout_def has_bootable_def)
  obtain g1 where g1: "gui_tick demo_text [] default_policy (gui_new demo_info 800 600) = Ok (GAgain g1)"
    by (simp add: gui_tick_def t Let_def has_bootable_def)
  show ?thesis using gui_screen_in_sync [OF gui_head.start g1] g1 t by simp
qed

subsection \<open>Auto-boot\<close>

lemma boot_indices_range: "set (boot_indices entries) \<subseteq> {..<length entries}"
  by (auto simp: boot_indices_def)

lemma boot_indices_empty: "boot_indices entries = [] \<longleftrightarrow> \<not> has_bootable entries"
  by (auto simp: boot_indices_def has_bootable_def filter_empty_conv list_ex_iff all_set_conv_all_nth)

lemma gui_default_total:
  assumes "has_bootable entries"
  obtains i where "gui_default entries p = Ok i" "i \<in> set (boot_indices entries)"
proof -
  have ne: "boot_indices entries \<noteq> []" using assms boot_indices_empty by simp
  obtain r where r: "select_default_entry entries (boot_indices entries) p = Ok r"
    "\<And>i. r = Some i \<Longrightarrow> i \<in> set (boot_indices entries)"
    using select_default_entry_total [OF boot_indices_range] by blast
  have "at_idx (boot_indices entries) 0 = (Ok (boot_indices entries ! 0) :: (nat, unit) outcome)" using ne by simp
  then show ?thesis using that r ne by (cases r) (simp_all add: gui_default_def)
qed

lemma gui_tick_waiting:
  assumes "\<not> gc_timed_out g" "gc_elapsed_frames g * 16 < menu_timeout entries pol"
  shows "gui_tick mt entries pol g = Ok (GAgain (gui_repaint mt entries (menu_timeout entries pol) g))"
proof -
  have "\<not> menu_timeout entries pol \<le> gc_elapsed_frames g * 16" using assms(2) by (simp add: not_le)
  then show ?thesis using assms(1) by (auto simp: gui_tick_def gui_repaint_def Let_def)
qed

lemma gui_tick_timeout:
  assumes "\<not> gc_user_interacted g" "0 < menu_timeout entries pol" "menu_timeout entries pol \<le> gc_elapsed_frames g * 16"
    "has_bootable entries" "gui_default entries pol = Ok i" "i < length entries"
  shows "gui_tick mt entries pol g = Ok (GLeave (Picked (entries ! i)))"
  using assms by (simp add: gui_tick_def gui_repaint_def Let_def)

text \<open>A context that has only waited.\<close>

definition waited :: "nat \<Rightarrow> GuiContext \<Rightarrow> bool" where
  "waited n g \<longleftrightarrow> \<not> gc_user_interacted g \<and> \<not> gc_timed_out g \<and> gc_elapsed_frames g = of_nat n"

lemma waited_repaint [simp]: "waited n (gui_repaint mt entries tm g) = waited n g"
  by (simp add: waited_def gui_repaint_def Let_def)

lemma gui_idle:
  assumes silent: "\<And>q. snd (inp q) = NoInput" and bound: "unat (menu_timeout entries pol) \<le> 4294967280"
    and start: "waited 0 g" and n: "n \<le> countdown_frames (unat (menu_timeout entries pol)) 16"
  shows "\<exists>g'. waited n g' \<and> gui_loop mt entries pol inp g p = gui_loop mt entries pol inp g' (iter inp n p)"
  using n
proof (induction n)
  case 0
  show ?case using start by (auto simp: iter_def)
next
  case (Suc n)
  obtain g' where g': "waited n g'" "gui_loop mt entries pol inp g p = gui_loop mt entries pol inp g' (iter inp n p)"
    using Suc by auto
  let ?r = "gui_repaint mt entries (menu_timeout entries pol) g'"
  have "n * 16 < unat (menu_timeout entries pol)"
    using countdown_frames_less [of 16 n] Suc.prems by simp
  then have "gc_elapsed_frames g' * 16 < menu_timeout entries pol"
    using frames_ms [of n 16] bound g'(1) by (simp add: word_less_nat_alt waited_def)
  then have tick: "gui_tick mt entries pol g' = Ok (GAgain ?r)"
    using gui_tick_waiting [of g' entries pol mt] g'(1) by (simp add: waited_def)
  obtain q where q: "inp (iter inp n p) = (q, NoInput)" using silent by (metis prod.collapse)
  let ?g2 = "?r\<lparr>gc_elapsed_frames := gc_elapsed_frames ?r + 1\<rparr>"
  have "iter inp (Suc n) p = q" using q by (simp add: iter_def)
  moreover have "gui_event entries NoInput ?r = Ok (GAgain ?g2)" by (simp add: gui_event_def)
  moreover have "waited n ?r" using g'(1) by simp
  then have "waited (Suc n) ?g2" by (simp add: waited_def add.commute)
  moreover have "gui_loop mt entries pol inp g' (iter inp n p) = gui_loop mt entries pol inp ?g2 (iter inp (Suc n) p)"
    using tick q calculation(1,2) by (subst gui_loop.simps) simp
  ultimately show ?case using g'(2) by auto
qed

text \<open>Without input the graphical menu ends: it starts the default entry, which is no tool, after exactly as
  many idle frames as the timeout needs.\<close>

lemma gui_menu_auto_boots:
  assumes "\<And>q. snd (inp q) = NoInput" "has_bootable entries"
    "0 < po_default_timeout_ms pol" "po_default_timeout_ms pol \<le> 4294967280"
  shows "\<exists>i. gui_default entries pol = Ok i \<and> i \<in> set (boot_indices entries) \<and>
    gui_run_menu mt info res entries pol inp p =
    Some (iter inp (countdown_frames (po_default_timeout_ms pol) 16) p, Ok (Picked (entries ! i)))"
proof -
  let ?T = "menu_timeout entries pol" and ?g = "gui_new info (fst res) (snd res)"
  obtain i where i: "gui_default entries pol = Ok i" "i \<in> set (boot_indices entries)"
    using gui_default_total [OF assms(2)] by blast
  have T: "unat ?T = po_default_timeout_ms pol"
    using assms(2,4) by (simp add: menu_timeout_def unat_of_nat take_bit_nat_eq_self)
  define K where "K = countdown_frames (po_default_timeout_ms pol) 16"
  have "waited 0 ?g" by (simp add: waited_def gui_new_def)
  then obtain g' where g': "waited K g'" "gui_run_menu mt info res entries pol inp p = gui_loop mt entries pol inp g' (iter inp K p)"
    using gui_idle [of inp entries pol ?g K mt p] assms(1,4) T by (auto simp: gui_run_menu_def K_def)
  have "K \<le> 268435455"
    using div_le_mono [of "po_default_timeout_ms pol + 16 - 1" 4294967295 16] assms(4)
    by (simp add: K_def countdown_frames_def)
  then have "?T \<le> gc_elapsed_frames g' * 16"
    using frames_ms [of K 16] T countdown_frames_reached(1) [of 16 "po_default_timeout_ms pol"] assms(3) g'(1)
    by (simp add: word_le_nat_alt K_def waited_def)
  moreover have "0 < ?T" using T assms(3) by (simp add: word_less_nat_alt)
  ultimately have "gui_tick mt entries pol g' = Ok (GLeave (Picked (entries ! i)))"
    using gui_tick_timeout [of g' entries pol i mt] g'(1) i assms(2) boot_indices_range [of entries]
    by (auto simp: waited_def)
  then show ?thesis using i g'(2) by (simp add: K_def gui_loop.simps [of mt entries pol inp g'])
qed

lemma gui_menu_auto_boots_witness:
  "\<exists>i. gui_run_menu demo_text demo_info (800, 600) [tool_entry_demo, demo_entry ''bls-a'']
     (default_policy\<lparr>po_default_timeout_ms := 33\<rparr>) (\<lambda>n. (Suc n, NoInput)) 0 =
     Some (3, Ok (Picked ([tool_entry_demo, demo_entry ''bls-a''] ! i)))"
proof -
  have "iter (\<lambda>n. (Suc n, NoInput)) 3 0 = (3::nat)" by (simp add: iter_def numeral_3_eq_3)
  then show ?thesis
    using gui_menu_auto_boots [of "\<lambda>n. (Suc n, NoInput)" "[tool_entry_demo, demo_entry ''bls-a'']"
      "default_policy\<lparr>po_default_timeout_ms := 33\<rparr>" demo_text demo_info "(800, 600)" 0]
    by (auto simp: has_bootable_def demo_entry_def countdown_frames_def default_policy_def)
qed

subsection \<open>Every run\<close>

lemma tool_indices_range: "set (tool_indices entries) \<subseteq> {..<length entries}"
  by (auto simp: tool_indices_def)

fun gui_good :: "BootEntry list \<Rightarrow> (gui_turn, unit) outcome \<Rightarrow> bool" where
  "gui_good entries (Ok (GLeave x)) = good_exit entries x"
| "gui_good entries (Ok t) = True"
| "gui_good entries r = False"

lemma pick_good: "i < length column \<Longrightarrow> set column \<subseteq> {..<length entries} \<Longrightarrow> gui_good entries (pick entries column i)"
proof -
  assume *: "i < length column" "set column \<subseteq> {..<length entries}"
  then have "column ! i < length entries" using nth_mem by fastforce
  then show ?thesis using *(1) by (simp add: pick_def)
qed

lemma activate_good: "gui_good entries (activate entries g)"
  using pick_good [OF _ boot_indices_range] pick_good [OF _ tool_indices_range]
  by (simp add: activate_def execute_system_action_def Let_def split: Column.split)

lemma gui_event_good: "gui_good entries (gui_event entries e g)"
proof (cases e)
  case (KeyPress k)
  then show ?thesis
    using activate_good
    by (cases k) (simp_all add: gui_event_def gui_key_def execute_system_action_def Let_def)
qed (simp_all add: gui_event_def Let_def activate_good split: option.split prod.split)

lemma gui_tick_good: "gui_good entries (gui_tick mt entries pol g)"
proof (cases "has_bootable entries")
  case True
  then obtain i where "gui_default entries pol = Ok i" "i \<in> set (boot_indices entries)" by (rule gui_default_total)
  moreover then have "i < length entries" using boot_indices_range by blast
  ultimately show ?thesis by (simp add: gui_tick_def Let_def)
qed (simp add: gui_tick_def Let_def)

lemma gui_loop_good:
  assumes "gui_loop mt entries pol inp g p = Some pr"
  shows "\<exists>x. snd pr = Ok x \<and> good_exit entries x"
proof (induct rule: gui_loop.raw_induct [OF _ assms])
  case (1 loop mt entries pol inp g p pr)
  obtain t where t: "gui_tick mt entries pol g = Ok t"
    using gui_tick_good [of entries mt pol g] by (cases "gui_tick mt entries pol g") auto
  obtain q e where q: "inp p = (q, e)" by fastforce
  have tick: "gui_good entries (Ok t)" using gui_tick_good [of entries mt pol g] t by simp
  show ?case
  proof (cases t)
    case (GAgain g1)
    obtain u where u: "gui_event entries e g1 = Ok u"
      using gui_event_good [of entries e g1] by (cases "gui_event entries e g1") auto
    have "gui_good entries (Ok u)" using gui_event_good [of entries e g1] u by simp
    moreover have "\<exists>x. snd pr = Ok x \<and> good_exit entries x" if "loop mt entries pol inp g2 p2 = Some pr" for g2 p2
      using that by (rule 1(1))
    ultimately show ?thesis
      using 1(2) t GAgain q u by (cases u) (auto split: option.splits)
  qed (use 1 t tick in auto)
qed

lemma gui_menu_is_safe:
  assumes "gui_run_menu mt info res entries pol inp p = Some (p', r)"
  shows "\<exists>x. r = Ok x \<and> (\<forall>e. x = Picked e \<longrightarrow> e \<in> set entries)"
proof -
  obtain x where "r = Ok x" "good_exit entries x"
    using gui_loop_good assms unfolding gui_run_menu_def by fastforce
  then show ?thesis by (cases x) auto
qed

subsection \<open>The mouse finds the tiles that are drawn\<close>

text \<open>A screen on which no coordinate wraps.\<close>

definition sane_screen :: "GuiContext \<Rightarrow> bool" where
  "sane_screen g \<longleftrightarrow> 640 \<le> gc_width g \<and> gc_width g \<le> 65536 \<and> gc_height g \<le> 65536"

definition in_rect :: "int \<Rightarrow> int \<Rightarrow> nat \<Rightarrow> nat \<Rightarrow> nat \<Rightarrow> nat \<Rightarrow> bool" where
  "in_rect mx my x y w h \<longleftrightarrow> int x \<le> mx \<and> mx < int (x + w) \<and> int y \<le> my \<and> my < int (y + h)"

lemma wrap_i32_id [simp]: "- (2 ^ 31) \<le> x \<Longrightarrow> x < 2 ^ 31 \<Longrightarrow> wrap_i32 x = x"
  by (simp add: wrap_i32_def)

lemma as_i32_id [simp]: "n < 2 ^ 31 \<Longrightarrow> as_i32 n = int n"
  by (simp add: as_i32_def)

lemma usub_id:
  assumes "b \<le> a" "a < 2 ^ 64"
  shows "usub a b = a - b"
proof -
  have "a + 2 ^ 64 - b = (a - b) + 2 ^ 64" using assms(1) by simp
  then have "usub a b = ((a - b) + 2 ^ 64) mod 2 ^ 64" by (simp only: usub_def)
  also have "\<dots> = (a - b) mod 2 ^ 64" by (rule mod_add_self2)
  also have "\<dots> = a - b" using assms(2) by (intro mod_less) simp
  finally show ?thesis .
qed

lemma columns:
  assumes "sane_screen g"
  shows "left_col_w g = (gc_width g - 60) * 55 div 100" "right_col_x g = 40 + left_col_w g"
    "right_col_w g = gc_width g - 60 - left_col_w g" "left_col_w g \<le> 65536" "right_col_w g \<le> 65536"
    "right_col_x g \<le> 65576" "left_col_w g \<le> gc_width g - 60"
proof -
  have s: "640 \<le> gc_width g" "gc_width g \<le> 65536" using assms by (simp_all add: sane_screen_def)
  have "usub (usub (gc_width g) 40) 20 = gc_width g - 60"
    using s usub_id [of 40 "gc_width g"] usub_id [of 20 "gc_width g - 40"] by simp
  moreover have "(gc_width g - 60) * 55 mod 2 ^ 64 = (gc_width g - 60) * 55"
    using s by (intro mod_less) simp
  ultimately show l: "left_col_w g = (gc_width g - 60) * 55 div 100"
    by (simp add: left_col_w_def layout_defs)
  have "(gc_width g - 60) * 55 div 100 \<le> (gc_width g - 60) * 100 div 100" by (intro div_le_mono mult_left_mono) simp_all
  then show b: "left_col_w g \<le> gc_width g - 60" unfolding l by simp
  then show w: "left_col_w g \<le> 65536" using s by linarith
  then show r: "right_col_x g = 40 + left_col_w g" by (simp add: right_col_x_def uadd_def layout_defs)
  then show "right_col_x g \<le> 65576" using w by simp
  have "usub (gc_width g) (40 + left_col_w g) = gc_width g - (40 + left_col_w g)"
    using b s by (intro usub_id) simp_all
  moreover have "usub (gc_width g - (40 + left_col_w g)) 20 = gc_width g - (40 + left_col_w g) - 20"
    using b s by (intro usub_id) simp_all
  ultimately show rw: "right_col_w g = gc_width g - 60 - left_col_w g"
    by (simp add: right_col_w_def r layout_defs)
  then show "right_col_w g \<le> 65536" using s by linarith
qed

text \<open>Tiles of one column do not overlap.\<close>

lemma tiles_apart:
  assumes "int (base + i * step) \<le> my" "my < int (base + i * step + h)"
    "int (base + j * step) \<le> my" "my < int (base + j * step + h)" "h \<le> step"
  shows "i = (j::nat)"
proof (rule ccontr)
  assume "i \<noteq> j"
  then consider "Suc i \<le> j" | "Suc j \<le> i" by linarith
  then show False
  proof cases
    case 1
    then have "Suc i * step \<le> j * step" by (rule mult_right_mono) simp
    then show False using assms by simp
  next
    case 2
    then have "Suc j * step \<le> i * step" by (rule mult_right_mono) simp
    then show False using assms by simp
  qed
qed

lemma find_tile:
  assumes "\<And>i. i < n \<Longrightarrow> base + i * step + h < 2 ^ 31" "h \<le> step"
  shows "find (\<lambda>i. as_i32 (base + i * step) \<le> my \<and> my < as_i32 (base + i * step + h)) [0..<n] = Some i \<longleftrightarrow>
    i < n \<and> int (base + i * step) \<le> my \<and> my < int (base + i * step + h)"
proof -
  have id: "as_i32 (base + i * step) = int (base + i * step)" "as_i32 (base + i * step + h) = int (base + i * step + h)"
    if "i < n" for i
    using assms(1) [OF that] by simp_all
  let ?in = "\<lambda>i. as_i32 (base + i * step) \<le> my \<and> my < as_i32 (base + i * step + h)"
  show ?thesis
  proof
    assume "find ?in [0..<n] = Some i"
    then show "i < n \<and> int (base + i * step) \<le> my \<and> my < int (base + i * step + h)"
      using id by (auto simp: find_Some_iff)
  next
    assume i: "i < n \<and> int (base + i * step) \<le> my \<and> my < int (base + i * step + h)"
    then show "find ?in [0..<n] = Some i"
      using id tiles_apart [OF _ _ _ _ assms(2), of base _ my i] by (intro find_unique) simp_all
  qed
qed

lemma hit_left_iff:
  assumes "sane_screen g"
  shows "hit_left my boots g = Some vi \<longleftrightarrow>
    vi < min (max_visible_boot g) boots \<and> int (140 + vi * 66) \<le> my \<and> my < int (140 + vi * 66 + 60)"
proof -
  have h: "gc_height g - 50 - 140 \<le> 65536" using assms by (auto simp: sane_screen_def)
  have m: "max_visible_boot g \<le> 1000"
    using div_le_mono [OF h, of 66] by (simp add: max_visible_boot_def content_height_def content_bottom_def layout_defs)
  have "hit_left my boots g =
      find (\<lambda>vi. as_i32 (140 + vi * 66) \<le> my \<and> my < as_i32 (140 + vi * 66 + 60)) [0..<min (max_visible_boot g) boots]"
    unfolding hit_left_def Let_def layout_defs using m by (intro find_cong refl) (auto simp: algebra_simps)
  moreover have "140 + i * 66 + 60 < (2::nat) ^ 31" if "i < min (max_visible_boot g) boots" for i using that m by simp
  ultimately show ?thesis using find_tile [of "min (max_visible_boot g) boots" 140 66 60] by simp
qed

text \<open>Where the tile of row \<open>i\<close> of the right column begins.\<close>

definition right_y :: "nat \<Rightarrow> nat \<Rightarrow> nat" where
  "right_y tools i = 140 + i * 46 + (if i < tools then 0 else 12)"

lemma find_mapped: "find P (map f xs) = map_option f (find (\<lambda>x. P (f x)) xs)"
  by (induction xs) auto

lemma hit_rows_find:
  "fst (hit_rows my ry i n) = map_option ((+) i) (find (\<lambda>k. as_i32 (ry + k * 46) \<le> my \<and> my < as_i32 (ry + k * 46 + 40)) [0..<n])"
  "fst (hit_rows my ry i n) = None \<Longrightarrow> snd (hit_rows my ry i n) = ry + n * 46"
proof (induction n arbitrary: ry i)
  case (Suc n)
  have shift: "find P [0..<Suc n] = (if P 0 then Some 0 else map_option Suc (find (\<lambda>k. P (Suc k)) [0..<n]))" for P
    by (simp add: upt_conv_Cons map_Suc_upt [symmetric] find_mapped del: upt_Suc)
  { case 1
    show ?case using Suc(1) [of "ry + 46" "Suc i"]
      by (simp add: shift layout_defs option.map_comp comp_def add.assoc add.left_commute del: upt_Suc)
  next
    case 2
    then show ?case using Suc(2) [of "ry + 46" "Suc i"] by (simp add: layout_defs split: if_splits) }
qed simp_all

lemma hit_right_iff:
  assumes "tools \<le> 1000000"
  shows "hit_right my tools = Some i \<longleftrightarrow>
    i < tools + 2 \<and> int (right_y tools i) \<le> my \<and> my < int (right_y tools i + 40)"
proof -
  let ?tool = "find (\<lambda>k. as_i32 (140 + k * 46) \<le> my \<and> my < as_i32 (140 + k * 46 + 40)) [0..<tools]"
  let ?act = "find (\<lambda>k. as_i32 (152 + tools * 46 + k * 46) \<le> my \<and> my < as_i32 (152 + tools * 46 + k * 46 + 40)) [0..<2]"
  have tool: "?tool = Some j \<longleftrightarrow> j < tools \<and> int (140 + j * 46) \<le> my \<and> my < int (140 + j * 46 + 40)" for j
    using assms by (intro find_tile) simp_all
  have act: "?act = Some j \<longleftrightarrow> j < 2 \<and> int (152 + tools * 46 + j * 46) \<le> my \<and> my < int (152 + tools * 46 + j * 46 + 40)" for j
    using assms by (intro find_tile) simp_all
  have hit: "hit_right my tools = (case ?tool of Some k \<Rightarrow> Some k | None \<Rightarrow> map_option ((+) tools) ?act)"
    using hit_rows_find [of my 140 0 tools] hit_rows_find(1) [of my "152 + tools * 46" tools 2]
    by (cases "hit_rows my 140 0 tools") (auto simp: hit_right_def layout_defs add.commute split: option.split)
  show ?thesis
  proof (cases ?tool)
    case None
    then have no: "\<not> (j < tools \<and> int (140 + j * 46) \<le> my \<and> my < int (140 + j * 46 + 40))" for j
      using tool [of j] by auto
    have "hit_right my tools = Some i \<longleftrightarrow> tools \<le> i \<and> ?act = Some (i - tools)"
      using None hit by auto
    then show ?thesis using no [of i] act [of "i - tools"] by (auto simp: right_y_def)
  next
    case (Some j)
    then have j: "j < tools" "int (140 + j * 46) \<le> my" "my < int (140 + j * 46 + 40)" using tool [of j] by auto
    have "hit_right my tools = Some i \<longleftrightarrow> i = j" using hit Some by auto
    also have "\<dots> \<longleftrightarrow> i < tools \<and> int (140 + i * 46) \<le> my \<and> my < int (140 + i * 46 + 40)"
      using Some tool [of i] by auto
    also have "\<dots> \<longleftrightarrow> i < tools + 2 \<and> int (right_y tools i) \<le> my \<and> my < int (right_y tools i + 40)"
      using j by (auto simp: right_y_def)
    finally show ?thesis .
  qed
qed

text \<open>The scroll position of the left column never leaves empty rows behind.\<close>

definition scroll_ok :: "nat \<Rightarrow> GuiContext \<Rightarrow> bool" where
  "scroll_ok boots g \<longleftrightarrow>
     (gc_scroll_left g = 0 \<or> gc_scroll_left g + max_visible_boot g \<le> boots) \<and>
     (gc_sel_col g = CLeft \<longrightarrow> gc_sel_idx g \<le> boots - 1)"

lemma max_visible_cong: "gc_height g = gc_height g' \<Longrightarrow> max_visible_boot g = max_visible_boot g'"
  by (simp add: max_visible_boot_def content_height_def content_bottom_def)

lemma scroll_ok_cong:
  "gc_height g = gc_height g' \<Longrightarrow> gc_scroll_left g = gc_scroll_left g' \<Longrightarrow> gc_sel_col g = gc_sel_col g' \<Longrightarrow>
   gc_sel_idx g = gc_sel_idx g' \<Longrightarrow> scroll_ok boots g = scroll_ok boots g'"
  using max_visible_cong [of g g'] by (simp add: scroll_ok_def)

lemma adjust_scroll_fields [simp]:
  "gc_height (adjust_scroll g) = gc_height g" "gc_sel_col (adjust_scroll g) = gc_sel_col g"
  "gc_sel_idx (adjust_scroll g) = gc_sel_idx g"
  by (simp_all add: adjust_scroll_def Let_def split: Column.split)

lemma adjust_scroll_ok: "scroll_ok boots g \<Longrightarrow> scroll_ok boots (adjust_scroll g)"
proof -
  assume ok: "scroll_ok boots g"
  have mv: "max_visible_boot (adjust_scroll g) = max_visible_boot g" "1 \<le> max_visible_boot g"
    by (simp_all add: max_visible_cong max_visible_boot_def content_height_def content_bottom_def)
  show ?thesis
  proof (cases "gc_sel_col g")
    case CLeft
    then have "gc_scroll_left (adjust_scroll g) =
        (if gc_sel_idx g < gc_scroll_left g then gc_sel_idx g
         else if gc_sel_idx g \<ge> gc_scroll_left g + max_visible_boot g then gc_sel_idx g + 1 - max_visible_boot g
         else gc_scroll_left g)"
      by (simp add: adjust_scroll_def Let_def)
    then show ?thesis using ok CLeft mv by (auto simp: scroll_ok_def)
  next
    case CRight
    then have "gc_scroll_left (adjust_scroll g) = gc_scroll_left g" by (simp add: adjust_scroll_def Let_def)
    then show ?thesis using ok CRight mv by (simp add: scroll_ok_def)
  qed
qed

lemma hit_test_left_bound:
  assumes "hit_test x y boots tools g = Some (CLeft, i)" "scroll_ok boots g"
  shows "i \<le> boots - 1"
proof -
  obtain vi where "i = gc_scroll_left g + vi" "hit_left y boots g = Some vi"
    using assms(1) by (auto simp: hit_test_def Let_def split: option.splits if_splits)
  moreover then have "vi < min (max_visible_boot g) boots" by (auto simp: hit_left_def find_Some_iff)
  ultimately show ?thesis using assms(2) by (auto simp: scroll_ok_def)
qed

lemma activate_same: "activate entries g = Ok (GAgain g') \<Longrightarrow> g' = g"
  by (auto simp: activate_def pick_def execute_system_action_def Let_def obind_Ok_conv split: Column.splits if_splits)

lemma gui_key_scroll:
  assumes ok: "scroll_ok (length (boot_indices entries)) g"
    and step: "gui_key entries k g = Ok (GAgain g') \<or> gui_key entries k g = Ok (GHelp g')"
  shows "scroll_ok (length (boot_indices entries)) g'"
proof -
  let ?n = "length (boot_indices entries)"
  have move: "scroll_ok ?n (adjust_scroll (g\<lparr>gc_sel_idx := i\<rparr>))" if "gc_sel_col g = CLeft \<Longrightarrow> i \<le> ?n - 1" for i
    using ok that max_visible_cong [of "g\<lparr>gc_sel_idx := i\<rparr>" g] by (intro adjust_scroll_ok) (auto simp: scroll_ok_def)
  show ?thesis
  proof (cases k)
    case KUp
    then show ?thesis using step ok move [of "gc_sel_idx g - 1"] by (auto simp: gui_key_def Let_def scroll_ok_def split: if_splits)
  next
    case KDown
    then show ?thesis using step ok move [of "gc_sel_idx g + 1"]
      by (auto simp: gui_key_def Let_def split: if_splits Column.splits)
  next
    case KLeft
    then show ?thesis using step ok max_visible_cong [of g' g] by (auto simp: gui_key_def Let_def scroll_ok_def split: if_splits)
  next
    case KRight
    then show ?thesis using step ok max_visible_cong [of g' g] by (auto simp: gui_key_def Let_def scroll_ok_def split: if_splits)
  next
    case KF1
    then show ?thesis using step ok scroll_ok_cong [of g' g] by (auto simp: gui_key_def Let_def)
  qed (use step ok activate_same [of entries g g'] activate_no_help [of entries g g'] in
      \<open>auto simp: gui_key_def execute_system_action_def Let_def split: if_splits\<close>)
qed

lemma scroll_ok_select:
  assumes "scroll_ok boots g" "gc_height g' = gc_height g" "gc_scroll_left g' = gc_scroll_left g"
    "gc_sel_col g' = CLeft \<Longrightarrow> gc_sel_idx g' \<le> boots - 1"
  shows "scroll_ok boots g'"
  using assms max_visible_cong [OF assms(2)] by (simp add: scroll_ok_def)

lemma gui_event_scroll:
  assumes ok: "scroll_ok (length (boot_indices entries)) g"
    and step: "gui_event entries e g = Ok (GAgain g') \<or> gui_event entries e g = Ok (GHelp g')"
  shows "scroll_ok (length (boot_indices entries)) g'"
proof -
  let ?n = "length (boot_indices entries)" and ?t = "length (tool_indices entries)"
  have sel: "gc_sel_col g = CLeft \<Longrightarrow> gc_sel_idx g \<le> ?n - 1" using ok by (simp add: scroll_ok_def)
  show ?thesis
  proof (cases e)
    case (KeyPress k)
    let ?g = "g\<lparr>gc_user_interacted := True, gc_dirty := True\<rparr>"
    have "scroll_ok ?n ?g" using sel by (intro scroll_ok_select [OF ok]) simp_all
    moreover have "gui_key entries k ?g = Ok (GAgain g') \<or> gui_key entries k ?g = Ok (GHelp g')"
      using step KeyPress by (simp add: gui_event_def)
    ultimately show ?thesis by (rule gui_key_scroll)
  next
    case NoInput
    then have "g' = g\<lparr>gc_elapsed_frames := gc_elapsed_frames g + 1\<rparr>" using step by (simp add: gui_event_def)
    then show ?thesis using sel by (intro scroll_ok_select [OF ok]) simp_all
  next
    case (MouseMove x y)
    show ?thesis
    proof (cases "hit_test x y ?n ?t g")
      case None
      then show ?thesis
        using step MouseMove sel by (intro scroll_ok_select [OF ok]) (auto simp: gui_event_def Let_def)
    next
      case (Some c)
      obtain col i where c: "c = (col, i)" by (cases c)
      have "col = CLeft \<Longrightarrow> i \<le> ?n - 1" using Some c hit_test_left_bound [OF _ ok] by simp
      then show ?thesis
        using step MouseMove Some c by (intro scroll_ok_select [OF ok]) (auto simp: gui_event_def Let_def)
    qed
  next
    case (MouseClick x y b)
    show ?thesis
    proof (cases "hit_test x y ?n ?t g")
      case None
      then have "g' = g\<lparr>gc_user_interacted := True, gc_dirty := True\<rparr>"
        using step MouseClick by (simp add: gui_event_def Let_def)
      then show ?thesis using sel by (intro scroll_ok_select [OF ok]) simp_all
    next
      case (Some c)
      obtain col i where c: "c = (col, i)" by (cases c)
      let ?g = "g\<lparr>gc_user_interacted := True, gc_dirty := True, gc_sel_col := col, gc_sel_idx := i\<rparr>"
      have "activate entries ?g = Ok (GAgain g')"
        using step MouseClick Some c activate_no_help [of entries ?g g'] by (simp add: gui_event_def Let_def)
      then have "g' = ?g" by (rule activate_same)
      moreover have "col = CLeft \<Longrightarrow> i \<le> ?n - 1" using Some c hit_test_left_bound [OF _ ok] by simp
      ultimately show ?thesis by (intro scroll_ok_select [OF ok]) simp_all
    qed
  qed
qed

lemma gui_head_scroll: "gui_head mt entries pol g \<Longrightarrow> scroll_ok (length (boot_indices entries)) g"
proof (induction rule: gui_head.induct)
  case (start info width height)
  show ?case by (simp add: scroll_ok_def gui_new_def)
next
  case (event g g1 e g2)
  have "scroll_ok (length (boot_indices entries)) g1"
    using gui_tick_Again [OF event.hyps(2)] event.IH
    by (intro scroll_ok_select [OF event.IH]) (auto simp: gui_repaint_def Let_def scroll_ok_def)
  then show ?case using event.hyps(3) gui_event_scroll by blast
qed

subsection \<open>Which tile is drawn highlighted\<close>

text \<open>The drawing of the highlighted tile of a row, at a given place.\<close>

fun highlighted :: "BootEntry list \<Rightarrow> Column \<Rightarrow> nat \<Rightarrow> nat \<Rightarrow> nat \<Rightarrow> nat \<Rightarrow> draw_op list" where
  "highlighted entries CLeft i x y w = draw_boot_tile x y w (entries ! (boot_indices entries ! i)) True"
| "highlighted entries CRight i x y w =
     (let tools = tool_indices entries in
      if i < length tools then draw_tool_tile x y w (en_name (entries ! (tools ! i))) ''Diagnostic module'' True
      else draw_action x y w (ACTIONS ! (i - length tools)) True)"

fun tile_height :: "Column \<Rightarrow> nat" where
  "tile_height CLeft = BOOT_TILE_H"
| "tile_height CRight = TOOL_TILE_H"

text \<open>The places where a drawing fills with the colour of the selection.\<close>

definition lit :: "draw_op list \<Rightarrow> (nat \<times> nat \<times> nat \<times> nat) set" where
  "lit ops = {(x, y, w, h). OpFill x y w h SELECTED_COLOR \<in> set ops}"

lemma colours_differ:
  "TILE_COLOR \<noteq> SELECTED_COLOR" "ACCENT_COLOR \<noteq> SELECTED_COLOR" "TEXT_COLOR \<noteq> SELECTED_COLOR" "DIVIDER_COLOR \<noteq> SELECTED_COLOR"
  by (simp_all add: TILE_COLOR_def SELECTED_COLOR_def ACCENT_COLOR_def TEXT_COLOR_def DIVIDER_COLOR_def rgb_def)

lemma lit_append [simp]: "lit (a @ b) = lit a \<union> lit b"
  by (auto simp: lit_def)

lemma lit_Cons [simp]:
  "lit [] = {}" "lit (OpText s tx ty c f # ops) = lit ops" "lit (OpLogo lx ly # ops) = lit ops"
  "lit (OpFill x y w h c # ops) = (if c = SELECTED_COLOR then {(x, y, w, h)} else {}) \<union> lit ops"
  by (auto simp: lit_def)

lemma lit_concat: "lit (concat opss) = (\<Union>ops \<in> set opss. lit ops)"
  by (auto simp: lit_def)

lemma lit_border [simp]: "lit (draw_rect_border x y w h t ACCENT_COLOR) = {}"
  by (auto simp: draw_rect_border_def colours_differ)

lemma lit_tiles [simp]:
  "lit (draw_boot_tile x y w e sel) = (if sel then {(x, y, w, BOOT_TILE_H)} else {})"
  "lit (draw_tool_tile x y w name sub sel) = (if sel then {(x, y, w, TOOL_TILE_H)} else {})"
  "lit (draw_action x y w a sel) = (if sel then {(x, y, w, TOOL_TILE_H)} else {})"
  by (cases a; simp add: draw_boot_tile_def draw_tool_tile_def draw_action_def Let_def colours_differ
      split: option.split PreflightStatus.split)+

lemma lit_rest [simp]:
  "lit (draw_header mt g) = {}" "lit (draw_footer mt st g) = {}" "lit (draw_cursor mx my) = {}"
  by (simp_all add: draw_header_def draw_footer_def draw_cursor_def Let_def colours_differ split: option.split)

lemma lit_left:
  "lit (draw_left_column entries boots g) =
     (if gc_sel_col g = CLeft \<and> gc_scroll_left g \<le> gc_sel_idx g \<and> gc_sel_idx g < vis_end g (length boots)
      then {(MARGIN, 140 + (gc_sel_idx g - gc_scroll_left g) * 66, left_col_w g, BOOT_TILE_H)} else {})"
proof (cases "boots = []")
  case False
  let ?s = "gc_scroll_left g" and ?e = "vis_end g (length boots)"
  have "lit (draw_left_column entries boots g) =
      (\<Union>(vi, bi) \<in> set (enumerate 0 [?s..<?e]).
         if gc_sel_col g = CLeft \<and> bi = gc_sel_idx g then {(MARGIN, 140 + vi * 66, left_col_w g, BOOT_TILE_H)} else {})"
    using False by (auto simp: draw_left_column_def Let_def lit_concat layout_defs split: if_splits)
  moreover have "(vi, bi) \<in> set (enumerate 0 [?s..<?e]) \<longleftrightarrow> ?s \<le> bi \<and> bi < ?e \<and> vi = bi - ?s" for vi bi
    by (auto simp: in_set_enumerate_eq)
  ultimately show ?thesis
    by (auto split: if_splits intro!: bexI [of _ "(gc_sel_idx g - gc_scroll_left g, gc_sel_idx g)"])
qed (simp add: draw_left_column_def vis_end_def Let_def)

lemma row_offset: "Suc i \<le> k \<Longrightarrow> y + (k - i) * 46 = y + 46 + (k - Suc i) * (46::nat)"
  by simp

lemma lit_tools:
  "lit (fst (draw_tools entries (\<lambda>j. c \<and> j = k) x w i y tools)) =
     (if c \<and> i \<le> k \<and> k < i + length tools then {(x, y + (k - i) * 46, w, TOOL_TILE_H)} else {})"
proof (induction tools arbitrary: i y)
  case (Cons t tools)
  show ?case
  proof (cases "k \<le> i")
    case True
    then show ?thesis using Cons.IH [of "Suc i" "y + 46"] by (auto simp: layout_defs split: prod.split)
  next
    case False
    then show ?thesis using Cons.IH [of "Suc i" "y + 46"] row_offset [of i k y] by (auto simp: layout_defs split: prod.split)
  qed
qed simp

lemma draw_tools_end: "snd (draw_tools entries selected x w i y tools) = y + length tools * 46"
proof (induction tools arbitrary: i y)
  case (Cons t tools)
  show ?case using Cons.IH [of "Suc i" "y + 46"] by (simp add: layout_defs case_prod_beta)
qed simp

lemma lit_actions:
  "lit (draw_actions (\<lambda>j. c \<and> j = k) x w i y actions) =
     (if c \<and> i \<le> k \<and> k < i + length actions then {(x, y + (k - i) * 46, w, TOOL_TILE_H)} else {})"
proof (induction actions arbitrary: i y)
  case (Cons a actions)
  show ?case
  proof (cases "k \<le> i")
    case True
    then show ?thesis using Cons.IH [of "Suc i" "y + 46"] by (auto simp: layout_defs)
  next
    case False
    then show ?thesis using Cons.IH [of "Suc i" "y + 46"] row_offset [of i k y] by (auto simp: layout_defs)
  qed
qed simp

lemma lit_right:
  "lit (draw_right_column entries tools g) =
     (if gc_sel_col g = CRight \<and> gc_sel_idx g < length tools + 2
      then {(right_col_x g, right_y (length tools) (gc_sel_idx g), right_col_w g, TOOL_TILE_H)} else {})"
proof -
  let ?sel = "\<lambda>i. gc_sel_col g = CRight \<and> i = gc_sel_idx g" and ?x = "right_col_x g" and ?w = "right_col_w g"
    and ?n = "length tools" and ?k = "gc_sel_idx g"
  obtain ops y where d: "draw_tools entries ?sel ?x ?w 0 HEADER_H tools = (ops, y)" by fastforce
  have y: "y = 140 + ?n * 46" using draw_tools_end [of entries ?sel ?x ?w 0 HEADER_H tools] d by (simp add: HEADER_H_def)
  have "lit (draw_right_column entries tools g) = lit ops \<union> lit (draw_actions ?sel ?x ?w ?n (y + 4 + 8) ACTIONS)"
    by (simp add: draw_right_column_def Let_def d colours_differ)
  moreover have "lit ops = (if gc_sel_col g = CRight \<and> ?k < ?n then {(?x, 140 + ?k * 46, ?w, TOOL_TILE_H)} else {})"
    using lit_tools [of entries "gc_sel_col g = CRight" ?k ?x ?w 0 HEADER_H tools] d by (simp add: HEADER_H_def)
  moreover have "lit (draw_actions ?sel ?x ?w ?n (y + 4 + 8) ACTIONS) =
      (if gc_sel_col g = CRight \<and> ?n \<le> ?k \<and> ?k < ?n + 2 then {(?x, y + 4 + 8 + (?k - ?n) * 46, ?w, TOOL_TILE_H)} else {})"
    using lit_actions [of "gc_sel_col g = CRight" ?k ?x ?w ?n "y + 4 + 8" ACTIONS] by (simp add: ACTIONS_def)
  moreover have "y + 4 + 8 + (?k - ?n) * 46 = right_y ?n ?k" if "?n \<le> ?k"
  proof -
    obtain j where "?k = ?n + j" using \<open>?n \<le> ?k\<close> by (metis le_Suc_ex)
    then show ?thesis using y by (simp add: right_y_def algebra_simps)
  qed
  ultimately show ?thesis by (cases "?k < ?n") (simp_all add: right_y_def)
qed

lemma lit_frame:
  "lit (frame mt entries tm g) =
     lit (draw_left_column entries (boot_indices entries) g) \<union> lit (draw_right_column entries (tool_indices entries) g)"
  by (simp add: frame_def frame_with_def)

lemma lit_highlighted: "(x, y, w, tile_height col) \<in> lit (highlighted entries col i x y w)"
  by (cases col) (simp_all add: Let_def)

lemma lit_sublist: "sublist xs ys \<Longrightarrow> lit xs \<subseteq> lit ys"
  by (auto simp: lit_def dest: set_mono_sublist)

subsection \<open>The selected row is drawn\<close>

lemma sublist_grow:
  "sublist xs ys \<Longrightarrow> sublist xs (ys @ zs)" "sublist xs ys \<Longrightarrow> sublist xs (zs @ ys)" "sublist xs ys \<Longrightarrow> sublist xs (z # ys)"
  unfolding sublist_def by (metis append.assoc append_Cons)+

lemma sublist_frame:
  "sublist xs (draw_left_column entries (boot_indices entries) g) \<Longrightarrow> sublist xs (frame mt entries tm g)"
  "sublist xs (draw_right_column entries (tool_indices entries) g) \<Longrightarrow> sublist xs (frame mt entries tm g)"
  by (simp_all add: frame_def frame_with_def sublist_grow)

lemma sublist_concat: "x \<in> set xs \<Longrightarrow> sublist (f x) (concat (map f xs))"
  by (induction xs) (auto intro: sublist_grow)

lemma left_row_drawn:
  assumes "gc_sel_col g = CLeft" "gc_scroll_left g \<le> gc_sel_idx g" "gc_sel_idx g < vis_end g (length boots)" "boots = boot_indices entries"
  shows "sublist (highlighted entries CLeft (gc_sel_idx g) MARGIN (140 + (gc_sel_idx g - gc_scroll_left g) * 66) (left_col_w g))
    (draw_left_column entries boots g)"
proof -
  let ?s = "gc_scroll_left g" and ?i = "gc_sel_idx g"
  let ?f = "\<lambda>(vi, bi). draw_boot_tile MARGIN (HEADER_H + vi * (BOOT_TILE_H + TILE_GAP)) (left_col_w g) (entries ! (boots ! bi))
                   (gc_sel_col g = CLeft \<and> bi = ?i)"
  have "(?i - ?s, ?i) \<in> set (enumerate 0 [?s..<vis_end g (length boots)])" using assms by (auto simp: in_set_enumerate_eq)
  then have "sublist (?f (?i - ?s, ?i)) (concat (map ?f (enumerate 0 [?s..<vis_end g (length boots)])))"
    by (rule sublist_concat)
  moreover have "?f (?i - ?s, ?i) = highlighted entries CLeft ?i MARGIN (140 + (?i - ?s) * 66) (left_col_w g)"
    using assms(1,4) by (simp add: layout_defs)
  moreover have "boots \<noteq> []" using assms(3) by (auto simp: vis_end_def)
  ultimately show ?thesis by (simp only: draw_left_column_def Let_def if_False sublist_grow)
qed

lemma tool_row_drawn:
  "selected k \<Longrightarrow> i \<le> k \<Longrightarrow> k < i + length tools \<Longrightarrow>
   sublist (draw_tool_tile x (y + (k - i) * 46) w (en_name (entries ! (tools ! (k - i)))) ''Diagnostic module'' True)
     (fst (draw_tools entries selected x w i y tools))"
proof (induction tools arbitrary: i y)
  case (Cons t tools)
  show ?case
  proof (cases "k = i")
    case False
    then have "Suc i \<le> k" "tools ! (k - Suc i) = (t # tools) ! (k - i)" using Cons.prems(2) by (simp_all add: nth_Cons')
    then show ?thesis
      using Cons.IH [of "Suc i" "y + 46"] Cons.prems row_offset [of i k y]
      by (simp add: layout_defs case_prod_beta add.assoc sublist_grow)
  qed (use Cons.prems in \<open>simp add: case_prod_beta sublist_grow\<close>)
qed simp

lemma action_row_drawn:
  "selected k \<Longrightarrow> i \<le> k \<Longrightarrow> k < i + length actions \<Longrightarrow>
   sublist (draw_action x (y + (k - i) * 46) w (actions ! (k - i)) True) (draw_actions selected x w i y actions)"
proof (induction actions arbitrary: i y)
  case (Cons a actions)
  show ?case
  proof (cases "k = i")
    case False
    then have "Suc i \<le> k" "actions ! (k - Suc i) = (a # actions) ! (k - i)" using Cons.prems(2) by (simp_all add: nth_Cons')
    then show ?thesis
      using Cons.IH [of "Suc i" "y + 46"] Cons.prems row_offset [of i k y] by (simp add: layout_defs add.assoc sublist_grow)
  qed (use Cons.prems in \<open>simp add: sublist_grow\<close>)
qed simp

lemma right_row_drawn:
  assumes "gc_sel_col g = CRight" "gc_sel_idx g < length tools + 2" "tools = tool_indices entries"
  shows "sublist (highlighted entries CRight (gc_sel_idx g) (right_col_x g) (right_y (length tools) (gc_sel_idx g)) (right_col_w g))
    (draw_right_column entries tools g)"
proof -
  let ?sel = "\<lambda>i. gc_sel_col g = CRight \<and> i = gc_sel_idx g" and ?x = "right_col_x g" and ?w = "right_col_w g"
    and ?n = "length tools" and ?k = "gc_sel_idx g"
  obtain ops y where d: "draw_tools entries ?sel ?x ?w 0 HEADER_H tools = (ops, y)" by fastforce
  have y: "y = 140 + ?n * 46" using draw_tools_end [of entries ?sel ?x ?w 0 HEADER_H tools] d by (simp add: HEADER_H_def)
  have col: "draw_right_column entries tools g =
      [OpText ''Tools & Actions'' (as_i32 ?x) (as_i32 HEADER_H - 18) SUBTITLE_COLOR FSmall] @ ops @
      [OpFill ?x (y + 4) ?w 1 DIVIDER_COLOR] @ draw_actions ?sel ?x ?w ?n (y + 4 + 8) ACTIONS"
    by (simp add: draw_right_column_def Let_def d)
  show ?thesis
  proof (cases "?k < ?n")
    case True
    then have "sublist (highlighted entries CRight ?k ?x (right_y ?n ?k) ?w) ops"
      using tool_row_drawn [of ?sel ?k 0 tools ?x HEADER_H ?w entries] d assms by (simp add: right_y_def HEADER_H_def)
    then show ?thesis unfolding col by (intro sublist_grow)
  next
    case False
    then obtain j where j: "?k = ?n + j" by (metis le_Suc_ex not_less)
    then have "y + 4 + 8 + (?k - ?n) * 46 = right_y ?n ?k" using y by (simp add: right_y_def algebra_simps)
    moreover have "?k < ?n + length ACTIONS" using assms(2) by (simp add: ACTIONS_def)
    ultimately have "sublist (highlighted entries CRight ?k ?x (right_y ?n ?k) ?w) (draw_actions ?sel ?x ?w ?n (y + 4 + 8) ACTIONS)"
      using action_row_drawn [of ?sel ?k ?n ACTIONS ?x "y + 4 + 8" ?w] assms(1,3) j by (simp add: Let_def)
    then show ?thesis unfolding col by (intro sublist_grow)
  qed
qed

subsection \<open>The mouse and the drawing agree\<close>

lemma layout_select [simp]:
  "left_col_w (g\<lparr>gc_sel_col := c, gc_sel_idx := i\<rparr>) = left_col_w g" "right_col_x (g\<lparr>gc_sel_col := c, gc_sel_idx := i\<rparr>) = right_col_x g"
  "right_col_w (g\<lparr>gc_sel_col := c, gc_sel_idx := i\<rparr>) = right_col_w g" "vis_end (g\<lparr>gc_sel_col := c, gc_sel_idx := i\<rparr>) n = vis_end g n"
  by (simp_all add: left_col_w_def right_col_x_def right_col_w_def vis_end_def max_visible_boot_def content_height_def content_bottom_def)

lemma hit_test_rows:
  assumes "sane_screen g" "tools \<le> 1000000" "scroll_ok boots g"
  shows "hit_test mx my boots tools g = Some (CLeft, i) \<longleftrightarrow>
      gc_scroll_left g \<le> i \<and> i < vis_end g boots \<and>
      in_rect mx my MARGIN (140 + (i - gc_scroll_left g) * 66) (left_col_w g) BOOT_TILE_H"
    "hit_test mx my boots tools g = Some (CRight, i) \<longleftrightarrow>
      i < tools + 2 \<and> in_rect mx my (right_col_x g) (right_y tools i) (right_col_w g) TOOL_TILE_H"
proof -
  note c = columns [OF assms(1)]
  let ?L = "20 \<le> mx \<and> mx < 20 + int (left_col_w g)"
    and ?R = "int (right_col_x g) \<le> mx \<and> mx < int (right_col_x g) + int (right_col_w g)"
  have l: "mx \<ge> as_i32 MARGIN \<and> mx < wrap_i32 (as_i32 MARGIN + as_i32 (left_col_w g)) \<longleftrightarrow> ?L"
    using c(4) by (simp add: MARGIN_def)
  have r: "mx \<ge> as_i32 (right_col_x g) \<and> mx < wrap_i32 (as_i32 (right_col_x g) + as_i32 (right_col_w g)) \<longleftrightarrow> ?R"
    using c(5,6) by simp
  have hit: "hit_test mx my boots tools g = (case (if ?L then hit_left my boots g else None) of
      Some vi \<Rightarrow> Some (CLeft, gc_scroll_left g + vi)
    | None \<Rightarrow> map_option (\<lambda>i. (CRight, i)) (if ?R then hit_right my tools else None))"
    unfolding hit_test_def Let_def l r by (rule refl)
  have "hit_test mx my boots tools g = Some (CLeft, i) \<longleftrightarrow>
      ?L \<and> (\<exists>vi. i = gc_scroll_left g + vi \<and> hit_left my boots g = Some vi)"
    unfolding hit by (cases "hit_left my boots g") auto
  also have "\<dots> \<longleftrightarrow> (\<exists>vi. i = gc_scroll_left g + vi \<and> vi < min (max_visible_boot g) boots \<and>
      in_rect mx my MARGIN (140 + vi * 66) (left_col_w g) BOOT_TILE_H)"
    unfolding hit_left_iff [OF assms(1)] in_rect_def layout_defs by auto
  also have "\<dots> \<longleftrightarrow> gc_scroll_left g \<le> i \<and> i < vis_end g boots \<and>
      in_rect mx my MARGIN (140 + (i - gc_scroll_left g) * 66) (left_col_w g) BOOT_TILE_H"
    using assms(3) by (auto simp: vis_end_def scroll_ok_def intro!: exI [of _ "i - gc_scroll_left g"])
  finally show "hit_test mx my boots tools g = Some (CLeft, i) \<longleftrightarrow> gc_scroll_left g \<le> i \<and> i < vis_end g boots \<and>
      in_rect mx my MARGIN (140 + (i - gc_scroll_left g) * 66) (left_col_w g) BOOT_TILE_H" .
  have "\<not> (mx < 20 + int (left_col_w g) \<and> int (right_col_x g) \<le> mx)" using c(2) by simp
  then have "hit_test mx my boots tools g = Some (CRight, i) \<longleftrightarrow> ?R \<and> hit_right my tools = Some i"
    unfolding hit by (cases "hit_left my boots g") auto
  then show "hit_test mx my boots tools g = Some (CRight, i) \<longleftrightarrow>
      i < tools + 2 \<and> in_rect mx my (right_col_x g) (right_y tools i) (right_col_w g) TOOL_TILE_H"
    unfolding hit_right_iff [OF assms(2)] in_rect_def layout_defs by auto
qed

text \<open>C38: on a screen of ordinary size the mouse selects what is drawn under it.  A position selects row \<open>i\<close> of a
  column exactly when the frame that is drawn with that row selected contains the row's highlighted tile, with the
  name of its entry, around that position: what a click starts is the tile the user sees under the pointer, and
  where no tile is drawn nothing is selected.\<close>

theorem mouse_selects_drawn_tile:
  assumes "sane_screen g" "length (tool_indices entries) \<le> 1000000" "gui_head mt entries pol g"
  shows "hit_test mx my (length (boot_indices entries)) (length (tool_indices entries)) g = Some (col, i) \<longleftrightarrow>
    (\<exists>x y w. sublist (highlighted entries col i x y w)
        (frame mt entries timeout_ms (g\<lparr>gc_sel_col := col, gc_sel_idx := i\<rparr>)) \<and>
      in_rect mx my x y w (tile_height col))"
  (is "?hit \<longleftrightarrow> (\<exists>x y w. ?drawn x y w \<and> ?under x y w)")
proof -
  let ?g = "g\<lparr>gc_sel_col := col, gc_sel_idx := i\<rparr>" and ?b = "boot_indices entries" and ?t = "tool_indices entries"
  note hit = hit_test_rows [OF assms(1,2) gui_head_scroll [OF assms(3)], of mx my i]
  have lit: "(x, y, w, tile_height col) \<in> lit (frame mt entries timeout_ms ?g)" if "?drawn x y w" for x y w
    using lit_sublist [OF that] lit_highlighted by blast
  show ?thesis
  proof (cases col)
    case CLeft
    have "?drawn MARGIN (140 + (i - gc_scroll_left g) * 66) (left_col_w g)"
      if "gc_scroll_left g \<le> i" "i < vis_end g (length ?b)"
      using left_row_drawn [of ?g ?b entries] that CLeft by (intro sublist_frame(1)) simp
    moreover have "x = MARGIN \<and> y = 140 + (i - gc_scroll_left g) * 66 \<and> w = left_col_w g \<and>
        gc_scroll_left g \<le> i \<and> i < vis_end g (length ?b)" if "?drawn x y w" for x y w
      using lit [OF that] CLeft by (simp add: lit_frame lit_left lit_right split: if_splits)
    ultimately show ?thesis using hit(1) CLeft by (simp only: tile_height.simps) metis
  next
    case CRight
    have "?drawn (right_col_x g) (right_y (length ?t) i) (right_col_w g)" if "i < length ?t + 2"
      using right_row_drawn [of ?g ?t entries] that CRight by (intro sublist_frame(2)) simp
    moreover have "x = right_col_x g \<and> y = right_y (length ?t) i \<and> w = right_col_w g \<and> i < length ?t + 2"
      if "?drawn x y w" for x y w
      using lit [OF that] CRight by (simp add: lit_frame lit_left lit_right split: if_splits)
    ultimately show ?thesis using hit(2) CRight by (simp only: tile_height.simps) metis
  qed
qed

theorem mouse_selects_drawn_tile_witness:
  "\<exists>x y w. sublist (highlighted [demo_entry ''a'', demo_entry ''b'', demo_entry ''c'', tool_entry_demo] CLeft 1 x y w)
      (frame demo_text [demo_entry ''a'', demo_entry ''b'', demo_entry ''c'', tool_entry_demo] 5000
        ((gui_new demo_info 800 600)\<lparr>gc_sel_col := CLeft, gc_sel_idx := 1\<rparr>)) \<and>
    in_rect 30 210 x y w BOOT_TILE_H"
proof -
  let ?es = "[demo_entry ''a'', demo_entry ''b'', demo_entry ''c'', tool_entry_demo]" and ?g = "gui_new demo_info 800 600"
  have s: "sane_screen ?g" by (simp add: sane_screen_def gui_new_def)
  have w: "left_col_w ?g = 407" using columns(1) [OF s] by (simp add: gui_new_def)
  have n: "length (boot_indices ?es) = 3" "length (tool_indices ?es) = 1"
    by (simp_all add: boot_indices_def tool_indices_def demo_entry_def tool_entry_demo_def upt_rec)
  have "hit_test 30 210 (length (boot_indices ?es)) (length (tool_indices ?es)) ?g = Some (CLeft, 1)"
    unfolding n using w
    by (subst hit_test_rows(1) [OF s])
      (simp_all add: gui_new_def scroll_ok_def vis_end_def max_visible_boot_def content_height_def content_bottom_def
        layout_defs in_rect_def)
  then show ?thesis
    using mouse_selects_drawn_tile [OF s _ gui_head.start, where entries = ?es and col = CLeft and i = 1
        and mx = 30 and my = 210 and timeout_ms = 5000 and mt = demo_text] n by simp
qed

end
