(* ===== verification/Bootlog.thy ===== *)
theory Bootlog
  imports Report
begin

section \<open>The boot log and the timings\<close>

text \<open>
  Model of \<open>lamboot-core/src/bootlog.rs\<close> (the log of the present boot on the ESP, written through until the
  menu and buffered afterwards) and of \<open>telemetry.rs\<close> (the time each phase took, for the boot report and a
  firmware variable).  The clock is an argument, so that it may move between two calls.

  The lemmas: the size cap of the write-through mode, and that a reader recovers the phases and the total
  from the variable.
\<close>

subsection \<open>The boot log\<close>

definition LOG_PATH :: string where "LOG_PATH = ''/EFI/LamBoot/reports/boot.log''"
definition MAX_LOG_SIZE :: nat where "MAX_LOG_SIZE = 64 * 1024"

record BootLog =
  bl_buffer :: string
  bl_write_through :: bool
  bl_written :: nat

definition bootlog_new :: BootLog where
  "bootlog_new = \<lparr>bl_buffer = [], bl_write_through = True, bl_written = 0\<rparr>"

definition bootlog_timestamp :: "'n runtime \<Rightarrow> string" where
  "bootlog_timestamp rt = (case rt_time rt of Some t \<Rightarrow> get_timestamp rt | None \<Rightarrow> ''??:??:??'')"

definition append_to_esp :: "'s sfs \<Rightarrow> string \<Rightarrow> BootLog \<Rightarrow> 's volume \<Rightarrow> BootLog \<times> 's volume" where
  "append_to_esp fw line l v =
     (if bl_written l + length line > MAX_LOG_SIZE then (l, v)
      else if \<not> esp_writer_new v then (l, v)
      else case path_from_str LOG_PATH of
        Ok path \<Rightarrow>
          (case esp_append fw path (as_bytes line) v of
             (v', Ok _) \<Rightarrow> (l\<lparr>bl_written := bl_written l + length line\<rparr>, v')
           | (v', _) \<Rightarrow> (l, v'))
      | _ \<Rightarrow> (l, v))"

definition bootlog_log ::
  "'s sfs \<Rightarrow> 'n runtime \<Rightarrow> bool \<Rightarrow> string \<Rightarrow> string \<Rightarrow> BootLog \<Rightarrow> 's volume \<Rightarrow> BootLog \<times> 's volume" where
  "bootlog_log fw rt to_esp level message l v =
     (let line = ''['' @ bootlog_timestamp rt @ ''] '' @ level @ '': '' @ message @ NL;
          (l', v') = (if bl_write_through l \<and> to_esp then append_to_esp fw line l v else (l, v)) in
      (l'\<lparr>bl_buffer := bl_buffer l' @ line\<rparr>, v'))"

definition bootlog_info ::
  "'s sfs \<Rightarrow> 'n runtime \<Rightarrow> bool \<Rightarrow> string \<Rightarrow> BootLog \<Rightarrow> 's volume \<Rightarrow> BootLog \<times> 's volume" where
  "bootlog_info fw rt to_esp = bootlog_log fw rt to_esp ''INFO''"

definition bootlog_warn ::
  "'s sfs \<Rightarrow> 'n runtime \<Rightarrow> bool \<Rightarrow> string \<Rightarrow> BootLog \<Rightarrow> 's volume \<Rightarrow> BootLog \<times> 's volume" where
  "bootlog_warn fw rt to_esp = bootlog_log fw rt to_esp ''WARN''"

definition set_buffered :: "BootLog \<Rightarrow> BootLog" where
  "set_buffered l = l\<lparr>bl_write_through := False\<rparr>"

definition bootlog_flush :: "'s sfs \<Rightarrow> BootLog \<Rightarrow> 's volume \<Rightarrow> 's volume" where
  "bootlog_flush fw l v =
     (if bl_buffer l = [] then v
      else if \<not> esp_writer_new v then v
      else case path_from_str LOG_PATH of
        Ok path \<Rightarrow> fst (esp_write fw path (as_bytes (bl_buffer l)) v)
      | _ \<Rightarrow> v)"

definition bootlog_start :: "'s sfs \<Rightarrow> 'n runtime \<Rightarrow> string \<Rightarrow> string \<Rightarrow> BootLog \<Rightarrow> 's volume \<Rightarrow> BootLog \<times> 's volume" where
  "bootlog_start fw rt version arch l v =
     (let header = ''=== LamBoot '' @ version @ '' ('' @ arch @ '') boot log ==='' @ NL @
            ''=== '' @ bootlog_timestamp rt @ '' ==='' @ NL @ NL;
          l' = l\<lparr>bl_buffer := header, bl_written := 0\<rparr> in
      if \<not> esp_writer_new v then (l', v)
      else case path_from_str LOG_PATH of
        Ok path \<Rightarrow>
          (case esp_write fw path (as_bytes header) v of
             (v', Ok _) \<Rightarrow> (l'\<lparr>bl_written := length header\<rparr>, v')
           | (v', _) \<Rightarrow> (l', v'))
      | _ \<Rightarrow> (l', v))"

subsection \<open>The cap\<close>

lemma bootlog_log_capped:
  assumes "bl_written l \<le> MAX_LOG_SIZE" "bootlog_log fw rt to_esp level message l v = (l', v')"
  shows "bl_written l' \<le> MAX_LOG_SIZE"
  using assms
  by (auto simp: bootlog_log_def append_to_esp_def Let_def split: prod.splits if_splits outcome.splits)

subsection \<open>Timings\<close>

record PhaseTiming =
  pt_name :: string
  pt_ms :: u32

record BootTelemetry =
  bt_phases :: "PhaseTiming list"
  bt_boot_start :: u32

text \<open>The clock: the time and its nanoseconds.\<close>

definition timestamp_ms :: "(EfiTime \<times> u32) option \<Rightarrow> u32" where
  "timestamp_ms clock =
     (case clock of
        Some (t, ns) \<Rightarrow>
          ucast (et_hour t) * 3600000 + ucast (et_minute t) * 60000 + ucast (et_second t) * 1000 + ns div 1000000
      | None \<Rightarrow> 0)"

definition telemetry_new :: "(EfiTime \<times> u32) option \<Rightarrow> BootTelemetry" where
  "telemetry_new clock = \<lparr>bt_phases = [], bt_boot_start = timestamp_ms clock\<rparr>"

definition telemetry_record :: "string \<Rightarrow> u32 \<Rightarrow> (EfiTime \<times> u32) option \<Rightarrow> BootTelemetry \<Rightarrow> BootTelemetry" where
  "telemetry_record name start_ms clock t =
     t\<lparr>bt_phases := bt_phases t @ [\<lparr>pt_name = name, pt_ms = timestamp_ms clock - start_ms\<rparr>]\<rparr>"

definition total_ms :: "(EfiTime \<times> u32) option \<Rightarrow> BootTelemetry \<Rightarrow> u32" where
  "total_ms clock t = timestamp_ms clock - bt_boot_start t"

definition telemetry_to_json :: "(EfiTime \<times> u32) option \<Rightarrow> BootTelemetry \<Rightarrow> string" where
  "telemetry_to_json clock t =
     ''{'' @ str_join '',''
       (map (\<lambda>p. json_text (pt_name p) @ '':'' @ dec (unat (pt_ms p))) (bt_phases t) @
        [json_text ''total'' @ '':'' @ dec (unat (total_ms clock t))]) @ ''}''"

definition TELEMETRY_VAR :: nv_name where
  "TELEMETRY_VAR = (''4c414d42-4f4f-5400-0000-000000000001'', ''LamBootTelemetry'')"

definition phase_bytes :: "PhaseTiming \<Rightarrow> bytes" where
  "phase_bytes p =
     (let name_bytes = as_bytes (pt_name p); name_len = min (length name_bytes) 31 in
      of_nat name_len # take name_len name_bytes @ to_le (pt_ms p))"

definition telemetry_bytes :: "u32 \<Rightarrow> PhaseTiming list \<Rightarrow> bytes" where
  "telemetry_bytes all_ms phases =
     (let count = min (length phases) 255 in
      of_nat count # concat (map phase_bytes (take count phases)) @ to_le all_ms)"

definition store_variable :: "'n runtime \<Rightarrow> (EfiTime \<times> u32) option \<Rightarrow> BootTelemetry \<Rightarrow> 'n \<Rightarrow> 'n" where
  "store_variable rt clock t s = fst (rt_set rt TELEMETRY_VAR (telemetry_bytes (total_ms clock t) (bt_phases t)) s)"

subsection \<open>Reading the variable back\<close>

fun read_phases :: "nat \<Rightarrow> bytes \<Rightarrow> (bytes \<times> u32) list \<times> bytes" where
  "read_phases 0 bs = ([], bs)"
| "read_phases (Suc n) bs =
     (let k = unat (hd bs); rest = drop k (tl bs); (ps, r) = read_phases n (drop 4 rest) in
      ((take k (tl bs), from_le (take 4 rest)) # ps, r))"

definition read_telemetry :: "bytes \<Rightarrow> (bytes \<times> u32) list \<times> u32" where
  "read_telemetry bs = (let (ps, r) = read_phases (unat (hd bs)) (tl bs) in (ps, from_le r))"

lemma read_phases_written:
  assumes "\<And>p. p \<in> set ps \<Longrightarrow> length (as_bytes (pt_name p)) \<le> 31"
  shows "read_phases (length ps) (concat (map phase_bytes ps) @ r) = (map (\<lambda>p. (as_bytes (pt_name p), pt_ms p)) ps, r)"
  using assms
proof (induction ps)
  case (Cons p ps)
  let ?n = "as_bytes (pt_name p)"
  have "length ?n \<le> 31" using Cons.prems by simp
  then have n: "unat (of_nat (length ?n) :: u8) = length ?n" "min (length ?n) 31 = length ?n"
    by (simp_all add: unat_of_nat take_bit_nat_eq_self)
  have "from_le (to_le (pt_ms p)) = pt_ms p" by (rule from_le_to_le) simp
  then show ?case using Cons n by (simp add: phase_bytes_def Let_def)
qed simp

lemma telemetry_round_trip:
  assumes "length ps \<le> 255" "\<And>p. p \<in> set ps \<Longrightarrow> length (as_bytes (pt_name p)) \<le> 31"
  shows "read_telemetry (telemetry_bytes all_ms ps) = (map (\<lambda>p. (as_bytes (pt_name p), pt_ms p)) ps, all_ms)"
proof -
  have "unat (of_nat (length ps) :: u8) = length ps" using assms(1) by (simp add: unat_of_nat take_bit_nat_eq_self)
  moreover have "from_le (to_le all_ms) = all_ms" by (rule from_le_to_le) simp
  ultimately show ?thesis
    using assms(1) read_phases_written [of ps "to_le all_ms"] assms(2) by (simp add: telemetry_bytes_def read_telemetry_def)
qed

end
