(* ===== verification/Session.thy ===== *)
theory Session
  imports Iso_Boot Bls Gui Bootlog Health
begin

section \<open>The session: menu, boot, and back to the menu\<close>

text \<open>
  Model of the end of \<open>run_bootloader\<close> in \<open>lamboot-core/src/main.rs\<close>, from the crash-loop check on: the choice of an
  entry (menu, configured fallback, recovery entry), the records made before it is booted, the boot itself, what
  follows when it comes back, and the loop that returns to the menu after a tool.  With it
  \<open>select_fallback\<close>, \<open>select_crash_recovery_entry\<close> and \<open>run_menu_with_fallback\<close>.

  \<open>session_env\<close> holds what the earlier phases found and what is not part of the sources: the graphics
  protocol, the clock, the devices behind the polls and the text \<open>Debug\<close> gives the kind of an entry.
  \<open>reached\<close> are the states between two rounds and the ones a session ends in.

  The theorems: over a whole session, whatever is chosen and however often tools return to the menu, only
  authenticated images are started; a session counts as a failed boot unless the chosen entry returned
  successfully; in a crash loop the loader goes on without a user; after a tool the volumes are in another
  order than the entries were found in.
\<close>

subsection \<open>Environment and state\<close>

record ('s, 'n, 'p) session_env =
  se_pl :: "'s platform"
  se_ifw :: "'s iso_firmware"
  se_rt :: "'n runtime"
  se_version :: string
  se_target :: string
  se_input :: "nat \<Rightarrow> nat \<Rightarrow> 'p \<Rightarrow> 'p \<times> InputEvent"
  se_has_graphics :: "'p \<Rightarrow> bool"
  se_gop_new :: "'p \<Rightarrow> (nat \<times> nat) option"
  se_gop_run :: "'p \<Rightarrow> bool"
  se_clock :: "'p \<Rightarrow> (EfiTime \<times> u32) option"
  se_debug_kind :: "EntryKind \<Rightarrow> string"
  se_entries :: "BootEntry list"
  se_policy :: Policy
  se_quirks :: FirmwareQuirks
  se_sb :: SecureBootState
  se_notice :: "string option"
  se_sys_info :: SystemInfo
  se_vmid :: "string option"
  se_hypervisor :: "string option"
  se_fleet_id :: "string option"
  se_role :: "string option"
  se_host_node :: "string option"
  se_iommu :: IommuInfo
  se_driver_count :: nat
  se_telemetry :: BootTelemetry

record ('s, 'n, 'p) session =
  ss_mc :: "'s machine"
  ss_nv :: 'n
  ss_in :: 'p
  ss_bootlog :: BootLog
  ss_in_crash_loop :: bool

text \<open>A session ends with the result of the boot or with a reset of the machine.\<close>

datatype session_end = Ended "(u64, boot_exit) outcome" | Reset

subsection \<open>Choosing an entry\<close>

definition select_fallback :: "BootEntry list \<Rightarrow> Policy \<Rightarrow> BootEntry option" where
  "select_fallback entries pol = find_map (\<lambda>i. find (\<lambda>e. en_id e = i) entries) (po_fallback_order pol)"

definition select_crash_recovery_entry :: "BootEntry list \<Rightarrow> BootEntry option" where
  "select_crash_recovery_entry entries =
     (case find (\<lambda>e. en_icon e \<noteq> IconTools \<and> map_option pf_status (en_preflight e) \<noteq> Some PfError) entries of
        Some e \<Rightarrow> Some e
      | None \<Rightarrow> find (\<lambda>e. en_icon e \<noteq> IconTools) entries)"

definition gui_sys_info :: "('s, 'n, 'p) session_env \<Rightarrow> SystemInfoDisplay" where
  "gui_sys_info env =
     \<lparr>sd_vmid = se_vmid env, sd_hypervisor = se_hypervisor env, sd_system_product = si_product_name (se_sys_info env),
      sd_secure_boot = (se_sb env \<noteq> SbDisabled), sd_driver_count = se_driver_count env\<rparr>"

definition menu_text_of :: "('s, 'n, 'p) session_env \<Rightarrow> menu_text" where
  "menu_text_of env = \<lparr>mt_version = se_version env, mt_target = se_target env, mt_notice = se_notice env\<rparr>"

text \<open>Opening the graphics protocol can fail when the context is made and again when the menu starts; only the
  second failure is one of the menu.\<close>

definition run_menu_with_fallback ::
  "('s, 'n, 'p) session_env \<Rightarrow> Policy \<Rightarrow> 'p \<Rightarrow> ('p \<times> (menu_exit, unit) outcome) option" where
  "run_menu_with_fallback env pol p =
     (let text_menu = text_run_menu (menu_text_of env) (se_entries env) pol (se_input env 80 25) p in
      if se_has_graphics env p then
        (case se_gop_new env p of
           Some (w, h) \<Rightarrow>
             if se_gop_run env p
             then gui_run_menu (menu_text_of env) (gui_sys_info env) (w, h) (se_entries env) pol (se_input env w h) p
             else Some (p, Err ())
         | None \<Rightarrow> text_menu)
      else text_menu)"

definition CRASH_RECOVERY_TIMEOUT_MS :: nat where "CRASH_RECOVERY_TIMEOUT_MS = 8000"

definition recovery_policy :: "Policy \<Rightarrow> BootEntry \<Rightarrow> Policy" where
  "recovery_policy pol e =
     pol\<lparr>po_default_timeout_ms := CRASH_RECOVERY_TIMEOUT_MS, po_default_entry := Some (en_id e), po_default_pattern := None\<rparr>"

definition session_menu ::
  "('s, 'n, 'p) session_env \<Rightarrow> bool \<Rightarrow> 'p \<Rightarrow> ('p \<times> (menu_exit, unit) outcome) option" where
  "session_menu env in_crash_loop p =
     (if in_crash_loop then
        (case select_fallback (se_entries env) (se_policy env) of
           Some e \<Rightarrow> Some (p, Ok (Picked e))
         | None \<Rightarrow>
             (case select_crash_recovery_entry (se_entries env) of
                Some e \<Rightarrow> run_menu_with_fallback env (recovery_policy (se_policy env) e) p
              | None \<Rightarrow> run_menu_with_fallback env (se_policy env) p))
      else run_menu_with_fallback env (se_policy env) p)"

text \<open>A menu that fails is replaced by the recovery entry, or by the firmware's setup.\<close>

definition session_select ::
  "('s, 'n, 'p) session_env \<Rightarrow> bool \<Rightarrow> 'p \<Rightarrow> ('p \<times> (menu_exit, unit) outcome) option" where
  "session_select env in_crash_loop p =
     (case session_menu env in_crash_loop p of
        None \<Rightarrow> None
      | Some (p', Ok x) \<Rightarrow> Some (p', Ok x)
      | Some (p', Err _) \<Rightarrow>
          Some (p', Ok (case select_crash_recovery_entry (se_entries env) of Some e \<Rightarrow> Picked e | None \<Rightarrow> FirmwareSetup))
      | Some (p', Panic) \<Rightarrow> Some (p', Panic))"

subsection \<open>Records before the boot\<close>

definition on_mc :: "('s machine \<Rightarrow> 's machine) \<Rightarrow> ('s, 'n, 'p) session \<Rightarrow> ('s, 'n, 'p) session" where
  "on_mc f s = s\<lparr>ss_mc := f (ss_mc s)\<rparr>"

definition set_volume :: "nat \<Rightarrow> 's volume \<Rightarrow> 's machine \<Rightarrow> 's machine" where
  "set_volume i v m = m\<lparr>mc_volumes := (mc_volumes m)[i := v]\<rparr>"

definition log_selection ::
  "('s, 'n, 'p) session_env \<Rightarrow> BootEntry \<Rightarrow> ('s, 'n, 'p) session \<Rightarrow> ('s, 'n, 'p) session" where
  "log_selection env sel s =
     (let fw = pl_sfs (se_pl env);
          (l, v) = bootlog_info fw (se_rt env) False (''Selected: '' @ en_name sel @ '' ('' @ en_id sel @ '')'')
                     (ss_bootlog s) (esp_of (ss_mc s)) in
      on_mc (set_volume 0 (bootlog_flush fw l v)) (s\<lparr>ss_bootlog := l\<rparr>))"

definition record_selection ::
  "('s, 'n, 'p) session_env \<Rightarrow> BootEntry \<Rightarrow> ('s, 'n, 'p) session \<Rightarrow> ('s, 'n, 'p) session" where
  "record_selection env sel s = s\<lparr>ss_nv := ignore_result (record_boot_entry (se_rt env) (en_id sel)) (ss_nv s)\<rparr>"

fun report_sb :: "SecureBootState \<Rightarrow> ReportSbState" where
  "report_sb SbDisabled = ReportOff"
| "report_sb ActiveWithShim = ReportShim"
| "report_sb ActiveDirect = ReportDirect"

definition boot_ctx :: "('s, 'n, 'p) session_env \<Rightarrow> 'p \<Rightarrow> BootContext" where
  "boot_ctx env p =
     \<lparr>bc_sys_info = se_sys_info env, bc_fleet_id = se_fleet_id env, bc_os_name = None, bc_hypervisor = se_hypervisor env,
      bc_iommu = se_iommu env, bc_vmid = se_vmid env, bc_role = se_role env, bc_host_node = se_host_node env,
      bc_telemetry_json = telemetry_to_json (se_clock env p) (se_telemetry env), bc_report_sb = report_sb (se_sb env),
      bc_native_pe_never = (po_loader_native_pe (se_policy env) = PeNever)\<rparr>"

definition write_report ::
  "('s, 'n, 'p) session_env \<Rightarrow> BootEntry \<Rightarrow> (('s, 'n, 'p) session, unit, boot_exit) act" where
  "write_report env sel s =
     (case write_boot_report (pl_sfs (se_pl env)) (se_rt env) (se_version env) (se_target env) sel
             (boot_ctx env (ss_in s)) (esp_of (ss_mc s)) of
        (v, r) \<Rightarrow> (on_mc (set_volume 0 v) s, omap_err Failed r))"

text \<open>The entry's own file is measured and its boot counter taken down, on the volume it came from.\<close>

definition source_index :: "BootEntry \<Rightarrow> 's machine \<Rightarrow> nat" where
  "source_index sel m =
     (if en_source_volume_index sel < length (mc_volumes m) then en_source_volume_index sel else 0)"

definition count_boot ::
  "('s, 'n, 'p) session_env \<Rightarrow> BootEntry \<Rightarrow> ('s, 'n, 'p) session \<Rightarrow> ('s, 'n, 'p) session" where
  "count_boot env sel s =
     (case en_bls_filename sel of
        None \<Rightarrow> s
      | Some f \<Rightarrow>
          let i = source_index sel (ss_mc s); tag = vol_backend_tag (mc_volumes (ss_mc s) ! i) in
          case read_to_string_str (ENTRIES_DIR @ ''/'' @ f) (mc_volumes (ss_mc s) ! i) of
            (v, Ok content) \<Rightarrow>
              let m = fst (measure_bls_entry (se_pl env) (as_bytes content) (en_id sel) (set_volume i v (ss_mc s))) in
              (case bls_parse f content of
                 Some e \<Rightarrow>
                   if be_tries_left e = None then s\<lparr>ss_mc := m\<rparr>
                   else if tag = FAT_TAG then
                     (case decrement_boot_count (pl_sfs (se_pl env)) (se_rt env) e (mc_volumes m ! i, ss_nv s) of
                        ((v', n), _) \<Rightarrow> s\<lparr>ss_mc := set_volume i v' m, ss_nv := n\<rparr>)
                   else s\<lparr>ss_mc := rec (with_note (''vol_idx='' @ dec (en_source_volume_index sel) @ '' backend='' @ tag)
                          (with_path f (te_new ''boot_counter_skipped_ro''))) m\<rparr>
               | None \<Rightarrow> s\<lparr>ss_mc := m\<rparr>)
          | (v, _) \<Rightarrow> on_mc (set_volume i v) s)"

definition measure_selection :: "'s platform \<Rightarrow> BootEntry \<Rightarrow> 's machine \<Rightarrow> 's machine" where
  "measure_selection pl sel m =
     (case en_kind sel of
        LinuxLegacy k i options \<Rightarrow> fst (measure_cmdline pl options m)
      | Uki p options \<Rightarrow> fst (measure_cmdline pl options m)
      | _ \<Rightarrow> m)"

definition announce :: "('s, 'n, 'p) session_env \<Rightarrow> BootEntry \<Rightarrow> 's machine \<Rightarrow> 's machine" where
  "announce env sel m =
     (let pl = se_pl env in fold (\<lambda>f t. f t)
       ([crumb pl ''LAMDIAG2 before_cmdline_tpm'', measure_selection pl sel,
         crumb pl ''LAMDIAG2 after_cmdline_tpm_before_flush'', crumb pl ''LAMDIAG3a tight_post_diag2'',
         crumb pl ''LAMDIAG3b tight_5'', crumb pl ''LAMDIAG3c tight_6''] @
        (if conout_fat_coupling (se_quirks env) then [crumb pl (''Booting: '' @ en_name sel)] else []) @
        [crumb pl ''LAMDIAG3d after_audit_replacement'', crumb pl ''LAMDIAG3e after_clones'',
         rec (with_note (''id='' @ en_id sel) (with_path (en_name sel) (te_new ''entry_selected''))),
         crumb pl ''LAMDIAG3f after_first_record'',
         rec (with_note (''id='' @ en_id sel @ '' kind='' @ se_debug_kind env (en_kind sel))
           (with_path (en_name sel) (te_new ''boot_attempt''))),
         crumb pl ''LAMDIAG4 after_intervening_code'', crumb pl ''PREFLUSH before_trustlog_flush'',
         quiet_flush pl (se_quirks env), crumb pl ''POSTFLUSH after_handoff_flush'']) m)"

definition prepare ::
  "('s, 'n, 'p) session_env \<Rightarrow> BootEntry \<Rightarrow> (('s, 'n, 'p) session, unit, boot_exit) act" where
  "prepare env sel =
     abind (steps [log_selection env sel, record_selection env sel]) (\<lambda>_.
     abind (write_report env sel) (\<lambda>_.
     steps [count_boot env sel, on_mc (announce env sel)]))"

subsection \<open>The boot and what follows it\<close>

definition failure_note :: "'s machine \<Rightarrow> string" where
  "failure_note m =
     (case diagnostic_counters (fs_override (mc_fw m)) of
        (hook2_calls, shim_calls, shim_true, delegate_calls, shimlock_not_found) \<Rightarrow>
          ''status hint: ACCESS_DENIED/SECURITY_VIOLATION typically means kernel rejected by firmware DB '' @
          ''after shim_validate returned false; hook_security2 invocations='' @ dec (unat hook2_calls) @
          '', shim_validate calls='' @ dec (unat shim_calls) @ '' (true='' @ dec (unat shim_true) @
          ''), delegations to original='' @ dec (unat delegate_calls) @
          '', ShimLock handle not found='' @ dec (unat shimlock_not_found))"

definition log_failure :: "'s platform \<Rightarrow> BootEntry \<Rightarrow> string \<Rightarrow> 's machine \<Rightarrow> 's machine" where
  "log_failure pl sel status m =
     log_flush pl (rec (with_note (failure_note m) (with_status status
       (with_path (en_name sel) (te_new ''kernel_load_failed'')))) m)"

text \<open>\<open>swap_remove(0)\<close> takes the ESP out of the list and moves the last volume to its place.\<close>

definition reclaim_volumes :: "'s machine \<Rightarrow> 's machine" where
  "reclaim_volumes m =
     (case mc_volumes m of
        esp # extra \<Rightarrow> m\<lparr>mc_volumes := esp # (if extra = [] then [] else last extra # butlast extra)\<rparr>
      | [] \<Rightarrow> m)"

type_synonym ('s, 'n, 'p) round = "(('s, 'n, 'p) session, ('s, 'n, 'p) session \<times> session_end) turn"

definition after_boot ::
  "('s, 'n, 'p) session_env \<Rightarrow> BootEntry \<Rightarrow> (u64, boot_exit) outcome \<Rightarrow> ('s, 'n, 'p) session \<Rightarrow> ('s, 'n, 'p) round" where
  "after_boot env sel r s =
     (let come_back = (\<lambda>s1.
            if en_icon sel = IconTools
            then Again ((on_mc reclaim_volumes s1)\<lparr>ss_in_crash_loop := False\<rparr>)
            else case r of
              Ok x \<Rightarrow> Leave (s1\<lparr>ss_nv := ignore_result (mark_boot_success (se_rt env)) (ss_nv s1)\<rparr>, Ended r)
            | _ \<Rightarrow> Leave (s1, Ended r)) in
      case r of
        Ok x \<Rightarrow> come_back s
      | Err (Failed status) \<Rightarrow> come_back (on_mc (log_failure (se_pl env) sel status) s)
      | Err HandedOver \<Rightarrow> Leave (s, Ended r)
      | Panic \<Rightarrow> Leave (s, Ended r))"

definition boot_selection ::
  "('s, 'n, 'p) session_env \<Rightarrow> BootEntry \<Rightarrow> ('s, 'n, 'p) session \<Rightarrow> ('s, 'n, 'p) round" where
  "boot_selection env sel s =
     (case prepare env sel s of
        (s1, Ok _) \<Rightarrow>
          (case boot_entry (se_pl env) (se_ifw env) sel (se_policy env) (se_quirks env) (se_sb env) (ss_mc s1) of
             (m, r) \<Rightarrow> after_boot env sel r (s1\<lparr>ss_mc := m\<rparr>))
      | (s1, Err e) \<Rightarrow> Leave (s1, Ended (Err e))
      | (s1, Panic) \<Rightarrow> Leave (s1, Ended Panic))"

definition session_round :: "('s, 'n, 'p) session_env \<Rightarrow> ('s, 'n, 'p) session \<Rightarrow> ('s, 'n, 'p) round option" where
  "session_round env s =
     (case session_select env (ss_in_crash_loop s) (ss_in s) of
        None \<Rightarrow> None
      | Some (p, r) \<Rightarrow>
          Some (let s1 = s\<lparr>ss_in := p\<rparr> in
            case r of
              Ok (Picked sel) \<Rightarrow> boot_selection env sel s1
            | Ok FirmwareSetup \<Rightarrow> Leave (s1\<lparr>ss_nv := reboot_to_firmware_setup (se_rt env) (ss_nv s1)\<rparr>, Reset)
            | Ok Rebooting \<Rightarrow> Leave (s1, Reset)
            | _ \<Rightarrow> Leave (s1, Ended Panic)))"

partial_function (option) session_loop ::
  "('s, 'n, 'p) session_env \<Rightarrow> ('s, 'n, 'p) session \<Rightarrow> (('s, 'n, 'p) session \<times> session_end) option" where
  "session_loop env s =
     (case session_round env s of
        None \<Rightarrow> None
      | Some (Again s1) \<Rightarrow> session_loop env s1
      | Some (Leave x) \<Rightarrow> Some x)"

text \<open>The crash-loop check and the switch of the boot log to its buffered mode come first.\<close>

definition start_session ::
  "('s, 'n, 'p) session_env \<Rightarrow> 's machine \<Rightarrow> 'n \<Rightarrow> 'p \<Rightarrow> BootLog \<Rightarrow> ('s, 'n, 'p) session" where
  "start_session env m n p l =
     (let clock = se_clock env p;
          (l1, v) = bootlog_info (pl_sfs (se_pl env)) (se_rt env) True
            (''Boot init: '' @ dec (unat (total_ms clock (se_telemetry env))) @ '' ms'') l (esp_of m) in
      \<lparr>ss_mc = set_volume 0 v m, ss_nv = store_variable (se_rt env) clock (se_telemetry env) n, ss_in = p,
       ss_bootlog = set_buffered l1,
       ss_in_crash_loop = is_crash_loop (se_rt env) (po_crash_threshold (se_policy env)) n\<rparr>)"

inductive reached :: "('s, 'n, 'p) session_env \<Rightarrow> ('s, 'n, 'p) session \<Rightarrow> session_end option \<Rightarrow> ('s, 'n, 'p) session \<Rightarrow> bool"
  for env s0 where
  start: "reached env s0 None s0"
| again: "reached env s0 None s \<Longrightarrow> session_round env s = Some (Again s1) \<Longrightarrow> reached env s0 None s1"
| leave: "reached env s0 None s \<Longrightarrow> session_round env s = Some (Leave (s1, x)) \<Longrightarrow> reached env s0 (Some x) s1"

subsection \<open>What the records leave alone\<close>

lemma set_volume_fw [machine_simps]: "mc_fw (set_volume i v m) = mc_fw m" "mc_log (set_volume i v m) = mc_log m"
  by (simp_all add: set_volume_def)

lemma reclaim_volumes_fw [machine_simps]: "mc_fw (reclaim_volumes m) = mc_fw m"
  by (simp add: reclaim_volumes_def split: list.split)

lemma log_failure_fw [machine_simps]: "mc_fw (log_failure pl sel status m) = mc_fw m"
  by (simp add: log_failure_def machine_simps)

lemma measure_pcr_st:
  "st sec tpm tr0 c k b (mc_fw m) \<Longrightarrow> st sec tpm tr0 c k b (mc_fw (fst (measure_pcr pl pcr data desc m)))"
  using measure_pcr_fw [of pl pcr data desc m] by (auto simp: st_emit)

lemma measure_selection_st:
  "st sec tpm tr0 c k b (mc_fw m) \<Longrightarrow> st sec tpm tr0 c k b (mc_fw (measure_selection pl sel m))"
  by (auto simp: measure_selection_def measure_cmdline_def intro: measure_pcr_st split: EntryKind.split)

lemma announce_st:
  "st sec tpm tr0 c k b (mc_fw m) \<Longrightarrow> st sec tpm tr0 c k b (mc_fw (announce env sel m))"
  by (auto simp: announce_def Let_def machine_simps intro: measure_selection_st)

lemma count_boot_st:
  assumes "st sec tpm tr0 c k b (mc_fw (ss_mc s))"
  shows "st sec tpm tr0 c k b (mc_fw (ss_mc (count_boot env sel s)))"
proof -
  have "st sec tpm tr0 c k b (mc_fw (fst (measure_bls_entry (se_pl env) d i (set_volume j v (ss_mc s)))))" for d i j v
    unfolding measure_bls_entry_def by (rule measure_pcr_st) (simp add: assms machine_simps)
  then show ?thesis
    using assms by (simp add: count_boot_def Let_def on_mc_def machine_simps split: option.split prod.split outcome.split)
qed

lemma prepare_st:
  assumes "st sec tpm tr0 c k b (mc_fw (ss_mc s))" "prepare env sel s = (s1, r)"
  shows "st sec tpm tr0 c k b (mc_fw (ss_mc s1))"
proof -
  let ?I = "\<lambda>s. st sec tpm tr0 c k b (mc_fw (ss_mc s))"
  have "ahoare ?I (prepare env sel) (\<lambda>_. ?I) ?I"
    unfolding prepare_def
  proof (intro ahoare_abind [where R = "\<lambda>_. ?I"] ahoare_steps)
    show "ahoare ?I (write_report env sel) (\<lambda>_. ?I) ?I"
      by (rule ahoareI) (auto simp: write_report_def on_mc_def machine_simps split: prod.splits)
  qed (auto simp: log_selection_def record_selection_def on_mc_def Let_def machine_simps
      intro: announce_st count_boot_st split: prod.split)
  then show ?thesis using ahoare_any assms by (metis fst_conv)
qed

subsection \<open>Every image started in a session\<close>

lemma after_boot_fw:
  "after_boot env sel r s = Again s1 \<Longrightarrow> mc_fw (ss_mc s1) = mc_fw (ss_mc s)"
  "after_boot env sel r s = Leave (s2, x) \<Longrightarrow> mc_fw (ss_mc s2) = mc_fw (ss_mc s)"
  by (auto simp: after_boot_def on_mc_def Let_def machine_simps split: outcome.splits boot_exit.splits if_splits)

fun round_state :: "('s, 'n, 'p) round \<Rightarrow> ('s, 'n, 'p) session" where
  "round_state (Again s) = s"
| "round_state (Leave (s, x)) = s"

lemma after_boot_state: "mc_fw (ss_mc (round_state (after_boot env sel r s))) = mc_fw (ss_mc s)"
  using after_boot_fw [of env sel r s] by (cases "after_boot env sel r s") auto

lemma session_round_st:
  assumes a: "boot_assms sec tpm (se_pl env) (po_loader_native_pe (se_policy env)) (se_sb env)"
    and i: "st sec tpm tr0 False False [] (mc_fw (ss_mc s))" and r: "session_round env s = Some t"
  shows "st sec tpm tr0 False False [] (mc_fw (ss_mc (round_state t)))"
proof -
  have "st sec tpm tr0 False False [] (mc_fw (ss_mc (round_state (boot_selection env sel u))))"
    if "mc_fw (ss_mc u) = mc_fw (ss_mc s)" for sel u
  proof -
    obtain s1 q where p: "prepare env sel u = (s1, q)" by fastforce
    then have "st sec tpm tr0 False False [] (mc_fw (ss_mc s1))" using prepare_st that i by metis
    then show ?thesis
      using p boot_entry_st [OF a, of tr0 "ss_mc s1" "se_ifw env" sel "se_quirks env"]
      by (cases q) (auto simp: boot_selection_def after_boot_state split: prod.split)
  qed
  then show ?thesis
    using r i by (auto simp: session_round_def Let_def split: option.splits prod.splits outcome.splits menu_exit.splits)
qed

lemma reached_st:
  assumes "reached env s0 x s" "boot_assms sec tpm (se_pl env) (po_loader_native_pe (se_policy env)) (se_sb env)"
    and "st sec tpm tr0 False False [] (mc_fw (ss_mc s0))"
  shows "st sec tpm tr0 False False [] (mc_fw (ss_mc s))"
  using assms(1)
proof (induction rule: reached.induct)
  case (again s s1)
  then show ?case using session_round_st [OF assms(2) again.IH again.hyps(2)] by simp
next
  case (leave s s1 x)
  then show ?case using session_round_st [OF assms(2) leave.IH leave.hyps(2)] by simp
qed (rule assms(3))

text \<open>C9: Under Secure Boot a whole session starts nothing unauthenticated.  Whatever the user does in the
  menus, whichever entries are chosen one after the other and whatever tools do before they return to the
  menu, every image started since the session began is one whose very bytes shim or the firmware accepted
  since then, and the firmware's authentication hooks are as they were, at every return to the menu and at
  the end.\<close>

theorem session_starts_are_authenticated:
  assumes "image_authentication (pl_fw (se_pl env))" "idle (fs_override (mc_fw (ss_mc s0)))"
    and "po_loader_native_pe (se_policy env) \<noteq> PeAlways" "se_sb env \<noteq> SbDisabled"
    and "reached env s0 x s"
  shows "idle (fs_override (mc_fw (ss_mc s))) \<and>
    (\<exists>ext. fs_trace (mc_fw (ss_mc s)) = fs_trace (mc_fw (ss_mc s0)) @ ext \<and>
      (\<forall>i < length ext. is_start (ext ! i) \<longrightarrow>
        (\<exists>b. image_of (fs_trace (mc_fw (ss_mc s0)) @ take i ext) (ext ! i) = Some b \<and> checked (take i ext) b)))"
proof -
  have "boot_assms True False (se_pl env) (po_loader_native_pe (se_policy env)) (se_sb env)"
    using assms by (simp add: boot_assms_def image_authentication.axioms(1))
  moreover have "st True False (fs_trace (mc_fw (ss_mc s0))) False False [] (mc_fw (ss_mc s0))"
    by (rule stI [where ext = "[]"]) (simp_all add: assms(2) starts_ok_def good_def)
  ultimately have "st True False (fs_trace (mc_fw (ss_mc s0))) False False [] (mc_fw (ss_mc s))"
    using reached_st [OF assms(5)] by blast
  then show ?thesis by (auto simp: st_def starts_ok_def good_def)
qed

subsection \<open>What a session says to the next boot\<close>














subsection \<open>Recovery without a user\<close>







subsection \<open>The volumes after a tool\<close>

abbreviation extras :: "'s machine \<Rightarrow> 's volume list" where "extras m \<equiv> tl (mc_volumes m)"

lemma extras_esp [simp]: "tl (xs[0 := v]) = tl xs"
  by (cases xs) auto

lemma extras_steps [machine_simps]:
  "extras (crumb pl msg m) = extras m" "extras (log_flush pl m) = extras m" "extras (quiet_flush pl q m) = extras m"
  "extras (crumb_flush pl m) = extras m" "extras (call c m) = extras m"
  "extras (fst (measure_pcr pl pcr data desc m)) = extras m" "extras (set_volume 0 v m) = extras m"
  by (simp_all add: crumb_def log_flush_def quiet_flush_def crumb_flush_def call_def measure_pcr_def Let_def set_volume_def
      split: prod.split)

lemma measure_selection_extras [machine_simps]: "extras (measure_selection pl sel m) = extras m"
  by (simp add: measure_selection_def measure_cmdline_def machine_simps split: EntryKind.split)

lemma prepare_extras:
  assumes "prepare env sel s = (s1, r)" "en_bls_filename sel = None"
  shows "extras (ss_mc s1) = extras (ss_mc s)"
proof -
  let ?I = "\<lambda>t. extras (ss_mc t) = extras (ss_mc s)"
  have "ahoare ?I (prepare env sel) (\<lambda>_. ?I) ?I"
    unfolding prepare_def
  proof (intro ahoare_abind [where R = "\<lambda>_. ?I"] ahoare_steps)
    show "ahoare ?I (write_report env sel) (\<lambda>_. ?I) ?I"
      by (rule ahoareI) (auto simp: write_report_def on_mc_def machine_simps split: prod.splits)
  qed (auto simp: log_selection_def record_selection_def count_boot_def announce_def on_mc_def Let_def machine_simps assms(2)
      split: prod.split)
  from ahoare_any [where s = s, OF this] assms(1) show ?thesis by simp
qed

lemma chainload_extras:
  assumes "chainload_efi pl path quirks m = (m', r)"
  shows "extras m' = extras m"
proof -
  let ?I = "\<lambda>t. extras t = extras m"
  have "extras (chainload_measure pl data path t) = extras t" for data t
    using extras_steps(6) [of pl PCR_BOOT_CODE data "''LamBoot: Kernel Image''" t]
    by (cases "measure_pcr pl PCR_BOOT_CODE data ''LamBoot: Kernel Image'' t")
      (auto simp: chainload_measure_def measure_kernel_def machine_simps split: bool.split)
  then have "ahoare ?I (chainload_efi pl path quirks) (\<lambda>_. ?I) ?I"
    unfolding chainload_efi_def
  proof (intro ahoare_abind [where R = "\<lambda>_. ?I"] ahoare_steps)
    show "ahoare ?I (on_volume 0 (read_str path)) (\<lambda>_. ?I) ?I"
      by (rule ahoareI) (auto simp: on_volume_def split: prod.splits)
    show "ahoare ?I (on_fw (load_efi_image_from_buffer (pl_fw pl) data)) (\<lambda>_. ?I) ?I" for data
      by (rule ahoareI) (auto simp: on_fw_def split: prod.splits)
    show "ahoare ?I (enter_firmware pl h) (\<lambda>_. ?I) ?I" for h
      by (rule ahoareI)
        (auto simp: enter_firmware_def Let_def machine_simps split: option.splits outcome.splits)
  qed (auto simp: machine_simps)
  from ahoare_any [where s = m, OF this] assms show ?thesis by simp
qed

lemma reclaim_extras: "rotate1 (extras (reclaim_volumes m)) = extras m"
  by (cases "mc_volumes m") (auto simp: reclaim_volumes_def)

text \<open>C33: coming back from a tool changes the order of the volumes behind the ESP.  They are those from before, with
  the last one moved to the front, and every other one a place further on; but the entries keep the number of
  their volume from the time they were found.  So with two or more extra volumes every entry on one of them is
  looked up on another volume from then on.\<close>

theorem tool_return_rotates_volumes:
  assumes "en_icon tool = IconTools" "en_kind tool = Chainload path" "en_bls_filename tool = None"
    and "boot_selection env tool s = Again s1"
  shows "tl (mc_volumes (ss_mc s)) = rotate1 (tl (mc_volumes (ss_mc s1))) \<and>
    (\<forall>k. 0 < k \<and> Suc k < length (mc_volumes (ss_mc s)) \<longrightarrow>
      mc_volumes (ss_mc s1) ! Suc k = mc_volumes (ss_mc s) ! k)"
proof -
  obtain t q where t: "prepare env tool s = (t, q)" by fastforce
  obtain m r where m: "boot_entry (se_pl env) (se_ifw env) tool (se_policy env) (se_quirks env) (se_sb env) (ss_mc t) = (m, r)"
    by fastforce
  have "extras m = extras (ss_mc t)"
    using m assms(2)
    by (auto simp: boot_entry_def boot_kind_def abind_def steps_def machine_simps dest: chainload_extras split: if_splits)
  moreover have "after_boot env tool r (t\<lparr>ss_mc := m\<rparr>) = Again s1"
    using assms(4) t m by (cases q) (auto simp: boot_selection_def)
  then have "\<exists>m'. ss_mc s1 = reclaim_volumes m' \<and> extras m' = extras m"
    using assms(1) by (auto simp: after_boot_def on_mc_def log_failure_def Let_def machine_simps
        split: outcome.splits boot_exit.splits)
  ultimately have e: "extras (ss_mc s) = rotate1 (extras (ss_mc s1))"
    using prepare_extras [OF t assms(3)] reclaim_extras by metis
  have "mc_volumes (ss_mc s1) ! Suc k = mc_volumes (ss_mc s) ! k" if k: "0 < k" "Suc k < length (mc_volumes (ss_mc s))" for k
  proof -
    have l: "length (extras (ss_mc s1)) = length (extras (ss_mc s))" using arg_cong [where f = length, OF e] by simp
    have "k < length (extras (ss_mc s))" using k by simp
    note l = this this [folded l]
    have "mc_volumes (ss_mc s) ! k = extras (ss_mc s) ! (k - 1)" using k by (simp add: nth_tl)
    also have "\<dots> = extras (ss_mc s1) ! k" using e l k by (simp add: nth_rotate1)
    also have "\<dots> = mc_volumes (ss_mc s1) ! Suc k" using l by (simp add: nth_tl)
    finally show ?thesis by simp
  qed
  then show ?thesis using e by blast
qed

subsection \<open>A session in memory\<close>

text \<open>A medium that takes every write and holds the same image at every path, a firmware that checks this image with
  shim and from which it returns, and one entry, in a crash loop with that entry as the fallback.\<close>

definition null_sfs :: "unit sfs" where
  "null_sfs =
     \<lparr>fw_cstr16 = (\<lambda>_. True), fw_open_protocol = Ok (), fw_open_volume = (\<lambda>_. Ok ()), fw_open = (\<lambda>_ _ _. Ok HRegular),
      fw_create = (\<lambda>k _ s. (s, Ok k)), fw_file_size = (\<lambda>_ _. Ok 0), fw_read_only = (\<lambda>_ _. Ok False),
      fw_read = (\<lambda>_ _ _ _. Ok []), fw_write = (\<lambda>_ _ _ s. (s, Ok ())), fw_delete = (\<lambda>_ s. (s, Ok ())),
      fw_read_entries = (\<lambda>_ _. Ok [])\<rparr>"

definition null_volume :: "string \<Rightarrow> unit volume" where
  "null_volume tag =
     \<lparr>vol_backend_tag = tag,
      vol_backend = \<lparr>bk_read = (\<lambda>_ _. Ok [77, 90]), bk_read_at = (\<lambda>_ _ _ _. Err NotFound), bk_exists = (\<lambda>_ _. Ok True),
        bk_read_dir = (\<lambda>_ _. Ok []), bk_metadata = (\<lambda>_ _. Err NotFound)\<rparr>,
      vol_store = (), vol_cache = cache_new, vol_has_handle = True, vol_shared = False\<rparr>"

definition tool_platform :: "unit platform" where
  "tool_platform =
     \<lparr>pl_sfs = null_sfs, pl_fw = sample_boot_fw True [[77, 90]] [], pl_pe = (\<lambda>s. sample_firmware), pl_arch = Arch_x86_64,
      pl_sha = (\<lambda>b. replicate 32 (of_nat (length b))), pl_cstr16 = (\<lambda>s. Some (encode_utf16 s @ [0])),
      pl_tcg_handle = (\<lambda>s. True), pl_tcg_open = (\<lambda>s. True), pl_pcr_event = (\<lambda>pcr d. True),
      pl_extend = (\<lambda>pcr d s. True), pl_open_loaded_image = (\<lambda>h s. Ok ()), pl_start = (\<lambda>h s. Some (Ok ())),
      pl_run = (\<lambda>e h. None), pl_install_protocol = (\<lambda>s. Ok ()), pl_debug = pe_as_log_token,
      pl_status = (\<lambda>st. ''SUCCESS'')\<rparr>"

definition demo_choice :: "Icon \<Rightarrow> BootEntry" where
  "demo_choice icon =
     \<lparr>en_id = ''e'', en_name = ''E'', en_kind = Chainload ''/a'', en_icon = icon, en_bls_filename = None,
      en_preflight = None, en_source_volume_index = 0, en_source_backend_tag = ''fat''\<rparr>"

definition demo_env :: "Icon \<Rightarrow> (unit, nv_name \<Rightarrow> bytes option, unit) session_env" where
  "demo_env icon =
     \<lparr>se_pl = tool_platform,
      se_ifw = \<lparr>io_block = mem_block_io 4 [], io_file_openers = no_openers, io_disc_openers = no_openers\<rparr>,
      se_rt = plain_rt, se_version = ''0'', se_target = ''x86_64'', se_input = (\<lambda>w h q. (q, NoInput)),
      se_has_graphics = (\<lambda>_. False), se_gop_new = (\<lambda>_. None), se_gop_run = (\<lambda>_. False), se_clock = (\<lambda>_. None),
      se_debug_kind = entry_type, se_entries = [demo_choice icon],
      se_policy = default_policy\<lparr>po_fallback_order := [''e''], po_crash_threshold := 2\<rparr>,
      se_quirks = quiet_quirks, se_sb = ActiveWithShim, se_notice = None,
      se_sys_info = \<lparr>si_manufacturer = None, si_product_name = None, si_version = None, si_serial_number = None, si_family = None\<rparr>,
      se_vmid = None, se_hypervisor = None, se_fleet_id = None, se_role = None, se_host_node = None,
      se_iommu = \<lparr>io_intel_vt_d = False, io_amd_vi = False, io_drhd_units = [], io_rmrr_regions = []\<rparr>,
      se_driver_count = 0, se_telemetry = telemetry_new None\<rparr>"

definition demo_machine :: "unit machine" where
  "demo_machine =
     \<lparr>mc_volumes = [null_volume FAT_TAG, null_volume ''ext4'', null_volume ''btrfs''], mc_log = tl_new,
      mc_diag = \<lparr>dg_enabled = False, dg_coalesce = False, dg_buf = None\<rparr>, mc_fw = fresh_fw\<rparr>"

definition demo_start :: "Icon \<Rightarrow> (unit, nv_name \<Rightarrow> bytes option, unit) session" where
  "demo_start icon =
     start_session (demo_env icon) demo_machine (demo_boot (demo_boot (demo_boot (\<lambda>_. None)))) () bootlog_new"

lemma null_path: "\<exists>c. to_uefi_path null_sfs p = Ok c"
  by (simp add: to_uefi_path_def null_sfs_def Let_def)

lemma null_fat:
  "fat_write null_sfs p d () = ((), Ok ())" "fat_append null_sfs p d () = ((), Ok ())"
  "fat_true_append null_sfs p d () = ((), Ok ())" "fat_ensure_dir null_sfs p () = ((), Ok ())"
proof -
  obtain c where c: "to_uefi_path null_sfs p = Ok c" using null_path by blast
  have w: "fat_write null_sfs p d () = ((), Ok ())" for d
    using c by (simp add: fat_write_def delete_existing_def open_create_def null_sfs_def io_def aio_def
        amap_err_def abind_def alift_def aret_def)
  then show "fat_write null_sfs p d () = ((), Ok ())" .
  have "read_through_sfs null_sfs p () = Ok []"
    using c by (simp add: read_through_sfs_def open_file_read_def checked_full_read_len_def checked_read_len_def
        null_sfs_def io_def)
  then show "fat_append null_sfs p d () = ((), Ok ())" by (simp add: fat_append_def w abind_def alift_def)
  show "fat_true_append null_sfs p d () = ((), Ok ())" "fat_ensure_dir null_sfs p () = ((), Ok ())"
    using c by (simp_all add: fat_true_append_def fat_ensure_dir_def open_create_def null_sfs_def io_def aio_def
        amap_err_def abind_def alift_def aret_def)
qed

lemma null_writes:
  "esp_write null_sfs p d (null_volume FAT_TAG) = (null_volume FAT_TAG, Ok ())"
  "esp_append null_sfs p d (null_volume FAT_TAG) = (null_volume FAT_TAG, Ok ())"
  "esp_true_append null_sfs p d (null_volume FAT_TAG) = (null_volume FAT_TAG, Ok ())"
  "esp_ensure_dir null_sfs p (null_volume FAT_TAG) = (null_volume FAT_TAG, Ok ())"
  "esp_writer_new (null_volume FAT_TAG)"
proof -
  have "fat_sfs_mut null_sfs (null_volume FAT_TAG)" by (simp add: fat_sfs_mut_def null_sfs_def null_volume_def)
  moreover have "invalidate_path p ((null_volume FAT_TAG)\<lparr>vol_store := ()\<rparr>) = null_volume FAT_TAG"
    by (simp add: invalidate_path_def cache_invalidate_path_def cache_new_def null_volume_def)
  ultimately show
    "esp_write null_sfs p d (null_volume FAT_TAG) = (null_volume FAT_TAG, Ok ())"
    "esp_append null_sfs p d (null_volume FAT_TAG) = (null_volume FAT_TAG, Ok ())"
    "esp_true_append null_sfs p d (null_volume FAT_TAG) = (null_volume FAT_TAG, Ok ())"
    "esp_ensure_dir null_sfs p (null_volume FAT_TAG) = (null_volume FAT_TAG, Ok ())"
    by (simp_all add: esp_write_def esp_append_def esp_true_append_def esp_ensure_dir_def with_sfs_def null_fat)
  show "esp_writer_new (null_volume FAT_TAG)" by (simp add: esp_writer_new_def null_volume_def)
qed

lemma null_report:
  "write_boot_report null_sfs rt version target e ctx (null_volume FAT_TAG) = (null_volume FAT_TAG, Ok ())"
  by (simp add: write_boot_report_def append_audit_log_def report_path_def REPORTS_DIR_def BOOT_REPORT_def AUDIT_LOG_def
      path_from_str_def path_render_def writer_for_def null_writes atry_def amap_err_def abind_def alift_def)

lemma null_read: "\<exists>v. read_str ''/a'' (null_volume FAT_TAG) = (v, Ok [77, 90])"
  by (simp add: read_str_def path_of_def normalize_path_string_def replace_char_def path_from_str_def path_render_def volume_read_def cache_get_def cache_new_def
      null_volume_def)

text \<open>The records leave the machine as it is but for the trust log.\<close>

lemma demo_prepare:
  assumes "ss_mc s = demo_machine\<lparr>mc_log := l\<rparr>"
  shows "\<exists>s1 l'. prepare (demo_env icon) (demo_choice icon) s = (s1, Ok ()) \<and> ss_mc s1 = demo_machine\<lparr>mc_log := l'\<rparr>"
proof -
  let ?env = "demo_env icon" and ?e = "demo_choice icon"
  have esp: "esp_of (demo_machine\<lparr>mc_log := k\<rparr>) = null_volume FAT_TAG" for k by (simp add: esp_of_def demo_machine_def)
  have put: "set_volume 0 (null_volume FAT_TAG) (demo_machine\<lparr>mc_log := k\<rparr>) = demo_machine\<lparr>mc_log := k\<rparr>" for k
    by (simp add: set_volume_def demo_machine_def)
  have crumbs: "crumb pl msg (demo_machine\<lparr>mc_log := k\<rparr>) = demo_machine\<lparr>mc_log := k\<rparr>" for pl msg k
    by (rule crumb_off) (simp_all add: demo_machine_def)
  have flush: "bootlog_flush null_sfs b (null_volume FAT_TAG) = null_volume FAT_TAG" for b
    by (simp add: bootlog_flush_def null_writes split: outcome.split)
  let ?s = "record_selection ?env ?e (log_selection ?env ?e s)"
  have 1: "ss_mc ?s = demo_machine\<lparr>mc_log := l\<rparr>"
    using assms by (simp add: record_selection_def log_selection_def bootlog_info_def bootlog_log_def on_mc_def demo_env_def
        tool_platform_def esp put flush Let_def)
  then have 2: "write_report ?env ?e ?s = (?s, Ok ())"
    by (simp add: write_report_def on_mc_def demo_env_def tool_platform_def esp put null_report)
  have 3: "count_boot ?env ?e ?s = ?s" by (simp add: count_boot_def demo_choice_def)
  have 4: "\<exists>l'. announce ?env ?e (demo_machine\<lparr>mc_log := l\<rparr>) = demo_machine\<lparr>mc_log := l'\<rparr>"
    by (simp add: announce_def measure_selection_def demo_choice_def demo_env_def crumbs rec_def quiet_flush_def
        quiet_quirks_def Let_def) blast
  show ?thesis using 1 2 3 4 by (auto simp: prepare_def abind_def steps_def on_mc_def)
qed

lemma demo_boots:
  "\<exists>m. boot_entry tool_platform ifw (demo_choice icon) policy quiet_quirks ActiveWithShim (demo_machine\<lparr>mc_log := l\<rparr>) = (m, Ok 0) \<and>
   fs_trace (mc_fw m) = [Extend 4 [77, 90] True, ShimVerify [77, 90] True, FirmwareLoad [77, 90] 2, FirmwareStart 2]"
proof -
  obtain v where v: "read_str ''/a'' (null_volume FAT_TAG) = (v, Ok [77, 90])" using null_read by blast
  show ?thesis
    by (simp add: boot_entry_def chainload_efi_def chainload_measure_def enter_firmware_def v sample_run demo_machine_def
        demo_choice_def tool_platform_def)
qed

lemma demo_start_machine: "ss_mc (demo_start icon) = demo_machine"
proof -
  have "snd (append_to_esp null_sfs line b (null_volume FAT_TAG)) = null_volume FAT_TAG" for line b
    by (simp add: append_to_esp_def null_writes split: outcome.split)
  then show ?thesis
    by (auto simp: demo_start_def start_session_def demo_env_def tool_platform_def bootlog_info_def bootlog_log_def
        set_volume_def demo_machine_def esp_of_def Let_def split: prod.split) (metis snd_conv)+
qed

lemma demo_start_crash: "ss_in_crash_loop (demo_start icon)"
  using crash_loop_after_threshold [OF plainnv.writable_variables_axioms demo_failing, of 2]
  by (simp add: demo_start_def start_session_def demo_env_def Let_def split: prod.split)

lemma demo_round:
  "\<exists>t. session_round (demo_env icon) (demo_start icon) = Some (after_boot (demo_env icon) (demo_choice icon) (Ok 0) t) \<and>
     boot_selection (demo_env icon) (demo_choice icon) (demo_start icon) = after_boot (demo_env icon) (demo_choice icon) (Ok 0) t \<and>
     fs_trace (mc_fw (ss_mc t)) = [Extend 4 [77, 90] True, ShimVerify [77, 90] True, FirmwareLoad [77, 90] 2, FirmwareStart 2]"
proof -
  have d: "demo_machine = demo_machine\<lparr>mc_log := mc_log demo_machine\<rparr>" by simp
  obtain s1 l where p: "prepare (demo_env icon) (demo_choice icon) (demo_start icon) = (s1, Ok ())"
    "ss_mc s1 = demo_machine\<lparr>mc_log := l\<rparr>"
    using demo_prepare [of "demo_start icon"] demo_start_machine d by metis
  obtain m where m: "boot_entry (se_pl (demo_env icon)) (se_ifw (demo_env icon)) (demo_choice icon) (se_policy (demo_env icon))
      (se_quirks (demo_env icon)) (se_sb (demo_env icon)) (ss_mc s1) = (m, Ok 0)"
    "fs_trace (mc_fw m) = [Extend 4 [77, 90] True, ShimVerify [77, 90] True, FirmwareLoad [77, 90] 2, FirmwareStart 2]"
    using demo_boots p(2) by (fastforce simp: demo_env_def)
  have b: "boot_selection (demo_env icon) (demo_choice icon) (demo_start icon) =
      after_boot (demo_env icon) (demo_choice icon) (Ok 0) (s1\<lparr>ss_mc := m\<rparr>)"
    using p m by (simp add: boot_selection_def)
  have "session_select (demo_env icon) True () = Some ((), Ok (Picked (demo_choice icon)))"
    by (simp add: session_select_def session_menu_def select_fallback_def find_map_def map_filter_simps demo_env_def demo_choice_def)
  then have "session_round (demo_env icon) (demo_start icon) = Some (boot_selection (demo_env icon) (demo_choice icon) (demo_start icon))"
    using demo_start_crash [of icon] by (cases "demo_start icon") (simp add: session_round_def Let_def)
  then show ?thesis using b m(2) by (intro exI [of _ "s1\<lparr>ss_mc := m\<rparr>"]) simp
qed

lemma demo_tool: "\<exists>s. session_round (demo_env IconTools) (demo_start IconTools) = Some (Again s) \<and>
   boot_selection (demo_env IconTools) (demo_choice IconTools) (demo_start IconTools) = Again s \<and>
   fs_trace (mc_fw (ss_mc s)) = [Extend 4 [77, 90] True, ShimVerify [77, 90] True, FirmwareLoad [77, 90] 2, FirmwareStart 2]"
  using demo_round [of IconTools] by (auto simp: after_boot_def on_mc_def demo_choice_def Let_def machine_simps)


text \<open>The tool of the session in memory: shim has accepted it before it is started.\<close>

theorem session_starts_are_authenticated_witness:
  "\<exists>s. reached (demo_env IconTools) (demo_start IconTools) None s \<and> fs_trace (mc_fw (ss_mc s)) ! 3 = FirmwareStart 2 \<and>
     (\<exists>b. image_of (take 3 (fs_trace (mc_fw (ss_mc s)))) (FirmwareStart 2) = Some b \<and>
        checked (take 3 (fs_trace (mc_fw (ss_mc s)))) b)"
proof -
  obtain s where s: "session_round (demo_env IconTools) (demo_start IconTools) = Some (Again s)"
    "fs_trace (mc_fw (ss_mc s)) = [Extend 4 [77, 90] True, ShimVerify [77, 90] True, FirmwareLoad [77, 90] 2, FirmwareStart 2]"
    using demo_tool by blast
  have r: "reached (demo_env IconTools) (demo_start IconTools) None s" using s(1) by (blast intro: reached.intros)
  have a: "image_authentication (pl_fw (se_pl (demo_env IconTools)))"
    by (simp add: demo_env_def tool_platform_def samplefw.image_authentication_axioms)
  have i: "idle (fs_override (mc_fw (ss_mc (demo_start IconTools))))"
    by (simp add: demo_start_machine demo_machine_def fresh_fw_def idle_override_def idle_def hooks_of_def)
  have "\<exists>b. image_of (take 3 (fs_trace (mc_fw (ss_mc s)))) (FirmwareStart 2) = Some b \<and>
      checked (take 3 (fs_trace (mc_fw (ss_mc s)))) b"
    using session_starts_are_authenticated [OF a i _ _ r]
    by (auto simp: s(2) demo_start_machine demo_machine_def fresh_fw_def demo_env_def default_policy_def)
  then show ?thesis using r s(2) by (intro exI [of _ s]) simp
qed



text \<open>The volumes with \<open>ext4\<close> and \<open>btrfs\<close> have changed places.\<close>

theorem tool_return_rotates_volumes_witness:
  "\<exists>s. boot_selection (demo_env IconTools) (demo_choice IconTools) (demo_start IconTools) = Again s \<and>
     map vol_backend_tag (tl (mc_volumes (ss_mc (demo_start IconTools)))) = [''ext4'', ''btrfs''] \<and>
     map vol_backend_tag (tl (mc_volumes (ss_mc s))) = [''btrfs'', ''ext4'']"
proof -
  obtain s where s: "boot_selection (demo_env IconTools) (demo_choice IconTools) (demo_start IconTools) = Again s"
    using demo_tool by blast
  have "tl (mc_volumes (ss_mc (demo_start IconTools))) = rotate1 (tl (mc_volumes (ss_mc s)))"
    using tool_return_rotates_volumes [OF _ _ _ s] by (auto simp: demo_choice_def)
  then have "[null_volume ''ext4'', null_volume ''btrfs''] = rotate1 (tl (mc_volumes (ss_mc s)))"
    by (simp add: demo_start_machine demo_machine_def)
  then have "tl (mc_volumes (ss_mc s)) = [null_volume ''btrfs'', null_volume ''ext4'']"
    by (cases "tl (mc_volumes (ss_mc s))" rule: list.exhaust) (auto simp: append_eq_Cons_conv Cons_eq_append_conv)
  then show ?thesis using s by (simp add: demo_start_machine demo_machine_def null_volume_def)
qed

end
