(* ===== verification/Spec2Isabelle.thy ===== *)
theory Spec2Isabelle
  imports Discovery Session Boot_Entry Autodiscovery
begin

section \<open>LamBoot: a verification of the boot loader core\<close>

text \<open>
  LamBoot is a boot loader for UEFI machines, written in Rust.  It finds the systems on the disks, shows a menu,
  checks and measures the chosen image and starts it.  This development models its core, the crate under
  \<open>src/lamboot-core\<close>; file names below are relative to its directory \<open>src\<close>.

  \<^bold>\<open>How the parts interact.\<close>  \<open>main.rs\<close> mounts the EFI system partition (ESP) and the other volumes (\<open>fs.rs\<close> over
  one of the backends), reads the policy, counts the boot in firmware variables (\<open>health.rs\<close>), collects the entries
  (\<open>discovery.rs\<close>, \<open>bls.rs\<close>, \<open>uki.rs\<close>), runs the preflight checks and enters a loop: menu (\<open>gui.rs\<close> or
  \<open>console.rs\<close> over \<open>input.rs\<close>), records, boot (\<open>boot.rs\<close>), and back to the menu when a tool returns.  A boot
  reads the image, measures it (\<open>tpm.rs\<close>), checks it (\<open>secure.rs\<close>) and loads it, either itself (\<open>pe_loader.rs\<close>) or through
  the firmware with shim in place of the firmware's check (\<open>security_override.rs\<close>).  Everything is recorded in
  the trust log and other files of the ESP (\<open>trust_log.rs\<close>, \<open>report.rs\<close>, \<open>diag.rs\<close>, \<open>bootlog.rs\<close>) through \<open>fs_writer.rs\<close>.

  \<^bold>\<open>How code becomes definitions.\<close>  A function that can fail returns an \<open>outcome\<close>: a value, an error or a panic, so
  that indexing and slicing out of range are visible results.  A function that changes something is a state
  transformer \<open>act\<close>, composed with \<open>abind\<close> (the \<open>?\<close> operator) and \<open>steps\<close> (statements in a row); theory
  \<open>Rust_State\<close> has the Hoare triples for it.  Fixed-width integers are words where the width matters, else numbers
  with their wrap-around or saturation written out.  The firmware, third-party crates and compiled-in files are
  records of functions that the definitions take as arguments; what a theorem needs of them is a locale or a
  named hypothesis, and every such locale is interpreted on a firmware, file system or device in memory.

  \<^bold>\<open>Theories and sources.\<close>

  \<^item> Language and library: \<open>Prelude\<close> (outcomes and shared lemmas), \<open>Rust_State\<close>, \<open>Rust_Str\<close> (string functions of the
    standard library), \<open>Rust_Ordering\<close> (\<open>Ordering\<close> and stable sorting), \<open>Utf16\<close>.
  \<^item> Images: \<open>Pe_Loader_Pure\<close> (\<open>pe_loader_pure.rs\<close>: headers, conformance, relocation) and \<open>Pe_Loader\<close>
    (\<open>pe_loader.rs\<close>: pages, sections, hand-off).  The pure half never panics and refines a reference fold; a
    load stays inside the input and the pages it allocated, and frees them on every error path.
  \<^item> Trust: \<open>Secure\<close> (\<open>secure.rs\<close>, \<open>sb_classify_pure.rs\<close>, \<open>boot_route_pure.rs\<close>, \<open>security_override.rs\<close>), \<open>Machine\<close>
    (\<open>tpm.rs\<close>, \<open>initrd.rs\<close> and the state of the boot path), \<open>Boot\<close> and \<open>Iso_Boot\<close> (\<open>boot.rs\<close>).  The theorems are
    about the trace of firmware calls: what was checked and measured before an image is started, for every kind
    of entry and whatever the firmware answers; the override of the firmware's check is undone on every path.
  \<^item> Storage: \<open>Fs_Types\<close> (\<open>fs_types.rs\<close>, \<open>fs_backend.rs\<close>, \<open>read_limit_pure.rs\<close>), \<open>Volume\<close> (\<open>fs.rs\<close>: cached reads),
    \<open>Fat_Volume\<close> (\<open>fs_backend_fat.rs\<close>, \<open>fs_writer.rs\<close>), \<open>Block_Source\<close> (\<open>block_source.rs\<close>), \<open>Media\<close>
    (\<open>fs_backend_lvm_dispatch.rs\<close>, \<open>fs_backend_lamfold.rs\<close>), \<open>Partitions\<close> (\<open>partitions.rs\<close>,
    \<open>partition_classify_pure.rs\<close>), \<open>Iso\<close> (\<open>loopback_cfg.rs\<close>, \<open>distro_iso.rs\<close>).  Cached reads are never stale as long
    as a file is spelled in one way; a rename never loses contents; a range of bytes is read exactly from blocks of
    any size; a file system is recognised by contents alone.
  \<^item> Entries: \<open>Boot_Types\<close> (\<open>boot_types.rs\<close>), \<open>Bls_Parse\<close> (\<open>bls_parse.rs\<close>), \<open>Bls\<close> (\<open>bls.rs\<close>), \<open>Autodiscovery\<close>
    (\<open>autodiscovery.rs\<close>), \<open>Uki\<close> (\<open>uki.rs\<close>), \<open>Discovery\<close> (\<open>discovery.rs\<close>, \<open>discovery_pure.rs\<close>), \<open>Preflight\<close>
    (\<open>preflight.rs\<close>), \<open>Boot_Entry\<close> (\<open>boot_entry.rs\<close>, \<open>boot_entry_pure.rs\<close>).  Versions are totally preordered and
    entries sorted by them; the boot counter runs out after exactly its tries; what a scan returns was admitted; the
    removal of duplicates and the self-installation do what they say.
  \<^item> State and policy: \<open>Nvram\<close> (the variable services), \<open>Health\<close> (\<open>health.rs\<close>), \<open>Policy\<close> (\<open>policy.rs\<close>), \<open>Trust_Log\<close>
    (\<open>trust_log.rs\<close>, \<open>trust_log_pure.rs\<close>), \<open>Report\<close> (\<open>report.rs\<close>, \<open>diag.rs\<close>, \<open>firmware_quirks.rs\<close>), \<open>Bootlog\<close>
    (\<open>bootlog.rs\<close>, \<open>telemetry.rs\<close>).  The policy stays within its floor, the log reads back and is complete.
  \<^item> Menus: \<open>Input\<close> (\<open>input.rs\<close>), \<open>Menu\<close> (\<open>console.rs\<close>), \<open>Framebuffer\<close> and \<open>Gui\<close> (\<open>gui.rs\<close>).  Painting stays in
    the buffer, the screen shows the present state whenever the menu waits, the mouse selects the tile drawn
    under it, and without input the menus end with the default entry after the number of frames the timeout needs.
  \<^item> The whole: \<open>Session\<close> (\<open>main.rs\<close> from the crash-loop check on).  The authentication theorem holds over any number
    of rounds, a session settles the crash counter only by success, and in a crash loop the loader needs no user.

  Several theorems state what the code does against its documentation: an image started unchecked under the
  policy value \<open>Always\<close>, a policy that decides nothing about unified kernel images, systems in the directory
  style that collapse to one entry, a panic of the preflight check, a trust log silenced by booting an image on
  the ESP, volumes that change places when a tool returns.

  \<^bold>\<open>Loops and bounds.\<close>  Every loop over data is a recursive function with a termination proof.  The loops that may
  run forever, of the menus and of the session, are \<open>partial_function (option)\<close>: \<open>None\<close> is a run that never ends, and
  the theorems on the menus and on crash recovery state that the result is \<open>Some\<close>.  There is no fuel.  The theorem on the
  mouse asks for a screen at least 640 pixels wide, of at most 65536 pixels in each direction, and for at most a
  million tools, so that the columns fit and the 32-bit coordinates do not wrap.

  \<^bold>\<open>Not modelled.\<close>  The phases of \<open>main.rs\<close> before the crash-loop check; \<open>smbios.rs\<close>, \<open>acpi.rs\<close>, \<open>hypervisor.rs\<close>,
  \<open>fw_cfg.rs\<close> and \<open>fw_cfg_config.rs\<close>, which read hardware and firmware tables and only inform; \<open>drivers.rs\<close>, whose
  effects are those of loaded drivers; the adapters of the file-system crates, since a volume takes its backend
  as a parameter; \<open>version.rs\<close>; console output; the breadcrumbs \<open>PE1\<close> to \<open>PE15\<close> of \<open>pe_loader.rs\<close>.  White space
  and letter case are those of ASCII.  The modules, the host tools and the test harness are separate programs.
\<close>

end
